(* ===== verification/Prelude.thy ===== *)
theory Prelude
  imports Complex_Main "HOL-Library.Word" "HOL-Library.Char_ord"
    "HOL-Library.List_Lexorder" "HOL-Library.Multiset"
begin

text \<open>
  Shared ground of the development: Rust text, numbers in text, JSON values, and generic lemmas
  on lists, options and maps.

  Text.  A Rust \<open>str\<close> is an Isabelle \<open>string\<close>, one \<open>char\<close> per Unicode scalar value.  An Isabelle
  \<open>char\<close> ranges over U+0000 to U+00FF, so the model speaks about texts in that range; every
  function below agrees with the Rust standard library there (white space includes U+0085 and
  U+00A0, lower case includes the Latin-1 letters).  Where the code works on UTF-8 bytes it goes
  through \<open>as_bytes\<close>, which encodes U+0080 and above as two bytes.  Two symbols of the sources'
  literals lie above that range, the em dash and the ellipsis; they are stood for by control
  characters that no other literal uses and that no function below treats specially.
\<close>

named_theorems text_simps "evaluation of the text functions"
named_theorems window_simps "numbered windows of lines and flows"

section \<open>Text\<close>

type_synonym str = string

abbreviation code_of :: "char \<Rightarrow> nat" where
  "code_of c \<equiv> of_char c"

definition is_whitespace :: "char \<Rightarrow> bool" where
  "is_whitespace c = (let n = code_of c in (9 \<le> n \<and> n \<le> 13) \<or> n = 32 \<or> n = 133 \<or> n = 160)"

definition is_ascii_digit :: "char \<Rightarrow> bool" where
  "is_ascii_digit c = (48 \<le> code_of c \<and> code_of c \<le> 57)"

definition is_ascii_uppercase :: "char \<Rightarrow> bool" where
  "is_ascii_uppercase c = (65 \<le> code_of c \<and> code_of c \<le> 90)"

definition is_ascii_lowercase :: "char \<Rightarrow> bool" where
  "is_ascii_lowercase c = (97 \<le> code_of c \<and> code_of c \<le> 122)"

definition is_ascii_alphabetic :: "char \<Rightarrow> bool" where
  "is_ascii_alphabetic c = (is_ascii_uppercase c \<or> is_ascii_lowercase c)"

definition is_ascii_alphanumeric :: "char \<Rightarrow> bool" where
  "is_ascii_alphanumeric c = (is_ascii_alphabetic c \<or> is_ascii_digit c)"

text \<open>\<open>char::is_alphanumeric\<close> up to U+00FF: the letters, the ordinal indicators, the micro sign, the
  superscript digits and the vulgar fractions.\<close>

definition is_alphanumeric :: "char \<Rightarrow> bool" where
  "is_alphanumeric c = (let n = code_of c in
     is_ascii_alphanumeric c \<or> n \<in> {170, 178, 179, 181, 185, 186, 188, 189, 190} \<or>
     (192 \<le> n \<and> n \<noteq> 215 \<and> n \<noteq> 247))"

definition to_ascii_lower :: "char \<Rightarrow> char" where
  "to_ascii_lower c = (if is_ascii_uppercase c then char_of (code_of c + 32) else c)"

definition to_ascii_upper :: "char \<Rightarrow> char" where
  "to_ascii_upper c = (if is_ascii_lowercase c then char_of (code_of c - 32) else c)"

definition to_lower :: "char \<Rightarrow> char" where
  "to_lower c = (let n = code_of c in
     if is_ascii_uppercase c \<or> (192 \<le> n \<and> n \<le> 222 \<and> n \<noteq> 215) then char_of (n + 32) else c)"

abbreviation to_ascii_lowercase :: "str \<Rightarrow> str" where
  "to_ascii_lowercase \<equiv> map to_ascii_lower"

abbreviation to_ascii_uppercase :: "str \<Rightarrow> str" where
  "to_ascii_uppercase \<equiv> map to_ascii_upper"

abbreviation to_lowercase :: "str \<Rightarrow> str" where
  "to_lowercase \<equiv> map to_lower"

definition eq_ignore_ascii_case :: "str \<Rightarrow> str \<Rightarrow> bool" where
  "eq_ignore_ascii_case a b = (to_ascii_lowercase a = to_ascii_lowercase b)"

definition trim_start :: "str \<Rightarrow> str" where
  "trim_start = dropWhile is_whitespace"

definition trim_end_matches :: "(char \<Rightarrow> bool) \<Rightarrow> str \<Rightarrow> str" where
  "trim_end_matches p s = rev (dropWhile p (rev s))"

definition trim_end :: "str \<Rightarrow> str" where
  "trim_end = trim_end_matches is_whitespace"

definition trim :: "str \<Rightarrow> str" where
  "trim s = trim_end (trim_start s)"

fun strip_prefix :: "'a list \<Rightarrow> 'a list \<Rightarrow> 'a list option" where
  "strip_prefix [] s = Some s"
| "strip_prefix (p # ps) (c # s) = (if p = c then strip_prefix ps s else None)"
| "strip_prefix (p # ps) [] = None"

definition starts_with :: "'a list \<Rightarrow> 'a list \<Rightarrow> bool" where
  "starts_with p s = (strip_prefix p s \<noteq> None)"

definition ends_with :: "'a list \<Rightarrow> 'a list \<Rightarrow> bool" where
  "ends_with p s = starts_with (rev p) (rev s)"

text \<open>\<open>str::find\<close> of a substring, answering the text from the match on.\<close>

fun find_from :: "'a list \<Rightarrow> 'a list \<Rightarrow> 'a list option" where
  "find_from p [] = (if p = [] then Some [] else None)"
| "find_from p (c # s) = (if starts_with p (c # s) then Some (c # s) else find_from p s)"

abbreviation contains :: "'a list \<Rightarrow> 'a list \<Rightarrow> bool" where
  "contains p s \<equiv> find_from p s \<noteq> None"

text \<open>\<open>str::split\<close> by a character predicate: always at least one part.\<close>

fun split_on :: "('a \<Rightarrow> bool) \<Rightarrow> 'a list \<Rightarrow> 'a list list" where
  "split_on p [] = [[]]"
| "split_on p (c # s) =
     (if p c then [] # split_on p s
      else (case split_on p s of [] \<Rightarrow> [[c]] | w # ws \<Rightarrow> (c # w) # ws))"

definition split_whitespace :: "str \<Rightarrow> str list" where
  "split_whitespace s = filter (\<lambda>w. w \<noteq> []) (split_on is_whitespace s)"

text \<open>\<open>str::split_once\<close> on a character.\<close>

fun split_once :: "'a \<Rightarrow> 'a list \<Rightarrow> ('a list \<times> 'a list) option" where
  "split_once d [] = None"
| "split_once d (c # s) =
     (if c = d then Some ([], s) else map_option (\<lambda>(a, b). (c # a, b)) (split_once d s))"

definition rsplit_once :: "'a \<Rightarrow> 'a list \<Rightarrow> ('a list \<times> 'a list) option" where
  "rsplit_once d s = map_option (\<lambda>(a, b). (rev b, rev a)) (split_once d (rev s))"

text \<open>\<open>str::split_once\<close> on a text.\<close>

definition split_at_str :: "'a list \<Rightarrow> 'a list \<Rightarrow> ('a list \<times> 'a list) option" where
  "split_at_str p s =
     map_option (\<lambda>rest. (take (length s - length rest) s, drop (length p) rest)) (find_from p s)"

definition trim_start_matches :: "(char \<Rightarrow> bool) \<Rightarrow> str \<Rightarrow> str" where
  "trim_start_matches = dropWhile"

definition trim_matches :: "(char \<Rightarrow> bool) \<Rightarrow> str \<Rightarrow> str" where
  "trim_matches p s = trim_end_matches p (trim_start_matches p s)"

definition em_dash :: str where "em_dash = [CHR 0x97]"
definition ellipsis :: str where "ellipsis = [CHR 0x86]"

text \<open>\<open>str::replace\<close> of one character by a text.\<close>

definition replace_char :: "'a \<Rightarrow> 'a list \<Rightarrow> 'a list \<Rightarrow> 'a list" where
  "replace_char d r s = concat (map (\<lambda>c. if c = d then r else [c]) s)"

fun join :: "'a list \<Rightarrow> 'a list list \<Rightarrow> 'a list" where
  "join sep [] = []"
| "join sep [w] = w"
| "join sep (w # v # ws) = w @ sep @ join sep (v # ws)"

text \<open>UTF-8 bytes (as characters) of a text.\<close>

definition utf8 :: "char \<Rightarrow> char list" where
  "utf8 c = (let n = code_of c in
     if n < 128 then [c] else [char_of (192 + n div 64), char_of (128 + n mod 64)])"

definition as_bytes :: "str \<Rightarrow> char list" where
  "as_bytes s = concat (map utf8 s)"

abbreviation byte_len :: "str \<Rightarrow> nat" where
  "byte_len s \<equiv> length (as_bytes s)"

section \<open>Numbers in text\<close>

definition digit_of :: "nat \<Rightarrow> char" where
  "digit_of d = char_of (48 + d)"

fun show_nat :: "nat \<Rightarrow> str" where
  "show_nat n = (if n < 10 then [digit_of n] else show_nat (n div 10) @ [digit_of (n mod 10)])"

declare show_nat.simps [simp del]

definition digits_value :: "str \<Rightarrow> nat" where
  "digits_value s = foldl (\<lambda>acc c. 10 * acc + (code_of c - 48)) 0 s"

text \<open>\<open>str::parse\<close> into an unsigned integer of \<open>w\<close> bits: an optional plus sign, at least one digit,
  nothing else, and no overflow.\<close>

definition parse_uint :: "nat \<Rightarrow> str \<Rightarrow> nat option" where
  "parse_uint w s =
     (let t = (case s of c # r \<Rightarrow> if c = CHR ''+'' then r else s | [] \<Rightarrow> s) in
      if t \<noteq> [] \<and> list_all is_ascii_digit t \<and> digits_value t < 2 ^ w
      then Some (digits_value t) else None)"

section \<open>JSON values\<close>

text \<open>\<open>serde_json::Value\<close>.  Numbers are rationals; an object is its entries, each key once.\<close>

datatype json =
    JNull
  | JBool bool
  | JNum rat
  | JStr str
  | JArr "json list"
  | JObj "(str \<times> json) list"

fun as_str :: "json \<Rightarrow> str option" where
  "as_str (JStr s) = Some s"
| "as_str _ = None"

fun as_bool :: "json \<Rightarrow> bool option" where
  "as_bool (JBool b) = Some b"
| "as_bool _ = None"

fun as_array :: "json \<Rightarrow> json list option" where
  "as_array (JArr xs) = Some xs"
| "as_array _ = None"

text \<open>\<open>Value::get\<close> with a key: \<open>None\<close> unless the value is an object with that key.\<close>

fun jget :: "json \<Rightarrow> str \<Rightarrow> json option" where
  "jget (JObj kvs) k = map_of kvs k"
| "jget _ k = None"

text \<open>\<open>value["key"]\<close>: \<open>Null\<close> when there is none.\<close>

definition jindex :: "json \<Rightarrow> str \<Rightarrow> json" where
  "jindex v k = (case jget v k of Some x \<Rightarrow> x | None \<Rightarrow> JNull)"

section \<open>Evaluation and laws of the text functions\<close>

lemma char_of_eq_code [text_simps]: "char_of (n :: nat) = c \<longleftrightarrow> n mod 256 = code_of c"
  by (auto simp: char_of_eq_iff take_bit_eq_mod)

lemma eq_char_of_code [text_simps]: "c = char_of (n :: nat) \<longleftrightarrow> n mod 256 = code_of c"
  by (metis char_of_eq_code)

lemma code_of_less: "code_of c < 256"
  by simp

lemmas char_class_defs [text_simps] =
  is_whitespace_def is_ascii_digit_def is_ascii_uppercase_def is_ascii_lowercase_def
  is_ascii_alphabetic_def is_ascii_alphanumeric_def is_alphanumeric_def
  to_ascii_lower_def to_ascii_upper_def to_lower_def

lemmas text_defs [text_simps] =
  trim_start_def trim_end_matches_def trim_end_def trim_def starts_with_def ends_with_def
  split_whitespace_def rsplit_once_def split_at_str_def trim_start_matches_def
  trim_matches_def em_dash_def ellipsis_def replace_char_def utf8_def as_bytes_def
  digit_of_def digits_value_def parse_uint_def eq_ignore_ascii_case_def

section \<open>Options\<close>

text \<open>\<open>option::or_else\<close> and \<open>unwrap_or\<close>.\<close>

fun or_else :: "'a option \<Rightarrow> 'a option \<Rightarrow> 'a option" where
  "or_else (Some x) y = Some x"
| "or_else None y = y"

definition unwrap_or :: "'a option \<Rightarrow> 'a \<Rightarrow> 'a" where
  "unwrap_or x d = (case x of Some y \<Rightarrow> y | None \<Rightarrow> d)"

section \<open>Results\<close>

text \<open>A \<open>Result<T, E>\<close> is a sum, the error on the left; \<open>?\<close> is \<open>and_then\<close>, \<open>collect\<close> into a
  \<open>Result<Vec<_>, _>\<close> stops at the first error.\<close>

fun and_then :: "'e + 'a \<Rightarrow> ('a \<Rightarrow> 'e + 'b) \<Rightarrow> 'e + 'b" where
  "and_then (Inl e) f = Inl e"
| "and_then (Inr x) f = f x"

fun collect_results :: "('e + 'a) list \<Rightarrow> 'e + 'a list" where
  "collect_results [] = Inr []"
| "collect_results (Inl e # rs) = Inl e"
| "collect_results (Inr x # rs) = and_then (collect_results rs) (\<lambda>xs. Inr (x # xs))"

definition ok_or :: "'a option \<Rightarrow> 'e \<Rightarrow> 'e + 'a" where
  "ok_or x e = (case x of Some y \<Rightarrow> Inr y | None \<Rightarrow> Inl e)"

lemma and_then_eq_Inr: "and_then r f = Inr y \<longleftrightarrow> (\<exists>x. r = Inr x \<and> f x = Inr y)"
  by (cases r) auto

lemma collect_results_Inr:
  "collect_results rs = Inr xs \<longleftrightarrow> rs = map Inr xs"
  by (induction rs arbitrary: xs rule: collect_results.induct)
    (auto simp: and_then_eq_Inr Cons_eq_map_conv)

lemma ok_or_eq_Inr [simp]: "ok_or x e = Inr y \<longleftrightarrow> x = Some y"
  by (auto simp: ok_or_def split: option.splits)

lemma map_filter_append: "List.map_filter f (xs @ ys) = List.map_filter f xs @ List.map_filter f ys"
  by (simp add: List.map_filter_def)

end
