(* ===== verification/LogLines.thy ===== *)
theory LogLines
  imports Prelude
begin

text \<open>
  Log lines (\<open>crates/kubyl_logs_core/src/level.rs\<close>, \<open>line.rs\<close>): the level a raw line is given, the
  record the ring buffer stores, the colour index and short name of a pod.  Parsing JSON is
  \<open>serde_json\<close>, third-party code: it is the parameter \<open>parse_json\<close>.
\<close>

section \<open>Levels\<close>

datatype log_level = Trace | Debug | Info | Warn | Error | Fatal | Unknown

fun level_rank :: "log_level \<Rightarrow> nat" where
  "level_rank Trace = 0"
| "level_rank Debug = 1"
| "level_rank Info = 2"
| "level_rank Warn = 3"
| "level_rank Error = 4"
| "level_rank Fatal = 5"
| "level_rank Unknown = 6"

lemma level_rank_inj: "level_rank a = level_rank b \<longleftrightarrow> a = b"
  by (cases a; cases b) simp_all

text \<open>The derived \<open>Ord\<close> of the Rust enum is the order of its constructors.\<close>

instantiation log_level :: linorder
begin

definition less_eq_log_level :: "log_level \<Rightarrow> log_level \<Rightarrow> bool" where
  "less_eq_log_level a b = (level_rank a \<le> level_rank b)"

definition less_log_level :: "log_level \<Rightarrow> log_level \<Rightarrow> bool" where
  "less_log_level a b = (level_rank a < level_rank b)"

instance
  by standard (auto simp: less_eq_log_level_def less_log_level_def level_rank_inj)

end

definition from_word :: "str \<Rightarrow> log_level option" where
  "from_word word = (let upper = to_ascii_uppercase (trim word) in
     if upper \<in> {''TRACE'', ''TRC'', ''TRAC'', ''FINER'', ''FINEST''} then Some Trace
     else if upper \<in> {''DEBUG'', ''DBG'', ''DEBU'', ''FINE'', ''VERBOSE''} then Some Debug
     else if upper \<in> {''INFO'', ''INF'', ''NOTICE'', ''NOTE'', ''SYSTEM''} then Some Info
     else if upper \<in> {''WARN'', ''WARNING'', ''WRN''} then Some Warn
     else if upper \<in> {''ERROR'', ''ERR'', ''ERRO'', ''SEVERE''} then Some Error
     else if upper \<in> {''FATAL'', ''FATA'', ''CRITICAL'', ''CRIT'', ''PANIC'', ''PANI'', ''EMERG'',
                       ''ALERT''} then Some Fatal
     else None)"

text \<open>\<open>number as i64\<close> truncates towards zero.\<close>

definition trunc_rat :: "rat \<Rightarrow> int" where
  "trunc_rat r = (if 0 \<le> r then \<lfloor>r\<rfloor> else - \<lfloor>- r\<rfloor>)"

definition from_number :: "rat \<Rightarrow> log_level option" where
  "from_number number = (let n = trunc_rat number in
     if 60 \<le> n then Some Fatal else if 50 \<le> n then Some Error else if 40 \<le> n then Some Warn
     else if 30 \<le> n then Some Info else if 20 \<le> n then Some Debug else if 10 \<le> n then Some Trace
     else None)"

definition prefix_words :: nat where "prefix_words = 12"
definition prefix_bytes :: nat where "prefix_bytes = 200"
definition max_json_bytes :: nat where "max_json_bytes = 16 * 1024"

section \<open>A level word in a text line\<close>

text \<open>What one maximal run of ASCII letters says, given the character before it, the text from its
  end on and how many words came before.  The code compares single bytes; a character above U+007F
  never equals one of them, so comparing characters is the same.\<close>

definition word_level :: "char option \<Rightarrow> str \<Rightarrow> str \<Rightarrow> nat \<Rightarrow> log_level option" where
  "word_level bef word tail words =
     (let after = (case dropWhile (\<lambda>c. c = CHR '' '') tail of [] \<Rightarrow> None | c # _ \<Rightarrow> Some c);
          uppercase = list_all is_ascii_uppercase word;
          enclosed = (bef \<in> {Some (CHR ''[''), Some (CHR ''<''), Some (CHR ''('')} \<and>
                      after \<in> {Some (CHR '']''), Some (CHR ''>''), Some (CHR '')'')});
          tabbed = (bef = Some (CHR 0x09) \<and> starts_with [CHR 0x09] tail);
          glued = (bef \<in> {Some (CHR ''.''), Some (CHR ''_''), Some (CHR ''/''), Some (CHR ''$'')} \<or>
                   (case tail of [] \<Rightarrow> False | c # _ \<Rightarrow> is_ascii_digit c \<and> \<not> uppercase))
      in if glued then None
         else if uppercase \<and> word = ''LOG'' \<and> after = Some (CHR '':'') then Some Info
         else if uppercase \<or> enclosed \<or> tabbed \<or> words = 0 then from_word word
         else None)"

text \<open>The loop over the characters, followed by one virtual blank: \<open>prev\<close> is the character before
  the current one, \<open>pending\<close> the word being read with the character before it.\<close>

fun text_scan ::
  "char option \<Rightarrow> (char option \<times> str) option \<Rightarrow> nat \<Rightarrow> str \<Rightarrow> log_level option" where
  "text_scan prev pending words [] =
     (case pending of None \<Rightarrow> None | Some (bef, word) \<Rightarrow> word_level bef word [] words)"
| "text_scan prev pending words (c # s) =
     (if is_ascii_alphabetic c then
        text_scan (Some c)
          (case pending of None \<Rightarrow> Some (prev, [c]) | Some (bef, word) \<Rightarrow> Some (bef, word @ [c]))
          words s
      else (case pending of
          None \<Rightarrow> text_scan (Some c) None words s
        | Some (bef, word) \<Rightarrow>
            (case word_level bef word (c # s) words of
               Some level \<Rightarrow> Some level
             | None \<Rightarrow>
                 if prefix_words \<le> Suc words then None
                 else text_scan (Some c) None (Suc words) s)))"

definition text_level :: "str \<Rightarrow> log_level option" where
  "text_level line = text_scan None None 0 (take prefix_bytes line)"

section \<open>Detection\<close>

fun first_some :: "('a \<Rightarrow> 'b option) \<Rightarrow> 'a list \<Rightarrow> 'b option" where
  "first_some f [] = None"
| "first_some f (x # xs) = (case f x of Some y \<Rightarrow> Some y | None \<Rightarrow> first_some f xs)"

definition json_level_keys :: "str list" where
  "json_level_keys = [''level'', ''severity'', ''loglevel'', ''log_level'', ''log.level'',
     ''levelname'', ''lvl'', ''@l'']"

definition json_level :: "(str \<times> json) list \<Rightarrow> log_level option" where
  "json_level entries = first_some (\<lambda>key.
     (case map_of entries key of
        Some (JStr s) \<Rightarrow> from_word s
      | Some (JNum n) \<Rightarrow> from_number n
      | _ \<Rightarrow> None)) json_level_keys"

definition logfmt_level :: "str \<Rightarrow> log_level option" where
  "logfmt_level trimmed = first_some (\<lambda>key.
     (case find_from key trimmed of
        None \<Rightarrow> None
      | Some found \<Rightarrow>
          (let rest = dropWhile (\<lambda>c. c = CHR 0x22) (drop (length key) found)
           in from_word (hd (split_on (\<lambda>c. is_whitespace c \<or> c = CHR 0x22) rest)))))
     [''level='', ''severity='', ''loglevel='']"

definition klog_level :: "str \<Rightarrow> log_level option" where
  "klog_level trimmed = (let bytes = as_bytes trimmed in
     if 5 < length bytes \<and> bytes ! 0 \<in> {CHR ''I'', CHR ''W'', CHR ''E'', CHR ''F''} \<and>
        list_all is_ascii_digit (take 4 (drop 1 bytes)) \<and> bytes ! 5 = CHR '' ''
     then Some (if bytes ! 0 = CHR ''I'' then Info
                else if bytes ! 0 = CHR ''W'' then Warn
                else if bytes ! 0 = CHR ''E'' then Error else Fatal)
     else None)"

definition ruby_level :: "str \<Rightarrow> log_level option" where
  "ruby_level trimmed = (let bytes = as_bytes trimmed in
     if 3 < length bytes \<and> take 3 (drop 1 bytes) = '', [''
     then (if bytes ! 0 = CHR ''D'' then Some Debug
           else if bytes ! 0 = CHR ''I'' then Some Info
           else if bytes ! 0 = CHR ''W'' then Some Warn
           else if bytes ! 0 = CHR ''E'' then Some Error
           else if bytes ! 0 = CHR ''F'' then Some Fatal else None)
     else None)"

definition detect_level :: "(str \<Rightarrow> json option) \<Rightarrow> str \<Rightarrow> log_level" where
  "detect_level parse_json line =
     (let trimmed = trim_start line;
          from_json =
            (if starts_with ''{'' trimmed \<and> byte_len trimmed \<le> max_json_bytes
             then (case parse_json trimmed of Some (JObj entries) \<Rightarrow> json_level entries | _ \<Rightarrow> None)
             else None)
      in case from_json of Some level \<Rightarrow> level | None \<Rightarrow>
        (case logfmt_level trimmed of Some level \<Rightarrow> level | None \<Rightarrow>
        (case klog_level trimmed of Some level \<Rightarrow> level | None \<Rightarrow>
        (case ruby_level trimmed of Some level \<Rightarrow> level | None \<Rightarrow>
           unwrap_or (text_level trimmed) Unknown))))"

definition is_continuation :: "str \<Rightarrow> bool" where
  "is_continuation line =
     (if trim line = [] then False
      else starts_with '' '' line \<or> starts_with [CHR 0x09] line
         \<or> starts_with ''Caused by:'' line \<or> starts_with ''Suppressed:'' line
         \<or> starts_with ''Traceback (most recent call last)'' line
         \<or> (starts_with ''... '' line \<and> ends_with '' more'' (trim_end line)))"

section \<open>Log lines\<close>

record log_line =
  seq :: nat
  pod :: str
  container :: str
  pod_color_index :: nat
  timestamp :: "int option"
  line_text :: str
  level :: log_level
  marker :: bool

definition pod_colors :: nat where "pod_colors = 8"

text \<open>FNV-1a over the UTF-8 bytes, in 32-bit arithmetic.\<close>

definition fnv_step :: "32 word \<Rightarrow> char \<Rightarrow> 32 word" where
  "fnv_step hash byte = xor hash (word_of_nat (code_of byte)) * 16777619"

definition color_index :: "str \<Rightarrow> nat" where
  "color_index p = unat (foldl fnv_step 2166136261 (as_bytes p)) mod pod_colors"

definition with_level ::
  "nat \<Rightarrow> str \<Rightarrow> str \<Rightarrow> int option \<Rightarrow> str \<Rightarrow> log_level \<Rightarrow> log_line" where
  "with_level s p c ts txt lv =
     \<lparr>seq = s, pod = p, container = c, pod_color_index = color_index p, timestamp = ts,
      line_text = txt, level = lv, marker = False\<rparr>"

definition new_line ::
  "(str \<Rightarrow> json option) \<Rightarrow> nat \<Rightarrow> str \<Rightarrow> str \<Rightarrow> int option \<Rightarrow> str \<Rightarrow> log_line" where
  "new_line parse_json s p c ts txt = with_level s p c ts txt (detect_level parse_json txt)"

definition marker_line :: "nat \<Rightarrow> str \<Rightarrow> str \<Rightarrow> str \<Rightarrow> log_line" where
  "marker_line s p c msg = (with_level s p c None msg Unknown)\<lparr>marker := True\<rparr>"

definition generated_chars :: str where
  "generated_chars = ''bcdfghjklmnpqrstvwxz2456789''"

definition short_pod_name :: "str \<Rightarrow> str" where
  "short_pod_name p =
     (case rsplit_once (CHR ''-'') p of
        None \<Rightarrow> p
      | Some (pre, suff) \<Rightarrow>
          if byte_len suff = 5 \<and> list_all (\<lambda>b. b \<in> set generated_chars) (as_bytes suff) \<and> pre \<noteq> []
          then suff else p)"

end
