(* ===== verification/SeqWindow.thy ===== *)
theory SeqWindow
  imports Prelude
begin

text \<open>
  The contract the log ring buffer and the flow buffer share: a window of items with consecutive
  sequence numbers.  Operations append at the back and drop from the front; a number, once given,
  is never given to another item.  Views keep numbers instead of positions, and the lemmas here
  are what they rely on.
\<close>

definition window_at :: "nat \<Rightarrow> 'a list \<Rightarrow> nat \<Rightarrow> 'a option" where
  "window_at n xs s = (if n \<le> s \<and> s < n + length xs then Some (xs ! (s - n)) else None)"

lemma window_at_shift [window_simps]:
  assumes "window_at n xs s = Some x" and "k \<le> length (xs @ ys)"
  shows "window_at (n + k) (drop k (xs @ ys)) s = (if n + k \<le> s then Some x else None)"
  using assms
  by (auto simp: window_at_def nth_append split: if_splits)

locale seq_window =
  fixes first_seq :: "'b \<Rightarrow> nat"
    and items :: "'b \<Rightarrow> 'a list"
    and lookup :: "'b \<Rightarrow> nat \<Rightarrow> 'a option"
    and inv :: "'b \<Rightarrow> bool"
    and step :: "'op \<Rightarrow> 'b \<Rightarrow> 'b"
    and allowed :: "'op \<Rightarrow> bool"
  assumes lookup_window: "inv b \<Longrightarrow> lookup b s = window_at (first_seq b) (items b) s"
    and step_inv: "inv b \<Longrightarrow> allowed x \<Longrightarrow> inv (step x b)"
    and step_slides: "inv b \<Longrightarrow> allowed x \<Longrightarrow>
      \<exists>new k. k \<le> length (items b @ new) \<and>
        items (step x b) = drop k (items b @ new) \<and> first_seq (step x b) = first_seq b + k"
begin

definition run :: "'op list \<Rightarrow> 'b \<Rightarrow> 'b" where
  "run ops b = fold step ops b"

definition end_seq :: "'b \<Rightarrow> nat" where
  "end_seq b = first_seq b + length (items b)"

lemma run_simps [simp]:
  "run [] b = b"
  "run (x # ops) b = run ops (step x b)"
  by (simp_all add: run_def)

lemma run_inv: "inv b \<Longrightarrow> list_all allowed ops \<Longrightarrow> inv (run ops b)"
  by (induction ops arbitrary: b) (auto intro: step_inv)

lemma step_first_mono: "inv b \<Longrightarrow> allowed x \<Longrightarrow> first_seq b \<le> first_seq (step x b)"
  using step_slides [of b x] by auto

lemma step_end_mono: "inv b \<Longrightarrow> allowed x \<Longrightarrow> end_seq b \<le> end_seq (step x b)"
  using step_slides [of b x] by (auto simp: end_seq_def)

lemma step_lookup:
  assumes "inv b" "allowed x" "lookup b s = Some y"
  shows "lookup (step x b) s = (if first_seq (step x b) \<le> s then Some y else None)"
proof -
  obtain new k where k: "k \<le> length (items b @ new)"
      "items (step x b) = drop k (items b @ new)" "first_seq (step x b) = first_seq b + k"
    using step_slides [OF assms(1,2)] by blast
  have "window_at (first_seq b) (items b) s = Some y"
    using assms lookup_window by simp
  then show ?thesis
    using k lookup_window [OF step_inv [OF assms(1,2)]] window_at_shift [of "first_seq b" "items b" s y k new]
    by simp
qed

lemma run_first_mono:
  "inv b \<Longrightarrow> list_all allowed ops \<Longrightarrow> first_seq b \<le> first_seq (run ops b)"
proof (induction ops arbitrary: b)
  case (Cons x ops)
  then have "first_seq b \<le> first_seq (step x b)"
    and "first_seq (step x b) \<le> first_seq (run ops (step x b))"
    using step_first_mono [of b x] step_inv [of b x] by simp_all
  then show ?case by simp
qed simp

lemma stable:
  assumes "inv b" "list_all allowed ops" "lookup b s = Some y"
  shows "lookup (run ops b) s = (if first_seq (run ops b) \<le> s then Some y else None)"
  using assms
proof (induction ops arbitrary: b)
  case Nil
  then show ?case
    using lookup_window [of b s] by (auto simp: window_at_def split: if_splits)
next
  case (Cons x ops)
  from Cons.prems have inv': "inv (step x b)" and ops: "list_all allowed ops" and x: "allowed x"
    by (auto intro: step_inv)
  show ?case
  proof (cases "first_seq (step x b) \<le> s")
    case True
    then have "lookup (step x b) s = Some y"
      using step_lookup Cons.prems x by simp
    then show ?thesis
      using Cons.IH inv' ops by simp
  next
    case False
    then have "first_seq (run ops (step x b)) > s \<and> \<not> first_seq (run ops (step x b)) \<le> s"
      using run_first_mono [OF inv' ops] by linarith
    then show ?thesis
      using lookup_window [OF run_inv [OF inv' ops], of s] run_first_mono [OF inv' ops] False
      by (simp add: window_at_def)
  qed
qed

lemma gone_forever:
  assumes "inv b" "list_all allowed ops" "s < first_seq b"
  shows "lookup (run ops b) s = None"
  using run_first_mono [OF assms(1,2)] lookup_window [OF run_inv [OF assms(1,2)], of s] assms(3)
  by (simp add: window_at_def)

end

end
