(* ===== verification/LogRing.thy ===== *)
theory LogRing
  imports LogLines SeqWindow
begin

text \<open>
  The ring buffer of log lines (\<open>crates/kubyl_logs_core/src/ring.rs\<close>): at most \<open>capacity\<close> lines, the
  oldest evicted first, every line with the next sequence number.  Sequence numbers and the
  eviction counter are 64-bit in the code; a number per line cannot reach that bound, and they are
  natural numbers here.
\<close>

record ring =
  capacity :: nat
  lines :: "log_line list"
  next_seq :: nat
  evicted :: nat

definition default_capacity :: nat where "default_capacity = 100000"

definition ring_new :: "nat \<Rightarrow> ring" where
  "ring_new c = \<lparr>capacity = max c 1, lines = [], next_seq = 0, evicted = 0\<rparr>"

text \<open>The \<open>while\<close> loop of \<open>set_capacity\<close>.\<close>

function evict_over :: "ring \<Rightarrow> ring" where
  "evict_over r =
     (if capacity r < length (lines r)
      then evict_over (r\<lparr>lines := tl (lines r), evicted := evicted r + 1\<rparr>) else r)"
  by pat_completeness auto
termination
  by (relation "measure (\<lambda>r. length (lines r))") auto

declare evict_over.simps [simp del]

definition set_capacity :: "nat \<Rightarrow> ring \<Rightarrow> ring" where
  "set_capacity c r = evict_over (r\<lparr>capacity := max c 1\<rparr>)"

definition push_line :: "log_line \<Rightarrow> ring \<Rightarrow> ring \<times> log_line option" where
  "push_line line r =
     (let (r', out) =
        (if capacity r \<le> length (lines r)
         then (r\<lparr>evicted := evicted r + 1, lines := tl (lines r)\<rparr>,
               (case lines r of [] \<Rightarrow> None | l # _ \<Rightarrow> Some l))
         else (r, None))
      in (r'\<lparr>lines := lines r' @ [line]\<rparr>, out))"

definition push_with :: "(nat \<Rightarrow> log_line) \<Rightarrow> ring \<Rightarrow> ring \<times> nat \<times> log_line option" where
  "push_with mk r =
     (let s = next_seq r; (r', out) = push_line (mk s) (r\<lparr>next_seq := s + 1\<rparr>)
      in (r', s, out))"

definition ring_push ::
  "(str \<Rightarrow> json option) \<Rightarrow> str \<Rightarrow> str \<Rightarrow> str \<Rightarrow> ring \<Rightarrow> ring \<times> nat \<times> log_line option" where
  "ring_push parse_json p c txt = push_with (\<lambda>s. new_line parse_json s p c None txt)"

definition push_marker :: "str \<Rightarrow> str \<Rightarrow> str \<Rightarrow> ring \<Rightarrow> ring \<times> nat \<times> log_line option" where
  "push_marker p c msg = push_with (\<lambda>s. marker_line s p c msg)"

definition get_by_seq :: "ring \<Rightarrow> nat \<Rightarrow> log_line option" where
  "get_by_seq r s =
     (case lines r of
        [] \<Rightarrow> None
      | front # _ \<Rightarrow>
          if s < seq front then None
          else (let index = s - seq front in
                if index < length (lines r) \<and> seq (lines r ! index) = s
                then Some (lines r ! index) else None))"

definition ring_clear :: "ring \<Rightarrow> ring" where
  "ring_clear r = r\<lparr>lines := [], evicted := 0\<rparr>"

section \<open>The invariant\<close>

text \<open>Never over capacity, and consecutive numbers that end just below the next one.\<close>

definition ring_inv :: "ring \<Rightarrow> bool" where
  "ring_inv r \<longleftrightarrow> 1 \<le> capacity r \<and> length (lines r) \<le> capacity r \<and> length (lines r) \<le> next_seq r \<and>
     map seq (lines r) = [next_seq r - length (lines r) ..< next_seq r]"

datatype ring_op = Push_With "nat \<Rightarrow> log_line" | Set_Capacity nat | Clear

text \<open>A caller of \<open>push_with\<close> builds the line with the number it is handed; \<open>push\<close> and \<open>push_marker\<close> do.\<close>

fun ring_allowed :: "ring_op \<Rightarrow> bool" where
  "ring_allowed (Push_With mk) = (\<forall>s. seq (mk s) = s)"
| "ring_allowed _ = True"

fun ring_step :: "ring_op \<Rightarrow> ring \<Rightarrow> ring" where
  "ring_step (Push_With mk) r = fst (push_with mk r)"
| "ring_step (Set_Capacity c) r = set_capacity c r"
| "ring_step Clear r = ring_clear r"

definition ring_first :: "ring \<Rightarrow> nat" where
  "ring_first r = next_seq r - length (lines r)"

lemma evict_over_eq:
  "evict_over r =
     r\<lparr>lines := drop (length (lines r) - capacity r) (lines r),
       evicted := evicted r + (length (lines r) - capacity r)\<rparr>"
proof (induction r rule: evict_over.induct)
  case (1 r)
  show ?case
  proof (cases "capacity r < length (lines r)")
    case True
    then have "length (lines r) - capacity r = Suc (length (tl (lines r)) - capacity r)"
      by (cases "lines r") auto
    with True "1" show ?thesis
      by (simp add: evict_over.simps [of r] drop_Suc)
  next
    case False
    then show ?thesis by (simp add: evict_over.simps [of r])
  qed
qed

lemma push_with_lines:
  "lines (fst (push_with mk r)) =
     drop (if capacity r \<le> length (lines r) then 1 else 0) (lines r) @ [mk (next_seq r)]"
  "next_seq (fst (push_with mk r)) = next_seq r + 1"
  "capacity (fst (push_with mk r)) = capacity r"
  by (auto simp: push_with_def push_line_def Let_def drop_Suc split: prod.splits)

lemma new_line_seq [simp]: "seq (new_line pj s p c ts txt) = s"
  by (simp add: new_line_def with_level_def)

lemma marker_line_seq [simp]: "seq (marker_line s p c msg) = s"
  by (simp add: marker_line_def with_level_def)

lemma ring_inv_new: "ring_inv (ring_new c)"
  by (simp add: ring_inv_def ring_new_def)

lemma ring_step_slides:
  assumes "ring_inv r" "ring_allowed x"
  shows "\<exists>new k. k \<le> length (lines r @ new) \<and>
    lines (ring_step x r) = drop k (lines r @ new) \<and> ring_first (ring_step x r) = ring_first r + k"
proof (cases x)
  case (Push_With mk)
  let ?k = "if capacity r \<le> length (lines r) then 1 else 0 :: nat"
  have "?k \<le> length (lines r)"
    using assms by (auto simp: ring_inv_def)
  then show ?thesis
    using assms Push_With
    by (intro exI [of _ "[mk (next_seq r)]"] exI [of _ ?k])
       (auto simp: push_with_lines ring_first_def ring_inv_def)
next
  case (Set_Capacity c)
  then show ?thesis
    using assms
    by (intro exI [of _ "[]"] exI [of _ "length (lines r) - max c 1"])
       (auto simp: set_capacity_def evict_over_eq ring_first_def ring_inv_def)
next
  case Clear
  then show ?thesis
    using assms
    by (intro exI [of _ "[]"] exI [of _ "length (lines r)"])
       (auto simp: ring_clear_def ring_first_def ring_inv_def)
qed

lemma map_drop_upt: "map f xs = [a ..< b] \<Longrightarrow> map f (drop k xs) = [a + k ..< b]"
  by (simp add: drop_map [symmetric] drop_upt)

lemma ring_step_inv:
  assumes "ring_inv r" "ring_allowed x"
  shows "ring_inv (ring_step x r)"
proof (cases x)
  case (Push_With mk)
  let ?k = "if capacity r \<le> length (lines r) then 1 else 0 :: nat"
  have k: "?k \<le> length (lines r)"
    using assms by (auto simp: ring_inv_def)
  have "map seq (drop ?k (lines r)) = [next_seq r - length (lines r) + ?k ..< next_seq r]"
    using assms map_drop_upt [of seq "lines r"] by (auto simp: ring_inv_def)
  then show ?thesis
    using assms Push_With k
    by (auto simp: push_with_lines ring_inv_def)
next
  case (Set_Capacity c)
  have "map seq (drop (length (lines r) - max c 1) (lines r)) =
      [next_seq r - length (lines r) + (length (lines r) - max c 1) ..< next_seq r]"
    using assms map_drop_upt [of seq "lines r"] by (auto simp: ring_inv_def)
  then show ?thesis
    using assms Set_Capacity
    by (auto simp: set_capacity_def evict_over_eq ring_inv_def max_def split: if_splits)
next
  case Clear
  then show ?thesis
    using assms by (auto simp: ring_clear_def ring_inv_def)
qed

lemma ring_lookup_window:
  assumes "ring_inv r"
  shows "get_by_seq r s = window_at (ring_first r) (lines r) s"
proof -
  have nth: "seq (lines r ! i) = ring_first r + i" if "i < length (lines r)" for i
  proof -
    have "map seq (lines r) ! i = [next_seq r - length (lines r) ..< next_seq r] ! i"
      using assms by (simp add: ring_inv_def)
    moreover have "length (lines r) \<le> next_seq r"
      using assms by (simp add: ring_inv_def)
    then have "next_seq r - length (lines r) + i < next_seq r"
      using that by linarith
    ultimately show ?thesis
      using that by (simp add: ring_first_def nth_upt)
  qed
  show ?thesis
  proof (cases "lines r")
    case (Cons front rest)
    then have "seq front = ring_first r"
      using nth [of 0] by simp
    then show ?thesis
      using Cons nth [of "s - ring_first r"]
      by (auto simp: get_by_seq_def window_at_def Let_def split: if_splits)
  qed (simp add: get_by_seq_def window_at_def)
qed

interpretation ring_win: seq_window ring_first lines get_by_seq ring_inv ring_step ring_allowed
  by unfold_locales (rule ring_lookup_window ring_step_inv ring_step_slides; assumption)+

section \<open>Properties\<close>

fun pushed_since_clear :: "ring_op list \<Rightarrow> nat \<Rightarrow> nat" where
  "pushed_since_clear [] n = n"
| "pushed_since_clear (Push_With mk # ops) n = pushed_since_clear ops (n + 1)"
| "pushed_since_clear (Set_Capacity c # ops) n = pushed_since_clear ops n"
| "pushed_since_clear (Clear # ops) n = pushed_since_clear ops 0"

lemma ring_step_capacity: "1 \<le> capacity r \<Longrightarrow> 1 \<le> capacity (ring_step x r)"
  by (cases x) (simp_all add: push_with_lines set_capacity_def evict_over_eq ring_clear_def)

lemma ring_step_accounts:
  assumes "1 \<le> capacity r"
  shows "evicted (ring_step x r) + length (lines (ring_step x r)) =
    (case x of Push_With mk \<Rightarrow> evicted r + length (lines r) + 1
     | Set_Capacity c \<Rightarrow> evicted r + length (lines r) | Clear \<Rightarrow> 0)"
  using assms
  by (cases x)
     (auto simp: push_with_def push_line_def Let_def set_capacity_def evict_over_eq ring_clear_def)

lemma ring_run_accounts:
  "1 \<le> capacity r \<Longrightarrow>
     evicted (fold ring_step ops r) + length (lines (fold ring_step ops r)) =
       pushed_since_clear ops (evicted r + length (lines r))"
proof (induction ops arbitrary: r)
  case (Cons x ops)
  have "1 \<le> capacity (ring_step x r)"
    using Cons.prems by (rule ring_step_capacity)
  from Cons.IH [OF this] ring_step_accounts [OF Cons.prems, of x] show ?case
    by (cases x) simp_all
qed simp

text \<open>The counter "N lines dropped" is exact: after any pushes, capacity changes and clears, the
  evicted lines and the lines held add up to the lines pushed since the last clear.\<close>

lemma ring_evicted_exact:
  "evicted (fold ring_step ops (ring_new c)) + length (lines (fold ring_step ops (ring_new c))) =
     pushed_since_clear ops 0"
  using ring_run_accounts [of "ring_new c" ops] by (simp add: ring_new_def)

text \<open>A line's number is a stable identity: whatever is pushed, resized or cleared afterwards, the
  number answers the same line as long as that line is held, and nothing once it is gone; the ring
  never holds more lines than its capacity.\<close>

lemma ring_numbers_stable:
  assumes "list_all ring_allowed ops" "list_all ring_allowed later"
    and "get_by_seq (fold ring_step ops (ring_new c)) s = Some l"
  shows "get_by_seq (fold ring_step (ops @ later) (ring_new c)) s =
      (if l \<in> set (lines (fold ring_step (ops @ later) (ring_new c))) then Some l else None) \<and>
    length (lines (fold ring_step (ops @ later) (ring_new c)))
      \<le> capacity (fold ring_step (ops @ later) (ring_new c))"
proof -
  let ?r = "fold ring_step ops (ring_new c)" and ?q = "fold ring_step (ops @ later) (ring_new c)"
  have run: "ring_win.run later ?r = ?q" by (simp add: ring_win.run_def)
  have r: "ring_inv ?r"
    using ring_win.run_inv [OF ring_inv_new assms(1)] by (simp add: ring_win.run_def)
  have q: "ring_inv ?q"
    using ring_win.run_inv [OF r assms(2)] run by simp
  have l: "seq l = s"
    using assms(3) by (auto simp: get_by_seq_def Let_def split: list.splits if_splits)
  have st: "get_by_seq ?q s = (if ring_first ?q \<le> s then Some l else None)"
    using ring_win.stable [OF r assms(2,3)] run by simp
  have cap: "length (lines ?q) \<le> capacity ?q"
    using q by (simp add: ring_inv_def)
  have held: "l \<in> set (lines ?q)" if "get_by_seq ?q s = Some l"
  proof -
    have "lines ?q \<noteq> []" "s - seq (hd (lines ?q)) < length (lines ?q)"
      "l = lines ?q ! (s - seq (hd (lines ?q)))"
      using that by (auto simp: get_by_seq_def Let_def split: list.splits if_splits)
    then show ?thesis by simp
  qed
  have first: "ring_first ?q \<le> s" if "l \<in> set (lines ?q)"
  proof -
    have "s \<in> set (map seq (lines ?q))" using that l by force
    also have "map seq (lines ?q) = [ring_first ?q..<next_seq ?q]"
      using q by (simp add: ring_inv_def ring_first_def)
    finally show ?thesis by simp
  qed
  have "get_by_seq ?q s = (if l \<in> set (lines ?q) then Some l else None)"
  proof (cases "ring_first ?q \<le> s")
    case True
    with st held show ?thesis by simp
  next
    case False
    with first have "l \<notin> set (lines ?q)" by blast
    with False st show ?thesis by simp
  qed
  from this cap show ?thesis by (rule conjI)
qed

end
