(* ===== verification/LogSearch.thy ===== *)
theory LogSearch
  imports LogLines
begin

text \<open>
  Search over log lines (\<open>crates/kubyl_logs_core/src/search.rs\<close>): the compiled query and the cursor
  over its matches.  Regular expressions are the \<open>regex\<close> crate, third-party code: a record of its
  operations (\<open>regex_lib\<close>) is a parameter, \<open>'r\<close> its compiled expressions.
\<close>

section \<open>Queries\<close>

record 'r regex_lib =
  re_escape :: "str \<Rightarrow> str"
  re_build :: "str \<Rightarrow> bool \<Rightarrow> str + 'r"
  re_is_match :: "'r \<Rightarrow> str \<Rightarrow> bool"
  re_find_iter :: "'r \<Rightarrow> str \<Rightarrow> (nat \<times> nat) list"

record 'r search =
  query :: str
  regex_mode :: bool
  case_sensitive :: bool
  compiled :: 'r

definition search_new :: "'r regex_lib \<Rightarrow> str \<Rightarrow> bool \<Rightarrow> bool \<Rightarrow> str + 'r search" where
  "search_new lib q regex cs =
     (case re_build lib (if regex then q else re_escape lib q) (\<not> cs) of
        Inl err \<Rightarrow> Inl err
      | Inr r \<Rightarrow> Inr \<lparr>query = q, regex_mode = regex, case_sensitive = cs, compiled = r\<rparr>)"

definition search_matches :: "'r regex_lib \<Rightarrow> 'r search \<Rightarrow> str \<Rightarrow> bool" where
  "search_matches lib s txt = (query s \<noteq> [] \<and> re_is_match lib (compiled s) txt)"

definition search_ranges :: "'r regex_lib \<Rightarrow> 'r search \<Rightarrow> str \<Rightarrow> (nat \<times> nat) list" where
  "search_ranges lib s txt =
     (if query s = [] then []
      else filter (\<lambda>(a, b). a \<noteq> b) (re_find_iter lib (compiled s) txt))"

definition find_all :: "'r regex_lib \<Rightarrow> 'r search \<Rightarrow> log_line list \<Rightarrow> nat list" where
  "find_all lib s ls =
     map seq (filter (\<lambda>l. \<not> marker l \<and> search_matches lib s (line_text l)) ls)"

section \<open>The match cursor\<close>

record cursor =
  matches :: "nat list"
  current :: "nat option"

definition cursor_default :: cursor where
  "cursor_default = \<lparr>matches = [], current = None\<rparr>"

definition set_matches :: "nat list \<Rightarrow> cursor \<Rightarrow> cursor" where
  "set_matches ms c =
     \<lparr>matches = ms, current = (if ms = [] then None else Some (length ms - 1))\<rparr>"

definition cursor_push_back :: "nat \<Rightarrow> cursor \<Rightarrow> cursor" where
  "cursor_push_back s c =
     (let ms = matches c @ [s] in
      \<lparr>matches = ms, current = (case current c of None \<Rightarrow> Some (length ms - 1) | Some i \<Rightarrow> Some i)\<rparr>)"

definition remove_front_if :: "nat \<Rightarrow> cursor \<Rightarrow> cursor" where
  "remove_front_if s c =
     (case matches c of
        [] \<Rightarrow> c
      | m # ms \<Rightarrow>
          if m \<noteq> s then c
          else \<lparr>matches = ms,
                current = (case current c of
                    None \<Rightarrow> None
                  | Some i \<Rightarrow> if ms = [] then None else Some (i - 1))\<rparr>)"

definition cursor_count :: "cursor \<Rightarrow> nat" where
  "cursor_count c = length (matches c)"

definition position :: "cursor \<Rightarrow> nat option" where
  "position c = map_option Suc (current c)"

definition current_line :: "cursor \<Rightarrow> nat option" where
  "current_line c =
     (case current c of
        None \<Rightarrow> None
      | Some i \<Rightarrow> if i < length (matches c) then Some (matches c ! i) else None)"

definition go_next :: "cursor \<Rightarrow> cursor \<times> nat option" where
  "go_next c =
     (if matches c = [] then (c, None)
      else (let nxt = (case current c of Some i \<Rightarrow> (i + 1) mod length (matches c) | None \<Rightarrow> 0);
                c' = c\<lparr>current := Some nxt\<rparr>
            in (c', current_line c')))"

definition go_prev :: "cursor \<Rightarrow> cursor \<times> nat option" where
  "go_prev c =
     (if matches c = [] then (c, None)
      else (let prev = (case current c of
                  None \<Rightarrow> length (matches c) - 1
                | Some i \<Rightarrow> if i = 0 then length (matches c) - 1 else i - 1);
                c' = c\<lparr>current := Some prev\<rparr>
            in (c', current_line c')))"

section \<open>Its invariant\<close>

text \<open>The cursor points at a match whenever there is one, and nowhere otherwise.\<close>

definition cursor_inv :: "cursor \<Rightarrow> bool" where
  "cursor_inv c \<longleftrightarrow>
     (case current c of None \<Rightarrow> matches c = [] | Some i \<Rightarrow> i < length (matches c))"

lemma cursor_inv_default [simp]: "cursor_inv cursor_default"
  by (simp add: cursor_inv_def cursor_default_def)

lemma cursor_inv_set [simp]: "cursor_inv (set_matches ms c)"
  by (simp add: cursor_inv_def set_matches_def)

lemma cursor_inv_push [intro]: "cursor_inv c \<Longrightarrow> cursor_inv (cursor_push_back s c)"
  by (auto simp: cursor_inv_def cursor_push_back_def Let_def split: option.splits)

lemma cursor_inv_remove [intro]: "cursor_inv c \<Longrightarrow> cursor_inv (remove_front_if s c)"
proof (cases "matches c")
  case (Cons m ms)
  assume "cursor_inv c"
  with Cons show ?thesis
    by (cases ms) (auto simp: cursor_inv_def remove_front_if_def split: option.splits)
qed (simp add: remove_front_if_def)

lemma cursor_inv_next [intro]: "cursor_inv c \<Longrightarrow> cursor_inv (fst (go_next c))"
  by (auto simp: cursor_inv_def go_next_def Let_def split: option.splits)

lemma cursor_inv_prev [intro]: "cursor_inv c \<Longrightarrow> cursor_inv (fst (go_prev c))"
  by (auto simp: cursor_inv_def go_prev_def Let_def split: option.splits)

lemma matches_set [simp]: "matches (set_matches ms c) = ms"
  by (simp add: set_matches_def)

lemma matches_push [simp]: "matches (cursor_push_back s c) = matches c @ [s]"
  by (simp add: cursor_push_back_def Let_def)

lemma matches_remove:
  "matches (remove_front_if s c) =
     (case matches c of [] \<Rightarrow> [] | m # ms \<Rightarrow> if m = s then ms else m # ms)"
  by (auto simp: remove_front_if_def split: list.splits)

lemma matches_next [simp]: "matches (fst (go_next c)) = matches c"
  by (simp add: go_next_def Let_def)

lemma current_line_push:
  "cursor_inv c \<Longrightarrow> matches c \<noteq> [] \<Longrightarrow> current_line (cursor_push_back s c) = current_line c"
  by (auto simp: current_line_def cursor_push_back_def cursor_inv_def Let_def nth_append
      split: option.splits)

lemma current_line_remove:
  assumes "cursor_inv c" "distinct (matches c)" "current_line c \<noteq> Some s"
  shows "current_line (remove_front_if s c) = current_line c"
proof (cases "matches c")
  case (Cons m ms)
  then show ?thesis
    using assms
    by (auto simp: remove_front_if_def current_line_def cursor_inv_def nth_Cons'
        split: option.splits if_splits)
qed (simp add: remove_front_if_def)

lemma current_next:
  "cursor_inv c \<Longrightarrow> matches c \<noteq> [] \<Longrightarrow>
     current (fst (go_next c)) = Some ((the (current c) + 1) mod length (matches c))"
  by (auto simp: go_next_def cursor_inv_def Let_def split: option.splits)

lemma go_next_iterate:
  assumes "cursor_inv c" "matches c \<noteq> []"
  shows "current (((fst \<circ> go_next) ^^ n) c) = Some ((the (current c) + n) mod length (matches c))
    \<and> matches (((fst \<circ> go_next) ^^ n) c) = matches c
    \<and> cursor_inv (((fst \<circ> go_next) ^^ n) c)"
proof (induction n)
  case 0
  from assms show ?case
    by (auto simp: cursor_inv_def split: option.splits)
next
  case (Suc n)
  let ?d = "((fst \<circ> go_next) ^^ n) c"
  from Suc have d: "current ?d = Some ((the (current c) + n) mod length (matches c))"
      "matches ?d = matches c" "cursor_inv ?d"
    by blast+
  with assms current_next [of ?d]
  have "current (fst (go_next ?d)) = Some ((the (current c) + Suc n) mod length (matches c))"
    by (simp add: mod_Suc_eq)
  moreover have "((fst \<circ> go_next) ^^ Suc n) c = fst (go_next ?d)"
    by simp
  ultimately show ?case
    using d by (simp only: matches_next cursor_inv_next)
qed

section \<open>Properties\<close>

text \<open>Next match wraps around: stepping forward as often as there are matches comes back to the
  current match, and on the way every step stays inside the unchanged match set.\<close>

lemma go_next_cycles:
  assumes "cursor_inv c" "matches c \<noteq> []"
  shows "((fst \<circ> go_next) ^^ cursor_count c) c = c \<and>
    (\<forall>n. \<exists>i < cursor_count c. current (((fst \<circ> go_next) ^^ n) c) = Some i)"
proof -
  have len: "0 < length (matches c)" using assms(2) by simp
  have "the (current c) < length (matches c)" "current c \<noteq> None"
    using assms by (auto simp: cursor_inv_def split: option.splits)
  then have "((fst \<circ> go_next) ^^ cursor_count c) c = c"
    using go_next_iterate [OF assms, of "length (matches c)"]
    by (auto simp: cursor_count_def intro!: cursor.equality)
  with go_next_iterate [OF assms] len show ?thesis
    by (auto simp: cursor_count_def)
qed

text \<open>An evicted line other than the current match, or a newly arrived one, leaves the user on the
  match he was on, with its position counted from the new front.\<close>

lemma cursor_keeps_current:
  assumes "cursor_inv c" "distinct (matches c)" "current_line c = Some s" "s \<noteq> old"
  shows "current_line (remove_front_if old c) = Some s \<and>
    current_line (cursor_push_back new c) = Some s"
proof -
  have "matches c \<noteq> []"
    using assms(3) by (auto simp: current_line_def split: option.splits if_splits)
  then show ?thesis
    using current_line_remove [OF assms(1,2)] current_line_push [OF assms(1)] assms(3,4) by auto
qed

end
