(* ===== verification/TextLaws.thy ===== *)
theory TextLaws
  imports Prelude
begin

text \<open>
  Laws of the text functions of the prelude that the parsers, printers and matchers share: prefixes
  and first occurrences, splitting and joining, numbers and their digits.
\<close>

named_theorems text_laws "how splitting, joining and searching texts interact"

section \<open>Prefixes\<close>

lemma strip_prefix_eq: "strip_prefix p s = Some r \<longleftrightarrow> s = p @ r"
  by (induction p s rule: strip_prefix.induct) auto

lemma strip_prefix_append [simp]: "strip_prefix p (p @ r) = Some r"
  by (simp add: strip_prefix_eq)

lemma strip_prefix_self [simp]: "strip_prefix p p = Some []"
  by (simp add: strip_prefix_eq)

lemma starts_with_iff: "starts_with p s \<longleftrightarrow> (\<exists>r. s = p @ r)"
  using strip_prefix_eq by (auto simp: starts_with_def)

lemma starts_with_Nil [simp]: "starts_with [] s"
  by (simp add: starts_with_iff)

lemma starts_with_Cons [simp]: "starts_with (x # p) (y # s) \<longleftrightarrow> x = y \<and> starts_with p s"
  by (auto simp: starts_with_iff)

lemma starts_with_Cons_Nil [simp]: "\<not> starts_with (x # p) []"
  by (simp add: starts_with_iff)

lemma starts_with_append [simp]: "starts_with p (p @ r)"
  by (simp add: starts_with_iff)

lemma starts_with_take: "starts_with p s \<longleftrightarrow> take (length p) s = p"
  by (metis append_eq_conv_conj append_take_drop_id starts_with_iff)

lemma starts_with_swap:
  "length p \<le> length a \<Longrightarrow> starts_with p (a @ b) \<longleftrightarrow> starts_with p (a @ c)"
  by (simp add: starts_with_take)

lemma ends_with_iff: "ends_with p s \<longleftrightarrow> (\<exists>r. s = r @ p)"
  unfolding ends_with_def starts_with_iff
  by (metis rev_append rev_rev_ident)

section \<open>First occurrences\<close>

lemma find_from_SomeD: "find_from p s = Some r \<Longrightarrow> \<exists>a. s = a @ r \<and> starts_with p r"
proof (induction p s rule: find_from.induct)
  case (2 p c s)
  then show ?case
    by (cases "starts_with p (c # s)") (force intro: exI [of _ "[]"] exI [of _ "c # _"])+
qed (auto split: if_splits)

lemma find_from_starts: "starts_with p s \<Longrightarrow> find_from p s = Some s"
  by (cases s) (auto simp: starts_with_iff)

lemma find_from_None: "find_from p s = None \<longleftrightarrow> \<not> (\<exists>a b. s = a @ p @ b)"
proof (induction p s rule: find_from.induct)
  case (2 p c s)
  have "(\<exists>a b. c # s = a @ p @ b) \<longleftrightarrow> starts_with p (c # s) \<or> (\<exists>a b. s = a @ p @ b)"
    by (auto simp: starts_with_iff Cons_eq_append_conv)
  then show ?case using 2 by auto
qed auto

lemma contains_iff: "contains p s \<longleftrightarrow> (\<exists>a b. s = a @ p @ b)"
  by (simp add: find_from_None)

lemma find_from_swap:
  "find_from p (a @ p @ b) = Some (p @ b) \<Longrightarrow> find_from p (a @ p @ c) = Some (p @ c)"
proof (induction a)
  case Nil
  then show ?case by (simp add: find_from_starts)
next
  case (Cons x a)
  have neg: "\<not> starts_with p (x # a @ p @ b)"
  proof
    assume "starts_with p (x # a @ p @ b)"
    with Cons.prems have "x # a @ p @ b = p @ b" by simp
    then have "length (x # a @ p @ b) = length (p @ b)" by (rule arg_cong)
    then show False by simp
  qed
  moreover have "starts_with p (x # a @ p @ b) \<longleftrightarrow> starts_with p (x # a @ p @ c)"
    using starts_with_swap [of p "x # a @ p" b c] by simp
  ultimately show ?case
    using Cons by simp
qed

lemma split_at_str_SomeD:
  assumes "split_at_str p s = Some (a, b)"
  shows "s = a @ p @ b \<and> find_from p s = Some (p @ b)"
proof -
  from assms obtain r where r: "find_from p s = Some r"
      "a = take (length s - length r) s" "b = drop (length p) r"
    by (auto simp: split_at_str_def)
  then obtain a' where a': "s = a' @ r" "starts_with p r"
    using find_from_SomeD by blast
  then obtain r' where "r = p @ r'" by (auto simp: starts_with_iff)
  with r a' show ?thesis by simp
qed

lemma split_at_str_swap:
  "split_at_str p (a @ p @ b) = Some (a, b) \<Longrightarrow> split_at_str p (a @ p @ c) = Some (a, c)"
  using find_from_swap [of p a b c] split_at_str_SomeD [of p "a @ p @ b" a b]
  by (simp add: split_at_str_def)

section \<open>Splitting and joining\<close>

lemma split_once_None [text_laws]: "split_once d s = None \<longleftrightarrow> d \<notin> set s"
  by (induction d s rule: split_once.induct) auto

lemma split_once_NoneD: "split_once d s = None \<Longrightarrow> d \<notin> set s"
  and split_once_NoneI: "d \<notin> set s \<Longrightarrow> split_once d s = None"
  by (simp_all add: split_once_None)

lemma split_once_Some: "split_once d s = Some (a, b) \<longleftrightarrow> s = a @ d # b \<and> d \<notin> set a"
proof (induction d s arbitrary: a rule: split_once.induct)
  case (2 d c s)
  then show ?case
    by (cases a) auto
qed simp

lemma split_once_SomeD: "split_once d s = Some (a, b) \<Longrightarrow> s = a @ d # b \<and> d \<notin> set a"
  by (simp add: split_once_Some)

lemma split_once_append [text_laws]: "d \<notin> set a \<Longrightarrow> split_once d (a @ d # b) = Some (a, b)"
  by (simp add: split_once_Some)

lemma rsplit_once_None [text_laws]: "rsplit_once d s = None \<longleftrightarrow> d \<notin> set s"
  by (simp add: rsplit_once_def split_once_None)

lemma rsplit_once_Some: "rsplit_once d s = Some (a, b) \<longleftrightarrow> s = a @ d # b \<and> d \<notin> set b"
proof -
  have "split_once d (rev s) = Some (rev b, rev a) \<longleftrightarrow> s = a @ d # b \<and> d \<notin> set b"
    unfolding split_once_Some
    by (metis append.assoc append_Cons append_Nil rev.simps(2) rev_append rev_rev_ident set_rev)
  then show ?thesis
    by (auto simp: rsplit_once_def)
qed

lemma split_on_not_Nil [simp]: "split_on p s \<noteq> []"
  by (induction p s rule: split_on.induct) (auto split: list.splits)

lemma split_on_sound [text_laws]: "w \<in> set (split_on p s) \<Longrightarrow> c \<in> set w \<Longrightarrow> \<not> p c \<and> c \<in> set s"
proof (induction p s arbitrary: w rule: split_on.induct)
  case (2 p x s)
  then show ?case
    by (cases "split_on p s") (fastforce split: if_splits)+
qed simp

lemma split_on_none: "\<forall>c \<in> set s. \<not> p c \<Longrightarrow> split_on p s = [s]"
  by (induction p s rule: split_on.induct) auto

lemma split_on_append [text_laws]:
  "\<forall>c \<in> set w. \<not> p c \<Longrightarrow> p d \<Longrightarrow> split_on p (w @ d # s) = w # split_on p s"
  by (induction w) auto

lemma split_on_join:
  assumes "ws \<noteq> []" "\<forall>w \<in> set ws. d \<notin> set w"
  shows "split_on (\<lambda>c. c = d) (join [d] ws) = ws"
  using assms
proof (induction "[d]" ws rule: join.induct)
  case (3 w v ws)
  have "split_on (\<lambda>c. c = d) (w @ d # join [d] (v # ws)) = w # split_on (\<lambda>c. c = d) (join [d] (v # ws))"
    using 3 by (intro split_on_append) auto
  with 3 show ?case by simp
qed (auto intro: split_on_none)

lemma join_split_on: "join [d] (split_on (\<lambda>c. c = d) s) = s"
proof (induction s)
  case (Cons x s)
  obtain w ws where "split_on (\<lambda>c. c = d) s = w # ws"
    by (cases "split_on (\<lambda>c. c = d) s") auto
  with Cons show ?case by (cases ws) auto
qed simp

lemma set_join: "set (join sep ws) \<subseteq> set sep \<union> \<Union> (set ` set ws)"
  by (induction sep ws rule: join.induct) auto

lemma join_eq_Nil [simp]: "(\<forall>w \<in> set ws. w \<noteq> []) \<Longrightarrow> join sep ws = [] \<longleftrightarrow> ws = []"
  by (induction sep ws rule: join.induct) auto

lemma split_on_hd: "hd (split_on p s) = takeWhile (\<lambda>c. \<not> p c) s"
  by (induction p s rule: split_on.induct) (auto split: list.splits)

section \<open>Trimming\<close>

lemma trim_end_matches_id: "s \<noteq> [] \<Longrightarrow> \<not> p (last s) \<Longrightarrow> trim_end_matches p s = s"
  by (cases s rule: rev_cases) (auto simp: trim_end_matches_def)

lemma trim_end_matches_none: "\<forall>c \<in> set s. \<not> p c \<Longrightarrow> trim_end_matches p s = s"
  by (cases "s = []") (auto intro: trim_end_matches_id, simp add: trim_end_matches_def)

lemma trim_matches_none: "\<forall>c \<in> set s. \<not> p c \<Longrightarrow> trim_matches p s = s"
  by (cases s) (auto simp: trim_matches_def trim_start_matches_def trim_end_matches_none)

lemma trim_id:
  assumes "s \<noteq> []" "\<not> is_whitespace (hd s)" "\<not> is_whitespace (last s)"
  shows "trim s = s"
proof -
  have "dropWhile is_whitespace s = s" using assms by (cases s) auto
  then show ?thesis
    using assms by (simp add: trim_def trim_end_def trim_start_def trim_end_matches_id)
qed

lemma trim_none: "\<forall>c \<in> set s. \<not> is_whitespace c \<Longrightarrow> trim s = s"
  by (cases "s = []") (auto intro: trim_id, simp add: trim_def trim_end_def trim_start_def trim_end_matches_def)

section \<open>Digits\<close>

lemma show_nat_small: "n < 10 \<Longrightarrow> show_nat n = [digit_of n]"
  by (simp add: show_nat.simps [of n])

lemma show_nat_big: "10 \<le> n \<Longrightarrow> show_nat n = show_nat (n div 10) @ [digit_of (n mod 10)]"
  by (simp add: show_nat.simps [of n])

lemma code_digit_of: "d < 10 \<Longrightarrow> code_of (digit_of d) = 48 + d"
  by (simp add: digit_of_def take_bit_eq_mod)

lemma show_nat_digits: "list_all is_ascii_digit (show_nat n) \<and> show_nat n \<noteq> []"
proof (induction n rule: show_nat.induct)
  case (1 n)
  then show ?case
    by (cases "n < 10") (simp_all add: show_nat_small show_nat_big is_ascii_digit_def code_digit_of)
qed

lemma digits_value_snoc: "digits_value (s @ [c]) = 10 * digits_value s + (code_of c - 48)"
  by (simp add: digits_value_def)

lemma digits_value_show [simp]: "digits_value (show_nat n) = n"
proof (induction n rule: show_nat.induct)
  case (1 n)
  then show ?case
    by (cases "n < 10")
      (simp_all add: show_nat_small show_nat_big digits_value_snoc code_digit_of digits_value_def)
qed

lemma show_nat_inj: "show_nat m = show_nat n \<Longrightarrow> m = n"
  by (metis digits_value_show)

lemma parse_uint_show: "n < 2 ^ w \<Longrightarrow> parse_uint w (show_nat n) = Some n"
proof -
  assume n: "n < 2 ^ w"
  obtain c r where s: "show_nat n = c # r"
    using show_nat_digits [of n] by (cases "show_nat n") auto
  then have "is_ascii_digit c"
    using show_nat_digits [of n] by simp
  then have "c \<noteq> CHR ''+''"
    by (auto simp: is_ascii_digit_def)
  then show ?thesis
    using n s show_nat_digits [of n] digits_value_show [of n] by (simp add: parse_uint_def Let_def)
qed

end
