(* ===== verification/LogMerge.thy ===== *)
theory LogMerge
  imports TextLaws "HOL-Library.Sublist"
begin

text \<open>
  The parts of the log stream (\<open>crates/kubyl_logs_core/src/stream.rs\<close>) that work on lines: reading
  them off a connection, their timestamps, merging the backlogs of several containers, and skipping
  lines already delivered when a connection resumes.  A \<open>jiff::Timestamp\<close> is its number of
  nanoseconds; parsing one and decoding UTF-8 with replacement characters are the parameters
  \<open>parse_ts\<close> and \<open>lossy\<close>.
\<close>

section \<open>Lines\<close>

record raw_line =
  rl_pod :: str
  rl_container :: str
  rl_timestamp :: "int option"
  rl_text :: str

definition split_timestamp :: "(str \<Rightarrow> int option) \<Rightarrow> str \<Rightarrow> int option \<times> str" where
  "split_timestamp parse_ts line =
     (case split_once (CHR '' '') line of
        Some (stamp, rest) \<Rightarrow>
          if 20 \<le> byte_len stamp \<and> as_bytes stamp ! 4 = CHR ''-'' then
            (case parse_ts stamp of Some ts \<Rightarrow> (Some ts, rest) | None \<Rightarrow> (None, line))
          else (None, line)
      | None \<Rightarrow> (None, line))"

definition max_line_bytes :: nat where "max_line_bytes = 64 * 1024"

text \<open>\<open>str::is_char_boundary\<close>, and the slice up to a boundary.\<close>

fun slice_to :: "nat \<Rightarrow> str \<Rightarrow> str option" where
  "slice_to 0 s = Some []"
| "slice_to n [] = None"
| "slice_to n (c # s) =
     (if length (utf8 c) \<le> n then map_option ((#) c) (slice_to (n - length (utf8 c)) s) else None)"

fun cut_back :: "nat \<Rightarrow> str \<Rightarrow> str" where
  "cut_back n s =
     (case slice_to n s of Some t \<Rightarrow> t | None \<Rightarrow> if n = 0 then [] else cut_back (n - 1) s)"

declare cut_back.simps [simp del]

definition truncate_text :: "nat \<Rightarrow> str \<Rightarrow> str" where
  "truncate_text limit s =
     (if byte_len s \<le> limit then s else cut_back limit s @ '' '' @ ellipsis @ '' [line truncated]'')"

text \<open>\<open>read_line_capped\<close>: what the reader has buffered arrives in chunks; an empty one is the end.  The
  bytes consumed, the line kept so far and the chunks left.\<close>

fun newline_at :: "char list \<Rightarrow> nat option" where
  "newline_at [] = None"
| "newline_at (b # bs) = (if b = CHR 0x0A then Some 0 else map_option Suc (newline_at bs))"

fun read_line_capped ::
  "nat \<Rightarrow> char list list \<Rightarrow> char list \<Rightarrow> nat \<Rightarrow> nat \<times> char list \<times> char list list" where
  "read_line_capped limit [] buf consumed = (consumed, buf, [])"
| "read_line_capped limit (available # chunks) buf consumed =
     (if available = [] then (consumed, buf, available # chunks)
      else (case newline_at available of
              Some i \<Rightarrow> (consumed + (i + 1), buf @ take (min (i + 1) (limit - length buf)) available,
                          drop (i + 1) available # chunks)
            | None \<Rightarrow> read_line_capped limit chunks
                (buf @ take (min (length available) (limit - length buf)) available)
                (consumed + length available)))"

definition parse_line ::
  "(str \<Rightarrow> int option) \<Rightarrow> (char list \<Rightarrow> str) \<Rightarrow> str \<Rightarrow> str \<Rightarrow> char list \<Rightarrow> raw_line" where
  "parse_line parse_ts lossy pod container bytes =
     (let text = trim_end_matches (\<lambda>c. c = CHR 0x0A \<or> c = CHR 0x0D) (lossy bytes);
          (timestamp, text) = split_timestamp parse_ts text
      in \<lparr>rl_pod = pod, rl_container = container, rl_timestamp = timestamp,
          rl_text = truncate_text max_line_bytes text\<rparr>)"

section \<open>Merging backlogs\<close>

text \<open>The inner loop of \<open>merge_by_time\<close>: the list whose head goes out next, with its timestamp.\<close>

definition better_line :: "(nat \<times> int option) option \<Rightarrow> int option \<Rightarrow> bool" where
  "better_line best timestamp =
     (case (best, timestamp) of
        (None, _) \<Rightarrow> True
      | (_, None) \<Rightarrow> True
      | (Some (_, None), _) \<Rightarrow> False
      | (Some (_, Some best_ts), Some ts) \<Rightarrow> ts < best_ts)"

fun best_list ::
  "nat \<Rightarrow> raw_line list list \<Rightarrow> (nat \<times> int option) option \<Rightarrow> (nat \<times> int option) option" where
  "best_list i [] best = best"
| "best_list i ([] # ls) best = best_list (i + 1) ls best"
| "best_list i ((line # _) # ls) best =
     (if better_line best (rl_timestamp line)
      then (if rl_timestamp line = None then Some (i, rl_timestamp line)
            else best_list (i + 1) ls (Some (i, rl_timestamp line)))
      else best_list (i + 1) ls best)"

lemma nth_Cons_shift: "Suc i \<le> k \<Longrightarrow> (x # xs) ! (k - i) = xs ! (k - Suc i)"
  by (cases k) (auto simp: Suc_diff_le)

lemma best_list_range:
  "best_list i ls best = Some (k, t) \<Longrightarrow>
     best = Some (k, t) \<or> (i \<le> k \<and> k < i + length ls \<and> ls ! (k - i) \<noteq> [] \<and> rl_timestamp (hd (ls ! (k - i))) = t)"
proof (induction i ls best rule: best_list.induct)
  case (2 i ls best)
  then show ?case by (auto simp: nth_Cons_shift)
next
  case (3 i line rest ls best)
  then show ?case
    by (cases "better_line best (rl_timestamp line)"; cases "rl_timestamp line") (auto simp: nth_Cons_shift)
qed simp

lemma list_total_tl:
  "k < length xs \<Longrightarrow> xs ! k \<noteq> [] \<Longrightarrow>
     sum_list (map length (xs[k := tl (xs ! k)])) < sum_list (map length xs)"
  by (subst (3) id_take_nth_drop [of k xs]) (auto simp: upd_conv_take_nth_drop)

function merge_loop :: "raw_line list list \<Rightarrow> raw_line list" where
  "merge_loop logs =
     (case best_list 0 logs None of
        None \<Rightarrow> []
      | Some (k, _) \<Rightarrow> hd (logs ! k) # merge_loop (logs[k := tl (logs ! k)]))"
  by pat_completeness auto
termination
proof (relation "measure (sum_list \<circ> map length)")
  fix logs :: "raw_line list list" and kt k t
  assume "best_list 0 logs None = Some kt" "(k, t) = kt"
  then have k: "k < length logs" "logs ! k \<noteq> []" using best_list_range [of 0 logs None k t] by auto
  from list_total_tl [OF this]
  show "(logs[k := tl (logs ! k)], logs) \<in> measure (sum_list \<circ> map length)" by simp
qed simp

declare merge_loop.simps [simp del]

definition merge_by_time :: "raw_line list list \<Rightarrow> raw_line list" where
  "merge_by_time logs = merge_loop logs"

text \<open>What a merge is: the next line is always the first one left of some list.\<close>

inductive interleaves :: "'a list list \<Rightarrow> 'a list \<Rightarrow> bool" where
  all_empty: "list_all (\<lambda>l. l = []) ls \<Longrightarrow> interleaves ls []"
| next_of: "k < length ls \<Longrightarrow> ls ! k = x # xs \<Longrightarrow> interleaves (ls[k := xs]) out \<Longrightarrow> interleaves ls (x # out)"

inductive_cases interleaves_ConsE: "interleaves ls (x # out)"

lemma interleaves_mset: "interleaves ls out \<Longrightarrow> mset out = \<Sum>\<^sub># (mset (map mset ls))"
proof (induction rule: interleaves.induct)
  case (all_empty ls)
  then show ?case by (induction ls) auto
next
  case (next_of k ls x xs out)
  obtain us vs where "ls = us @ (x # xs) # vs" "ls[k := xs] = us @ xs # vs"
    using id_take_nth_drop [OF next_of(1)] upd_conv_take_nth_drop [OF next_of(1)] unfolding next_of(2) by blast
  with next_of.IH show ?case by simp
qed

lemma interleaves_subseq: "interleaves ls out \<Longrightarrow> j < length ls \<Longrightarrow> subseq (ls ! j) out"
proof (induction arbitrary: j rule: interleaves.induct)
  case (all_empty ls)
  then show ?case by (simp add: list_all_length)
next
  case (next_of k ls x xs out)
  then show ?case using next_of.IH [of j] by (cases "j = k") auto
qed

lemma best_list_None: "best_list i ls best = None \<longleftrightarrow> best = None \<and> list_all (\<lambda>l. l = []) ls"
  by (induction i ls best rule: best_list.induct) (auto simp: better_line_def split: option.splits)

lemma merge_interleaves: "interleaves ls (merge_loop ls)"
proof (induction ls rule: merge_loop.induct)
  case (1 ls)
  show ?case
  proof (cases "best_list 0 ls None")
    case None
    then have "interleaves ls []" by (auto simp: best_list_None intro: interleaves.all_empty)
    with None show ?thesis by (subst merge_loop.simps) simp
  next
    case (Some kt)
    obtain k t where kt: "kt = (k, t)" by fastforce
    with best_list_range [of 0 ls None k t] Some have k: "k < length ls" "ls ! k \<noteq> []" by auto
    have "interleaves ls (hd (ls ! k) # merge_loop (ls[k := tl (ls ! k)]))"
      using k 1 [OF Some kt [symmetric]] by (intro interleaves.next_of [of k]) auto
    with Some kt show ?thesis by (subst merge_loop.simps) simp
  qed
qed

text \<open>Lists whose lines all have timestamps, in order.\<close>

definition stamp :: "raw_line \<Rightarrow> int" where
  "stamp line = (case rl_timestamp line of Some ts \<Rightarrow> ts | None \<Rightarrow> 0)"

definition in_time :: "raw_line list \<Rightarrow> bool" where
  "in_time ls \<longleftrightarrow> list_all (\<lambda>l. rl_timestamp l \<noteq> None) ls \<and> sorted (map stamp ls)"

lemma best_list_least:
  "best_list i ls best = Some (k, t) \<Longrightarrow> list_all in_time ls \<Longrightarrow> (\<And>j u. best = Some (j, u) \<Longrightarrow> u \<noteq> None) \<Longrightarrow>
     t \<noteq> None \<and> (\<forall>j u. best = Some (j, Some u) \<longrightarrow> the t \<le> u) \<and> (\<forall>l \<in> set ls. l \<noteq> [] \<longrightarrow> the t \<le> stamp (hd l))"
proof (induction i ls best rule: best_list.induct)
  case (3 i line rest ls best)
  then obtain u where u: "rl_timestamp line = Some u" "stamp line = u" by (auto simp: in_time_def stamp_def)
  show ?case
  proof (cases "better_line best (Some u)")
    case True
    with 3 u show ?thesis by (force simp: better_line_def split: option.splits)
  next
    case False
    with 3 u show ?thesis by (fastforce simp: better_line_def split: option.splits)
  qed
qed auto

lemma in_time_tl: "in_time l \<Longrightarrow> in_time (tl l)"
  by (cases l) (auto simp: in_time_def)

lemma in_time_hd: "in_time l \<Longrightarrow> x \<in> set l \<Longrightarrow> stamp (hd l) \<le> stamp x"
  by (cases l) (auto simp: in_time_def)

lemma merge_in_time: "list_all in_time ls \<Longrightarrow> in_time (merge_loop ls)"
proof (induction ls rule: merge_loop.induct)
  case (1 ls)
  show ?case
  proof (cases "best_list 0 ls None")
    case None
    then show ?thesis by (subst merge_loop.simps) (simp add: in_time_def)
  next
    case (Some kt)
    obtain k t where kt: "kt = (k, t)" by fastforce
    with best_list_range [of 0 ls None k t] Some have k: "k < length ls" "ls ! k \<noteq> []" and t: "rl_timestamp (hd (ls ! k)) = t"
      by auto
    from best_list_least [of 0 ls None k t] Some kt 1(2)
    have least: "t \<noteq> None" "\<forall>l \<in> set ls. l \<noteq> [] \<longrightarrow> the t \<le> stamp (hd l)" by auto
    let ?ls = "ls[k := tl (ls ! k)]"
    have kept: "list_all in_time ?ls"
      using 1(2) k by (auto simp: list_all_length nth_list_update in_time_tl)
    have rest: "in_time (merge_loop ?ls)" by (rule 1(1) [OF Some kt [symmetric] kept])
    have "the t \<le> stamp x" if "x \<in> set (merge_loop ?ls)" for x
    proof -
      from that interleaves_mset [OF merge_interleaves, of ?ls] have "x \<in># \<Sum>\<^sub># (mset (map mset ?ls))"
        by (metis set_mset_mset)
      then obtain l where l: "l \<in> set ?ls" "x \<in> set l" by auto
      then obtain l' where "l' \<in> set ls" "x \<in> set l'"
        using k set_update_subset_insert [of ls k "tl (ls ! k)"] by (metis insertE list.set_sel(2) nth_mem subsetD)
      with 1(2) least(2) in_time_hd [of l' x] show ?thesis by (fastforce simp: list_all_iff)
    qed
    moreover have "the t = stamp (hd (ls ! k))" using least(1) t by (auto simp: stamp_def)
    ultimately have "in_time (hd (ls ! k) # merge_loop ?ls)" using rest t least(1) by (auto simp: in_time_def)
    with Some kt show ?thesis by (subst merge_loop.simps) simp
  qed
qed

text \<open>Merging backlogs ends and interleaves them: every line of every container goes out once and in
  its order; when all lines have timestamps, in order in each container, the merge is in order too.\<close>

lemma merge_by_time_merges:
  "interleaves logs (merge_by_time logs) \<and>
   (if list_all in_time logs then in_time (merge_by_time logs) else True)"
  by (simp add: merge_by_time_def merge_interleaves merge_in_time)

section \<open>Resuming a connection\<close>

record resume =
  re_last :: "int option"
  re_at_last :: nat

definition resume_default :: resume where
  "resume_default = \<lparr>re_last = None, re_at_last = 0\<rparr>"

definition record_line :: "int option \<Rightarrow> resume \<Rightarrow> resume" where
  "record_line timestamp r =
     (case timestamp of
        None \<Rightarrow> r
      | Some ts \<Rightarrow>
          if re_last r = Some ts then r\<lparr>re_at_last := re_at_last r + 1\<rparr>
          else if (case re_last r of None \<Rightarrow> True | Some l \<Rightarrow> l < ts)
          then \<lparr>re_last = Some ts, re_at_last = 1\<rparr> else r)"

text \<open>Whether a line was delivered already, and the counter of such lines at the last timestamp.\<close>

definition is_duplicate :: "resume \<Rightarrow> int option \<Rightarrow> nat \<Rightarrow> bool \<times> nat" where
  "is_duplicate r timestamp seen_at_last =
     (case (re_last r, timestamp) of
        (Some l, Some ts) \<Rightarrow>
          if ts < l then (True, seen_at_last)
          else if ts = l \<and> seen_at_last < re_at_last r then (True, seen_at_last + 1)
          else (False, seen_at_last)
      | _ \<Rightarrow> (False, seen_at_last))"

text \<open>The lines one connection delivers.\<close>

fun follow_lines :: "resume \<Rightarrow> nat \<Rightarrow> raw_line list \<Rightarrow> resume \<times> raw_line list" where
  "follow_lines r seen [] = (r, [])"
| "follow_lines r seen (line # rest) =
     (let (dup, seen) = is_duplicate r (rl_timestamp line) seen
      in if dup then follow_lines r seen rest
         else (let (r, out) = follow_lines (record_line (rl_timestamp line) r) seen rest in (r, line # out)))"

text \<open>Lines whose timestamps increase strictly, all after a point.\<close>

fun after_point :: "int option \<Rightarrow> raw_line list \<Rightarrow> bool" where
  "after_point p [] \<longleftrightarrow> True"
| "after_point p (l # ls) \<longleftrightarrow>
     (case rl_timestamp l of None \<Rightarrow> False
      | Some ts \<Rightarrow> (case p of None \<Rightarrow> True | Some q \<Rightarrow> q < ts) \<and> after_point (Some ts) ls)"

definition resumed :: "raw_line list \<Rightarrow> resume" where
  "resumed ls = foldl (\<lambda>r l. record_line (rl_timestamp l) r) resume_default ls"

lemma resumed_snoc: "resumed (ls @ [l]) = record_line (rl_timestamp l) (resumed ls)"
  by (simp add: resumed_def)

lemma after_point_append:
  "after_point p (xs @ ys) \<longleftrightarrow>
     after_point p xs \<and> after_point (if xs = [] then p else rl_timestamp (last xs)) ys"
  by (induction p xs rule: after_point.induct) (auto split: option.splits)

lemma follow_new:
  "after_point (re_last r) ls \<Longrightarrow>
     follow_lines r seen ls = (foldl (\<lambda>r l. record_line (rl_timestamp l) r) r ls, ls)"
proof (induction ls arbitrary: r)
  case (Cons l ls)
  then obtain ts where ts: "rl_timestamp l = Some ts" "case re_last r of None \<Rightarrow> True | Some q \<Rightarrow> q < ts"
      "after_point (Some ts) ls" by (auto split: option.splits)
  then have "is_duplicate r (Some ts) seen = (False, seen)" "re_last (record_line (Some ts) r) = Some ts"
    by (auto simp: is_duplicate_def record_line_def split: option.splits)
  with Cons.IH [of "record_line (Some ts) r"] ts show ?case by simp
qed simp

lemma resumed_last:
  "after_point None ls \<Longrightarrow> resumed ls =
     (if ls = [] then resume_default else \<lparr>re_last = rl_timestamp (last ls), re_at_last = 1\<rparr>)"
proof (induction ls rule: rev_induct)
  case (snoc l ls)
  then show ?case
    by (auto simp: resumed_snoc after_point_append resume_default_def record_line_def split: option.splits if_splits)
qed (simp add: resumed_def)

lemma after_point_Some: "after_point (Some t) (ys @ [l]) \<Longrightarrow> \<exists>u. rl_timestamp l = Some u \<and> t < u"
proof (induction ys arbitrary: t)
  case (Cons y ys)
  then obtain v where v: "t < v" "after_point (Some v) (ys @ [l])" by (auto split: option.splits)
  from Cons.IH [OF v(2)] v(1) show ?case by (meson order.strict_trans)
qed (auto split: option.splits)

lemma after_point_below:
  "after_point p (xs @ [l]) \<Longrightarrow> x \<in> set xs \<Longrightarrow>
     \<exists>t u. rl_timestamp x = Some t \<and> rl_timestamp l = Some u \<and> t < u"
proof (induction p xs rule: after_point.induct)
  case (2 p y ys)
  then obtain t where "rl_timestamp y = Some t" "after_point (Some t) (ys @ [l])" by (auto split: option.splits)
  with 2 after_point_Some [of t ys l] show ?case by auto
qed simp

text \<open>Replaying delivered lines delivers none of them again.\<close>

lemma follow_old:
  assumes "re_last r = Some u" "\<And>x. x \<in> set xs \<Longrightarrow> \<exists>t. rl_timestamp x = Some t \<and> t < u"
  shows "follow_lines r 0 (xs @ ls) = follow_lines r 0 ls"
  using assms(2)
proof (induction xs)
  case (Cons x xs)
  then obtain t where "rl_timestamp x = Some t" "t < u" by auto
  with Cons assms(1) show ?case by (simp add: is_duplicate_def)
qed simp

lemma after_point_rest:
  assumes "after_point None (us @ vs)"
  shows "after_point (re_last (resumed us)) vs"
  using assms resumed_last [of us] by (auto simp: after_point_append resume_default_def split: if_splits)

lemma follow_segment:
  assumes "after_point None (us @ vs @ ws)"
  shows "follow_lines (resumed (us @ vs)) 0 (vs @ ws) = (resumed (us @ vs @ ws), ws)"
proof -
  have new: "follow_lines (resumed (us @ vs)) seen ws = (resumed (us @ vs @ ws), ws)" for seen
    using follow_new [of "resumed (us @ vs)" ws seen] after_point_rest [of "us @ vs" ws] assms
    by (simp add: resumed_def)
  show ?thesis
  proof (cases vs rule: rev_cases)
    case Nil
    with new [of 0] show ?thesis by simp
  next
    case (snoc ys y)
    have "after_point None (us @ ys @ [y])"
      using assms after_point_append [of None "us @ ys @ [y]" ws] by (simp add: snoc)
    then have below: "x \<in> set ys \<Longrightarrow> \<exists>t u. rl_timestamp x = Some t \<and> rl_timestamp y = Some u \<and> t < u" for x
      using after_point_below [of None "us @ ys" y x] by simp
    from \<open>after_point None (us @ ys @ [y])\<close> obtain u where u: "rl_timestamp y = Some u"
      using after_point_append [of None "us @ ys" "[y]"] by (auto split: option.splits)
    have "resumed (us @ vs) = \<lparr>re_last = Some u, re_at_last = 1\<rparr>"
      using resumed_last [of "us @ ys @ [y]"] \<open>after_point None (us @ ys @ [y])\<close> u by (simp add: snoc)
    then have "follow_lines (resumed (us @ vs)) 0 (ys @ y # ws) = follow_lines (resumed (us @ vs)) 1 ws"
      using follow_old [of "resumed (us @ vs)" u ys "y # ws"] below u by (force simp: is_duplicate_def)
    with new [of 1] show ?thesis by (simp add: snoc)
  qed
qed

lemma follow_stale:
  assumes "after_point None (us @ vs @ ws)"
  shows "follow_lines (resumed (us @ vs @ ws)) 0 vs = (resumed (us @ vs @ ws), [])"
proof (cases ws rule: rev_cases)
  case Nil
  with follow_segment [of us vs "[]"] assms show ?thesis by simp
next
  case (snoc ys y)
  from assms obtain u where u: "rl_timestamp y = Some u"
    using after_point_append [of None "us @ vs @ ys" "[y]"] by (auto simp: snoc split: option.splits)
  have "\<exists>t. rl_timestamp x = Some t \<and> t < u" if "x \<in> set vs" for x
    using after_point_below [of None "us @ vs @ ys" y x] assms that u by (auto simp: snoc)
  moreover have "re_last (resumed (us @ vs @ ws)) = Some u"
    using resumed_last [of "us @ vs @ ws"] assms u by (simp add: snoc)
  ultimately show ?thesis using follow_old [of "resumed (us @ vs @ ws)" u vs "[]"] by simp
qed

text \<open>A connection serves \<open>n\<close> lines of the log from line \<open>j\<close> on, or from the first one not delivered if that
  is earlier (the request asks for the whole second of the last line).\<close>

definition connect :: "raw_line list \<Rightarrow> nat \<times> nat \<Rightarrow> resume \<times> raw_line list \<Rightarrow> resume \<times> raw_line list" where
  "connect logged served state =
     (let (r, out) = state; (j, n) = served;
          (r, ls) = follow_lines r 0 (take n (drop (min j (length out)) logged))
      in (r, out @ ls))"

definition delivered :: "raw_line list \<Rightarrow> resume \<times> raw_line list \<Rightarrow> bool" where
  "delivered logged state \<longleftrightarrow> (\<exists>rest. logged = snd state @ rest) \<and> fst state = resumed (snd state)"

lemma connect_split:
  assumes "after_point None (us @ vs @ rest)" "min j (length (us @ vs)) = length us"
  shows "connect (us @ vs @ rest) (j, n) (resumed (us @ vs), us @ vs) =
    (resumed (us @ vs @ take (n - length vs) rest), us @ vs @ take (n - length vs) rest)"
proof -
  let ?ws = "take (n - length vs) rest"
  have served: "take n (drop (min j (length (us @ vs))) (us @ vs @ rest)) = take n vs @ ?ws"
    unfolding assms(2) by simp
  have "after_point None (us @ vs @ ?ws)"
    using assms(1) after_point_append [of None "us @ vs @ ?ws" "drop (n - length vs) rest"] by simp
  then have ap: "length vs \<le> n \<Longrightarrow> take n vs @ ?ws = vs @ ?ws" "after_point None (us @ vs @ ?ws)"
    "after_point None (us @ take n vs @ drop n vs)"
    using after_point_append [of None "us @ vs" ?ws] by simp_all
  have "follow_lines (resumed (us @ vs)) 0 (take n vs @ ?ws) = (resumed (us @ vs @ ?ws), ?ws)"
  proof (cases "length vs \<le> n")
    case True
    with follow_segment [OF ap(2)] ap(1) show ?thesis by simp
  next
    case False
    with follow_stale [OF ap(3)] show ?thesis by simp
  qed
  then show ?thesis unfolding connect_def prod.case Let_def served by simp
qed

lemma connect_delivers:
  assumes logged: "after_point None logged" and del: "delivered logged (resumed out, out)"
  shows "delivered logged (connect logged (j, n) (resumed out, out))"
    "length logged \<le> min j (length out) + n \<Longrightarrow> snd (connect logged (j, n) (resumed out, out)) = logged"
proof -
  from del obtain rest where rest: "logged = out @ rest" by (auto simp: delivered_def)
  obtain us vs where out: "out = us @ vs" "min j (length out) = length us"
    by (metis append_take_drop_id length_take min.commute)
  let ?ws = "take (n - length vs) rest"
  have run: "connect logged (j, n) (resumed out, out) = (resumed (us @ vs @ ?ws), us @ vs @ ?ws)"
    using connect_split [of us vs rest j n] logged out(2) unfolding rest out(1) by simp
  have "logged = (us @ vs @ ?ws) @ drop (n - length vs) rest" by (simp add: rest out(1))
  then show "delivered logged (connect logged (j, n) (resumed out, out))"
    unfolding run delivered_def fst_conv snd_conv by blast
  assume "length logged \<le> min j (length out) + n"
  then have "length rest \<le> n - length vs" unfolding out(2) unfolding rest out(1) by simp
  then show "snd (connect logged (j, n) (resumed out, out)) = logged" unfolding run by (simp add: rest out(1))
qed

text \<open>For a container whose lines have strictly increasing timestamps, the lines delivered over any
  number of broken and resumed connections are the log up to some point, without a gap and without a
  duplicate; once a connection serves the log to its end, all of it has been delivered.\<close>

lemma lines_exactly_once:
  assumes "after_point None logged"
  shows "(\<exists>rest. logged = snd (fold (connect logged) served (resume_default, [])) @ rest) \<and>
    snd (fold (connect logged) (served @ [(j, length logged + length logged)]) (resume_default, [])) = logged"
proof -
  have "delivered logged (fold (connect logged) served state)" if "delivered logged state" for state
    using that
  proof (induction served arbitrary: state)
    case (Cons jn served)
    obtain j n where jn: "jn = (j, n)" by fastforce
    obtain r out where "state = (r, out)" by fastforce
    with Cons.prems have "state = (resumed out, out)" by (simp add: delivered_def)
    with Cons connect_delivers(1) [OF assms, of out j n] show ?case by (simp add: jn)
  qed simp
  moreover have "delivered logged (resume_default, [])" by (simp add: delivered_def resumed_def)
  ultimately have del: "delivered logged (fold (connect logged) served (resume_default, []))" by blast
  obtain r out where run: "fold (connect logged) served (resume_default, []) = (r, out)" by fastforce
  with del have "r = resumed out" by (simp add: delivered_def)
  with del run connect_delivers(2) [OF assms, of out j "length logged + length logged"] show ?thesis
    by (auto simp: delivered_def)
qed

definition sample_line :: "int \<Rightarrow> raw_line" where
  "sample_line ts = \<lparr>rl_pod = ''web-0'', rl_container = ''app'', rl_timestamp = Some ts, rl_text = ''ready''\<rparr>"

text \<open>Of two lines with the same timestamp a connection delivers only the first: the counter of lines
  already seen at the last timestamp also counts the ones this very connection has delivered.\<close>

lemma equal_stamps_lost:
  "snd (follow_lines resume_default 0 [l\<lparr>rl_timestamp := Some ts\<rparr>, m\<lparr>rl_timestamp := Some ts\<rparr>]) =
     [l\<lparr>rl_timestamp := Some ts\<rparr>]"
  by (simp add: resume_default_def is_duplicate_def record_line_def)

section \<open>Reading a line\<close>

text \<open>The bytes up to and including the next newline, or all of them.\<close>

definition line_of :: "char list \<Rightarrow> char list" where
  "line_of bytes = (case newline_at bytes of Some i \<Rightarrow> take (i + 1) bytes | None \<Rightarrow> bytes)"

lemma newline_at_bound: "newline_at bs = Some i \<Longrightarrow> i < length bs"
  by (induction bs arbitrary: i) (auto split: if_splits)

lemma newline_at_append:
  "newline_at (xs @ ys) =
     (case newline_at xs of Some i \<Rightarrow> Some i | None \<Rightarrow> map_option ((+) (length xs)) (newline_at ys))"
proof (induction xs)
  case Nil
  then show ?case by (cases "newline_at ys") auto
next
  case (Cons x xs)
  then show ?case by (cases "newline_at xs"; cases "newline_at ys") auto
qed

lemma line_of_first: "newline_at xs = Some i \<Longrightarrow> line_of (xs @ ys) = take (i + 1) xs"
  using newline_at_bound [of xs i] by (simp add: line_of_def newline_at_append)

lemma line_of_later: "newline_at xs = None \<Longrightarrow> line_of (xs @ ys) = xs @ line_of ys"
  by (simp add: line_of_def newline_at_append split: option.splits)

lemma take_grow: "length b \<le> n \<Longrightarrow> b @ take (n - length b) xs = take n (b @ xs)"
  by simp

lemma read_line_spec:
  "list_all (\<lambda>c. c \<noteq> []) chunks \<Longrightarrow> length buf \<le> limit \<Longrightarrow>
     (case read_line_capped limit chunks buf consumed of (n, line, rest) \<Rightarrow>
        n = consumed + length (line_of (concat chunks)) \<and> line = take limit (buf @ line_of (concat chunks)) \<and>
        concat rest = drop (length (line_of (concat chunks))) (concat chunks))"
proof (induction limit chunks buf consumed rule: read_line_capped.induct)
  case (1 limit buf consumed)
  then show ?case by (simp add: line_of_def)
next
  case (2 limit available chunks buf consumed)
  show ?case
  proof (cases "newline_at available")
    case (Some i)
    with newline_at_bound [OF Some] 2(2,3) line_of_first [OF Some, of "concat chunks"] show ?thesis
      by (simp add: min_def)
  next
    case None
    let ?buf = "buf @ take (min (length available) (limit - length buf)) available"
    have buf: "?buf = take limit (buf @ available)" using 2(3) by (simp add: min_def)
    have "length ?buf \<le> limit" unfolding buf by simp
    with 2(1) [OF _ None] 2(2) None line_of_later [OF None, of "concat chunks"] 2(3) show ?thesis
      by (auto simp: min_def split: prod.splits)
  qed
qed

text \<open>Reading a line off a connection does not depend on how its bytes arrive in chunks: what is
  consumed is exactly the next line with its newline, and what is kept of it is its first bytes, up to
  the limit.\<close>

lemma read_line_chunks:
  assumes "list_all (\<lambda>c. c \<noteq> []) chunks"
  shows "case read_line_capped limit chunks [] 0 of (n, line, rest) \<Rightarrow>
      n = length (line_of (concat chunks)) \<and> line = take limit (line_of (concat chunks)) \<and>
      concat rest = drop n (concat chunks)"
  using read_line_spec [of chunks "[]" limit 0] assms by auto

section \<open>Cutting long lines\<close>

lemma slice_to_bytes: "slice_to n s = Some t \<Longrightarrow> prefix t s \<and> byte_len t = n"
proof (induction n s arbitrary: t rule: slice_to.induct)
  case (3 n c s)
  then show ?case by (auto simp: as_bytes_def split: if_splits)
qed (auto simp: as_bytes_def)

lemma cut_back_bytes: "prefix (cut_back n s) s \<and> byte_len (cut_back n s) \<le> n"
proof (induction n)
  case 0
  show ?case by (subst (1 2) cut_back.simps) (simp add: as_bytes_def)
next
  case (Suc n)
  then show ?case
    using slice_to_bytes [of "Suc n" s] by (subst (1 2) cut_back.simps) (auto split: option.splits)
qed

text \<open>What is kept of a line is a prefix of it, within the limit, and the whole line if that is.\<close>

lemma truncate_text_keeps:
  "\<exists>t. prefix t s \<and> byte_len t \<le> limit \<and>
     truncate_text limit s = (if byte_len s \<le> limit then s else t @ '' '' @ ellipsis @ '' [line truncated]'')"
  using cut_back_bytes [of limit s] by (auto simp: truncate_text_def)

end
