(* ===== verification/LogView.thy ===== *)
theory LogView
  imports LogRing LogSearch LogMerge
begin

text \<open>
  The derived state of the log view (\<open>crates/kubyl_logs/src/view.rs\<close>): level counters, the visible
  and rendered lines and the search matches, all kept up to date line by line.  The list widget
  (\<open>list_state\<close>) and the other GPUI state are left out.  A field filter is \<open>'f\<close> with its
  predicate as a parameter.
\<close>

record ('r, 'f) log_view =
  v_ring :: ring
  level_counts :: "log_level \<Rightarrow> nat"
  last_levels :: "str \<times> str \<Rightarrow> log_level option"
  visible :: "nat list"
  rendered :: "nat list"
  v_cursor :: cursor
  v_search :: "'r search option"
  filter_to_matches :: bool
  active_levels :: "log_level \<Rightarrow> bool"
  field_filters :: "'f list"
  selection :: "(nat \<times> nat) option"
  frozen :: "nat list option"
  pause_limit :: "nat option"
  longest :: nat
  longest_stale :: bool
  pending_appended :: nat
  pending_evicted :: nat

record ('r, 'f) view_env =
  regexes :: "'r regex_lib"
  field_matches :: "'f \<Rightarrow> str \<Rightarrow> bool"
  json_parser :: "str \<Rightarrow> json option"

definition pop_front_if :: "nat \<Rightarrow> nat list \<Rightarrow> nat list" where
  "pop_front_if s xs = (case xs of [] \<Rightarrow> [] | x # ys \<Rightarrow> if x = s then ys else xs)"

definition after_push :: "log_line option \<Rightarrow> ('r, 'f) log_view \<Rightarrow> ('r, 'f) log_view" where
  "after_push out v =
     (case out of
        None \<Rightarrow> v
      | Some e \<Rightarrow>
          (let v = (if \<not> marker e
                    then v\<lparr>level_counts := (level_counts v)(level e := level_counts v (level e) - 1)\<rparr>
                    else v);
               v = v\<lparr>visible := pop_front_if (seq e) (visible v)\<rparr>;
               v = (if rendered v \<noteq> [] \<and> hd (rendered v) = seq e
                    then v\<lparr>longest_stale :=
                             (if longest v \<le> length (line_text e) then True else longest_stale v),
                           rendered := tl (rendered v),
                           pending_evicted := pending_evicted v + 1\<rparr>
                    else v);
               v = v\<lparr>v_cursor := remove_front_if (seq e) (v_cursor v)\<rparr>
           in (case selection v of
                 None \<Rightarrow> v
               | Some (anchor, head) \<Rightarrow>
                   (let front = seq e + 1 in
                    if max anchor head < front then v\<lparr>selection := None\<rparr>
                    else v\<lparr>selection := Some (max anchor front, max head front)\<rparr>))))"

definition add_visible :: "nat \<Rightarrow> bool \<Rightarrow> ('r, 'f) log_view \<Rightarrow> ('r, 'f) log_view" where
  "add_visible s search_match v =
     (let v = v\<lparr>visible := visible v @ [s]\<rparr>;
          v = (if search_match then v\<lparr>v_cursor := cursor_push_back s (v_cursor v)\<rparr> else v);
          restrict = (filter_to_matches v \<and> v_search v \<noteq> None)
      in if \<not> restrict \<or> search_match
         then (let v = (case (frozen v, get_by_seq (v_ring v) s) of
                          (None, Some l) \<Rightarrow> v\<lparr>longest := max (longest v) (length (line_text l))\<rparr>
                        | _ \<Rightarrow> v)
               in v\<lparr>rendered := rendered v @ [s], pending_appended := pending_appended v + 1\<rparr>)
         else v)"

definition is_search_match :: "('r, 'f) view_env \<Rightarrow> ('r, 'f) log_view \<Rightarrow> str \<Rightarrow> bool" where
  "is_search_match env v txt =
     (case v_search v of None \<Rightarrow> False | Some s \<Rightarrow> search_matches (regexes env) s txt)"

text \<open>\<open>push_raw\<close>, in two steps: the level of the line (a stack trace belongs to the line before it), then
  the push with the derived structures.\<close>

definition raw_level ::
  "('r, 'f) view_env \<Rightarrow> raw_line \<Rightarrow> ('r, 'f) log_view \<Rightarrow> log_level \<times> ('r, 'f) log_view" where
  "raw_level env raw v =
     (let key = (rl_pod raw, rl_container raw);
          detected = detect_level (json_parser env) (rl_text raw)
      in if detected = Unknown \<and> is_continuation (rl_text raw)
         then (unwrap_or (last_levels v key) Unknown, v)
         else (detected, v\<lparr>last_levels := (last_levels v)(key \<mapsto> detected)\<rparr>))"

definition push_leveled ::
  "('r, 'f) view_env \<Rightarrow> raw_line \<Rightarrow> log_level \<Rightarrow> ('r, 'f) log_view \<Rightarrow> ('r, 'f) log_view" where
  "push_leveled env raw lv v =
     (let search_match = is_search_match env v (rl_text raw);
          passes_fields = list_all (\<lambda>f. field_matches env f (rl_text raw)) (field_filters v);
          (r, s, out) = push_with (\<lambda>s. with_level s (rl_pod raw) (rl_container raw)
                                         (rl_timestamp raw) (rl_text raw) lv) (v_ring v);
          v1 = v\<lparr>v_ring := r, level_counts := (level_counts v)(lv := level_counts v lv + 1)\<rparr>;
          v2 = after_push out v1
      in if active_levels v2 lv \<and> passes_fields then add_visible s search_match v2 else v2)"

definition push_raw :: "('r, 'f) view_env \<Rightarrow> raw_line \<Rightarrow> ('r, 'f) log_view \<Rightarrow> ('r, 'f) log_view" where
  "push_raw env raw v = (let (lv, v') = raw_level env raw v in push_leveled env raw lv v')"

definition view_push_marker :: "str \<Rightarrow> str \<Rightarrow> ('r, 'f) log_view \<Rightarrow> ('r, 'f) log_view" where
  "view_push_marker p msg v =
     (let (r, s, out) = push_with (\<lambda>s. marker_line s p [] msg) (v_ring v)
      in add_visible s False (after_push out (v\<lparr>v_ring := r\<rparr>)))"

section \<open>Recomputing\<close>

definition seq_matches :: "('r, 'f) view_env \<Rightarrow> ('r, 'f) log_view \<Rightarrow> nat \<Rightarrow> bool" where
  "seq_matches env v s =
     (case get_by_seq (v_ring v) s of
        None \<Rightarrow> False
      | Some l \<Rightarrow> \<not> marker l \<and> is_search_match env v (line_text l))"

definition rebuild_matches :: "('r, 'f) view_env \<Rightarrow> ('r, 'f) log_view \<Rightarrow> ('r, 'f) log_view" where
  "rebuild_matches env v =
     (let ms = (case v_search v of
                  None \<Rightarrow> []
                | Some search \<Rightarrow>
                    map seq (filter (\<lambda>l. \<not> marker l \<and> search_matches (regexes env) search (line_text l))
                      (List.map_filter (get_by_seq (v_ring v)) (visible v))))
      in v\<lparr>v_cursor := set_matches ms (v_cursor v)\<rparr>)"

definition rebuild_rendered :: "('r, 'f) view_env \<Rightarrow> ('r, 'f) log_view \<Rightarrow> ('r, 'f) log_view" where
  "rebuild_rendered env v =
     (let rows = (if filter_to_matches v \<and> v_search v \<noteq> None
                  then filter (seq_matches env v) (visible v) else visible v);
          v = v\<lparr>rendered := rows, longest_stale := True, pending_appended := 0, pending_evicted := 0\<rparr>
      in (case frozen v of
            None \<Rightarrow> v
          | Some _ \<Rightarrow> v\<lparr>frozen := Some (filter
              (\<lambda>s. case pause_limit v of None \<Rightarrow> False | Some last_seq \<Rightarrow> s \<le> last_seq) (rendered v))\<rparr>))"

definition line_visible :: "('r, 'f) view_env \<Rightarrow> ('r, 'f) log_view \<Rightarrow> log_line \<Rightarrow> bool" where
  "line_visible env v l =
     (marker l \<or> (active_levels v (level l) \<and>
                  list_all (\<lambda>f. field_matches env f (line_text l)) (field_filters v)))"

definition rebuild_visible :: "('r, 'f) view_env \<Rightarrow> ('r, 'f) log_view \<Rightarrow> ('r, 'f) log_view" where
  "rebuild_visible env v =
     rebuild_rendered env (rebuild_matches env
       (v\<lparr>visible := map seq (filter (line_visible env v) (lines (v_ring v)))\<rparr>))"

definition toggle_level ::
  "('r, 'f) view_env \<Rightarrow> log_level \<Rightarrow> ('r, 'f) log_view \<Rightarrow> ('r, 'f) log_view" where
  "toggle_level env lv v =
     rebuild_visible env (v\<lparr>active_levels := (active_levels v)(lv := \<not> active_levels v lv)\<rparr>)"

definition add_field_filter ::
  "('r, 'f) view_env \<Rightarrow> 'f \<Rightarrow> ('r, 'f) log_view \<Rightarrow> ('r, 'f) log_view" where
  "add_field_filter env f v =
     (if f \<notin> set (field_filters v)
      then rebuild_visible env (v\<lparr>field_filters := field_filters v @ [f]\<rparr>) else v)"

definition remove_field_filter ::
  "('r, 'f) view_env \<Rightarrow> nat \<Rightarrow> ('r, 'f) log_view \<Rightarrow> ('r, 'f) log_view" where
  "remove_field_filter env ix v =
     (if ix < length (field_filters v)
      then rebuild_visible env
        (v\<lparr>field_filters := take ix (field_filters v) @ drop (Suc ix) (field_filters v)\<rparr>)
      else v)"

definition clear_filters :: "('r, 'f) view_env \<Rightarrow> ('r, 'f) log_view \<Rightarrow> ('r, 'f) log_view" where
  "clear_filters env v =
     rebuild_visible env (v\<lparr>active_levels := (\<lambda>_. True), field_filters := [],
       filter_to_matches := False, v_search := None\<rparr>)"

definition set_query ::
  "('r, 'f) view_env \<Rightarrow> str \<Rightarrow> bool \<Rightarrow> bool \<Rightarrow> ('r, 'f) log_view \<Rightarrow> ('r, 'f) log_view" where
  "set_query env q regex cs v =
     (let v = v\<lparr>v_search :=
                  (if q = [] then None
                   else (case search_new (regexes env) q regex cs of
                           Inr s \<Rightarrow> Some s | Inl _ \<Rightarrow> None))\<rparr>;
          v = rebuild_matches env v
      in if filter_to_matches v then rebuild_rendered env v else v)"

text \<open>The view as it is made: every level shown, nothing filtered.\<close>

definition view_new :: "nat \<Rightarrow> ('r, 'f) log_view" where
  "view_new ring_buffer_lines =
     \<lparr>v_ring = ring_new ring_buffer_lines, level_counts = (\<lambda>_. 0), last_levels = (\<lambda>_. None),
      visible = [], rendered = [], v_cursor = cursor_default, v_search = None,
      filter_to_matches = False, active_levels = (\<lambda>_. True), field_filters = [], selection = None,
      frozen = None, pause_limit = None, longest = 0, longest_stale = False,
      pending_appended = 0, pending_evicted = 0\<rparr>"

definition clear_lines :: "nat \<Rightarrow> ('r, 'f) log_view \<Rightarrow> ('r, 'f) log_view" where
  "clear_lines ring_buffer_lines v =
     v\<lparr>v_ring := ring_new ring_buffer_lines, level_counts := (\<lambda>_. 0), last_levels := (\<lambda>_. None),
       visible := [], rendered := [], pending_appended := 0, pending_evicted := 0,
       v_cursor := cursor_default, frozen := None, pause_limit := None, selection := None,
       longest := 0, longest_stale := False\<rparr>"

definition toggle_filter_to_matches ::
  "('r, 'f) view_env \<Rightarrow> ('r, 'f) log_view \<Rightarrow> ('r, 'f) log_view" where
  "toggle_filter_to_matches env v =
     rebuild_rendered env (v\<lparr>filter_to_matches := \<not> filter_to_matches v\<rparr>)"

definition toggle_pause :: "('r, 'f) log_view \<Rightarrow> ('r, 'f) log_view" where
  "toggle_pause v =
     (let v = v\<lparr>longest_stale := True\<rparr>
      in (case frozen v of
            Some _ \<Rightarrow> v\<lparr>frozen := None, pause_limit := None\<rparr>
          | None \<Rightarrow> v\<lparr>frozen := Some (rendered v),
                      pause_limit := (if lines (v_ring v) = [] then None
                                      else Some (seq (last (lines (v_ring v)))))\<rparr>))"

section \<open>Incremental upkeep is recomputation\<close>

definition shown_match :: "('r, 'f) view_env \<Rightarrow> ('r, 'f) log_view \<Rightarrow> log_line \<Rightarrow> bool" where
  "shown_match env v l \<longleftrightarrow> \<not> marker l \<and> is_search_match env v (line_text l)"

definition restricted :: "('r, 'f) log_view \<Rightarrow> bool" where
  "restricted v \<longleftrightarrow> filter_to_matches v \<and> v_search v \<noteq> None"

definition view_inv :: "('r, 'f) view_env \<Rightarrow> ('r, 'f) log_view \<Rightarrow> bool" where
  "view_inv env v \<longleftrightarrow>
     ring_inv (v_ring v) \<and>
     visible v = map seq (filter (line_visible env v) (lines (v_ring v))) \<and>
     rendered v = map seq (filter (\<lambda>l. line_visible env v l \<and> (restricted v \<longrightarrow> shown_match env v l))
                    (lines (v_ring v))) \<and>
     matches (v_cursor v) = map seq (filter (\<lambda>l. line_visible env v l \<and> shown_match env v l)
                    (lines (v_ring v))) \<and>
     cursor_inv (v_cursor v) \<and>
     (\<forall>lv. level_counts v lv = length (filter (\<lambda>l. \<not> marker l \<and> level l = lv) (lines (v_ring v))))"

lemma ring_inv_distinct: "ring_inv r \<Longrightarrow> distinct (map seq (lines r))"
  by (simp add: ring_inv_def)

lemma pop_front_if_filter:
  assumes "distinct (map seq (e # ls))"
  shows "pop_front_if (seq e) (map seq (filter P (e # ls))) = map seq (filter P ls)"
proof (cases "filter P ls")
  case (Cons x xs)
  then have "x \<in> set ls" by (auto dest: filter_eq_ConsD)
  then have "seq x \<in> set (map seq ls)" by simp
  then have "seq x \<noteq> seq e" using assms by (metis distinct.simps(2) list.simps(9))
  with Cons show ?thesis by (simp add: pop_front_if_def)
qed (simp add: pop_front_if_def)

lemma ring_inv_get:
  assumes "ring_inv r" "l \<in> set (lines r)"
  shows "get_by_seq r (seq l) = Some l"
proof -
  obtain i where i: "i < length (lines r)" "lines r ! i = l"
    using assms(2) by (auto simp: in_set_conv_nth)
  have "map seq (lines r) ! i = [next_seq r - length (lines r) ..< next_seq r] ! i"
    using assms(1) by (simp add: ring_inv_def)
  moreover have "length (lines r) \<le> next_seq r"
    using assms(1) by (simp add: ring_inv_def)
  ultimately have "seq l = ring_first r + i"
    using i by (simp add: ring_first_def nth_upt)
  then show ?thesis
    using assms(1) i by (simp add: ring_lookup_window window_at_def)
qed

text \<open>The derived lists against a line list, for any visibility predicate \<open>P\<close>, match predicate \<open>Q\<close>
  and restriction \<open>R\<close>.\<close>

definition synced ::
  "(log_line \<Rightarrow> bool) \<Rightarrow> (log_line \<Rightarrow> bool) \<Rightarrow> bool \<Rightarrow> log_line list \<Rightarrow> ('r, 'f) log_view \<Rightarrow> bool" where
  "synced P Q R ls v \<longleftrightarrow>
     visible v = map seq (filter P ls) \<and>
     rendered v = map seq (filter (\<lambda>l. P l \<and> (R \<longrightarrow> Q l)) ls) \<and>
     matches (v_cursor v) = map seq (filter (\<lambda>l. P l \<and> Q l) ls) \<and>
     cursor_inv (v_cursor v)"

definition counted :: "log_line list \<Rightarrow> (log_level \<Rightarrow> nat) \<Rightarrow> bool" where
  "counted ls c \<longleftrightarrow> (\<forall>lv. c lv = length (filter (\<lambda>l. \<not> marker l \<and> level l = lv) ls))"

lemma view_inv_iff:
  "view_inv env v \<longleftrightarrow>
     ring_inv (v_ring v) \<and>
     synced (line_visible env v) (shown_match env v) (restricted v) (lines (v_ring v)) v \<and>
     counted (lines (v_ring v)) (level_counts v)"
  by (auto simp: view_inv_def synced_def counted_def)

lemma after_push_fields [simp]:
  "v_ring (after_push out v) = v_ring v"
  "v_search (after_push out v) = v_search v"
  "filter_to_matches (after_push out v) = filter_to_matches v"
  "active_levels (after_push out v) = active_levels v"
  "field_filters (after_push out v) = field_filters v"
  by (simp_all add: after_push_def Let_def split: option.splits)

lemma after_push_Some:
  "visible (after_push (Some e) v) = pop_front_if (seq e) (visible v)"
  "rendered (after_push (Some e) v) = pop_front_if (seq e) (rendered v)"
  "v_cursor (after_push (Some e) v) = remove_front_if (seq e) (v_cursor v)"
  "level_counts (after_push (Some e) v) =
     (if marker e then level_counts v
      else (level_counts v)(level e := level_counts v (level e) - 1))"
  by (auto simp: after_push_def Let_def pop_front_if_def split: option.splits list.splits)

lemma after_push_None [simp]: "after_push None v = v"
  by (simp add: after_push_def)

lemma matches_remove_pop: "matches (remove_front_if s c) = pop_front_if s (matches c)"
  by (auto simp: matches_remove pop_front_if_def split: list.splits)

lemma synced_evict:
  assumes "synced P Q R (e # ls) v" "distinct (map seq (e # ls))"
  shows "synced P Q R ls (after_push (Some e) v)"
  using assms pop_front_if_filter [OF assms(2)]
  by (auto simp: synced_def after_push_Some matches_remove_pop simp del: filter.simps)

lemma counted_evict:
  assumes "counted (e # ls @ [l]) c"
  shows "counted (ls @ [l]) (if marker e then c else c(level e := c (level e) - 1))"
  using assms by (auto simp: counted_def)

lemma counted_add:
  "counted ls c \<Longrightarrow> \<not> marker l \<Longrightarrow> counted (ls @ [l]) (c(level l := c (level l) + 1))"
  by (auto simp: counted_def)

lemma counted_marker: "counted ls c \<Longrightarrow> marker l \<Longrightarrow> counted (ls @ [l]) c"
  by (auto simp: counted_def)

lemma add_visible_fields [simp]:
  "v_ring (add_visible s m v) = v_ring v"
  "v_search (add_visible s m v) = v_search v"
  "filter_to_matches (add_visible s m v) = filter_to_matches v"
  "active_levels (add_visible s m v) = active_levels v"
  "field_filters (add_visible s m v) = field_filters v"
  "level_counts (add_visible s m v) = level_counts v"
  by (simp_all add: add_visible_def Let_def split: option.splits)

lemma add_visible_lists:
  "visible (add_visible s m v) = visible v @ [s]"
  "rendered (add_visible s m v) = rendered v @ (if \<not> restricted v \<or> m then [s] else [])"
  "v_cursor (add_visible s m v) = (if m then cursor_push_back s (v_cursor v) else v_cursor v)"
  by (auto simp: add_visible_def Let_def restricted_def split: option.splits)

lemma synced_add:
  assumes "synced P Q (restricted v) ls v" "P l"
  shows "synced P Q (restricted v) (ls @ [l]) (add_visible (seq l) (Q l) v)"
  using assms by (auto simp: synced_def add_visible_lists)

lemma synced_skip: "synced P Q R ls v \<Longrightarrow> \<not> P l \<Longrightarrow> synced P Q R (ls @ [l]) v"
  by (simp add: synced_def)

lemma push_with_cases:
  assumes "ring_inv r" "push_with mk r = (r', s, out)"
  obtains "out = None" "lines r' = lines r @ [mk s]"
  | e ls where "out = Some e" "lines r = e # ls" "lines r' = ls @ [mk s]"
proof (cases "capacity r \<le> length (lines r)")
  case True
  with assms(1) obtain e ls where "lines r = e # ls"
    by (cases "lines r") (auto simp: ring_inv_def)
  with True assms(2) that(2) show thesis
    by (auto simp: push_with_def push_line_def Let_def)
next
  case False
  with assms(2) that(1) show thesis
    by (auto simp: push_with_def push_line_def Let_def)
qed

lemma push_tail:
  assumes inv: "ring_inv r" and p: "push_with mk r = (r', s, out)" and mk: "\<And>s. seq (mk s) = s"
    and sy: "synced P Q R (lines r) w" and ct: "counted (lines r @ [mk s]) (level_counts w)"
  obtains ls where "lines r' = ls @ [mk s]" "synced P Q R ls (after_push out w)"
    "counted (lines r') (level_counts (after_push out w))" "ring_inv r'"
proof -
  have inv': "ring_inv r'"
    using ring_step_inv [OF inv, of "Push_With mk"] mk p by simp
  show thesis
  proof (rule push_with_cases [OF inv p])
    assume "out = None" "lines r' = lines r @ [mk s]"
    with that sy ct inv' show thesis by simp
  next
    fix e ls assume e: "out = Some e" "lines r = e # ls" "lines r' = ls @ [mk s]"
    with ring_inv_distinct [OF inv] have "distinct (map seq (e # ls))" by simp
    with e that sy ct inv' show thesis
      using synced_evict [of P Q R e ls w] counted_evict [of e ls "mk s" "level_counts w"]
      by (auto simp: after_push_Some)
  qed
qed

lemma line_visible_eq:
  "active_levels w = active_levels v \<Longrightarrow> field_filters w = field_filters v \<Longrightarrow>
     line_visible env w = line_visible env v"
  by (simp add: line_visible_def fun_eq_iff)

lemma shown_match_eq:
  "v_search w = v_search v \<Longrightarrow> shown_match env w = shown_match env v"
  by (simp add: shown_match_def is_search_match_def fun_eq_iff)

lemma restricted_eq:
  "v_search w = v_search v \<Longrightarrow> filter_to_matches w = filter_to_matches v \<Longrightarrow>
     restricted w = restricted v"
  by (simp add: restricted_def)

lemma spec_eqs:
  assumes "active_levels w = active_levels v" "field_filters w = field_filters v"
    "v_search w = v_search v" "filter_to_matches w = filter_to_matches v"
  shows "line_visible env w = line_visible env v" "shown_match env w = shown_match env v"
    "restricted w = restricted v"
  by (rule line_visible_eq [OF assms(1,2)] shown_match_eq [OF assms(3)] restricted_eq [OF assms(3,4)])+

lemma with_level_simps [simp]:
  "seq (with_level s p c ts txt lv) = s" "marker (with_level s p c ts txt lv) = False"
  "level (with_level s p c ts txt lv) = lv" "line_text (with_level s p c ts txt lv) = txt"
  by (simp_all add: with_level_def)

lemma marker_line_marker [simp]: "marker (marker_line s p c msg)"
  by (simp add: marker_line_def with_level_def)

lemma push_leveled_inv:
  assumes v: "view_inv env v"
  shows "view_inv env (push_leveled env raw lv v)"
proof -
  define mk where "mk = (\<lambda>s. with_level s (rl_pod raw) (rl_container raw)
      (rl_timestamp raw) (rl_text raw) lv)"
  obtain r s out where p: "push_with mk (v_ring v) = (r, s, out)"
    by (metis prod_cases3)
  define v1 where "v1 = v\<lparr>v_ring := r, level_counts := (level_counts v)(lv := level_counts v lv + 1)\<rparr>"
  define v2 where "v2 = after_push out v1"
  have res: "push_leveled env raw lv v =
      (if active_levels v2 lv \<and> list_all (\<lambda>f. field_matches env f (rl_text raw)) (field_filters v)
       then add_visible s (is_search_match env v (rl_text raw)) v2 else v2)"
    using p unfolding push_leveled_def v2_def v1_def mk_def Let_def by simp
  let ?P = "line_visible env v" and ?Q = "shown_match env v" and ?R = "restricted v"
  have sy: "synced ?P ?Q ?R (lines (v_ring v)) v1" and ct: "counted (lines (v_ring v) @ [mk s]) (level_counts v1)"
    using v counted_add [of "lines (v_ring v)" "level_counts v" "mk s"]
    by (auto simp: view_inv_iff synced_def v1_def mk_def)
  have fields: "active_levels v2 = active_levels v" "field_filters v2 = field_filters v"
      "v_search v2 = v_search v" "filter_to_matches v2 = filter_to_matches v" "v_ring v2 = r"
    by (simp_all add: v2_def v1_def)
  have eqs: "line_visible env v2 = ?P" "shown_match env v2 = ?Q" "restricted v2 = ?R"
    using spec_eqs [where w = v2 and v = v] fields by simp_all
  have added: "line_visible env (add_visible s m v2) = ?P" "shown_match env (add_visible s m v2) = ?Q"
      "restricted (add_visible s m v2) = ?R" for m
    using spec_eqs [where w = v2 and v = v] spec_eqs [where w = "add_visible s m v2" and v = v] fields by simp_all
  obtain ls where ls: "lines r = ls @ [mk s]" "synced ?P ?Q ?R ls v2"
      "counted (lines r) (level_counts v2)" "ring_inv r"
    using push_tail [OF _ p _ sy ct] v unfolding v2_def view_inv_iff by (auto simp: mk_def)
  have mk_s: "seq (mk s) = s" by (simp add: mk_def)
  show ?thesis
  proof (cases "?P (mk s)")
    case True
    then have "push_leveled env raw lv v = add_visible s (?Q (mk s)) v2"
      using res fields by (simp add: line_visible_def mk_def shown_match_def)
    moreover have "synced ?P ?Q ?R (ls @ [mk s]) (add_visible s (?Q (mk s)) v2)"
      using synced_add [of ?P ?Q v2 ls "mk s"] ls(2) True eqs mk_s by simp
    ultimately show ?thesis
      using ls fields added by (simp add: view_inv_iff)
  next
    case False
    then have "push_leveled env raw lv v = v2"
      using res fields by (auto simp: line_visible_def mk_def)
    then show ?thesis
      using ls fields eqs synced_skip [of ?P ?Q ?R ls v2 "mk s"] False by (simp add: view_inv_iff)
  qed
qed

lemma raw_level_inv:
  assumes "view_inv env v"
  shows "view_inv env (snd (raw_level env raw v))"
proof -
  let ?w = "snd (raw_level env raw v)"
  have lists: "visible ?w = visible v" "rendered ?w = rendered v" "v_cursor ?w = v_cursor v"
      "level_counts ?w = level_counts v" "v_ring ?w = v_ring v"
    and fields: "active_levels ?w = active_levels v" "field_filters ?w = field_filters v"
      "v_search ?w = v_search v" "filter_to_matches ?w = filter_to_matches v"
    by (simp_all add: raw_level_def Let_def)
  show ?thesis
    using assms unfolding view_inv_iff synced_def lists spec_eqs [OF fields] .
qed

lemma push_raw_inv: "view_inv env v \<Longrightarrow> view_inv env (push_raw env raw v)"
  using raw_level_inv push_leveled_inv by (metis (no_types, lifting) case_prod_beta push_raw_def)

lemma view_push_marker_inv:
  assumes v: "view_inv env v"
  shows "view_inv env (view_push_marker p msg v)"
proof -
  let ?mk = "\<lambda>s. marker_line s p [] msg"
  obtain r s out where p: "push_with ?mk (v_ring v) = (r, s, out)"
    by (metis prod_cases3)
  define v1 where "v1 = v\<lparr>v_ring := r\<rparr>"
  define v2 where "v2 = after_push out v1"
  have res: "view_push_marker p msg v = add_visible s False v2"
    using p by (simp add: view_push_marker_def v2_def v1_def)
  let ?P = "line_visible env v" and ?Q = "shown_match env v" and ?R = "restricted v"
  have sy: "synced ?P ?Q ?R (lines (v_ring v)) v1" and ct: "counted (lines (v_ring v) @ [?mk s]) (level_counts v1)"
    using v counted_marker [of "lines (v_ring v)" "level_counts v" "?mk s"]
    by (auto simp: view_inv_iff synced_def v1_def)
  have fields: "active_levels v2 = active_levels v" "field_filters v2 = field_filters v"
      "v_search v2 = v_search v" "filter_to_matches v2 = filter_to_matches v" "v_ring v2 = r"
    by (simp_all add: v2_def v1_def)
  have eqs: "restricted v2 = ?R"
    using spec_eqs [where w = v2 and v = v] fields by simp
  have added: "line_visible env (add_visible s m v2) = ?P" "shown_match env (add_visible s m v2) = ?Q"
      "restricted (add_visible s m v2) = ?R" for m
    using spec_eqs [where w = v2 and v = v] spec_eqs [where w = "add_visible s m v2" and v = v] fields by simp_all
  obtain ls where ls: "lines r = ls @ [?mk s]" "synced ?P ?Q ?R ls v2"
      "counted (lines r) (level_counts v2)" "ring_inv r"
    using push_tail [OF _ p _ sy ct] v unfolding v2_def view_inv_iff by auto
  have "synced ?P ?Q ?R (ls @ [?mk s]) (add_visible s (?Q (?mk s)) v2)"
    using synced_add [of ?P ?Q v2 ls "?mk s"] ls(2) eqs by (simp add: line_visible_def)
  then show ?thesis
    using ls fields added by (simp add: view_inv_iff res shown_match_def)
qed

lemma map_filter_get:
  assumes "ring_inv r" "set ls \<subseteq> set (lines r)"
  shows "List.map_filter (get_by_seq r) (map seq ls) = ls"
  using assms(2) ring_inv_get [OF assms(1)]
  by (induction ls) (auto simp: List.map_filter_simps)

lemma seq_matches_filter:
  assumes "ring_inv (v_ring v)" "set ls \<subseteq> set (lines (v_ring v))"
  shows "filter (seq_matches env v) (map seq ls) = map seq (filter (shown_match env v) ls)"
  using assms(2) ring_inv_get [OF assms(1)]
  by (induction ls) (auto simp: seq_matches_def shown_match_def)

definition visible_ok :: "('r, 'f) view_env \<Rightarrow> ('r, 'f) log_view \<Rightarrow> bool" where
  "visible_ok env v \<longleftrightarrow>
     ring_inv (v_ring v) \<and> counted (lines (v_ring v)) (level_counts v) \<and>
     visible v = map seq (filter (line_visible env v) (lines (v_ring v)))"

definition matches_ok :: "('r, 'f) view_env \<Rightarrow> ('r, 'f) log_view \<Rightarrow> bool" where
  "matches_ok env v \<longleftrightarrow> cursor_inv (v_cursor v) \<and>
     matches (v_cursor v) = map seq (filter (\<lambda>l. line_visible env v l \<and> shown_match env v l)
                    (lines (v_ring v)))"

lemma view_inv_parts:
  "view_inv env v \<longleftrightarrow> visible_ok env v \<and> matches_ok env v \<and>
     rendered v = map seq (filter (\<lambda>l. line_visible env v l \<and> (restricted v \<longrightarrow> shown_match env v l))
                    (lines (v_ring v)))"
  by (auto simp: view_inv_iff synced_def visible_ok_def matches_ok_def)

lemma rebuild_matches_fields:
  "v_ring (rebuild_matches env v) = v_ring v" "visible (rebuild_matches env v) = visible v"
  "rendered (rebuild_matches env v) = rendered v"
  "level_counts (rebuild_matches env v) = level_counts v"
  "v_search (rebuild_matches env v) = v_search v"
  "filter_to_matches (rebuild_matches env v) = filter_to_matches v"
  "active_levels (rebuild_matches env v) = active_levels v"
  "field_filters (rebuild_matches env v) = field_filters v"
  by (simp_all add: rebuild_matches_def Let_def)

lemma rebuild_rendered_fields:
  "v_ring (rebuild_rendered env v) = v_ring v" "visible (rebuild_rendered env v) = visible v"
  "v_cursor (rebuild_rendered env v) = v_cursor v"
  "level_counts (rebuild_rendered env v) = level_counts v"
  "v_search (rebuild_rendered env v) = v_search v"
  "filter_to_matches (rebuild_rendered env v) = filter_to_matches v"
  "active_levels (rebuild_rendered env v) = active_levels v"
  "field_filters (rebuild_rendered env v) = field_filters v"
  "rendered (rebuild_rendered env v) =
     (if restricted v then filter (seq_matches env v) (visible v) else visible v)"
  by (simp_all add: rebuild_rendered_def Let_def restricted_def split: option.splits)

lemmas rebuild_matches_spec = spec_eqs [OF rebuild_matches_fields(7,8,5,6)]
lemmas rebuild_rendered_spec = spec_eqs [OF rebuild_rendered_fields(7,8,5,6)]

lemma rebuild_matches_ok:
  assumes "visible_ok env v"
  shows "visible_ok env (rebuild_matches env v)" "matches_ok env (rebuild_matches env v)"
proof -
  show "visible_ok env (rebuild_matches env v)"
    using assms by (simp add: visible_ok_def rebuild_matches_fields rebuild_matches_spec)
  have "List.map_filter (get_by_seq (v_ring v)) (visible v) =
      filter (line_visible env v) (lines (v_ring v))"
    using assms map_filter_get [of "v_ring v" "filter (line_visible env v) (lines (v_ring v))"]
    by (auto simp: visible_ok_def)
  then have "matches (v_cursor (rebuild_matches env v)) =
      map seq (filter (\<lambda>l. line_visible env v l \<and> shown_match env v l) (lines (v_ring v)))"
    by (simp add: rebuild_matches_def Let_def shown_match_def is_search_match_def conj_commute
        split: option.splits)
  moreover have "cursor_inv (v_cursor (rebuild_matches env v))"
    by (simp add: rebuild_matches_def Let_def)
  ultimately show "matches_ok env (rebuild_matches env v)"
    by (simp add: matches_ok_def rebuild_matches_fields rebuild_matches_spec)
qed

lemma rebuild_rendered_inv:
  assumes "visible_ok env v" "matches_ok env v"
  shows "view_inv env (rebuild_rendered env v)"
proof -
  have "filter (seq_matches env v) (visible v) =
      map seq (filter (\<lambda>l. line_visible env v l \<and> shown_match env v l) (lines (v_ring v)))"
    using assms(1) seq_matches_filter [of v "filter (line_visible env v) (lines (v_ring v))"]
    by (auto simp: visible_ok_def conj_commute)
  with assms show ?thesis
    by (auto simp: view_inv_parts visible_ok_def matches_ok_def rebuild_rendered_fields
        rebuild_rendered_spec)
qed

lemma rebuild_visible_inv:
  assumes "ring_inv (v_ring v)" "counted (lines (v_ring v)) (level_counts v)"
  shows "view_inv env (rebuild_visible env v)"
proof -
  let ?w = "v\<lparr>visible := map seq (filter (line_visible env v) (lines (v_ring v)))\<rparr>"
  have "line_visible env ?w = line_visible env v"
    by (rule line_visible_eq) simp_all
  with assms have "visible_ok env ?w"
    by (simp add: visible_ok_def)
  then show ?thesis
    unfolding rebuild_visible_def by (intro rebuild_rendered_inv rebuild_matches_ok)
qed

lemma view_inv_ring: "view_inv env v \<Longrightarrow> ring_inv (v_ring v) \<and> counted (lines (v_ring v)) (level_counts v)"
  by (simp add: view_inv_iff)

lemma set_query_inv:
  assumes "view_inv env v"
  shows "view_inv env (set_query env q regex cs v)"
proof -
  let ?w = "v\<lparr>v_search := (if q = [] then None
      else (case search_new (regexes env) q regex cs of Inr s \<Rightarrow> Some s | Inl _ \<Rightarrow> None))\<rparr>"
  have "line_visible env ?w = line_visible env v"
    by (rule line_visible_eq) simp_all
  with assms have w: "visible_ok env ?w"
    by (simp add: view_inv_parts visible_ok_def)
  let ?u = "rebuild_matches env ?w"
  note u = rebuild_matches_ok [OF w]
  show ?thesis
  proof (cases "filter_to_matches v")
    case True
    then have "set_query env q regex cs v = rebuild_rendered env ?u"
      by (simp add: set_query_def Let_def rebuild_matches_fields)
    with rebuild_rendered_inv [OF u] show ?thesis by simp
  next
    case False
    then have eq: "set_query env q regex cs v = ?u"
      by (simp add: set_query_def Let_def rebuild_matches_fields)
    have "rendered ?u = visible ?u" "\<not> restricted ?u"
      using assms False
      by (auto simp: rebuild_matches_fields view_inv_parts visible_ok_def restricted_def)
    with u show ?thesis
      by (auto simp: eq view_inv_parts visible_ok_def)
  qed
qed

lemma toggle_filter_inv:
  assumes "view_inv env v"
  shows "view_inv env (toggle_filter_to_matches env v)"
proof -
  let ?w = "v\<lparr>filter_to_matches := \<not> filter_to_matches v\<rparr>"
  have "line_visible env ?w = line_visible env v" "shown_match env ?w = shown_match env v"
    by (rule line_visible_eq shown_match_eq; simp)+
  with assms have "visible_ok env ?w" "matches_ok env ?w"
    by (simp_all add: view_inv_parts visible_ok_def matches_ok_def)
  then show ?thesis
    unfolding toggle_filter_to_matches_def by (rule rebuild_rendered_inv)
qed

lemma toggle_pause_inv:
  assumes "view_inv env v"
  shows "view_inv env (toggle_pause v)"
proof -
  let ?w = "toggle_pause v"
  have lists: "visible ?w = visible v" "rendered ?w = rendered v" "v_cursor ?w = v_cursor v"
      "level_counts ?w = level_counts v" "v_ring ?w = v_ring v"
    and fields: "active_levels ?w = active_levels v" "field_filters ?w = field_filters v"
      "v_search ?w = v_search v" "filter_to_matches ?w = filter_to_matches v"
    by (simp_all add: toggle_pause_def Let_def split: option.splits)
  show ?thesis
    using assms unfolding view_inv_iff synced_def lists spec_eqs [OF fields] .
qed

lemma clear_lines_inv: "view_inv env (clear_lines n v)"
  by (simp add: view_inv_def clear_lines_def ring_inv_new, simp add: ring_new_def cursor_default_def)

section \<open>Every operation of the view\<close>

datatype 'f view_op =
    Push_Raw raw_line
  | Push_Marker str str
  | Toggle_Level log_level
  | Set_Query str bool bool
  | Toggle_Filter
  | Toggle_Pause
  | Next_Match
  | Prev_Match
  | Clear_Lines nat
  | Add_Filter 'f
  | Remove_Filter nat
  | Clear_Filters

fun view_step :: "('r, 'f) view_env \<Rightarrow> 'f view_op \<Rightarrow> ('r, 'f) log_view \<Rightarrow> ('r, 'f) log_view" where
  "view_step env (Push_Raw raw) v = push_raw env raw v"
| "view_step env (Push_Marker p msg) v = view_push_marker p msg v"
| "view_step env (Toggle_Level lv) v = toggle_level env lv v"
| "view_step env (Set_Query q regex cs) v = set_query env q regex cs v"
| "view_step env Toggle_Filter v = toggle_filter_to_matches env v"
| "view_step env Toggle_Pause v = toggle_pause v"
| "view_step env Next_Match v = v\<lparr>v_cursor := fst (go_next (v_cursor v))\<rparr>"
| "view_step env Prev_Match v = v\<lparr>v_cursor := fst (go_prev (v_cursor v))\<rparr>"
| "view_step env (Clear_Lines n) v = clear_lines n v"
| "view_step env (Add_Filter f) v = add_field_filter env f v"
| "view_step env (Remove_Filter ix) v = remove_field_filter env ix v"
| "view_step env Clear_Filters v = clear_filters env v"

lemma matches_prev [simp]: "matches (fst (go_prev c)) = matches c"
  by (simp add: go_prev_def Let_def)

lemma toggle_level_inv: "view_inv env v \<Longrightarrow> view_inv env (toggle_level env lv v)"
  unfolding toggle_level_def by (rule rebuild_visible_inv) (simp_all add: view_inv_iff)

lemma add_field_filter_inv: "view_inv env v \<Longrightarrow> view_inv env (add_field_filter env f v)"
  unfolding add_field_filter_def by (auto intro!: rebuild_visible_inv dest: view_inv_ring)

lemma remove_field_filter_inv: "view_inv env v \<Longrightarrow> view_inv env (remove_field_filter env ix v)"
  unfolding remove_field_filter_def by (auto intro!: rebuild_visible_inv dest: view_inv_ring)

lemma clear_filters_inv: "view_inv env v \<Longrightarrow> view_inv env (clear_filters env v)"
  unfolding clear_filters_def by (rule rebuild_visible_inv) (simp_all add: view_inv_iff)

lemma view_inv_cursor:
  assumes "view_inv env v" "matches c = matches (v_cursor v)" "cursor_inv c"
  shows "view_inv env (v\<lparr>v_cursor := c\<rparr>)"
proof -
  let ?w = "v\<lparr>v_cursor := c\<rparr>"
  have fields: "active_levels ?w = active_levels v" "field_filters ?w = field_filters v"
      "v_search ?w = v_search v" "filter_to_matches ?w = filter_to_matches v"
    by simp_all
  show ?thesis
    using assms unfolding view_inv_iff synced_def spec_eqs [OF fields] by simp
qed

lemma view_inv_cursor_inv: "view_inv env v \<Longrightarrow> cursor_inv (v_cursor v)"
  by (simp add: view_inv_def)

lemma view_next_inv: "view_inv env v \<Longrightarrow> view_inv env (v\<lparr>v_cursor := fst (go_next (v_cursor v))\<rparr>)"
  by (rule view_inv_cursor [OF _ matches_next cursor_inv_next [OF view_inv_cursor_inv]])

lemma view_prev_inv: "view_inv env v \<Longrightarrow> view_inv env (v\<lparr>v_cursor := fst (go_prev (v_cursor v))\<rparr>)"
  by (rule view_inv_cursor [OF _ matches_prev cursor_inv_prev [OF view_inv_cursor_inv]])

lemma view_step_inv: "view_inv env v \<Longrightarrow> view_inv env (view_step env x v)"
  by (cases x) (simp_all add: push_raw_inv view_push_marker_inv toggle_level_inv set_query_inv
      toggle_filter_inv toggle_pause_inv clear_lines_inv remove_field_filter_inv
      add_field_filter_inv clear_filters_inv view_next_inv view_prev_inv)

lemma view_inv_new: "view_inv env (view_new n)"
  by (simp add: view_inv_def view_new_def ring_inv_new, simp add: ring_new_def cursor_default_def)

lemma view_run_inv: "view_inv env v \<Longrightarrow> view_inv env (fold (view_step env) ops v)"
  by (induction ops arbitrary: v) (auto intro: view_step_inv)

section \<open>Properties\<close>

text \<open>C12: the view updates its rows, matches and level counters line by line; after any sequence of
  lines, evictions, markers, level and field filters, queries and navigation they are exactly what
  recomputing them from the lines in the ring gives (so the counter of a level never underflows).\<close>

theorem log_view_incremental:
  fixes env :: "('r, 'f) view_env" and n :: nat and ops :: "'f view_op list"
  defines "v \<equiv> fold (view_step env) ops (view_new n)"
  shows "visible v = map seq (filter (line_visible env v) (lines (v_ring v))) \<and>
    rendered v = map seq (filter
      (\<lambda>l. line_visible env v l \<and> (if restricted v then shown_match env v l else True))
      (lines (v_ring v))) \<and>
    matches (v_cursor v) = map seq (filter
      (\<lambda>l. line_visible env v l \<and> shown_match env v l) (lines (v_ring v))) \<and>
    (\<forall>lv. level_counts v lv =
      length (filter (\<lambda>l. \<not> marker l \<and> level l = lv) (lines (v_ring v))))"
proof -
  have "view_inv env v"
    using view_run_inv [OF view_inv_new] by (simp add: v_def)
  then show ?thesis
    unfolding view_inv_def if_bool_eq_conj by (simp only: simp_thms)
qed

text \<open>The current search match is always a line that is still in the ring, passes the filters and
  matches the query; there is none only when nothing matches.\<close>

lemma log_view_current_match:
  fixes env :: "('r, 'f) view_env" and n :: nat and ops :: "'f view_op list"
  defines "v \<equiv> fold (view_step env) ops (view_new n)"
  shows "case current_line (v_cursor v) of
      None \<Rightarrow> filter (\<lambda>l. line_visible env v l \<and> shown_match env v l) (lines (v_ring v)) = []
    | Some s \<Rightarrow> \<exists>l. get_by_seq (v_ring v) s = Some l \<and> line_visible env v l \<and> shown_match env v l"
proof -
  have inv: "view_inv env v"
    using view_run_inv [OF view_inv_new] by (simp add: v_def)
  then have ring: "ring_inv (v_ring v)" and cur: "cursor_inv (v_cursor v)"
    and ms: "matches (v_cursor v) =
      map seq (filter (\<lambda>l. line_visible env v l \<and> shown_match env v l) (lines (v_ring v)))"
    by (simp_all add: view_inv_def)
  show ?thesis
  proof (cases "current (v_cursor v)")
    case None
    with cur have "matches (v_cursor v) = []" by (simp add: cursor_inv_def)
    with ms None show ?thesis by (auto simp: current_line_def filter_empty_conv)
  next
    case (Some i)
    with cur have i: "i < length (matches (v_cursor v))" by (simp add: cursor_inv_def)
    then have "matches (v_cursor v) ! i \<in> set (matches (v_cursor v))" by simp
    then obtain l where "l \<in> set (lines (v_ring v))" "line_visible env v l" "shown_match env v l"
        "matches (v_cursor v) ! i = seq l"
      unfolding ms by auto
    with Some i ring_inv_get [OF ring] show ?thesis by (auto simp: current_line_def)
  qed
qed

end
