(* ===== verification/BaseTypes.thy ===== *)
theory BaseTypes
  imports TextLaws
begin

text \<open>
  The vocabulary the components share (\<open>crates/kubyl_base/src/types.rs\<close>): clusters, resources and
  references to them.
\<close>

type_synonym cluster_id = str

record gvr =
  gvr_group :: str
  gvr_version :: str
  gvr_resource :: str

record resource_ref =
  rr_cluster :: cluster_id
  rr_gvr :: gvr
  rr_namespace :: "str option"
  rr_name :: "str option"

definition ref_object :: "cluster_id \<Rightarrow> gvr \<Rightarrow> str option \<Rightarrow> str \<Rightarrow> resource_ref" where
  "ref_object cluster g namespace n =
     \<lparr>rr_cluster = cluster, rr_gvr = g, rr_namespace = namespace, rr_name = Some n\<rparr>"

text \<open>A state machine with an invariant: what every operation keeps, every run keeps.  The components
  that are driven by events interpret it on their handlers.\<close>

locale machine =
  fixes step :: "'op \<Rightarrow> 's \<Rightarrow> 's"
    and inv :: "'s \<Rightarrow> bool"
  assumes step_keeps: "inv s \<Longrightarrow> inv (step x s)"
begin

lemma run_keeps: "inv s \<Longrightarrow> inv (fold step ops s)"
  by (induction ops arbitrary: s) (auto intro: step_keeps)

text \<open>A property of one step that needs the invariant holds at every position of a run.\<close>

lemma run_steps:
  assumes "inv s" "\<And>x s. inv s \<Longrightarrow> P s \<Longrightarrow> P (step x s)" "P s"
  shows "P (fold step ops s)"
  using assms(1,3) by (induction ops arbitrary: s) (auto intro: assms(2) step_keeps)

text \<open>A quantity that each step raises by a weight of its own is raised by the sum of the weights.\<close>

lemma run_adds:
  fixes measure_of :: "'s \<Rightarrow> nat" and weight :: "'op \<Rightarrow> nat"
  assumes "inv s" "\<And>x s. inv s \<Longrightarrow> measure_of (step x s) = measure_of s + weight x"
  shows "measure_of (fold step ops s) = measure_of s + sum_list (map weight ops)"
  using assms(1) by (induction ops arbitrary: s) (simp_all add: assms(2) step_keeps)

end

text \<open>A machine whose invariant only some operations keep; every machine is one that allows all of them.\<close>

locale guarded_machine =
  fixes step :: "'op \<Rightarrow> 's \<Rightarrow> 's"
    and allowed :: "'op \<Rightarrow> bool"
    and inv :: "'s \<Rightarrow> bool"
  assumes step_keeps: "allowed x \<Longrightarrow> inv s \<Longrightarrow> inv (step x s)"
begin

lemma run_keeps: "list_all allowed ops \<Longrightarrow> inv s \<Longrightarrow> inv (fold step ops s)"
  by (induction ops arbitrary: s) (auto intro: step_keeps)

end

sublocale machine \<subseteq> guarded: guarded_machine step "\<lambda>_. True" inv
  by unfold_locales (rule step_keeps)

end
