(* ===== verification/LogStream.thy ===== *)
theory LogStream
  imports LogMerge BaseTypes "HOL-Library.AList"
begin

text \<open>
  Streaming the logs of pods (\<open>crates/kubyl_logs_core/src/stream.rs\<close>): the containers of a pod, the
  task that follows one container with its reconnects, and the loop that starts and stops such
  tasks for the pods of a selector.  What the cluster answers (lookups, connections, watch events) is
  the input of the steps; what is sent to the view and what is spawned is recorded in order.  The view
  is there while the task runs: a closed channel only ends a task early.
\<close>

section \<open>Pods\<close>

text \<open>What the code reads of a pod.\<close>

record container_state =
  ks_running :: bool
  ks_exit_code :: "int option"

record container_status =
  kc_name :: str
  kc_state :: "container_state option"
  kc_last_state :: "container_state option"
  kc_restarts :: int

record pod_spec =
  sp_containers :: "str list"
  sp_init :: "str list option"
  sp_ephemeral :: "str list option"
  sp_restart_policy :: "str option"

record pod_status =
  st_phase :: "str option"
  st_containers :: "container_status list option"
  st_init :: "container_status list option"
  st_ephemeral :: "container_status list option"

record pod =
  pd_name :: "str option"
  pd_uid :: "str option"
  pd_deleting :: bool
  pd_spec :: "pod_spec option"
  pd_status :: "pod_status option"

record container_filter =
  cf_only :: "str option"
  cf_init :: bool
  cf_ephemeral :: bool

datatype since = SinceStart | SinceSeconds int | SinceTime int

record log_options =
  lo_follow :: bool
  lo_since :: since
  lo_tail_lines :: "int option"
  lo_previous :: bool

definition follows :: "log_options \<Rightarrow> bool" where
  "follows opts \<longleftrightarrow> lo_follow opts \<and> \<not> lo_previous opts"

record pod_containers =
  pc_regular :: "str list"
  pc_init :: "str list"
  pc_ephemeral :: "str list"

definition pod_containers_of :: "pod \<Rightarrow> pod_containers" where
  "pod_containers_of p =
     (case pd_spec p of
        None \<Rightarrow> \<lparr>pc_regular = [], pc_init = [], pc_ephemeral = []\<rparr>
      | Some spec \<Rightarrow>
          \<lparr>pc_regular = sp_containers spec, pc_init = unwrap_or (sp_init spec) [],
           pc_ephemeral = unwrap_or (sp_ephemeral spec) []\<rparr>)"

definition all_containers :: "pod_containers \<Rightarrow> str list" where
  "all_containers pc = pc_init pc @ pc_regular pc @ pc_ephemeral pc"

definition select_containers :: "container_filter \<Rightarrow> pod_containers \<Rightarrow> str list" where
  "select_containers f pc =
     (let names = (if cf_init f then pc_init pc else []) @ pc_regular pc
                  @ (if cf_ephemeral f then pc_ephemeral pc else [])
      in case cf_only f of
           Some only \<Rightarrow> if only \<in> set (all_containers pc) then [only] else []
         | None \<Rightarrow> names)"

text \<open>The first status of a container among the regular, init and ephemeral ones.\<close>

definition status_of :: "pod_status \<Rightarrow> str \<Rightarrow> container_status option" where
  "status_of st container =
     find (\<lambda>s. kc_name s = container)
       (unwrap_or (st_containers st) [] @ unwrap_or (st_init st) [] @ unwrap_or (st_ephemeral st) [])"

definition state_started :: "container_state option \<Rightarrow> bool" where
  "state_started s = (case s of Some st \<Rightarrow> ks_running st \<or> ks_exit_code st \<noteq> None | None \<Rightarrow> False)"

definition has_started :: "pod \<Rightarrow> str \<Rightarrow> bool" where
  "has_started p container =
     (case pd_status p of
        None \<Rightarrow> False
      | Some st \<Rightarrow>
          (case status_of st container of
             None \<Rightarrow> False
           | Some s \<Rightarrow> state_started (kc_state s) \<or> state_started (kc_last_state s)))"

definition show_int :: "int \<Rightarrow> str" where
  "show_int n = (if n < 0 then CHR ''-'' # show_nat (nat (- n)) else show_nat (nat n))"

definition finished_reason :: "pod \<Rightarrow> str \<Rightarrow> str option" where
  "finished_reason p container =
     (case pd_status p of
        None \<Rightarrow> None
      | Some st \<Rightarrow>
          (let phase = unwrap_or (st_phase st) [];
               terminated = Option.bind (Option.bind (status_of st container) kc_state) ks_exit_code;
               restart_never = (Option.bind (pd_spec p) sp_restart_policy = Some ''Never'');
               is_init = (container \<in> set (unwrap_or (Option.bind (pd_spec p) sp_init) []));
               is_ephemeral = (container \<in> set (unwrap_or (Option.bind (pd_spec p) sp_ephemeral) []));
               over = (phase = ''Succeeded'' \<or> phase = ''Failed'')
           in case terminated of
                Some code \<Rightarrow>
                  if over \<or> restart_never \<or> is_ephemeral then Some (''exited with code '' @ show_int code)
                  else if is_init \<and> code = 0 then Some ''init container completed''
                  else if over then Some (''pod '' @ phase) else None
              | None \<Rightarrow> if over then Some (''pod '' @ phase) else None))"

definition restart_count :: "pod \<Rightarrow> str \<Rightarrow> int" where
  "restart_count p container =
     (case Option.bind (pd_status p) (\<lambda>st. status_of st container) of Some s \<Rightarrow> kc_restarts s | None \<Rightarrow> 0)"

section \<open>Requests and events\<close>

record log_params =
  lp_follow :: bool
  lp_container :: "str option"
  lp_timestamps :: bool
  lp_previous :: bool
  lp_tail_lines :: "int option"
  lp_limit_bytes :: "int option"
  lp_since_seconds :: "int option"
  lp_since_time :: "int option"

definition max_fetch_bytes :: int where "max_fetch_bytes = 64 * 1024 * 1024"

definition log_request :: "str \<Rightarrow> log_options \<Rightarrow> bool \<Rightarrow> log_params" where
  "log_request container opts follow =
     \<lparr>lp_follow = follow, lp_container = Some container, lp_timestamps = True, lp_previous = lo_previous opts,
      lp_tail_lines = lo_tail_lines opts,
      lp_limit_bytes = (if \<not> follow then Some max_fetch_bytes else None),
      lp_since_seconds = (case lo_since opts of SinceSeconds s \<Rightarrow> Some s | _ \<Rightarrow> None),
      lp_since_time = (case lo_since opts of SinceTime t \<Rightarrow> Some t | _ \<Rightarrow> None)\<rparr>"

datatype stream_event =
    Lines "raw_line list"
  | PodJoined str "str list" bool
  | PodGone str
  | Connected str str
  | ReconnectingStream str str "str option"
  | Ended str str str
  | AllDone
  | StreamError str

datatype role = SelectorRole | PodRole bool

definition follows_name :: "role \<Rightarrow> bool" where
  "follows_name r = (case r of PodRole _ \<Rightarrow> True | SelectorRole \<Rightarrow> False)"

definition announces :: "role \<Rightarrow> bool" where
  "announces r \<longleftrightarrow> r = PodRole True"

section \<open>The task of one container\<close>

datatype pod_lookup = LookupFailed | NoPod | FoundPod pod

text \<open>What a connection does next: a line (its bytes, as read), a quiet period with the lookup made in it
  (\<open>None\<close> when that hangs), its end, or an error.\<close>

datatype read_result = ReadLine "char list" | Quiet "pod_lookup option" | EndOfStream | ReadFailed str

datatype log_connection = ConnectFailed str | Streaming "read_result list"

record task =
  tk_resume :: resume
  tk_first :: bool
  tk_backoff :: nat
  tk_instance :: "(str \<times> int) option"
  tk_retry :: bool
  tk_gone :: bool
  tk_ended :: bool
  tk_requests :: "log_params list"
  tk_slept :: "nat list"
  tk_out :: "stream_event list"

definition backoff_start :: nat where "backoff_start = 1"
definition backoff_max :: nat where "backoff_max = 30"
definition poll :: nat where "poll = 2"
definition poll_finished :: nat where "poll_finished = 5"
definition idle_check :: nat where "idle_check = 30"
definition idle_reconnect :: nat where "idle_reconnect = 300"

definition task_new :: task where
  "task_new =
     \<lparr>tk_resume = resume_default, tk_first = True, tk_backoff = backoff_start, tk_instance = None,
      tk_retry = False, tk_gone = False, tk_ended = False, tk_requests = [], tk_slept = [], tk_out = []\<rparr>"

definition send :: "stream_event \<Rightarrow> task \<Rightarrow> task" where
  "send e tk = tk\<lparr>tk_out := tk_out tk @ [e]\<rparr>"

definition nap :: "nat \<Rightarrow> task \<Rightarrow> task" where
  "nap seconds tk = tk\<lparr>tk_slept := tk_slept tk @ [seconds]\<rparr>"

text \<open>How a round begins: the task returns, looks again later, or connects (with the restarts seen).\<close>

datatype phase = Return | Again | Go int

definition same_instance :: "str \<Rightarrow> (str \<times> int) option \<Rightarrow> pod_lookup \<Rightarrow> bool" where
  "same_instance container instnc answer =
     (case instnc of
        None \<Rightarrow> True
      | Some (uid, restarts) \<Rightarrow>
          (case answer of
             FoundPod p \<Rightarrow> pd_uid p = Some uid \<and> restart_count p container = restarts
           | NoPod \<Rightarrow> False
           | LookupFailed \<Rightarrow> True))"

text \<open>A pod is there: perhaps a new instance under the name, perhaps finished, perhaps not started.\<close>

definition new_instance :: "role \<Rightarrow> str \<Rightarrow> str \<Rightarrow> task \<Rightarrow> task" where
  "new_instance role name container tk =
     (let tk = tk\<lparr>tk_resume := resume_default, tk_first := True, tk_retry := False, tk_backoff := backoff_start\<rparr>;
          tk = (if announces role then send (PodJoined name [container] False) tk else tk)
      in tk\<lparr>tk_gone := False, tk_ended := False\<rparr>)"

definition check_started :: "role \<Rightarrow> str \<Rightarrow> str \<Rightarrow> pod \<Rightarrow> task \<Rightarrow> phase \<times> task" where
  "check_started role name container p tk =
     (let tk = (case finished_reason p container of
                  Some reason \<Rightarrow>
                    if \<not> tk_ended tk \<and> (tk_retry tk \<or> \<not> tk_first tk)
                    then send (Ended name container reason) (tk\<lparr>tk_ended := True\<rparr>) else tk
                | None \<Rightarrow> tk)
      in if finished_reason p container \<noteq> None \<and> tk_ended tk
         then (if \<not> follows_name role then (Return, tk) else (Again, nap poll_finished tk))
         else if \<not> has_started p container then (Again, nap poll tk)
         else (Go (restart_count p container), tk))"

definition lookup_phase :: "role \<Rightarrow> str \<Rightarrow> str \<Rightarrow> pod_lookup \<Rightarrow> task \<Rightarrow> phase \<times> task" where
  "lookup_phase role name container answer tk =
     (case answer of
        LookupFailed \<Rightarrow> (Go 0, tk)
      | NoPod \<Rightarrow>
          (let tk = (if tk_gone tk then tk
                     else (let tk = tk\<lparr>tk_gone := True\<rparr>
                           in if announces role then send (PodGone name) tk else tk))
           in if \<not> follows_name role then (Return, tk) else (Again, nap poll tk))
      | FoundPod p \<Rightarrow>
          (let uid = unwrap_or (pd_uid p) [];
               replaced = (case tk_instance tk of Some (old, _) \<Rightarrow> old \<noteq> uid | None \<Rightarrow> False)
           in if replaced \<or> tk_gone tk then
                (if \<not> follows_name role then (Return, tk)
                 else if container \<notin> set (all_containers (pod_containers_of p))
                 then (Return, send (Ended name container ''is not in the new pod'') tk)
                 else check_started role name container p
                        ((new_instance role name container tk)
                           \<lparr>tk_instance := Some (uid, restart_count p container)\<rparr>))
              else check_started role name container p
                     (tk\<lparr>tk_instance := Some (uid, restart_count p container)\<rparr>)))"

definition resume_request :: "str \<Rightarrow> log_options \<Rightarrow> task \<Rightarrow> log_params" where
  "resume_request container opts tk =
     (let request = log_request container opts True
      in if \<not> tk_first tk then
           (let request = request\<lparr>lp_tail_lines := None, lp_since_seconds := None,
                                  lp_since_time := re_last (tk_resume tk)\<rparr>
            in if re_last (tk_resume tk) = None then request\<lparr>lp_tail_lines := lo_tail_lines opts\<rparr> else request)
         else request)"

text \<open>Reading one connection: whether anything new was received, and the error that broke it.\<close>

fun read_events ::
  "(char list \<Rightarrow> raw_line) \<Rightarrow> str \<Rightarrow> (str \<times> int) option \<Rightarrow> read_result list \<Rightarrow> nat \<Rightarrow> nat
    \<Rightarrow> bool \<Rightarrow> task \<Rightarrow> bool \<times> str option \<times> task" where
  "read_events parse container instnc [] seen silent received tk = (received, None, tk)"
| "read_events parse container instnc (Quiet answer # rs) seen silent received tk =
     (let silent = silent + idle_check;
          same = (case answer of None \<Rightarrow> True | Some a \<Rightarrow> same_instance container instnc a)
      in if idle_reconnect \<le> silent \<or> \<not> same then (received, None, tk)
         else read_events parse container instnc rs seen silent received tk)"
| "read_events parse container instnc (EndOfStream # rs) seen silent received tk = (received, None, tk)"
| "read_events parse container instnc (ReadFailed err # rs) seen silent received tk = (received, Some err, tk)"
| "read_events parse container instnc (ReadLine bytes # rs) seen silent received tk =
     (let line = parse bytes;
          (dup, seen) = is_duplicate (tk_resume tk) (rl_timestamp line) seen
      in if dup then read_events parse container instnc rs seen 0 received tk
         else read_events parse container instnc rs seen 0 True
                (send (Lines [line]) (tk\<lparr>tk_resume := record_line (rl_timestamp line) (tk_resume tk)\<rparr>)))"

record round =
  rd_lookup :: pod_lookup
  rd_connection :: log_connection
  rd_after :: pod_lookup

definition still_there :: "str \<Rightarrow> (str \<times> int) option \<Rightarrow> int \<Rightarrow> pod_lookup \<Rightarrow> bool" where
  "still_there container instnc restarts answer =
     (case answer of
        FoundPod p \<Rightarrow>
          (case instnc of Some (old, _) \<Rightarrow> old = unwrap_or (pd_uid p) [] | None \<Rightarrow> False) \<and>
          finished_reason p container = None \<and> restart_count p container = restarts
      | NoPod \<Rightarrow> False
      | LookupFailed \<Rightarrow> True)"

definition stream_phase ::
  "(char list \<Rightarrow> raw_line) \<Rightarrow> str \<Rightarrow> str \<Rightarrow> log_options \<Rightarrow> int \<Rightarrow> round \<Rightarrow> task \<Rightarrow> task" where
  "stream_phase parse name container opts restarts rd tk =
     (let tk = (if tk_retry tk then nap (tk_backoff tk) tk else tk);
          tk = tk\<lparr>tk_requests := tk_requests tk @ [resume_request container opts tk], tk_first := False\<rparr>;
          (received, err, tk) =
            (case rd_connection rd of
               ConnectFailed e \<Rightarrow> (False, Some e, tk)
             | Streaming rs \<Rightarrow>
                 read_events parse container (tk_instance tk) rs 0 0 False (send (Connected name container) tk));
          reconnecting = still_there container (tk_instance tk) restarts (rd_after rd);
          tk = (if reconnecting then send (ReconnectingStream name container err) tk else tk)
      in tk\<lparr>tk_backoff := (if received \<or> \<not> reconnecting then backoff_start
                             else min (tk_backoff tk * 2) backoff_max),
            tk_retry := True\<rparr>)"

definition container_round ::
  "(char list \<Rightarrow> raw_line) \<Rightarrow> role \<Rightarrow> str \<Rightarrow> str \<Rightarrow> log_options \<Rightarrow> round \<Rightarrow> task \<Rightarrow> bool \<times> task" where
  "container_round parse role name container opts rd tk =
     (case lookup_phase role name container (rd_lookup rd) tk of
        (Return, tk) \<Rightarrow> (False, tk)
      | (Again, tk) \<Rightarrow> (True, tk)
      | (Go restarts, tk) \<Rightarrow> (True, stream_phase parse name container opts restarts rd tk))"

fun container_loop ::
  "(char list \<Rightarrow> raw_line) \<Rightarrow> role \<Rightarrow> str \<Rightarrow> str \<Rightarrow> log_options \<Rightarrow> round list \<Rightarrow> task \<Rightarrow> task" where
  "container_loop parse role name container opts [] tk = tk"
| "container_loop parse role name container opts (rd # rds) tk =
     (case container_round parse role name container opts rd tk of
        (False, tk) \<Rightarrow> tk
      | (True, tk) \<Rightarrow> container_loop parse role name container opts rds tk)"

text \<open>The task: with a backlog it fetches it first (the answer of the fetch, whether the merge still takes
  it, and whether the merge is done before the channel closes), then it follows.\<close>

record backlog_part =
  bl_fetched :: "str + raw_line list"
  bl_taken :: bool
  bl_flushed :: bool

definition container_task ::
  "(char list \<Rightarrow> raw_line) \<Rightarrow> role \<Rightarrow> str \<Rightarrow> str \<Rightarrow> log_options \<Rightarrow> backlog_part option \<Rightarrow> str + raw_line list
    \<Rightarrow> round list \<Rightarrow> raw_line list option \<times> task" where
  "container_task parse role name container opts backlog fetched rds =
     (case backlog of
        Some bl \<Rightarrow>
          (let (logged, tk) =
                 (case bl_fetched bl of
                    Inr logged \<Rightarrow> (logged, task_new)
                  | Inl err \<Rightarrow> ([], send (ReconnectingStream name container (Some err)) task_new));
               tk = tk\<lparr>tk_resume := foldl (\<lambda>r l. record_line (rl_timestamp l) r) (tk_resume tk) logged,
                       tk_first := False\<rparr>;
               (handed, tk) = (if bl_taken bl then (Some logged, tk) else (None, send (Lines logged) tk))
           in if \<not> follows opts \<or> \<not> bl_flushed bl then (handed, tk)
              else (handed, container_loop parse role name container opts rds tk))
      | None \<Rightarrow>
          if \<not> follows opts then
            (None, (case fetched of
                      Inr logged \<Rightarrow> send (Lines logged) task_new
                    | Inl err \<Rightarrow> send (StreamError err) task_new))
          else (None, container_loop parse role name container opts rds task_new))"

section \<open>The pods of a selector\<close>

text \<open>What the loop asks for, in order: events for the view, container tasks (with whether the merge gets
  their backlog), and the end of a pod's tasks.\<close>

datatype stream_action = SendEvent stream_event | SpawnContainer str str bool | AbortPod str

record pod_streams =
  pd_streams :: "(str \<times> str list) list"
  pd_uids :: "(str \<times> str) list"
  pd_actions :: "stream_action list"

definition act :: "stream_action \<Rightarrow> pod_streams \<Rightarrow> pod_streams" where
  "act a ps = ps\<lparr>pd_actions := pd_actions ps @ [a]\<rparr>"

definition remove_pod :: "str \<Rightarrow> pod_streams \<Rightarrow> pod_streams" where
  "remove_pod name ps =
     (let ps = ps\<lparr>pd_uids := AList.delete name (pd_uids ps)\<rparr>
      in if map_of (pd_streams ps) name \<noteq> None
         then act (SendEvent (PodGone name)) (act (AbortPod name)
                (ps\<lparr>pd_streams := AList.delete name (pd_streams ps)\<rparr>))
         else ps)"

definition start_container :: "pod \<Rightarrow> str \<Rightarrow> bool \<Rightarrow> str \<Rightarrow> pod_streams \<Rightarrow> pod_streams" where
  "start_container p name merging container ps =
     (let running = unwrap_or (map_of (pd_streams ps) name) []
      in if container \<in> set running \<or> \<not> has_started p container then ps
         else act (SpawnContainer name container merging)
                (ps\<lparr>pd_streams := AList.update name (running @ [container]) (pd_streams ps)\<rparr>))"

definition apply_pod :: "container_filter \<Rightarrow> pod \<Rightarrow> bool \<Rightarrow> pod_streams \<Rightarrow> pod_streams" where
  "apply_pod f p merging ps =
     (case pd_name p of
        None \<Rightarrow> ps
      | Some name \<Rightarrow>
          (let uid = unwrap_or (pd_uid p) [];
               ps = (case map_of (pd_uids ps) name of
                       Some known \<Rightarrow> if known \<noteq> uid \<and> uid \<noteq> [] then remove_pod name ps else ps
                     | None \<Rightarrow> ps)
           in if pd_deleting p \<and> map_of (pd_streams ps) name = None then ps
              else (let wanted = select_containers f (pod_containers_of p);
                        joined = (map_of (pd_streams ps) name = None);
                        ps = ps\<lparr>pd_uids := AList.update name uid (pd_uids ps),
                                pd_streams := AList.update name (unwrap_or (map_of (pd_streams ps) name) [])
                                                (pd_streams ps)\<rparr>;
                        ps = fold (start_container p name merging) wanted ps
                    in if joined then act (SendEvent (PodJoined name wanted merging)) ps else ps)))"

text \<open>An event of the watch; the end of the initial listing comes with the backlogs that arrived in time.\<close>

datatype pod_event =
    InitPods | InitPod pod | InitPodsDone "raw_line list list" | PodApplied pod | PodDeleted pod | WatchFailed str

record selector_state =
  sl_pods :: pod_streams
  sl_initial :: bool
  sl_listing :: "str set"
  sl_running :: bool

definition batch :: nat where "batch = 5000"

fun chunks_of :: "'a list \<Rightarrow> 'a list list" where
  "chunks_of [] = []"
| "chunks_of (x # xs) = take batch (x # xs) # chunks_of (drop (batch - 1) xs)"

definition run_merge :: "raw_line list list \<Rightarrow> pod_streams \<Rightarrow> pod_streams" where
  "run_merge backlogs ps = fold (\<lambda>chunk. act (SendEvent (Lines chunk))) (chunks_of (merge_by_time backlogs)) ps"

definition selector_new :: selector_state where
  "selector_new =
     \<lparr>sl_pods = \<lparr>pd_streams = [], pd_uids = [], pd_actions = []\<rparr>, sl_initial = True, sl_listing = {},
      sl_running = True\<rparr>"

definition selector_step :: "container_filter \<Rightarrow> log_options \<Rightarrow> pod_event \<Rightarrow> selector_state \<Rightarrow> selector_state" where
  "selector_step f opts ev sl =
     (if \<not> sl_running sl then sl
      else case ev of
        InitPods \<Rightarrow> sl\<lparr>sl_listing := {}\<rparr>
      | InitPod p \<Rightarrow>
          (let sl = (case pd_name p of Some name \<Rightarrow> sl\<lparr>sl_listing := insert name (sl_listing sl)\<rparr> | None \<Rightarrow> sl)
           in sl\<lparr>sl_pods := apply_pod f p (sl_initial sl) (sl_pods sl)\<rparr>)
      | InitPodsDone backlogs \<Rightarrow>
          (let gone = filter (\<lambda>name. name \<notin> sl_listing sl) (map fst (pd_streams (sl_pods sl)));
               sl = sl\<lparr>sl_pods := fold remove_pod gone (sl_pods sl)\<rparr>
           in if sl_initial sl then
                (let sl = sl\<lparr>sl_initial := False, sl_pods := run_merge backlogs (sl_pods sl)\<rparr>
                 in if \<not> follows opts
                    then sl\<lparr>sl_pods := act (SendEvent AllDone) (sl_pods sl), sl_running := False\<rparr> else sl)
              else sl)
      | PodApplied p \<Rightarrow> sl\<lparr>sl_pods := apply_pod f p False (sl_pods sl)\<rparr>
      | PodDeleted p \<Rightarrow>
          (case pd_name p of Some name \<Rightarrow> sl\<lparr>sl_pods := remove_pod name (sl_pods sl)\<rparr> | None \<Rightarrow> sl)
      | WatchFailed err \<Rightarrow> sl\<lparr>sl_pods := act (SendEvent (StreamError err)) (sl_pods sl)\<rparr>)"

section \<open>A single pod\<close>

text \<open>\<open>run\<close> of one pod: the lookups until it is found, then a task per container (the first one announces
  the pod), and the merge of their backlogs.  The actions, and whether streams are left running.\<close>

fun find_pod :: "str \<Rightarrow> log_options \<Rightarrow> (str + pod option) list \<Rightarrow> (stream_event + pod) option" where
  "find_pod name opts [] = None"
| "find_pod name opts (answer # answers) =
     (case answer of
        Inr (Some p) \<Rightarrow> Some (Inr p)
      | Inr None \<Rightarrow>
          if follows opts then find_pod name opts answers
          else Some (Inl (StreamError (''pod '' @ name @ '' not found'')))
      | Inl err \<Rightarrow> Some (Inl (StreamError err)))"

definition run_pod ::
  "str \<Rightarrow> container_filter \<Rightarrow> log_options \<Rightarrow> (str + pod option) list \<Rightarrow> raw_line list list
    \<Rightarrow> stream_action list \<times> (str \<times> role) list" where
  "run_pod name f opts answers backlogs =
     (case find_pod name opts answers of
        None \<Rightarrow> ([], [])
      | Some (Inl e) \<Rightarrow> ([SendEvent e], [])
      | Some (Inr p) \<Rightarrow>
          (let names = select_containers f (pod_containers_of p)
           in if names = [] then
                ([SendEvent (StreamError (case cf_only f of
                    Some only \<Rightarrow> ''pod '' @ name @ '' has no container '' @ only
                  | None \<Rightarrow> ''pod '' @ name @ '' has no containers''))], [])
              else (let ps = \<lparr>pd_streams = [], pd_uids = [], pd_actions = []\<rparr>;
                        ps = act (SendEvent (PodJoined name names True)) ps;
                        ps = fold (\<lambda>c. act (SpawnContainer name c True)) names ps;
                        ps = run_merge backlogs ps;
                        ps = (if follows opts then ps else act (SendEvent AllDone) ps)
                    in (pd_actions ps,
                        map (\<lambda>(i, c). (c, PodRole (i = 0))) (List.enumerate 0 names)))))"

definition fetch_all :: "(str + raw_line list) list \<Rightarrow> str + raw_line list" where
  "fetch_all results = and_then (collect_results results) (\<lambda>logs. Inr (merge_by_time logs))"

section \<open>Announcements and tasks of a selector\<close>

text \<open>Replaying the actions for one pod: whether it is announced, and the containers whose task runs.
  \<open>None\<close> when it is announced twice, leaves unannounced or with tasks running, or a container gets a
  second task.\<close>

fun replay_action :: "str \<Rightarrow> stream_action \<Rightarrow> bool \<times> str set \<Rightarrow> (bool \<times> str set) option" where
  "replay_action p (SendEvent (PodJoined q cs i)) (joined, run) =
     (if q \<noteq> p then Some (joined, run) else if joined then None else Some (True, run))"
| "replay_action p (SendEvent (PodGone q)) (joined, run) =
     (if q \<noteq> p then Some (joined, run) else if joined \<and> run = {} then Some (False, {}) else None)"
| "replay_action p (SpawnContainer q c m) (joined, run) =
     (if q \<noteq> p then Some (joined, run) else if c \<in> run then None else Some (joined, insert c run))"
| "replay_action p (AbortPod q) (joined, run) = (if q \<noteq> p then Some (joined, run) else Some (joined, {}))"
| "replay_action p (SendEvent _) (joined, run) = Some (joined, run)"

definition replay_actions :: "str \<Rightarrow> stream_action list \<Rightarrow> (bool \<times> str set) option" where
  "replay_actions p as = foldl (\<lambda>s a. Option.bind s (replay_action p a)) (Some (False, {})) as"

lemma replay_snoc: "replay_actions p (as @ [a]) = Option.bind (replay_actions p as) (replay_action p a)"
  by (simp add: replay_actions_def)

lemma actions_act [simp]:
  "pd_actions (act a ps) = pd_actions ps @ [a]" "pd_streams (act a ps) = pd_streams ps" "pd_uids (act a ps) = pd_uids ps"
  by (simp_all add: act_def)

definition running_in :: "pod_streams \<Rightarrow> str \<Rightarrow> str set" where
  "running_in ps p = set (unwrap_or (map_of (pd_streams ps) p) [])"

text \<open>The actions so far announce the pods of \<open>joined\<close> and run the tasks whose guards are held.\<close>

definition replays :: "str set \<Rightarrow> pod_streams \<Rightarrow> bool" where
  "replays joined ps \<longleftrightarrow> (\<forall>p. replay_actions p (pd_actions ps) = Some (p \<in> joined, running_in ps p))"

definition pods_inv :: "pod_streams \<Rightarrow> bool" where
  "pods_inv ps \<longleftrightarrow> dom (map_of (pd_uids ps)) = dom (map_of (pd_streams ps)) \<and>
     replays (dom (map_of (pd_streams ps))) ps"

lemma running_in_act [simp]: "running_in (act a ps) = running_in ps"
  by (simp add: running_in_def fun_eq_iff)

lemma pods_inv_remove: "pods_inv ps \<Longrightarrow> pods_inv (remove_pod name ps)"
proof (cases "map_of (pd_streams ps) name")
  case None
  assume "pods_inv ps"
  moreover from this None have "map_of (pd_uids ps) name = None" by (auto simp: pods_inv_def)
  ultimately show ?thesis
    using None by (auto simp: pods_inv_def remove_pod_def Let_def replays_def running_in_def delete_conv')
next
  case (Some cs)
  assume inv: "pods_inv ps"
  have "replays (dom (map_of (pd_streams ps)) - {name}) (remove_pod name ps)"
    using inv Some
    by (auto simp: pods_inv_def replays_def remove_pod_def Let_def running_in_def replay_snoc delete_conv' unwrap_or_def
        append_assoc [symmetric] simp del: append_assoc)
  with inv Some show ?thesis by (auto simp: pods_inv_def remove_pod_def Let_def delete_conv')
qed

lemma start_container_keeps:
  assumes "replays joined ps" "name \<in> dom (map_of (pd_streams ps))"
  shows "replays joined (start_container p name merging c ps)"
    "dom (map_of (pd_streams (start_container p name merging c ps))) = dom (map_of (pd_streams ps))"
    "pd_uids (start_container p name merging c ps) = pd_uids ps"
  using assms
  by (auto simp: start_container_def Let_def replays_def running_in_def replay_snoc update_conv' unwrap_or_def)

lemma start_containers_keep:
  assumes "replays joined ps" "name \<in> dom (map_of (pd_streams ps))"
  shows "replays joined (fold (start_container p name merging) cs ps) \<and>
    dom (map_of (pd_streams (fold (start_container p name merging) cs ps))) = dom (map_of (pd_streams ps)) \<and>
    pd_uids (fold (start_container p name merging) cs ps) = pd_uids ps"
  using assms
proof (induction cs arbitrary: ps)
  case (Cons c cs)
  note one = start_container_keeps [OF Cons.prems, of p merging c]
  with Cons.IH [of "start_container p name merging c ps"] Cons.prems(2) show ?case by simp
qed simp

lemma pods_inv_apply: "pods_inv ps \<Longrightarrow> pods_inv (apply_pod f p merging ps)"
proof (cases "pd_name p")
  case (Some name)
  assume inv: "pods_inv ps"
  define uid where "uid = unwrap_or (pd_uid p) []"
  define qs where "qs = (case map_of (pd_uids ps) name of
      Some known \<Rightarrow> if known \<noteq> uid \<and> uid \<noteq> [] then remove_pod name ps else ps | None \<Rightarrow> ps)"
  have qs: "pods_inv qs" using inv by (auto simp: qs_def pods_inv_remove split: option.splits)
  show ?thesis
  proof (cases "pd_deleting p \<and> map_of (pd_streams qs) name = None")
    case True
    with Some qs show ?thesis by (simp add: apply_pod_def Let_def flip: uid_def qs_def)
  next
    case False
    let ?wanted = "select_containers f (pod_containers_of p)"
    let ?rs = "qs\<lparr>pd_uids := AList.update name uid (pd_uids qs),
        pd_streams := AList.update name (unwrap_or (map_of (pd_streams qs) name) []) (pd_streams qs)\<rparr>"
    let ?ts = "fold (start_container p name merging) ?wanted ?rs"
    let ?joined = "map_of (pd_streams qs) name = None"
    have "replays (dom (map_of (pd_streams qs))) ?rs"
      using qs by (auto simp: pods_inv_def replays_def running_in_def update_conv' unwrap_or_def split: option.splits)
    from start_containers_keep [OF this, of name p merging ?wanted]
    have ts: "replays (dom (map_of (pd_streams qs))) ?ts" "pd_uids ?ts = AList.update name uid (pd_uids qs)"
      "dom (map_of (pd_streams ?ts)) = insert name (dom (map_of (pd_streams qs)))"
      by (auto simp: update_conv')
    have "apply_pod f p merging ps = (if ?joined then act (SendEvent (PodJoined name ?wanted merging)) ?ts else ?ts)"
      unfolding apply_pod_def Some option.case Let_def uid_def [symmetric] qs_def [symmetric]
      by (simp only: if_not_P [OF False])
    moreover have "pods_inv (act (SendEvent (PodJoined name ?wanted merging)) ?ts)" if ?joined
      using that ts qs unfolding pods_inv_def replays_def by (auto simp: replay_snoc update_conv' domIff)
    moreover have "pods_inv ?ts" if "\<not> ?joined"
    proof -
      from that have "insert name (dom (map_of (pd_streams qs))) = dom (map_of (pd_streams qs))" by auto
      then show ?thesis using ts qs that by (auto simp: pods_inv_def update_conv')
    qed
    ultimately show ?thesis by simp
  qed
qed (simp add: apply_pod_def)

text \<open>Events that are not about a pod coming or going leave everything as it is.\<close>

definition neutral :: "stream_event \<Rightarrow> bool" where
  "neutral e \<longleftrightarrow> (case e of PodJoined _ _ _ \<Rightarrow> False | PodGone _ \<Rightarrow> False | _ \<Rightarrow> True)"

lemma replay_neutral: "neutral e \<Longrightarrow> replay_action p (SendEvent e) s = Some s"
  by (cases s) (auto simp: neutral_def split: stream_event.splits)

lemma pods_inv_neutral: "neutral e \<Longrightarrow> pods_inv ps \<Longrightarrow> pods_inv (act (SendEvent e) ps)"
  by (simp add: pods_inv_def replays_def replay_snoc replay_neutral)

lemma pods_inv_fold:
  assumes "\<And>x qs. pods_inv qs \<Longrightarrow> pods_inv (g x qs)" "pods_inv ps"
  shows "pods_inv (fold g xs ps)"
  using assms(2) by (induction xs arbitrary: ps) (auto intro: assms(1))

lemma pods_inv_merge: "pods_inv ps \<Longrightarrow> pods_inv (run_merge backlogs ps)"
  unfolding run_merge_def by (rule pods_inv_fold) (simp_all add: pods_inv_neutral neutral_def)

lemma pods_inv_step:
  assumes "pods_inv (sl_pods sl)"
  shows "pods_inv (sl_pods (selector_step f opts ev sl))"
proof (cases ev)
  case (InitPodsDone backlogs)
  let ?gone = "filter (\<lambda>name. name \<notin> sl_listing sl) (map fst (pd_streams (sl_pods sl)))"
  from assms have gone: "pods_inv (fold remove_pod ?gone (sl_pods sl))"
    by (rule pods_inv_fold [OF pods_inv_remove, rotated])
  have "pods_inv (act (SendEvent AllDone) (run_merge backlogs (fold remove_pod ?gone (sl_pods sl))))"
    by (rule pods_inv_neutral [OF _ pods_inv_merge [OF gone]]) (simp add: neutral_def)
  with gone assms show ?thesis
    by (simp add: InitPodsDone selector_step_def Let_def pods_inv_merge)
qed (use assms in \<open>auto simp: selector_step_def Let_def pods_inv_apply pods_inv_remove neutral_def
       intro: pods_inv_neutral split: option.splits\<close>)

interpretation selecting: machine "selector_step f opts" "\<lambda>sl. pods_inv (sl_pods sl)"
  by unfold_locales (rule pods_inv_step)

text \<open>C14: the loop over a selector announces a pod and takes it back in turns, and never runs two tasks for
  one container: replaying what it asked for never gets stuck, and ends with the pods it holds streams
  of announced and with exactly the tasks whose guards it holds.\<close>

theorem selector_replays:
  "case fold (selector_step f opts) evs selector_new of sl \<Rightarrow>
     replay_actions p (pd_actions (sl_pods sl)) =
       Some (p \<in> set (map fst (pd_streams (sl_pods sl))), running_in (sl_pods sl) p)"
proof -
  have "pods_inv (sl_pods selector_new)"
    by (simp add: pods_inv_def selector_new_def replays_def replay_actions_def running_in_def unwrap_or_def)
  from selecting.run_keeps [OF this, of f opts evs] show ?thesis
    by (simp add: pods_inv_def replays_def dom_map_of_conv_image_fst)
qed

text \<open>Once a listing is through, streams are held of its pods only.\<close>

lemma remove_pods_dom:
  "dom (map_of (pd_streams (fold remove_pod names ps))) = dom (map_of (pd_streams ps)) - set names"
proof (induction names arbitrary: ps)
  case (Cons n names)
  have "dom (map_of (pd_streams (remove_pod n ps))) = dom (map_of (pd_streams ps)) - {n}"
    by (auto simp: remove_pod_def Let_def delete_conv')
  with Cons.IH [of "remove_pod n ps"] show ?case by auto
qed simp

lemma run_merge_streams [simp]: "pd_streams (run_merge backlogs ps) = pd_streams ps"
proof -
  have "pd_streams (fold (\<lambda>chunk. act (SendEvent (Lines chunk))) chunks ps) = pd_streams ps" for chunks
    by (induction chunks arbitrary: ps) simp_all
  then show ?thesis by (simp add: run_merge_def)
qed

lemma concat_chunks_of: "concat (chunks_of xs) = xs"
proof (induction xs rule: chunks_of.induct)
  case (2 x xs)
  have "drop (batch - 1) xs = drop batch (x # xs)" by (simp add: batch_def)
  with 2 show ?case by (simp only: chunks_of.simps concat.simps append_take_drop_id)
qed simp

lemma chunks_of_short: "c \<in> set (chunks_of xs) \<Longrightarrow> length c \<le> batch \<and> c \<noteq> []"
  by (induction xs rule: chunks_of.induct) (auto simp: batch_def)

text \<open>The lines of the merged backlogs reach the view in batches, all of them and in order.\<close>

lemma run_merge_sends:
  "pd_actions (run_merge backlogs ps) =
     pd_actions ps @ map (\<lambda>chunk. SendEvent (Lines chunk)) (chunks_of (merge_by_time backlogs))"
proof -
  have "pd_actions (fold (\<lambda>chunk. act (SendEvent (Lines chunk))) chunks ps) =
      pd_actions ps @ map (\<lambda>chunk. SendEvent (Lines chunk)) chunks" for chunks
    by (induction chunks arbitrary: ps) simp_all
  then show ?thesis by (simp add: run_merge_def)
qed

lemma listing_done_streams:
  "sl_running sl \<Longrightarrow>
     set (map fst (pd_streams (sl_pods (selector_step f opts (InitPodsDone backlogs) sl)))) \<subseteq> sl_listing sl"
  using remove_pods_dom [of "filter (\<lambda>name. name \<notin> sl_listing sl) (map fst (pd_streams (sl_pods sl)))" "sl_pods sl"]
  by (auto simp: selector_step_def Let_def dom_map_of_conv_image_fst split: if_splits)

end
