(* ===== verification/LogTasks.thy ===== *)
theory LogTasks
  imports LogStream
begin

text \<open>
  What the task of one container does over its rounds: what it announces and how long it waits.
\<close>

section \<open>The announcements of a task\<close>

lemma task_out_simps [simp]:
  "tk_out (send e tk) = tk_out tk @ [e]" "tk_out (nap n tk) = tk_out tk"
  "tk_slept (send e tk) = tk_slept tk" "tk_slept (nap n tk) = tk_slept tk @ [n]"
  "tk_gone (send e tk) = tk_gone tk" "tk_gone (nap n tk) = tk_gone tk"
  "tk_backoff (send e tk) = tk_backoff tk" "tk_backoff (nap n tk) = tk_backoff tk"
  "tk_resume (send e tk) = tk_resume tk" "tk_resume (nap n tk) = tk_resume tk"
  "tk_first (send e tk) = tk_first tk" "tk_first (nap n tk) = tk_first tk"
  "tk_instance (send e tk) = tk_instance tk" "tk_instance (nap n tk) = tk_instance tk"
  "tk_retry (send e tk) = tk_retry tk" "tk_retry (nap n tk) = tk_retry tk"
  "tk_ended (send e tk) = tk_ended tk" "tk_ended (nap n tk) = tk_ended tk"
  "tk_requests (send e tk) = tk_requests tk" "tk_requests (nap n tk) = tk_requests tk"
  by (simp_all add: send_def nap_def)

text \<open>Reading a connection changes only what is delivered and the point to resume from.\<close>

lemma read_events_keeps:
  "case read_events parse container instnc rs seen silent received tk of (received', err, tk') \<Rightarrow>
     (\<exists>ls. tk_out tk' = tk_out tk @ map (\<lambda>l. Lines [l]) ls \<and> received' = (received \<or> ls \<noteq> [])) \<and>
     tk_slept tk' = tk_slept tk \<and>
     tk_gone tk' = tk_gone tk \<and> tk_backoff tk' = tk_backoff tk \<and> tk_instance tk' = tk_instance tk \<and>
     tk_first tk' = tk_first tk \<and> tk_retry tk' = tk_retry tk \<and> tk_ended tk' = tk_ended tk \<and>
     tk_requests tk' = tk_requests tk"
proof (induction parse container instnc rs seen silent received tk rule: read_events.induct)
  case (5 parse container instnc bytes rs seen silent received tk)
  obtain dup seen' where dup: "is_duplicate (tk_resume tk) (rl_timestamp (parse bytes)) seen = (dup, seen')"
    by fastforce
  have "\<exists>ks. Lines [l] # map (\<lambda>l. Lines [l]) ls = map (\<lambda>l. Lines [l]) ks \<and> (P \<or> ks \<noteq> [])" for l ls P
    by (rule exI [of _ "l # ls"]) simp
  with 5 [OF refl dup [symmetric] refl] show ?case by (auto simp: dup Let_def split: prod.splits)
qed (auto simp: Let_def split: prod.splits)

text \<open>A task that does not announce its pod sends neutral events only.\<close>

lemma neutral_simps [simp]:
  "neutral (Lines ls)" "\<not> neutral (PodJoined p cs i)" "\<not> neutral (PodGone p)" "neutral (Connected p c)"
  "neutral (ReconnectingStream p c e)" "neutral (Ended p c why)" "neutral AllDone" "neutral (StreamError why)"
  by (simp_all add: neutral_def)

text \<open>What a round adds to the events: first what the lookup has to say, then what the connection says.\<close>

lemma stream_phase_out:
  "\<exists>es. tk_out (stream_phase parse name container opts restarts rd tk) = tk_out tk @ es \<and> list_all neutral es"
proof -
  have reads: "\<exists>es. tk_out tk' = tk_out tk @ es \<and> list_all neutral es"
    if "read_events parse container i rs 0 0 False (send (Connected name container) tk) = (received, err, tk')"
    for i rs tk tk' received err
  proof -
    from read_events_keeps [where parse = parse and container = container and instnc = i and rs = rs and seen = 0
        and silent = 0 and received = False and tk = "send (Connected name container) tk"] that
    obtain ls where "tk_out tk' = tk_out tk @ Connected name container # map (\<lambda>l. Lines [l]) ls" by auto
    then show ?thesis by (intro exI [of _ "Connected name container # map (\<lambda>l. Lines [l]) ls"]) (simp add: list_all_iff)
  qed
  show ?thesis
    by (cases "rd_connection rd")
      (auto simp: stream_phase_def Let_def list_all_iff split: prod.splits dest!: reads)
qed

text \<open>Whether the pod is announced as gone after the events; \<open>None\<close> when it goes while it is gone.\<close>

fun gone_after :: "bool \<Rightarrow> stream_event list \<Rightarrow> bool option" where
  "gone_after gone [] = Some gone"
| "gone_after gone (PodGone p # es) = (if gone then None else gone_after True es)"
| "gone_after gone (PodJoined p cs i # es) = gone_after False es"
| "gone_after gone (e # es) = gone_after gone es"

lemma gone_after_append: "gone_after g (xs @ ys) = Option.bind (gone_after g xs) (\<lambda>h. gone_after h ys)"
  by (induction g xs rule: gone_after.induct) auto

lemma gone_after_neutral: "list_all neutral es \<Longrightarrow> gone_after g es = Some g"
proof (induction es)
  case (Cons e es)
  then show ?case by (cases e) auto
qed simp

definition announced :: "role \<Rightarrow> task \<Rightarrow> bool" where
  "announced role tk \<longleftrightarrow>
     (if announces role then gone_after False (tk_out tk) = Some (tk_gone tk) else list_all neutral (tk_out tk))"

lemma announced_neutral:
  "announced role tk \<Longrightarrow> tk_out tk' = tk_out tk @ es \<Longrightarrow> list_all neutral es \<Longrightarrow> tk_gone tk' = tk_gone tk \<Longrightarrow>
     announced role tk'"
  by (auto simp: announced_def gone_after_append gone_after_neutral)

lemma announced_send: "announced role tk \<Longrightarrow> neutral e \<Longrightarrow> announced role (send e tk)"
  by (rule announced_neutral [of role tk _ "[e]"]) simp_all

lemma announced_same:
  "announced role tk \<Longrightarrow> tk_out tk' = tk_out tk \<Longrightarrow> tk_gone tk' = tk_gone tk \<Longrightarrow> announced role tk'"
  by (rule announced_neutral [of role tk _ "[]"]) simp_all

lemma announced_check:
  assumes "announced role tk"
  shows "announced role (snd (check_started role name container p tk))"
  using assms
  by (auto simp: check_started_def Let_def split: option.splits
      intro: announced_same announced_send elim: announced_neutral [where es = "[Ended _ _ _]"])

lemma announced_new: "announced role tk \<Longrightarrow> announced role (new_instance role name container tk)"
  by (simp add: announced_def new_instance_def Let_def gone_after_append split: bind_splits)

lemma announced_lookup:
  assumes "announced role tk"
  shows "announced role (snd (lookup_phase role name container answer tk))"
proof (cases answer)
  case NoPod
  with assms show ?thesis
    by (auto simp: lookup_phase_def announced_def Let_def gone_after_append)
next
  case (FoundPod p)
  with assms show ?thesis
    by (auto simp: lookup_phase_def Let_def intro!: announced_check announced_send
        intro: announced_same [OF announced_new] announced_same)
qed (use assms in \<open>simp add: lookup_phase_def\<close>)

lemma stream_phase_gone: "tk_gone (stream_phase parse name container opts restarts rd tk) = tk_gone tk"
proof -
  have "tk_gone tk' = tk_gone tk" if "read_events parse container i rs 0 0 False tk = (received, err, tk')"
    for i rs tk tk' received err
    using read_events_keeps [where parse = parse and container = container and instnc = i and rs = rs and seen = 0
        and silent = 0 and received = False and tk = tk] that by simp
  from this show ?thesis
    by (cases "rd_connection rd") (auto simp: stream_phase_def Let_def split: prod.splits)
qed

lemma announced_round:
  assumes "announced role tk"
  shows "announced role (snd (container_round parse role name container opts rd tk))"
proof -
  obtain ph tk' where run: "lookup_phase role name container (rd_lookup rd) tk = (ph, tk')" by fastforce
  with announced_lookup [OF assms, of name container "rd_lookup rd"] have found: "announced role tk'" by simp
  then have "announced role (stream_phase parse name container opts restarts rd tk')" for restarts
    using announced_neutral stream_phase_out stream_phase_gone by metis
  with found run show ?thesis by (simp add: container_round_def split: phase.splits)
qed

section \<open>The waits of a task\<close>

text \<open>What a round shows from outside: whether it asked for the log, whether it took up a new instance of the pod,
  and whether its connection failed (lost without a single line, with the instance still there).\<close>

definition attempted :: "task \<Rightarrow> task \<Rightarrow> bool" where
  "attempted tk tk' \<longleftrightarrow> length (tk_requests tk) < length (tk_requests tk')"

definition starts_over :: "task \<Rightarrow> task \<Rightarrow> bool" where
  "starts_over tk tk' \<longleftrightarrow>
     (tk_gone tk \<and> \<not> tk_gone tk') \<or>
     (case tk_instance tk of Some (uid, _) \<Rightarrow> map_option fst (tk_instance tk') \<noteq> Some uid | None \<Rightarrow> False)"

definition failed_attempt :: "task \<Rightarrow> task \<Rightarrow> bool" where
  "failed_attempt tk tk' \<longleftrightarrow>
     (let es = drop (length (tk_out tk)) (tk_out tk')
      in list_ex (\<lambda>e. case e of ReconnectingStream _ _ _ \<Rightarrow> True | _ \<Rightarrow> False) es \<and>
         list_all (\<lambda>e. case e of Lines _ \<Rightarrow> False | _ \<Rightarrow> True) es)"

text \<open>The waits these rounds should have.  \<open>failed\<close> counts the attempts that failed in a row since the instance was
  taken up, \<open>None\<close> before the first attempt: that one is made at once, a later one after \<open>2 ^ failed\<close> seconds
  and at most thirty.  A round without an attempt waits two seconds, or five when the pod has finished and
  that was said.\<close>

fun task_waits :: "(char list \<Rightarrow> raw_line) \<Rightarrow> role \<Rightarrow> str \<Rightarrow> str \<Rightarrow> log_options \<Rightarrow> nat option \<Rightarrow> round list \<Rightarrow> task \<Rightarrow> nat list" where
  "task_waits parse role name container opts failed [] tk = []"
| "task_waits parse role name container opts failed (rd # rds) tk =
     (let (going, tk') = container_round parse role name container opts rd tk;
          failed = (if starts_over tk tk' then None else failed)
      in if attempted tk tk'
         then (case failed of None \<Rightarrow> [] | Some n \<Rightarrow> [min 30 (2 ^ n)]) @
              task_waits parse role name container opts
                (Some (if failed_attempt tk tk' then (case failed of None \<Rightarrow> 1 | Some n \<Rightarrow> Suc n) else 0)) rds tk'
         else if going
         then (case rd_lookup rd of
                 FoundPod p \<Rightarrow> [if finished_reason p container \<noteq> None \<and> tk_ended tk' then 5 else 2]
               | _ \<Rightarrow> [2]) @ task_waits parse role name container opts failed rds tk'
         else [])"

text \<open>The backoff the task holds is the one the count stands for.\<close>

definition backs_off :: "nat option \<Rightarrow> task \<Rightarrow> bool" where
  "backs_off failed tk \<longleftrightarrow>
     (case failed of None \<Rightarrow> \<not> tk_retry tk \<and> tk_backoff tk = 1 | Some n \<Rightarrow> tk_retry tk \<and> tk_backoff tk = min 30 (2 ^ n))"

lemma backoff_doubles: "min (min 30 (2 ^ n) * 2) 30 = min 30 (2 ^ Suc n :: nat)"
  by (cases "(30::nat) \<le> 2 ^ n") (auto simp: min_def)

text \<open>What a lookup does to the waits.\<close>

definition silent_event :: "stream_event \<Rightarrow> bool" where
  "silent_event e \<longleftrightarrow> (case e of Lines _ \<Rightarrow> False | ReconnectingStream _ _ _ \<Rightarrow> False | _ \<Rightarrow> True)"

lemma silent_simps [simp]:
  "silent_event (PodJoined p cs i)" "silent_event (PodGone p)" "silent_event (Connected p c)" "silent_event (Ended p c why)"
  "\<not> silent_event (Lines ls)" "\<not> silent_event (ReconnectingStream p c e)"
  by (simp_all add: silent_event_def)

definition quiet_waits :: "str \<Rightarrow> pod_lookup \<Rightarrow> task \<Rightarrow> nat list" where
  "quiet_waits container answer tk =
     (case answer of
        FoundPod p \<Rightarrow> [if finished_reason p container \<noteq> None \<and> tk_ended tk then 5 else 2]
      | _ \<Rightarrow> [2])"

definition lookup_ok :: "str \<Rightarrow> pod_lookup \<Rightarrow> task \<Rightarrow> phase \<times> task \<Rightarrow> bool" where
  "lookup_ok container answer tk result \<longleftrightarrow>
     (case result of (ph, tk') \<Rightarrow>
        tk_requests tk' = tk_requests tk \<and>
        (\<exists>es. tk_out tk' = tk_out tk @ es \<and> list_all silent_event es) \<and>
        (ph \<noteq> Return \<longrightarrow>
           (if starts_over tk tk' then \<not> tk_retry tk' \<and> tk_backoff tk' = 1
            else tk_retry tk' = tk_retry tk \<and> tk_backoff tk' = tk_backoff tk)) \<and>
        tk_slept tk' = tk_slept tk @ (if ph = Again then quiet_waits container answer tk' else []))"

lemma check_started_waits:
  "case check_started role name container p tk of (ph, tk') \<Rightarrow>
     tk_requests tk' = tk_requests tk \<and> tk_gone tk' = tk_gone tk \<and> tk_instance tk' = tk_instance tk \<and>
     tk_retry tk' = tk_retry tk \<and> tk_backoff tk' = tk_backoff tk \<and>
     (\<exists>es. tk_out tk' = tk_out tk @ es \<and> list_all silent_event es) \<and>
     tk_slept tk' = tk_slept tk @ (if ph = Again then quiet_waits container (FoundPod p) tk' else [])"
  by (auto simp: check_started_def Let_def quiet_waits_def poll_def poll_finished_def split: option.split)

lemma lookup_waits: "lookup_ok container answer tk (lookup_phase role name container answer tk)"
proof (cases answer)
  case NoPod
  then show ?thesis
    by (auto simp: lookup_ok_def lookup_phase_def starts_over_def quiet_waits_def poll_def Let_def
        split: option.split)
next
  case LookupFailed
  then show ?thesis
    by (auto simp: lookup_ok_def lookup_phase_def starts_over_def split: option.split)
next
  case (FoundPod p)
  let ?uid = "unwrap_or (pd_uid p) []"
  let ?here = "\<lambda>tk. tk\<lparr>tk_instance := Some (?uid, restart_count p container)\<rparr>"
  let ?replaced = "case tk_instance tk of Some (old, _) \<Rightarrow> old \<noteq> ?uid | None \<Rightarrow> False"
  show ?thesis
  proof (cases "?replaced \<or> tk_gone tk")
    case True
    show ?thesis
    proof (cases "\<not> follows_name role \<or> container \<notin> set (all_containers (pod_containers_of p))")
      case True
      with \<open>?replaced \<or> tk_gone tk\<close> FoundPod show ?thesis
        by (simp add: lookup_ok_def lookup_phase_def Let_def)
    next
      case False
      let ?new = "?here (new_instance role name container tk)"
      obtain ph tk' where run: "check_started role name container p ?new = (ph, tk')" by fastforce
      have "lookup_phase role name container answer tk = (ph, tk')"
        using True False FoundPod run by (simp add: lookup_phase_def Let_def)
      moreover have "starts_over tk tk'" "\<not> tk_retry tk'" "tk_backoff tk' = 1"
        using True check_started_waits [where role = role and name = name and container = container and p = p and tk = ?new] run
        by (auto simp: starts_over_def new_instance_def Let_def backoff_start_def split: option.splits)
      moreover have "\<exists>es. tk_out ?new = tk_out tk @ es \<and> list_all silent_event es" "tk_requests ?new = tk_requests tk"
        "tk_slept ?new = tk_slept tk"
        by (simp_all add: new_instance_def Let_def)
      ultimately show ?thesis
        using check_started_waits [where role = role and name = name and container = container and p = p and tk = ?new] run FoundPod
        by (auto simp: lookup_ok_def)
    qed
  next
    case False
    obtain ph tk' where run: "check_started role name container p (?here tk) = (ph, tk')" by fastforce
    have "lookup_phase role name container answer tk = (ph, tk')"
      using False FoundPod run by (simp add: lookup_phase_def Let_def)
    moreover have "\<not> starts_over tk tk'"
      using False check_started_waits [where role = role and name = name and container = container and p = p and tk = "?here tk"] run
      by (auto simp: starts_over_def split: option.splits)
    ultimately show ?thesis
      using check_started_waits [where role = role and name = name and container = container and p = p and tk = "?here tk"] run FoundPod by (simp add: lookup_ok_def)
  qed
qed

text \<open>What a connection does to them.\<close>

definition no_line :: "stream_event \<Rightarrow> bool" where
  "no_line e \<longleftrightarrow> (case e of Lines _ \<Rightarrow> False | _ \<Rightarrow> True)"

definition is_reconnect :: "stream_event \<Rightarrow> bool" where
  "is_reconnect e \<longleftrightarrow> (case e of ReconnectingStream _ _ _ \<Rightarrow> True | _ \<Rightarrow> False)"

lemma line_simps [simp]:
  "\<not> no_line (Lines ls)" "no_line (Connected p c)" "no_line (ReconnectingStream p c e)"
  "\<not> is_reconnect (Lines ls)" "\<not> is_reconnect (Connected p c)" "is_reconnect (ReconnectingStream p c e)"
  by (simp_all add: no_line_def is_reconnect_def)

lemma connection_reads:
  assumes "(case rd_connection rd of
      ConnectFailed e \<Rightarrow> (False, Some e, tk)
    | Streaming rs \<Rightarrow> read_events parse container (tk_instance tk) rs 0 0 False (send (Connected name container) tk)) =
    (received, err, tk')"
  shows "\<exists>es. tk_out tk' = tk_out tk @ es \<and> list_all (\<lambda>e. \<not> is_reconnect e) es \<and> received = (\<not> list_all no_line es)"
    and "tk_slept tk' = tk_slept tk" "tk_backoff tk' = tk_backoff tk" "tk_requests tk' = tk_requests tk"
    "tk_instance tk' = tk_instance tk" "tk_retry tk' = tk_retry tk"
proof -
  have "(\<exists>es. tk_out tk' = tk_out tk @ es \<and> list_all (\<lambda>e. \<not> is_reconnect e) es \<and> received = (\<not> list_all no_line es)) \<and>
    tk_slept tk' = tk_slept tk \<and> tk_backoff tk' = tk_backoff tk \<and> tk_requests tk' = tk_requests tk \<and>
    tk_instance tk' = tk_instance tk \<and> tk_retry tk' = tk_retry tk"
  proof (cases "rd_connection rd")
    case (ConnectFailed e)
    with assms show ?thesis by auto
  next
    case (Streaming rs)
    with assms have run: "read_events parse container (tk_instance tk) rs 0 0 False (send (Connected name container) tk) =
        (received, err, tk')" by simp
    from read_events_keeps [where parse = parse and container = container and instnc = "tk_instance tk" and rs = rs
        and seen = 0 and silent = 0 and received = False and tk = "send (Connected name container) tk", unfolded run]
    obtain ls where ls: "tk_out tk' = tk_out tk @ Connected name container # map (\<lambda>l. Lines [l]) ls" "received = (ls \<noteq> [])"
      and rest: "tk_slept tk' = tk_slept tk" "tk_backoff tk' = tk_backoff tk" "tk_requests tk' = tk_requests tk"
        "tk_instance tk' = tk_instance tk" "tk_retry tk' = tk_retry tk" by auto
    have "list_all no_line (map (\<lambda>l. Lines [l]) ls) \<longleftrightarrow> ls = []" by (cases ls) simp_all
    with ls rest show ?thesis
      by (intro conjI exI [of _ "Connected name container # map (\<lambda>l. Lines [l]) ls"]) (simp_all add: list_all_iff)
  qed
  then show "\<exists>es. tk_out tk' = tk_out tk @ es \<and> list_all (\<lambda>e. \<not> is_reconnect e) es \<and> received = (\<not> list_all no_line es)"
    "tk_slept tk' = tk_slept tk" "tk_backoff tk' = tk_backoff tk" "tk_requests tk' = tk_requests tk"
    "tk_instance tk' = tk_instance tk" "tk_retry tk' = tk_retry tk" by simp_all
qed

lemma stream_waits:
  "let tk' = stream_phase parse name container opts restarts rd tk in
   (\<exists>es. tk_out tk' = tk_out tk @ es \<and>
      tk_backoff tk' = (if list_ex is_reconnect es \<and> list_all no_line es then min (tk_backoff tk * 2) 30 else 1)) \<and>
   length (tk_requests tk') = Suc (length (tk_requests tk)) \<and>
   tk_slept tk' = tk_slept tk @ (if tk_retry tk then [tk_backoff tk] else []) \<and>
   tk_retry tk' \<and> tk_instance tk' = tk_instance tk"
proof -
  let ?tk1 = "if tk_retry tk then nap (tk_backoff tk) tk else tk"
  let ?tk = "?tk1\<lparr>tk_requests := tk_requests ?tk1 @ [resume_request container opts ?tk1], tk_first := False\<rparr>"
  obtain received err tk' where run: "(case rd_connection rd of
      ConnectFailed e \<Rightarrow> (False, Some e, ?tk)
    | Streaming rs \<Rightarrow> read_events parse container (tk_instance ?tk) rs 0 0 False (send (Connected name container) ?tk)) =
    (received, err, tk')" by (metis prod_cases3)
  let ?there = "still_there container (tk_instance tk') restarts (rd_after rd)"
  have ends: "stream_phase parse name container opts restarts rd tk =
      (if ?there then send (ReconnectingStream name container err) tk' else tk')
        \<lparr>tk_backoff := (if received \<or> \<not> ?there then backoff_start else min (tk_backoff tk' * 2) backoff_max),
         tk_retry := True\<rparr>"
    unfolding stream_phase_def Let_def using run by (simp split: prod.split)
  from connection_reads(1) [OF run] obtain es where es: "tk_out tk' = tk_out tk @ es" "list_all (\<lambda>e. \<not> is_reconnect e) es"
    "received = (\<not> list_all no_line es)" by (auto split: if_splits)
  have none: "\<not> list_ex is_reconnect es" using es(2) by (auto simp: list_all_iff list_ex_iff)
  let ?es = "es @ (if ?there then [ReconnectingStream name container err] else [])"
  have "tk_out (stream_phase parse name container opts restarts rd tk) = tk_out tk @ ?es \<and>
      tk_backoff (stream_phase parse name container opts restarts rd tk) =
        (if list_ex is_reconnect ?es \<and> list_all no_line ?es then min (tk_backoff tk * 2) 30 else 1)"
    using connection_reads(3) [OF run] es none by (simp add: ends backoff_start_def backoff_max_def)
  then show ?thesis
    using connection_reads(2,4-6) [OF run] unfolding Let_def by (auto simp: ends)
qed

text \<open>A round adds the waits it should, and the backoff it leaves is the one its outcome stands for.\<close>

lemma round_waits:
  assumes "container_round parse role name container opts rd tk = (going, tk')" "backs_off failed tk"
  defines "counted \<equiv> if starts_over tk tk' then None else failed"
  shows "attempted tk tk' \<Longrightarrow> going \<and>
      tk_slept tk' = tk_slept tk @ (case counted of None \<Rightarrow> [] | Some n \<Rightarrow> [min 30 (2 ^ n)]) \<and>
      backs_off (Some (if failed_attempt tk tk' then (case counted of None \<Rightarrow> 1 | Some n \<Rightarrow> Suc n) else 0)) tk'"
    and "\<not> attempted tk tk' \<Longrightarrow> going \<Longrightarrow>
      tk_slept tk' = tk_slept tk @ quiet_waits container (rd_lookup rd) tk' \<and> backs_off counted tk'"
    and "\<not> attempted tk tk' \<Longrightarrow> \<not> going \<Longrightarrow> tk_slept tk' = tk_slept tk"
proof -
  obtain ph tk1 where look: "lookup_phase role name container (rd_lookup rd) tk = (ph, tk1)" by fastforce
  from lookup_waits [of container "rd_lookup rd" tk role name] obtain es1 where
    l: "tk_requests tk1 = tk_requests tk" "tk_out tk1 = tk_out tk @ es1" "list_all silent_event es1"
    "ph \<noteq> Return \<Longrightarrow> if starts_over tk tk1 then \<not> tk_retry tk1 \<and> tk_backoff tk1 = 1
       else tk_retry tk1 = tk_retry tk \<and> tk_backoff tk1 = tk_backoff tk"
    "tk_slept tk1 = tk_slept tk @ (if ph = Again then quiet_waits container (rd_lookup rd) tk1 else [])"
    unfolding look lookup_ok_def by auto
  have kept: "backs_off (if starts_over tk tk1 then None else failed) tk1" if "ph \<noteq> Return"
    using l(4) [OF that] assms(2) by (auto simp: backs_off_def split: if_splits option.splits)
  show "attempted tk tk' \<Longrightarrow> going \<and>
      tk_slept tk' = tk_slept tk @ (case counted of None \<Rightarrow> [] | Some n \<Rightarrow> [min 30 (2 ^ n)]) \<and>
      backs_off (Some (if failed_attempt tk tk' then (case counted of None \<Rightarrow> 1 | Some n \<Rightarrow> Suc n) else 0)) tk'"
  proof -
    assume "attempted tk tk'"
    with l(1) assms(1) obtain restarts where ph: "ph = Go restarts" and going: going
      and tk': "tk' = stream_phase parse name container opts restarts rd tk1"
      by (cases ph) (auto simp: container_round_def look attempted_def)
    from stream_waits [of parse name container opts restarts rd tk1] obtain es where
      st: "tk_out tk' = tk_out tk1 @ es"
        "tk_backoff tk' = (if list_ex is_reconnect es \<and> list_all no_line es then min (tk_backoff tk1 * 2) 30 else 1)"
        "tk_slept tk' = tk_slept tk1 @ (if tk_retry tk1 then [tk_backoff tk1] else [])"
        "tk_retry tk'" "tk_instance tk' = tk_instance tk1"
      unfolding tk' Let_def by auto
    have gone: "tk_gone tk' = tk_gone tk1" unfolding tk' by (rule stream_phase_gone)
    have over: "starts_over tk tk' = starts_over tk tk1"
      unfolding starts_over_def gone st(5) ..
    have "failed_attempt tk tk' \<longleftrightarrow> list_ex is_reconnect (es1 @ es) \<and> list_all no_line (es1 @ es)"
      by (simp add: failed_attempt_def st(1) l(2) is_reconnect_def [abs_def] no_line_def [abs_def])
    moreover have "\<not> list_ex is_reconnect es1" "list_all no_line es1"
      using l(3) by (auto simp: list_all_iff list_ex_iff silent_event_def is_reconnect_def no_line_def split: stream_event.splits)
    ultimately have lost: "failed_attempt tk tk' \<longleftrightarrow> list_ex is_reconnect es \<and> list_all no_line es" by simp
    have held: "backs_off counted tk1" using kept ph by (simp add: counted_def over)
    have "backs_off (Some (if failed_attempt tk tk' then (case counted of None \<Rightarrow> 1 | Some n \<Rightarrow> Suc n) else 0)) tk'"
      using held backoff_doubles by (cases counted) (auto simp: backs_off_def st(2,4) lost)
    moreover have "tk_slept tk' = tk_slept tk @ (case counted of None \<Rightarrow> [] | Some n \<Rightarrow> [min 30 (2 ^ n)])"
      using held ph by (auto simp: st(3) l(5) backs_off_def split: option.splits)
    ultimately show ?thesis using going by simp
  qed
  have quiet: "tk' = tk1 \<and> (if going then ph = Again else ph = Return)" if "\<not> attempted tk tk'"
  proof (cases ph)
    case (Go restarts)
    then have "tk' = stream_phase parse name container opts restarts rd tk1"
      using assms(1) by (simp add: container_round_def look)
    with stream_waits [of parse name container opts restarts rd tk1] l(1) that show ?thesis
      by (simp add: attempted_def Let_def)
  qed (use assms(1) in \<open>simp_all add: container_round_def look\<close>)
  show "\<not> attempted tk tk' \<Longrightarrow> going \<Longrightarrow>
      tk_slept tk' = tk_slept tk @ quiet_waits container (rd_lookup rd) tk' \<and> backs_off counted tk'"
    using quiet l(5) kept by (simp add: counted_def)
  show "\<not> attempted tk tk' \<Longrightarrow> \<not> going \<Longrightarrow> tk_slept tk' = tk_slept tk"
    using quiet l(5) by simp
qed

lemma attempt_goes:
  "container_round parse role name container opts rd tk = (False, tk') \<Longrightarrow> backs_off failed tk \<Longrightarrow> \<not> attempted tk tk'"
  using round_waits(1) by blast

lemma loop_waits:
  "backs_off failed tk \<Longrightarrow>
   tk_slept (container_loop parse role name container opts rds tk) =
     tk_slept tk @ task_waits parse role name container opts failed rds tk"
proof (induction rds arbitrary: failed tk)
  case (Cons rd rds)
  obtain going tk' where run: "container_round parse role name container opts rd tk = (going, tk')" by fastforce
  note r = round_waits [OF run Cons.prems]
  show ?case
  proof (cases "attempted tk tk'")
    case True
    with r(1) Cons.IH run show ?thesis by (auto simp: Let_def)
  next
    case False
    with r(2,3) Cons.IH run show ?thesis
      by (cases going) (auto simp: Let_def quiet_waits_def split: pod_lookup.split)
  qed
qed simp

section \<open>The loop as a machine\<close>

definition loop_step ::
  "(char list \<Rightarrow> raw_line) \<Rightarrow> role \<Rightarrow> str \<Rightarrow> str \<Rightarrow> log_options \<Rightarrow> round \<Rightarrow> bool \<times> task \<Rightarrow> bool \<times> task" where
  "loop_step parse role name container opts rd state =
     (if fst state then container_round parse role name container opts rd (snd state) else state)"

lemma loop_step_simps [simp]:
  "loop_step parse role name container opts rd (True, tk) = container_round parse role name container opts rd tk"
  "loop_step parse role name container opts rd (False, tk) = (False, tk)"
  by (simp_all add: loop_step_def)

lemma loop_stopped [simp]: "fold (loop_step parse role name container opts) rds (False, tk) = (False, tk)"
  by (induction rds) simp_all

lemma container_loop_fold:
  "container_loop parse role name container opts rds tk =
     snd (fold (loop_step parse role name container opts) rds (True, tk))"
proof (induction rds arbitrary: tk)
  case (Cons rd rds)
  obtain going tk' where "container_round parse role name container opts rd tk = (going, tk')" by fastforce
  with Cons show ?case by (cases going) simp_all
qed simp

interpretation tasking: machine "loop_step parse role name container opts"
  "\<lambda>state. announced role (snd state)" for parse role name container opts
  by unfold_locales (simp add: loop_step_def announced_round)

text \<open>A followed pod is never announced as gone twice in a row, however the lookups and connections of
  its lead task go; the tasks of a selector, and the other tasks of a pod, never announce it at all.\<close>

lemma tasks_announce:
  "if role = PodRole True
   then gone_after False (tk_out (container_loop parse role name container opts rds task_new)) =
     Some (tk_gone (container_loop parse role name container opts rds task_new))
   else list_all neutral (tk_out (container_loop parse role name container opts rds task_new))"
proof -
  have "announced role task_new" by (simp add: announced_def task_new_def)
  with tasking.run_keeps [of role "(True, task_new)" parse name container opts rds]
  have "announced role (container_loop parse role name container opts rds task_new)"
    by (simp add: container_loop_fold)
  then show ?thesis unfolding announced_def announces_def .
qed

lemma waits_range: "set (task_waits parse role name container opts failed rds tk) \<subseteq> {1..30}"
proof (induction rds arbitrary: failed tk)
  case (Cons rd rds)
  obtain going tk' where run: "container_round parse role name container opts rd tk = (going, tk')" by fastforce
  let ?counted = "if starts_over tk tk' then None else failed"
  have wait: "set (case c of None \<Rightarrow> [] | Some n \<Rightarrow> [min 30 (2 ^ n :: nat)]) \<subseteq> {1..30}" for c
    by (cases c) auto
  from wait [of ?counted] Cons.IH
  have attempt: "attempted tk tk' \<Longrightarrow> ?case" by (simp add: run Let_def)
  have "set (quiet_waits container (rd_lookup rd) tk') \<subseteq> {1..30}"
    by (simp add: quiet_waits_def split: pod_lookup.split)
  moreover have "task_waits parse role name container opts failed (rd # rds) tk =
      (if going then quiet_waits container (rd_lookup rd) tk' @ task_waits parse role name container opts ?counted rds tk' else [])"
    if "\<not> attempted tk tk'"
    using that by (simp add: run Let_def quiet_waits_def)
  ultimately have "\<not> attempted tk tk' \<Longrightarrow> ?case"
    using Cons.IH [of ?counted tk'] by (cases going) simp_all
  with attempt show ?case by blast
qed simp

text \<open>C23: The waits of a task are exactly these: before it connects again to an instance of the pod, one second when
  the last connection was no failure, and otherwise twice as long for each failure in a row, from two seconds up
  to thirty; no wait before the first connection to an instance, which starts the count over; between lookups two
  seconds, or five once the pod was reported as finished.  So no wait is shorter than a second or longer than
  thirty.\<close>

theorem waits_doubled:
  "tk_slept (container_loop parse role name container opts rds task_new) =
     task_waits parse role name container opts None rds task_new \<and>
   set (tk_slept (container_loop parse role name container opts rds task_new)) \<subseteq> {1..30}"
proof -
  have "backs_off None task_new" "tk_slept task_new = []"
    by (simp_all add: backs_off_def task_new_def backoff_start_def)
  moreover note waits_range [of parse role name container opts None rds task_new]
  ultimately show ?thesis using loop_waits [of None task_new] by simp
qed

end
