(* ===== verification/LogDelivery.thy ===== *)
theory LogDelivery
  imports LogTasks
begin

text \<open>
  What a followed container delivers while the network fails: lookups that fail, connections that are
  refused, break or serve only a part of what was asked for.
\<close>

definition lines_of_event :: "stream_event \<Rightarrow> raw_line list" where
  "lines_of_event e = (case e of Lines ls \<Rightarrow> ls | _ \<Rightarrow> [])"

definition lines_sent :: "stream_event list \<Rightarrow> raw_line list" where
  "lines_sent es = concat (map lines_of_event es)"

lemma lines_sent_simps [simp]:
  "lines_sent [] = []" "lines_sent (e # es) = lines_of_event e @ lines_sent es"
  "lines_sent (xs @ ys) = lines_sent xs @ lines_sent ys" "lines_of_event (Lines ls) = ls"
  "lines_of_event (Connected p c) = []" "lines_of_event (ReconnectingStream p c err) = []"
  "lines_of_event (Ended p c why) = []"
  by (simp_all add: lines_sent_def lines_of_event_def)

lemma lines_sent_singles [simp]: "lines_sent (map (\<lambda>l. Lines [l]) ls) = ls"
  by (induction ls) simp_all

text \<open>The end of a connection, and what it delivered before.\<close>

definition ending :: "str option \<Rightarrow> read_result" where
  "ending e = (case e of None \<Rightarrow> EndOfStream | Some err \<Rightarrow> ReadFailed err)"

lemma read_lines:
  "read_events parse container instnc (map ReadLine bs @ [ending e]) seen silent received tk =
     (case follow_lines (tk_resume tk) seen (map parse bs) of (r, ls) \<Rightarrow>
        (received \<or> ls \<noteq> [], e, tk\<lparr>tk_resume := r, tk_out := tk_out tk @ map (\<lambda>l. Lines [l]) ls\<rparr>))"
proof (induction bs arbitrary: seen silent received tk)
  case Nil
  show ?case by (cases e) (simp_all add: ending_def)
next
  case (Cons b bs)
  show ?case
    by (auto simp: Cons.IH Let_def send_def split: prod.splits)
qed

text \<open>What the network does in a round: a lookup that is answered or not, a connection refused or one that
  serves up to \<open>n\<close> lines, from \<open>slack\<close> before the time asked for, and a lookup after it.\<close>

datatype network = Refuses bool bool str | Serves bool bool nat nat "str option"

definition log_server :: "(char list \<Rightarrow> raw_line) \<Rightarrow> nat \<Rightarrow> log_params \<Rightarrow> char list list \<Rightarrow> char list list" where
  "log_server parse slack request bytes =
     (case lp_since_time request of
        None \<Rightarrow> bytes
      | Some t \<Rightarrow> dropWhile (\<lambda>b. case rl_timestamp (parse b) of Some u \<Rightarrow> u < t - int slack | None \<Rightarrow> False) bytes)"

definition answered :: "bool \<Rightarrow> pod \<Rightarrow> pod_lookup" where
  "answered ok p = (if ok then FoundPod p else LookupFailed)"

definition served_round ::
  "(char list \<Rightarrow> raw_line) \<Rightarrow> str \<Rightarrow> log_options \<Rightarrow> pod \<Rightarrow> char list list \<Rightarrow> network \<Rightarrow> task \<Rightarrow> round" where
  "served_round parse container opts p bytes net tk =
     (case net of
        Refuses before after err \<Rightarrow>
          \<lparr>rd_lookup = answered before p, rd_connection = ConnectFailed err, rd_after = answered after p\<rparr>
      | Serves before after slack n e \<Rightarrow>
          \<lparr>rd_lookup = answered before p,
           rd_connection = Streaming (map ReadLine (take n (log_server parse slack (resume_request container opts tk) bytes))
                             @ [ending e]),
           rd_after = answered after p\<rparr>)"

fun served_rounds ::
  "(char list \<Rightarrow> raw_line) \<Rightarrow> role \<Rightarrow> str \<Rightarrow> str \<Rightarrow> log_options \<Rightarrow> pod \<Rightarrow> char list list \<Rightarrow> network list \<Rightarrow> task
    \<Rightarrow> round list" where
  "served_rounds parse role name container opts p bytes [] tk = []"
| "served_rounds parse role name container opts p bytes (net # nets) tk =
     (let rd = served_round parse container opts p bytes net tk
      in rd # served_rounds parse role name container opts p bytes nets
           (snd (container_round parse role name container opts rd tk)))"

text \<open>A running pod, followed from its start: the lines delivered so far are the log up to a point, and the
  next request asks for what comes after.\<close>

definition whole_log :: "log_options \<Rightarrow> bool" where
  "whole_log opts \<longleftrightarrow> lo_since opts = SinceStart \<and> lo_tail_lines opts = None"

definition task_steady :: "pod \<Rightarrow> str \<Rightarrow> raw_line list \<Rightarrow> task \<Rightarrow> bool" where
  "task_steady p container logged tk \<longleftrightarrow>
     \<not> tk_gone tk \<and> tk_instance tk \<in> {None, Some (unwrap_or (pd_uid p) [], restart_count p container)} \<and>
     delivered logged (tk_resume tk, lines_sent (tk_out tk)) \<and> (if tk_first tk then lines_sent (tk_out tk) = [] else True)"

text \<open>The server starts no later than where the task stands.\<close>

lemma server_starts:
  assumes "whole_log opts" "after_point None (map parse bytes)" "task_steady p container (map parse bytes) tk"
  shows "\<exists>j. log_server parse slack (resume_request container opts tk) bytes =
    drop (min j (length (lines_sent (tk_out tk)))) bytes"
proof -
  let ?out = "lines_sent (tk_out tk)"
  have none: "\<exists>j. bytes = drop (min j (length ?out)) bytes" by (rule exI [of _ 0]) simp
  have asked: "lp_since_time (resume_request container opts tk) = (if tk_first tk then None else re_last (tk_resume tk))"
    using assms(1) by (simp add: resume_request_def log_request_def whole_log_def Let_def)
  show ?thesis
  proof (cases "tk_first tk \<or> ?out = []")
    case True
    have "re_last (tk_resume tk) = None" if "?out = []"
      using assms(3) that by (simp add: task_steady_def delivered_def resumed_def resume_default_def)
    with True asked none show ?thesis by (auto simp: log_server_def)
  next
    case False
    from assms(3) obtain rest where logged: "map parse bytes = ?out @ rest" and at: "tk_resume tk = resumed ?out"
      by (auto simp: task_steady_def delivered_def)
    from assms(2) logged have ap: "after_point None ?out" by (simp add: after_point_append)
    from False obtain front l where out: "?out = front @ [l]" by (cases ?out rule: rev_cases) auto
    from ap obtain u where u: "rl_timestamp l = Some u"
      by (auto simp: out after_point_append split: option.splits)
    have since: "lp_since_time (resume_request container opts tk) = Some u"
      using resumed_last [OF ap] False asked at u by (simp add: out)
    let ?P = "\<lambda>b. case rl_timestamp (parse b) of Some v \<Rightarrow> v < u - int slack | None \<Rightarrow> False"
    let ?k = "length (takeWhile ?P bytes)"
    have "?k \<le> length front"
    proof (rule ccontr)
      assume "\<not> ?k \<le> length front"
      then have "?P (bytes ! length front)" using nth_length_takeWhile takeWhile_nth set_takeWhileD
        by (metis (no_types, lifting) not_le nth_mem)
      moreover have "length front < length bytes" using arg_cong [OF logged, of length] by (simp add: out)
      moreover have "parse (bytes ! length front) = l"
        using nth_map [OF \<open>length front < length bytes\<close>, of parse] by (simp add: logged out nth_append)
      ultimately show False by (simp add: u)
    qed
    then have "dropWhile ?P bytes = drop (min ?k (length ?out)) bytes"
      by (simp add: out dropWhile_eq_drop)
    with since show ?thesis by (auto simp: log_server_def)
  qed
qed

lemma lookup_steady:
  assumes "task_steady p container logged tk" "finished_reason p container = None" "has_started p container"
  shows "\<exists>restarts i. lookup_phase role name container (answered ok p) tk = (Go restarts, tk\<lparr>tk_instance := i\<rparr>) \<and>
    i \<in> {None, Some (unwrap_or (pd_uid p) [], restart_count p container)}"
proof (cases ok)
  case True
  with assms show ?thesis
    by (auto simp: lookup_phase_def answered_def check_started_def task_steady_def Let_def)
next
  case False
  then have "lookup_phase role name container (answered ok p) tk = (Go 0, tk\<lparr>tk_instance := tk_instance tk\<rparr>)"
    by (simp add: lookup_phase_def answered_def)
  with assms(1) show ?thesis unfolding task_steady_def by blast
qed

text \<open>One round delivers the next lines of the log, if its connection serves any, and none twice.\<close>

lemma stream_refused:
  "rd_connection rd = ConnectFailed err \<Longrightarrow>
     lines_sent (tk_out (stream_phase parse name container opts restarts rd tk)) = lines_sent (tk_out tk) \<and>
     tk_resume (stream_phase parse name container opts restarts rd tk) = tk_resume tk \<and>
     tk_instance (stream_phase parse name container opts restarts rd tk) = tk_instance tk \<and>
     \<not> tk_first (stream_phase parse name container opts restarts rd tk)"
  by (simp add: stream_phase_def Let_def)

lemma stream_served:
  assumes "rd_connection rd = Streaming (map ReadLine bs @ [ending e])"
  shows "case follow_lines (tk_resume tk) 0 (map parse bs) of (r, ls) \<Rightarrow>
     lines_sent (tk_out (stream_phase parse name container opts restarts rd tk)) = lines_sent (tk_out tk) @ ls \<and>
     tk_resume (stream_phase parse name container opts restarts rd tk) = r \<and>
     tk_instance (stream_phase parse name container opts restarts rd tk) = tk_instance tk \<and>
     \<not> tk_first (stream_phase parse name container opts restarts rd tk)"
  using assms by (simp add: stream_phase_def Let_def read_lines split: prod.splits)

lemma round_steady:
  assumes opts: "whole_log opts" and logged: "after_point None (map parse bytes)"
    and p: "finished_reason p container = None" "has_started p container"
    and tk: "task_steady p container (map parse bytes) tk"
  shows "case container_round parse role name container opts (served_round parse container opts p bytes net tk) tk of
      (going, tk') \<Rightarrow> going \<and> task_steady p container (map parse bytes) tk' \<and>
        (case net of Serves _ _ _ n _ \<Rightarrow> if length bytes \<le> n then lines_sent (tk_out tk') = map parse bytes else True
           | Refuses _ _ _ \<Rightarrow> True)"
proof -
  let ?rd = "served_round parse container opts p bytes net tk"
  obtain ok where ok: "rd_lookup ?rd = answered ok p" by (cases net) (auto simp: served_round_def)
  obtain restarts i where go: "lookup_phase role name container (rd_lookup ?rd) tk = (Go restarts, tk\<lparr>tk_instance := i\<rparr>)"
    and i: "i \<in> {None, Some (unwrap_or (pd_uid p) [], restart_count p container)}"
    using lookup_steady [OF tk p, of role name ok] unfolding ok by blast
  let ?tk = "tk\<lparr>tk_instance := i\<rparr>"
  let ?after = "stream_phase parse name container opts restarts ?rd ?tk"
  have run: "container_round parse role name container opts ?rd tk = (True, ?after)"
    by (simp add: container_round_def go)
  have del: "delivered (map parse bytes) (tk_resume tk, lines_sent (tk_out tk))" "\<not> tk_gone tk"
    using tk by (simp_all add: task_steady_def)
  show ?thesis
  proof (cases net)
    case (Refuses before_ok after_ok err)
    then have "rd_connection ?rd = ConnectFailed err" by (simp add: served_round_def)
    from stream_refused [OF this, of parse name container opts restarts ?tk] del i
    have "task_steady p container (map parse bytes) ?after"
      by (simp add: task_steady_def stream_phase_gone)
    then show ?thesis unfolding run by (simp add: Refuses)
  next
    case (Serves before_ok after_ok slack n e)
    obtain j where j: "log_server parse slack (resume_request container opts tk) bytes =
        drop (min j (length (lines_sent (tk_out tk)))) bytes"
      using server_starts [OF opts logged tk] by blast
    let ?bs = "take n (drop (min j (length (lines_sent (tk_out tk)))) bytes)"
    have conn: "rd_connection ?rd = Streaming (map ReadLine ?bs @ [ending e])"
      by (simp add: Serves served_round_def j)
    obtain r ls where f: "follow_lines (tk_resume tk) 0 (map parse ?bs) = (r, ls)" by fastforce
    from del(1) have at: "tk_resume tk = resumed (lines_sent (tk_out tk))" by (simp add: delivered_def)
    have step: "connect (map parse bytes) (j, n) (resumed (lines_sent (tk_out tk)), lines_sent (tk_out tk)) =
        (r, lines_sent (tk_out tk) @ ls)"
      using f by (simp add: connect_def at take_map drop_map)
    note next_del = connect_delivers [OF logged del(1) [unfolded at], of j n, unfolded step snd_conv]
    from stream_served [OF conn, where tk = ?tk and parse = parse and name = name and container = container and opts = opts
          and restarts = restarts] f
    have after: "lines_sent (tk_out ?after) = lines_sent (tk_out tk) @ ls" "tk_resume ?after = r"
      "tk_instance ?after = i" "\<not> tk_first ?after" by simp_all
    with next_del(1) del(2) i have "task_steady p container (map parse bytes) ?after"
      by (simp add: task_steady_def stream_phase_gone)
    moreover have "lines_sent (tk_out ?after) = map parse bytes" if "length bytes \<le> n"
      using next_del(2) that after(1) by simp
    ultimately show ?thesis unfolding run by (simp add: Serves)
  qed
qed

lemma rounds_steady:
  assumes "whole_log opts" "after_point None (map parse bytes)"
    "finished_reason p container = None" "has_started p container"
    "task_steady p container (map parse bytes) tk"
  shows "task_steady p container (map parse bytes)
      (container_loop parse role name container opts (served_rounds parse role name container opts p bytes nets tk) tk)"
  using assms(5)
proof (induction nets arbitrary: tk)
  case (Cons net nets)
  from round_steady [OF assms(1-4) Cons.prems, where role = role and name = name and net = net] Cons.IH show ?case
    by (auto simp: Let_def split: prod.splits bool.splits)
qed simp

lemma rounds_complete:
  assumes "whole_log opts" "after_point None (map parse bytes)"
    "finished_reason p container = None" "has_started p container"
    "task_steady p container (map parse bytes) tk"
  shows "lines_sent (tk_out (container_loop parse role name container opts
      (served_rounds parse role name container opts p bytes (nets @ [Serves b a slack (length bytes) e]) tk) tk)) =
    map parse bytes"
  using assms(5)
proof (induction nets arbitrary: tk)
  case Nil
  from round_steady [OF assms(1-4) Nil, where role = role and name = name and net = "Serves b a slack (length bytes) e"] show ?case
    by (auto simp: Let_def split: prod.splits bool.splits)
next
  case (Cons net nets)
  from round_steady [OF assms(1-4) Cons.prems, where role = role and name = name and net = net] Cons.IH show ?case
    by (auto simp: Let_def split: prod.splits bool.splits)
qed

lemma task_new_steady: "task_steady p container logged task_new"
  by (simp add: task_steady_def task_new_def delivered_def resumed_def)

text \<open>C13: when a running container is followed from the start of its log, without a limit on the lines, and each
  line of the log has a later timestamp than the one before, then whatever lookups fail and however connections
  are refused, cut short or served from before the time asked for, the lines sent are the log up to a point,
  none twice and none left out, and one connection that lasts to the end of the log completes it.  (Of two
  lines with the same timestamp the code drops the second, see \<open>is_duplicate\<close>.)\<close>

theorem task_delivers_once:
  assumes "whole_log opts" "after_point None (map parse bytes)"
    "finished_reason p container = None" "has_started p container"
  shows "prefix (lines_sent (tk_out (container_loop parse role name container opts
        (served_rounds parse role name container opts p bytes nets task_new) task_new))) (map parse bytes) \<and>
    lines_sent (tk_out (container_loop parse role name container opts
        (served_rounds parse role name container opts p bytes (nets @ [Serves b a slack (length bytes) e]) task_new)
        task_new)) = map parse bytes"
proof -
  have "prefix (lines_sent (tk_out tk)) logged" if "task_steady p container logged tk" for tk logged
    using that by (auto simp: task_steady_def delivered_def)
  with rounds_steady [OF assms task_new_steady] rounds_complete [OF assms task_new_steady] show ?thesis by blast
qed

section \<open>A running pod\<close>

definition running_status :: "int \<Rightarrow> container_status" where
  "running_status restarts =
     \<lparr>kc_name = ''app'', kc_state = Some \<lparr>ks_running = True, ks_exit_code = None\<rparr>, kc_last_state = None,
      kc_restarts = restarts\<rparr>"

definition running_pod :: "int \<Rightarrow> pod" where
  "running_pod restarts =
     \<lparr>pd_name = Some ''web-0'', pd_uid = Some ''u1'', pd_deleting = False,
      pd_spec = Some \<lparr>sp_containers = [''app''], sp_init = None, sp_ephemeral = None, sp_restart_policy = None\<rparr>,
      pd_status = Some \<lparr>st_phase = Some ''Running'', st_containers = Some [running_status restarts],
                         st_init = None, st_ephemeral = None\<rparr>\<rparr>"

lemma running_pod_runs:
  "finished_reason (running_pod n) ''app'' = None" "has_started (running_pod n) ''app''"
  "restart_count (running_pod n) ''app'' = n"
  by (simp_all add: finished_reason_def has_started_def restart_count_def running_pod_def running_status_def
      status_of_def state_started_def unwrap_or_def Let_def)

definition follow_all :: log_options where
  "follow_all = \<lparr>lo_follow = True, lo_since = SinceStart, lo_tail_lines = None, lo_previous = False\<rparr>"

definition stamped :: "char list \<Rightarrow> raw_line" where
  "stamped bytes = sample_line (int (length bytes))"

theorem task_delivers_once_witness:
  "let bytes = [''a'', ''ab'', ''abc'']; nets = [Refuses True False ''eof'', Serves False True 1 2 (Some ''reset'')]
   in prefix (lines_sent (tk_out (container_loop stamped (PodRole True) ''web-0'' ''app'' follow_all
          (served_rounds stamped (PodRole True) ''web-0'' ''app'' follow_all (running_pod 1) bytes nets task_new) task_new)))
        (map stamped bytes) \<and>
      lines_sent (tk_out (container_loop stamped (PodRole True) ''web-0'' ''app'' follow_all
          (served_rounds stamped (PodRole True) ''web-0'' ''app'' follow_all (running_pod 1) bytes
             (nets @ [Serves True True 1 (length bytes) None]) task_new) task_new)) = map stamped bytes"
  unfolding Let_def
  by (rule task_delivers_once)
    (simp_all add: whole_log_def follow_all_def stamped_def sample_line_def running_pod_runs)

text \<open>C40: when the lookup of a round fails, the outage of a container that has restarted before is taken for a
  restart: a connection refused in that round is not announced as reconnecting, and the backoff starts
  over, although the lookup after it finds the pod unchanged.\<close>

theorem failed_lookup_hides_outage:
  assumes "restart_count p container \<noteq> 0"
  shows "container_round parse role name container opts
      \<lparr>rd_lookup = LookupFailed, rd_connection = ConnectFailed err, rd_after = FoundPod p\<rparr> tk =
    (True, (if tk_retry tk then nap (tk_backoff tk) tk else tk)
       \<lparr>tk_requests := tk_requests tk @ [resume_request container opts tk], tk_first := False,
        tk_backoff := backoff_start, tk_retry := True\<rparr>)"
  using assms
  by (simp add: container_round_def lookup_phase_def stream_phase_def still_there_def resume_request_def nap_def Let_def)

theorem failed_lookup_hides_outage_witness:
  "let tk = task_new\<lparr>tk_backoff := 16, tk_retry := True, tk_instance := Some (''u1'', 1)\<rparr> in
   container_round stamped (PodRole True) ''web-0'' ''app'' follow_all
      \<lparr>rd_lookup = LookupFailed, rd_connection = ConnectFailed ''refused'', rd_after = FoundPod (running_pod 1)\<rparr> tk =
    (True, (if tk_retry tk then nap (tk_backoff tk) tk else tk)
       \<lparr>tk_requests := tk_requests tk @ [resume_request ''app'' follow_all tk], tk_first := False,
        tk_backoff := backoff_start, tk_retry := True\<rparr>)"
  unfolding Let_def by (rule failed_lookup_hides_outage) (simp add: running_pod_runs)

end
