(* ===== verification/FlowModel.thy ===== *)
theory FlowModel
  imports TextLaws
begin

text \<open>
  The flow model every network-flow backend maps its records onto
  (\<open>crates/kubyl_netflow_core/src/model.rs\<close>) and the sanitising of application-layer data
  (\<open>sanitize.rs\<close>).  Addresses and their text form (\<open>std::net::IpAddr\<close>) are in the first section.
\<close>

section \<open>Addresses\<close>

text \<open>\<open>std::net::IpAddr\<close> with its \<open>Display\<close> and \<open>FromStr\<close>, as the standard library documents them.\<close>

datatype ip_addr = V4 "32 word" | V6 "128 word"

definition octet :: "32 word \<Rightarrow> nat \<Rightarrow> nat" where
  "octet a i = unat (drop_bit (8 * (3 - i)) a) mod 256"

definition segment :: "128 word \<Rightarrow> nat \<Rightarrow> nat" where
  "segment a i = unat (drop_bit (16 * (7 - i)) a) mod 65536"

definition show_v4 :: "32 word \<Rightarrow> str" where
  "show_v4 a = join ''.'' (map (\<lambda>i. show_nat (octet a i)) [0, 1, 2, 3])"

definition hex_digit :: "nat \<Rightarrow> char" where
  "hex_digit d = (if d < 10 then char_of (48 + d) else char_of (87 + d))"

fun show_hex :: "nat \<Rightarrow> str" where
  "show_hex n = (if n < 16 then [hex_digit n] else show_hex (n div 16) @ [hex_digit (n mod 16)])"

declare show_hex.simps [simp del]

text \<open>The first longest run of zero segments: start and length.\<close>

fun zero_run :: "nat list \<Rightarrow> nat" where
  "zero_run [] = 0"
| "zero_run (x # xs) = (if x = 0 then Suc (zero_run xs) else 0)"

fun longest_zeros :: "nat \<Rightarrow> nat list \<Rightarrow> nat \<times> nat" where
  "longest_zeros i [] = (i, 0)"
| "longest_zeros i (x # xs) =
     (let n = zero_run (x # xs); (j, m) = longest_zeros (Suc i) xs
      in if m \<le> n then (i, n) else (j, m))"

definition show_v6 :: "128 word \<Rightarrow> str" where
  "show_v6 a =
     (let segs = map (segment a) [0, 1, 2, 3, 4, 5, 6, 7];
          part = (\<lambda>xs. join '':'' (map show_hex xs));
          (start, n) = longest_zeros 0 segs
      in if take 6 segs = [0, 0, 0, 0, 0, 65535] then ''::ffff:'' @ show_v4 (ucast a)
         else if 1 < n then part (take start segs) @ ''::'' @ part (drop (start + n) segs)
         else part segs)"

fun show_ip :: "ip_addr \<Rightarrow> str" where
  "show_ip (V4 a) = show_v4 a"
| "show_ip (V6 a) = show_v6 a"

text \<open>The parser of the standard library: every reader answers its value and the rest.  An octet is
  one to three digits without a leading zero, at most 255.\<close>

definition read_octet :: "str \<Rightarrow> (nat \<times> str) option" where
  "read_octet s =
     (let ds = takeWhile is_ascii_digit s; rest = dropWhile is_ascii_digit s
      in if ds = [] \<or> 3 < length ds \<or> (1 < length ds \<and> hd ds = CHR ''0'') \<or> 255 < digits_value ds
         then None else Some (digits_value ds, rest))"

fun read_octets :: "nat \<Rightarrow> str \<Rightarrow> (nat list \<times> str) option" where
  "read_octets 0 s = Some ([], s)"
| "read_octets (Suc n) s =
     (case read_octet s of
        None \<Rightarrow> None
      | Some (x, rest) \<Rightarrow>
          if n = 0 then Some ([x], rest)
          else (case rest of
                  c # rest' \<Rightarrow>
                    if c = CHR ''.''
                    then map_option (\<lambda>(xs, r). (x # xs, r)) (read_octets n rest') else None
                | [] \<Rightarrow> None))"

definition from_digits :: "nat \<Rightarrow> nat list \<Rightarrow> nat" where
  "from_digits base xs = foldl (\<lambda>acc x. base * acc + x) 0 xs"

definition hex_value :: "char \<Rightarrow> nat option" where
  "hex_value c =
     (let n = code_of c in
      if 48 \<le> n \<and> n \<le> 57 then Some (n - 48)
      else if 97 \<le> n \<and> n \<le> 102 then Some (n - 87)
      else if 65 \<le> n \<and> n \<le> 70 then Some (n - 55) else None)"

text \<open>A group is one to four hexadecimal digits; a fifth makes the whole group fail.\<close>

definition read_group :: "str \<Rightarrow> (nat \<times> str) option" where
  "read_group s =
     (let hex = (\<lambda>c. hex_value c \<noteq> None); ds = takeWhile hex s
      in if ds = [] \<or> 4 < length ds then None
         else Some (from_digits 16 (map (\<lambda>c. the (hex_value c)) ds), dropWhile hex s))"

definition after_separator :: "nat \<Rightarrow> str \<Rightarrow> str option" where
  "after_separator i s =
     (if i = 0 then Some s
      else (case s of c # r \<Rightarrow> if c = CHR '':'' then Some r else None | [] \<Rightarrow> None))"

text \<open>Up to \<open>limit\<close> groups from the \<open>i\<close>-th on, a trailing IPv4 address counting as two; the flag
  tells that there was one.\<close>

fun read_groups :: "nat \<Rightarrow> nat \<Rightarrow> str \<Rightarrow> nat list \<times> bool \<times> str" where
  "read_groups 0 i s = ([], False, s)"
| "read_groups (Suc left) i s =
     (let v4 = (if left = 0 then None
                else (case after_separator i s of None \<Rightarrow> None | Some r \<Rightarrow> read_octets 4 r))
      in case v4 of
           Some (xs, rest) \<Rightarrow>
             ([256 * xs ! 0 + xs ! 1, 256 * xs ! 2 + xs ! 3], True, rest)
         | None \<Rightarrow>
             (case after_separator i s of
                None \<Rightarrow> ([], False, s)
              | Some r \<Rightarrow>
                  (case read_group r of
                     None \<Rightarrow> ([], False, s)
                   | Some (g, rest) \<Rightarrow>
                       (let (gs, emb, rest') = read_groups left (Suc i) rest
                        in (g # gs, emb, rest')))))"

definition parse_v6 :: "str \<Rightarrow> 128 word option" where
  "parse_v6 s =
     (let (hs, emb, rest) = read_groups 8 0 s
      in if length hs = 8 then (if rest = [] then Some (word_of_nat (from_digits 65536 hs)) else None)
         else if emb then None
         else (case strip_prefix ''::'' rest of
                 None \<Rightarrow> None
               | Some r \<Rightarrow>
                   (let (ts, _, rest') = read_groups (7 - length hs) 0 r;
                        gs = hs @ replicate (8 - length hs - length ts) 0 @ ts
                    in if rest' = [] then Some (word_of_nat (from_digits 65536 gs)) else None)))"

definition parse_v4 :: "str \<Rightarrow> 32 word option" where
  "parse_v4 s =
     (case read_octets 4 s of
        Some (xs, []) \<Rightarrow> Some (word_of_nat (from_digits 256 xs))
      | _ \<Rightarrow> None)"

definition parse_ip :: "str \<Rightarrow> ip_addr option" where
  "parse_ip s = or_else (map_option V4 (parse_v4 s)) (map_option V6 (parse_v6 s))"

section \<open>Endpoints\<close>

datatype endpoint_kind =
    K_Unknown | K_Pod | K_Service | K_Host | K_RemoteNode | K_KubeApiServer | K_World | K_Internal

fun kind_label :: "endpoint_kind \<Rightarrow> str" where
  "kind_label K_Unknown = ''unknown''"
| "kind_label K_Pod = ''pod''"
| "kind_label K_Service = ''service''"
| "kind_label K_Host = ''host''"
| "kind_label K_RemoteNode = ''remote-node''"
| "kind_label K_KubeApiServer = ''kube-apiserver''"
| "kind_label K_World = ''world''"
| "kind_label K_Internal = ''internal''"

definition kind_all :: "endpoint_kind list" where
  "kind_all = [K_Pod, K_Service, K_Host, K_RemoteNode, K_KubeApiServer, K_World, K_Internal, K_Unknown]"

record workload =
  wl_kind :: str
  wl_name :: str

record endpoint =
  ep_kind :: endpoint_kind
  ep_namespace :: "str option"
  ep_pod :: "str option"
  ep_workload :: "workload option"
  ep_ip :: "ip_addr option"
  ep_port :: "nat option"
  ep_service :: "str option"
  ep_node :: "str option"
  ep_names :: "str list"
  ep_labels :: "str list"

definition endpoint_default :: endpoint where
  "endpoint_default =
     \<lparr>ep_kind = K_Unknown, ep_namespace = None, ep_pod = None, ep_workload = None, ep_ip = None,
      ep_port = None, ep_service = None, ep_node = None, ep_names = [], ep_labels = []\<rparr>"

definition endpoint_label :: "endpoint \<Rightarrow> str" where
  "endpoint_label e =
     (case (ep_namespace e, ep_pod e) of
        (Some ns, Some p) \<Rightarrow> ns @ ''/'' @ p
      | (ns, p) \<Rightarrow>
          (if ep_kind e = K_Service \<and> ns \<noteq> None
           then (case ep_service e of Some svc \<Rightarrow> the ns @ ''/'' @ svc | None \<Rightarrow> the ns)
           else if ep_kind e = K_World
           then (case (ep_names e, ep_ip e) of
                   (n # _, _) \<Rightarrow> n
                 | ([], Some ip) \<Rightarrow> show_ip ip
                 | ([], None) \<Rightarrow> ''world'')
           else if ep_kind e \<in> {K_Host, K_RemoteNode}
           then (case (ep_node e, ep_ip e) of
                   (Some n, _) \<Rightarrow> n
                 | (None, Some ip) \<Rightarrow> show_ip ip
                 | (None, None) \<Rightarrow> kind_label (ep_kind e))
           else (case ns of
                   Some n \<Rightarrow>
                     (case ep_workload e of Some w \<Rightarrow> n @ ''/'' @ wl_name w | None \<Rightarrow> n)
                 | None \<Rightarrow>
                     (case ep_ip e of Some ip \<Rightarrow> show_ip ip | None \<Rightarrow> kind_label (ep_kind e)))))"

definition workload_name :: "endpoint \<Rightarrow> str option" where
  "workload_name e = or_else (map_option wl_name (ep_workload e)) (ep_pod e)"

definition in_cluster :: "endpoint \<Rightarrow> bool" where
  "in_cluster e \<longleftrightarrow> ep_namespace e \<noteq> None"

section \<open>Verdicts, directions, protocols\<close>

datatype verdict =
    V_Forwarded | V_Dropped | V_NoReply | V_Error | V_Audit | V_Redirected | V_Traced | V_Translated
  | V_Unknown

definition verdict_all :: "verdict list" where
  "verdict_all = [V_Forwarded, V_Dropped, V_NoReply, V_Error, V_Audit, V_Redirected, V_Traced,
     V_Translated, V_Unknown]"

fun verdict_label :: "verdict \<Rightarrow> str" where
  "verdict_label V_Forwarded = ''forwarded''"
| "verdict_label V_Dropped = ''dropped''"
| "verdict_label V_NoReply = ''no reply''"
| "verdict_label V_Error = ''error''"
| "verdict_label V_Audit = ''audit''"
| "verdict_label V_Redirected = ''redirected''"
| "verdict_label V_Traced = ''traced''"
| "verdict_label V_Translated = ''translated''"
| "verdict_label V_Unknown = ''unknown''"

definition verdict_key :: "verdict \<Rightarrow> str" where
  "verdict_key v = (if v = V_NoReply then ''no-reply'' else verdict_label v)"

definition verdict_parse :: "str \<Rightarrow> verdict option" where
  "verdict_parse s =
     (let t = map (\<lambda>c. if c = CHR ''_'' \<or> c = CHR '' '' then CHR ''-'' else c)
                (to_ascii_lowercase (trim s))
      in if t \<in> {''forwarded'', ''forward'', ''allowed'', ''allow'', ''accepted''} then Some V_Forwarded
         else if t \<in> {''dropped'', ''drop'', ''denied'', ''deny'', ''blocked''} then Some V_Dropped
         else if t \<in> {''no-reply'', ''noreply'', ''unanswered''} then Some V_NoReply
         else if t = ''error'' then Some V_Error
         else if t = ''audit'' then Some V_Audit
         else if t \<in> {''redirected'', ''redirect''} then Some V_Redirected
         else if t \<in> {''traced'', ''trace''} then Some V_Traced
         else if t = ''translated'' then Some V_Translated
         else if t = ''unknown'' then Some V_Unknown
         else None)"

definition blocked :: "verdict \<Rightarrow> bool" where
  "blocked v \<longleftrightarrow> v \<in> {V_Dropped, V_NoReply}"

datatype direction = D_Unknown | D_Ingress | D_Egress

fun direction_label :: "direction \<Rightarrow> str" where
  "direction_label D_Unknown = em_dash"
| "direction_label D_Ingress = ''in''"
| "direction_label D_Egress = ''out''"

definition direction_parse :: "str \<Rightarrow> direction option" where
  "direction_parse s =
     (let t = to_ascii_lowercase (trim s)
      in if t \<in> {''ingress'', ''in''} then Some D_Ingress
         else if t \<in> {''egress'', ''out''} then Some D_Egress
         else if t = ''unknown'' then Some D_Unknown
         else None)"

text \<open>The number of \<open>P_Other\<close> is a byte.\<close>

datatype protocol = P_Tcp | P_Udp | P_Icmp | P_IcmpV6 | P_Sctp | P_Other nat | P_Unknown

fun protocol_label :: "protocol \<Rightarrow> str" where
  "protocol_label P_Tcp = ''TCP''"
| "protocol_label P_Udp = ''UDP''"
| "protocol_label P_Icmp = ''ICMP''"
| "protocol_label P_IcmpV6 = ''ICMPv6''"
| "protocol_label P_Sctp = ''SCTP''"
| "protocol_label (P_Other n) = ''IP '' @ show_nat n"
| "protocol_label P_Unknown = em_dash"

definition protocol_from_number :: "nat \<Rightarrow> protocol" where
  "protocol_from_number n =
     (if n = 6 then P_Tcp else if n = 17 then P_Udp else if n = 1 then P_Icmp
      else if n = 58 then P_IcmpV6 else if n = 132 then P_Sctp
      else if n < 256 then P_Other n else P_Unknown)"

definition protocol_from_name :: "str \<Rightarrow> protocol" where
  "protocol_from_name s =
     (let t = to_ascii_lowercase (trim s)
      in if t = ''tcp'' then P_Tcp else if t = ''udp'' then P_Udp
         else if t \<in> {''icmp'', ''icmpv4''} then P_Icmp
         else if t \<in> {''icmpv6'', ''icmp6''} then P_IcmpV6
         else if t = ''sctp'' then P_Sctp else P_Unknown)"

section \<open>Policies\<close>

record policy_ref =
  pol_kind :: str
  pol_namespace :: "str option"
  pol_name :: str
  pol_tier :: "str option"

definition policy_label :: "policy_ref \<Rightarrow> str" where
  "policy_label p =
     (case pol_namespace p of
        Some ns \<Rightarrow> if ns \<noteq> [] then ns @ ''/'' @ pol_name p else pol_name p
      | None \<Rightarrow> pol_name p)"

definition policy_api :: "policy_ref \<Rightarrow> (str list \<times> str) option" where
  "policy_api p =
     (let k = pol_kind p;
          cilium = [''cilium.io''];
          calico = [''projectcalico.org'', ''crd.projectcalico.org''];
          networking = [''networking.k8s.io''];
          policy = [''policy.networking.k8s.io'']
      in if k \<in> {''CiliumNetworkPolicy'', ''CiliumClusterwideNetworkPolicy''} then Some (cilium, k)
         else if k = ''NetworkPolicy'' then Some (networking, k)
         else if k = ''CalicoNetworkPolicy'' then Some (calico, ''NetworkPolicy'')
         else if k \<in> {''GlobalNetworkPolicy'', ''StagedNetworkPolicy'', ''StagedGlobalNetworkPolicy'',
                      ''StagedKubernetesNetworkPolicy''} then Some (calico, k)
         else if k \<in> {''AdminNetworkPolicy'', ''BaselineAdminNetworkPolicy'', ''ClusterNetworkPolicy''}
         then Some (policy, k)
         else None)"

definition reason_upper :: "str list" where
  "reason_upper =
     [''ARP'', ''BPF'', ''CIDR'', ''CT'', ''DNS'', ''DSR'', ''ENI'', ''FIB'', ''GRE'', ''ICMP'', ''ID'',
      ''IP'', ''LB'', ''MAC'', ''MTU'', ''NAT'', ''OVN'', ''SCTP'', ''SNAT'', ''DNAT'', ''SKB'', ''TCP'',
      ''TTL'', ''UDP'', ''VLAN'', ''VTEP'', ''VXLAN'', ''XDP'']"

definition reason_word :: "str \<Rightarrow> str" where
  "reason_word w =
     (let upper = to_ascii_uppercase w
      in if upper = ''IPV4'' then ''IPv4'' else if upper = ''IPV6'' then ''IPv6''
         else if upper = ''ICMPV6'' then ''ICMPv6'' else if upper = ''IPSEC'' then ''IPsec''
         else if upper \<in> set reason_upper then upper
         else if byte_len w \<le> 4 \<and> list_ex is_ascii_digit w then upper
         else to_ascii_lowercase w)"

definition reason_text :: "str \<Rightarrow> str" where
  "reason_text raw =
     (let raw = unwrap_or (strip_prefix ''SKB_DROP_REASON_'' raw) raw
      in join '' '' (map reason_word
           (filter (\<lambda>w. w \<noteq> []) (split_on (\<lambda>c. c = CHR ''_'' \<or> c = CHR '' '') raw))))"

record policies =
  allowed_by :: "policy_ref list"
  denied_by :: "policy_ref list"
  isolated :: bool
  isolated_by :: "policy_ref list"
  reason :: "str option"

definition policies_default :: policies where
  "policies_default =
     \<lparr>allowed_by = [], denied_by = [], isolated = False, isolated_by = [], reason = None\<rparr>"

datatype policy_summary =
    DeniedBy str | Isolated "str option" | AllowedBy str | Reason str | NoSummary

fun summary_text :: "policy_summary \<Rightarrow> str" where
  "summary_text (DeniedBy n) = ''denied by '' @ n"
| "summary_text (Isolated (Some n)) = ''isolated by '' @ n"
| "summary_text (Isolated None) = ''denied: isolated, no policy allows it''"
| "summary_text (AllowedBy n) = n"
| "summary_text (Reason r) = r"
| "summary_text NoSummary = []"

definition policies_is_empty :: "policies \<Rightarrow> bool" where
  "policies_is_empty p \<longleftrightarrow>
     allowed_by p = [] \<and> denied_by p = [] \<and> isolated_by p = [] \<and> \<not> isolated p \<and> reason p = None"

definition policies_all :: "policies \<Rightarrow> policy_ref list" where
  "policies_all p = allowed_by p @ denied_by p @ isolated_by p"

definition policy_names :: "policy_ref list \<Rightarrow> str" where
  "policy_names ps = join '', '' (remdups_adj (map policy_label ps))"

definition policies_summary :: "policies \<Rightarrow> verdict \<Rightarrow> policy_summary" where
  "policies_summary p v =
     (if denied_by p \<noteq> [] then DeniedBy (policy_names (denied_by p))
      else if isolated p
      then Isolated (if isolated_by p \<noteq> [] then Some (policy_names (isolated_by p)) else None)
      else if blocked v \<and> reason p \<noteq> None then Reason (reason_text (the (reason p)))
      else if blocked v \<and> v = V_NoReply then Reason ''no answer: dropped or nothing listening''
      else if allowed_by p \<noteq> [] then AllowedBy (policy_names (allowed_by p))
      else NoSummary)"

section \<open>Sanitising\<close>

definition secret_headers :: "str list" where
  "secret_headers =
     [''authorization'', ''proxy-authorization'', ''cookie'', ''set-cookie'', ''x-api-key'',
      ''x-auth-token'', ''x-amz-security-token'', ''x-vault-token'', ''private-token'',
      ''x-csrf-token'', ''x-xsrf-token'', ''x-goog-api-key'']"

definition secret_words :: "str list" where
  "secret_words = [''token'', ''secret'', ''password'', ''api-key'', ''apikey'']"

definition is_secret_header :: "str \<Rightarrow> bool" where
  "is_secret_header header =
     (let n = to_ascii_lowercase header
      in n \<in> set secret_headers \<or> list_ex (\<lambda>w. contains w n) secret_words)"

definition hidden :: str where "hidden = ellipsis"

definition strip_user_info :: "str \<Rightarrow> str" where
  "strip_user_info base =
     (case split_at_str ''://'' base of
        None \<Rightarrow> base
      | Some (scheme, rest) \<Rightarrow>
          (let authority = takeWhile (\<lambda>c. c \<noteq> CHR ''/'') rest;
               path = dropWhile (\<lambda>c. c \<noteq> CHR ''/'') rest
           in case rsplit_once (CHR ''@'') authority of
                Some (_, host) \<Rightarrow> scheme @ ''://'' @ host @ path
              | None \<Rightarrow> base))"

definition hide_value :: "str \<Rightarrow> str" where
  "hide_value pair =
     (case split_once (CHR ''='') pair of
        Some (n, v) \<Rightarrow> if v \<noteq> [] then n @ ''='' @ hidden else n @ ''=''
      | None \<Rightarrow> pair)"

definition sanitize_url :: "str \<Rightarrow> bool \<Rightarrow> str" where
  "sanitize_url raw keep_query_values =
     (let without_fragment = hd (split_on (\<lambda>c. c = CHR ''#'') raw);
          (base, query) = (case split_once (CHR ''?'') without_fragment of
                             Some (b, q) \<Rightarrow> (b, Some q) | None \<Rightarrow> (without_fragment, None));
          base = strip_user_info base
      in case query of
           None \<Rightarrow> base
         | Some q \<Rightarrow>
             if keep_query_values then base @ ''?'' @ q
             else (let pairs = map hide_value
                         (filter (\<lambda>pair. pair \<noteq> []) (split_on (\<lambda>c. c = CHR ''&'') q))
                   in if pairs = [] then base else base @ ''?'' @ join ''&'' pairs))"

definition path_of :: "str \<Rightarrow> str" where
  "path_of url =
     (case split_at_str ''://'' url of
        Some (_, rest) \<Rightarrow>
          (let path = dropWhile (\<lambda>c. c \<noteq> CHR ''/'') rest in if path = [] then ''/'' else path)
      | None \<Rightarrow> url)"

definition sanitize_headers :: "(str \<times> str) list \<Rightarrow> (str \<times> str) list" where
  "sanitize_headers raw =
     map (\<lambda>(header, v). (header, if is_secret_header header then hidden else v)) raw"

section \<open>Flows\<close>

datatype l7 =
    Http (http_method: str) (http_url: str) (http_code: "nat option") (http_protocol: "str option")
      (http_latency_ms: "rat option") (http_response: bool) (http_headers: "(str \<times> str) list")
  | Dns (dns_query: str) (dns_rcode: "str option") (dns_answers: "str list") (dns_response: bool)
  | OtherL7 str str

fun l7_protocol :: "l7 \<Rightarrow> str" where
  "l7_protocol (Http _ _ _ _ _ _ _) = ''http''"
| "l7_protocol (Dns _ _ _ _) = ''dns''"
| "l7_protocol (OtherL7 proto _) = proto"

fun l7_summary :: "l7 \<Rightarrow> str" where
  "l7_summary (Http method url code _ _ _ _) =
     (case code of
        Some c \<Rightarrow> if 0 < c then ''HTTP '' @ method @ '' '' @ path_of url @ '' '' @ show_nat c
                  else ''HTTP '' @ method @ '' '' @ path_of url
      | None \<Rightarrow> ''HTTP '' @ method @ '' '' @ path_of url)"
| "l7_summary (Dns query rcode _ _) =
     (case rcode of
        Some r \<Rightarrow> if r \<noteq> [] \<and> r \<noteq> ''NoError'' then ''DNS '' @ query @ '' '' @ r else ''DNS '' @ query
      | None \<Rightarrow> ''DNS '' @ query)"
| "l7_summary (OtherL7 proto summary) = proto @ '' '' @ summary"

record flow =
  fl_time :: int
  fl_start :: "int option"
  fl_source :: endpoint
  fl_destination :: endpoint
  fl_protocol :: protocol
  fl_direction :: direction
  fl_verdict :: verdict
  fl_policies :: policies
  fl_bytes :: "nat option"
  fl_packets :: "nat option"
  fl_l7 :: "l7 option"
  fl_event :: "str option"
  fl_reply :: "bool option"
  fl_tcp_flags :: "str option"
  fl_node :: "str option"
  fl_raw :: "(str \<times> str) list"

definition flow_new :: "int \<Rightarrow> flow" where
  "flow_new time =
     \<lparr>fl_time = time, fl_start = None, fl_source = endpoint_default, fl_destination = endpoint_default,
      fl_protocol = P_Unknown, fl_direction = D_Unknown, fl_verdict = V_Unknown,
      fl_policies = policies_default, fl_bytes = None, fl_packets = None, fl_l7 = None,
      fl_event = None, fl_reply = None, fl_tcp_flags = None, fl_node = None, fl_raw = []\<rparr>"

definition protocol_label_short :: "flow \<Rightarrow> str" where
  "protocol_label_short f =
     (case ep_port (fl_destination f) of
        Some port \<Rightarrow> protocol_label (fl_protocol f) @ '' :'' @ show_nat port
      | None \<Rightarrow> protocol_label (fl_protocol f))"

definition flow_protocol_label :: "flow \<Rightarrow> str" where
  "flow_protocol_label f =
     (case fl_l7 f of Some l \<Rightarrow> l7_summary l | None \<Rightarrow> protocol_label_short f)"

section \<open>Properties of the sanitiser\<close>

lemma hidden_chars [simp]: "c \<in> set hidden \<longleftrightarrow> c = CHR 0x86" "hidden \<noteq> []"
  by (auto simp: hidden_def ellipsis_def)

lemma hide_value_cases:
  obtains "CHR ''='' \<notin> set p" "hide_value p = p"
  | n v where "p = n @ CHR ''='' # v" "CHR ''='' \<notin> set n"
      "hide_value p = n @ CHR ''='' # (if v = [] then [] else hidden)"
proof (cases "split_once (CHR ''='') p")
  case None
  then have "hide_value p = p" by (simp add: hide_value_def)
  moreover from None have "CHR ''='' \<notin> set p" by (rule split_once_NoneD)
  ultimately show ?thesis using that(1) by blast
next
  case (Some nv)
  obtain n v where "nv = (n, v)" by force
  with Some have "hide_value p = n @ CHR ''='' # (if v = [] then [] else hidden)"
    by (simp add: hide_value_def)
  moreover from Some \<open>nv = _\<close> have "p = n @ CHR ''='' # v" "CHR ''='' \<notin> set n"
    by (auto dest: split_once_SomeD)
  ultimately show ?thesis using that(2) by blast
qed

lemma hide_value_pair:
  "CHR ''='' \<notin> set n \<Longrightarrow> hide_value (n @ CHR ''='' # v) = n @ CHR ''='' # (if v = [] then [] else hidden)"
  by (simp add: hide_value_def split_once_append)

lemma hide_value_idem: "hide_value (hide_value p) = hide_value p"
  by (cases p rule: hide_value_cases) (simp_all add: hide_value_pair)

lemma hide_value_nonempty: "p \<noteq> [] \<Longrightarrow> hide_value p \<noteq> []"
  by (auto simp: hide_value_def split: option.splits prod.splits)

lemma hide_value_chars: "set (hide_value p) \<subseteq> set p \<union> {CHR 0x86}"
  by (auto simp: hide_value_def hidden_def ellipsis_def split_once_Some split: option.splits)

lemma strip_user_info_chars: "set (strip_user_info b) \<subseteq> set b"
proof (cases "split_at_str ''://'' b")
  case (Some sr)
  obtain scheme rest where sr: "sr = (scheme, rest)" by force
  with Some have b: "b = scheme @ ''://'' @ rest"
    using split_at_str_SomeD by blast
  show ?thesis
  proof (cases "rsplit_once (CHR ''@'') (takeWhile (\<lambda>c. c \<noteq> CHR ''/'') rest)")
    case None
    then show ?thesis using Some sr by (simp add: strip_user_info_def)
  next
    case (Some uh)
    obtain u h where uh: "uh = (u, h)" by force
    with Some have "takeWhile (\<lambda>c. c \<noteq> CHR ''/'') rest = u @ CHR ''@'' # h"
      by (simp add: rsplit_once_Some)
    then have "set h \<subseteq> set rest"
      by (metis Un_iff set_append set_takeWhileD subsetI list.set_intros(2))
    moreover have "set (dropWhile (\<lambda>c. c \<noteq> CHR ''/'') rest) \<subseteq> set rest"
      by (auto dest: set_dropWhileD)
    ultimately show ?thesis
      using \<open>split_at_str _ b = _\<close> Some sr uh b by (auto simp: strip_user_info_def)
  qed
qed (simp add: strip_user_info_def)

lemma strip_user_info_eq:
  assumes "split_at_str ''://'' b = Some (scheme, auth @ path)"
    and "CHR ''/'' \<notin> set auth" "path = [] \<or> hd path = CHR ''/''"
  shows "strip_user_info b =
    (case rsplit_once (CHR ''@'') auth of Some (_, host) \<Rightarrow> scheme @ ''://'' @ host @ path | None \<Rightarrow> b)"
proof -
  have "takeWhile (\<lambda>c. c \<noteq> CHR ''/'') (auth @ path) = auth"
    "dropWhile (\<lambda>c. c \<noteq> CHR ''/'') (auth @ path) = path"
    using assms(2,3) by (cases path; simp add: takeWhile_append dropWhile_append; metis)+
  with assms(1) show ?thesis
    by (simp only: strip_user_info_def option.case prod.case Let_def)
qed

lemma authority_split:
  obtains auth path where "rest = auth @ path" "CHR ''/'' \<notin> set auth"
    "path = [] \<or> hd path = CHR ''/''"
proof
  let ?p = "\<lambda>c. c \<noteq> CHR ''/''"
  show "rest = takeWhile ?p rest @ dropWhile ?p rest" by simp
  show "CHR ''/'' \<notin> set (takeWhile ?p rest)" by (auto dest: set_takeWhileD)
  show "dropWhile ?p rest = [] \<or> hd (dropWhile ?p rest) = CHR ''/''"
    using hd_dropWhile [of ?p rest] by blast
qed

lemma strip_user_info_idem: "strip_user_info (strip_user_info b) = strip_user_info b"
proof (cases "split_at_str ''://'' b")
  case (Some sr)
  obtain scheme rest where sr: "sr = (scheme, rest)" by force
  obtain auth path where ap: "rest = auth @ path" "CHR ''/'' \<notin> set auth"
      "path = [] \<or> hd path = CHR ''/''"
    by (rule authority_split)
  with Some sr have b: "split_at_str ''://'' b = Some (scheme, auth @ path)" by simp
  show ?thesis
  proof (cases "rsplit_once (CHR ''@'') auth")
    case None
    then show ?thesis using strip_user_info_eq [OF b ap(2,3)] by simp
  next
    case (Some uh)
    obtain u host where uh: "uh = (u, host)" by force
    with Some have host: "auth = u @ CHR ''@'' # host" "CHR ''@'' \<notin> set host"
      by (simp_all add: rsplit_once_Some)
    have eq: "strip_user_info b = scheme @ ''://'' @ host @ path"
      using strip_user_info_eq [OF b ap(2,3)] Some uh by simp
    have "split_at_str ''://'' (scheme @ ''://'' @ host @ path) = Some (scheme, host @ path)"
      using b split_at_str_SomeD [OF b] split_at_str_swap [of "''://''" scheme "auth @ path"] by simp
    moreover have "CHR ''/'' \<notin> set host" using host(1) ap(2) by simp
    moreover have "rsplit_once (CHR ''@'') host = None"
      using host(2) by (simp only: rsplit_once_None not_False_eq_True)
    ultimately show ?thesis
      unfolding eq using strip_user_info_eq [OF _ _ ap(3), of "scheme @ ''://'' @ host @ path" scheme host]
      by (simp only: option.case simp_thms)
  qed
qed (simp add: strip_user_info_def)

lemma sanitize_url_eq:
  assumes "CHR ''#'' \<notin> set b" "CHR ''?'' \<notin> set b"
  shows "sanitize_url b keep = strip_user_info b"
    and "CHR ''#'' \<notin> set q \<Longrightarrow> sanitize_url (b @ CHR ''?'' # q) keep =
      (if keep then strip_user_info b @ CHR ''?'' # q
       else (let pairs = map hide_value (filter (\<lambda>pair. pair \<noteq> []) (split_on (\<lambda>c. c = CHR ''&'') q))
             in if pairs = [] then strip_user_info b
                else strip_user_info b @ CHR ''?'' # join ''&'' pairs))"
proof -
  have "split_once (CHR ''?'') b = None"
    using assms(2) by (rule split_once_NoneI)
  moreover have "split_on (\<lambda>c. c = CHR ''#'') b = [b]"
    using assms(1) by (intro split_on_none) auto
  ultimately show "sanitize_url b keep = strip_user_info b"
    by (simp add: sanitize_url_def)
  assume "CHR ''#'' \<notin> set q"
  then have "split_on (\<lambda>c. c = CHR ''#'') (b @ CHR ''?'' # q) = [b @ CHR ''?'' # q]"
    using assms(1) by (intro split_on_none) auto
  then show "sanitize_url (b @ CHR ''?'' # q) keep =
      (if keep then strip_user_info b @ CHR ''?'' # q
       else (let pairs = map hide_value (filter (\<lambda>pair. pair \<noteq> []) (split_on (\<lambda>c. c = CHR ''&'') q))
             in if pairs = [] then strip_user_info b
                else strip_user_info b @ CHR ''?'' # join ''&'' pairs))"
    using assms(2) by (simp add: sanitize_url_def split_once_append Let_def)
qed

lemma sanitize_url_fragment:
  "sanitize_url raw keep = sanitize_url (takeWhile (\<lambda>c. c \<noteq> CHR ''#'') raw) keep"
proof -
  have "split_on (\<lambda>c. c = CHR ''#'') (takeWhile (\<lambda>c. c \<noteq> CHR ''#'') raw) =
      [takeWhile (\<lambda>c. c \<noteq> CHR ''#'') raw]"
    by (intro split_on_none) (auto dest: set_takeWhileD)
  then show ?thesis by (simp add: sanitize_url_def split_on_hd)
qed

lemma sanitize_url_cases:
  obtains b where "CHR ''#'' \<notin> set b" "CHR ''?'' \<notin> set b" "sanitize_url raw keep = sanitize_url b keep"
  | b q where "CHR ''#'' \<notin> set b" "CHR ''?'' \<notin> set b" "CHR ''#'' \<notin> set q"
      "sanitize_url raw keep = sanitize_url (b @ CHR ''?'' # q) keep"
proof -
  let ?r = "takeWhile (\<lambda>c. c \<noteq> CHR ''#'') raw"
  have r: "CHR ''#'' \<notin> set ?r" by (auto dest: set_takeWhileD)
  show ?thesis
  proof (cases "split_once (CHR ''?'') ?r")
    case None
    then have "CHR ''?'' \<notin> set ?r" by (rule split_once_NoneD)
    with r show ?thesis using that(1) sanitize_url_fragment by blast
  next
    case (Some bq)
    obtain b q where "bq = (b, q)" by force
    with Some have bq: "?r = b @ CHR ''?'' # q" "CHR ''?'' \<notin> set b"
      by (auto dest: split_once_SomeD)
    with r have "CHR ''#'' \<notin> set b" "CHR ''#'' \<notin> set q" by simp_all
    with bq show ?thesis using that(2) sanitize_url_fragment [of raw keep] by metis
  qed
qed

text \<open>Sanitising a URL is done once and for all: doing it again changes nothing, whatever the URL
  and whether query values are kept.\<close>

lemma sanitize_url_idem: "sanitize_url (sanitize_url raw keep) keep = sanitize_url raw keep"
proof (cases raw keep rule: sanitize_url_cases)
  case (1 b)
  moreover have "CHR ''#'' \<notin> set (strip_user_info b)" "CHR ''?'' \<notin> set (strip_user_info b)"
    using 1 strip_user_info_chars [of b] by blast+
  ultimately show ?thesis
    by (simp add: sanitize_url_eq(1) strip_user_info_idem)
next
  case (2 b q)
  let ?b = "strip_user_info b"
    and ?pairs = "filter (\<lambda>pair. pair \<noteq> []) (split_on (\<lambda>c. c = CHR ''&'') q)"
  let ?hid = "map hide_value ?pairs"
  have b: "CHR ''#'' \<notin> set ?b" "CHR ''?'' \<notin> set ?b"
    using 2 strip_user_info_chars [of b] by blast+
  show ?thesis
  proof (cases "keep \<or> ?hid = []")
    case True
    then show ?thesis
      using b 2 by (auto simp: sanitize_url_eq strip_user_info_idem)
  next
    case False
    have amp: "\<forall>w \<in> set ?hid. CHR ''&'' \<notin> set w \<and> CHR ''#'' \<notin> set w"
    proof
      fix w assume "w \<in> set ?hid"
      then obtain p where p: "p \<in> set (split_on (\<lambda>c. c = CHR ''&'') q)" "w = hide_value p" by auto
      have "c \<noteq> CHR ''&'' \<and> c \<noteq> CHR ''#''" if "c \<in> set p" for c
        using split_on_sound [OF p(1) that] 2(3) by auto
      then show "CHR ''&'' \<notin> set w \<and> CHR ''#'' \<notin> set w"
        using hide_value_chars [of p] p(2) by auto
    qed
    then have split: "split_on (\<lambda>c. c = CHR ''&'') (join ''&'' ?hid) = ?hid"
      using False by (intro split_on_join) auto
    have "CHR ''#'' \<notin> set (join ''&'' ?hid)"
      using amp set_join [of "''&''" ?hid] by auto
    moreover have "filter (\<lambda>pair. pair \<noteq> []) ?hid = ?hid"
      by (auto simp: filter_id_conv hide_value_nonempty)
    moreover have "map hide_value ?hid = ?hid"
      by (simp add: hide_value_idem)
    ultimately show ?thesis
      using False b 2 split by (simp add: sanitize_url_eq Let_def strip_user_info_idem del: map_map)
  qed
qed

text \<open>What is kept of a URL with credentials: of \<open>scheme://user@host/path?name=value&...#fragment\<close> the
  user info, every query value and the fragment are gone, the names, the host and the path stay.\<close>

lemma sanitize_url_hides:
  assumes "CHR '':'' \<notin> set scheme" "CHR ''/'' \<notin> set user" "CHR ''/'' \<notin> set host" "CHR ''@'' \<notin> set host"
    and "path = [] \<or> hd path = CHR ''/''"
    and "\<forall>c \<in> set (scheme @ user @ host @ path). c \<noteq> CHR ''#'' \<and> c \<noteq> CHR ''?''"
    and "query \<noteq> []"
    and "\<forall>(n, v) \<in> set query. v \<noteq> [] \<and> CHR ''='' \<notin> set n \<and>
      (\<forall>c \<in> set n \<union> set v. c \<noteq> CHR ''#'' \<and> c \<noteq> CHR ''&'')"
  shows "sanitize_url (scheme @ ''://'' @ user @ ''@'' @ host @ path @ ''?'' @
      join ''&'' (map (\<lambda>(n, v). n @ ''='' @ v) query) @ ''#'' @ fragment) False =
    scheme @ ''://'' @ host @ path @ ''?'' @ join ''&'' (map (\<lambda>(n, v). n @ ''='' @ hidden) query)"
proof -
  let ?b = "scheme @ ''://'' @ user @ ''@'' @ host @ path"
    and ?pairs = "map (\<lambda>(n, v). n @ ''='' @ v) query"
  let ?q = "join ''&'' ?pairs"
  have b: "CHR ''#'' \<notin> set ?b" "CHR ''?'' \<notin> set ?b" using assms(6) by auto
  have pairs: "\<forall>w \<in> set ?pairs. w \<noteq> [] \<and> CHR ''&'' \<notin> set w \<and> CHR ''#'' \<notin> set w"
    using assms(8) by auto
  then have q: "CHR ''#'' \<notin> set ?q"
    using set_join [of "''&''" ?pairs] by auto
  have fragment: "takeWhile (\<lambda>c. c \<noteq> CHR ''#'') (?b @ CHR ''?'' # ?q @ CHR ''#'' # fragment) =
      ?b @ CHR ''?'' # ?q"
  proof -
    have "\<forall>c \<in> set (?b @ CHR ''?'' # ?q). c \<noteq> CHR ''#''" using b q by auto
    then show ?thesis using takeWhile_append2 [of "?b @ CHR ''?'' # ?q" "\<lambda>c. c \<noteq> CHR ''#''"] by simp
  qed
  have split: "split_on (\<lambda>c. c = CHR ''&'') ?q = ?pairs"
    using pairs assms(7) by (intro split_on_join) auto
  have hide: "map hide_value ?pairs = map (\<lambda>(n, v). n @ ''='' @ hidden) query"
  proof -
    have "hide_value (n @ ''='' @ v) = n @ ''='' @ hidden" if "(n, v) \<in> set query" for n v
      using assms(8) that hide_value_pair [of n v] by fastforce
    then show ?thesis by (simp add: case_prod_beta comp_def)
  qed
  have "find_from ''://'' ?b = Some (''://'' @ user @ ''@'' @ host @ path)"
    using assms(1) by (induction scheme) simp_all
  then have "split_at_str ''://'' ?b = Some (scheme, (user @ ''@'' @ host) @ path)"
    by (simp add: split_at_str_def)
  moreover have "CHR ''/'' \<notin> set (user @ ''@'' @ host)" using assms by simp
  moreover have "rsplit_once (CHR ''@'') (user @ ''@'' @ host) = Some (user, host)"
    using assms(4) by (simp add: rsplit_once_Some)
  ultimately have strip: "strip_user_info ?b = scheme @ ''://'' @ host @ path"
    using strip_user_info_eq [OF _ _ assms(5), of ?b scheme] by simp
  have "filter (\<lambda>pair. pair \<noteq> []) ?pairs = ?pairs"
    using pairs by (simp add: filter_id_conv)
  then have "sanitize_url (?b @ CHR ''?'' # ?q) False =
      (scheme @ ''://'' @ host @ path) @ CHR ''?'' # join ''&'' (map (\<lambda>(n, v). n @ ''='' @ hidden) query)"
    using sanitize_url_eq(2) [OF b q, of False] split hide strip assms(7) by (simp add: Let_def del: map_map)
  then show ?thesis
    using sanitize_url_fragment [of "?b @ CHR ''?'' # ?q @ CHR ''#'' # fragment" False] fragment by simp
qed

end
