(* ===== verification/Globs.thy ===== *)
theory Globs
  imports TextLaws
begin

text \<open>
  The meaning of a \<open>*\<close> pattern, stated once: a star stands for any run of characters, every other
  character for itself.  The components' own matchers are proved equivalent to it.
\<close>

fun wild :: "str \<Rightarrow> str \<Rightarrow> bool" where
  "wild [] v = (v = [])"
| "wild (p # ps) [] = (p = CHR ''*'' \<and> wild ps [])"
| "wild (p # ps) (c # v) =
     (if p = CHR ''*'' then wild ps (c # v) \<or> wild (p # ps) v else p = c \<and> wild ps v)"

lemma wild_star: "wild (CHR ''*'' # ps) v \<longleftrightarrow> (\<exists>a b. v = a @ b \<and> wild ps b)"
proof (induction v)
  case (Cons c v)
  have "(\<exists>a b. c # v = a @ b \<and> wild ps b) \<longleftrightarrow> wild ps (c # v) \<or> (\<exists>a b. v = a @ b \<and> wild ps b)"
    by (auto simp: Cons_eq_append_conv)
  with Cons show ?case by simp
qed simp

lemma wild_literal:
  "CHR ''*'' \<notin> set w \<Longrightarrow> wild (w @ ps) v \<longleftrightarrow> (\<exists>r. v = w @ r \<and> wild ps r)"
proof (induction w arbitrary: v)
  case (Cons x w)
  then show ?case by (cases v) auto
qed simp

lemma wild_plain: "CHR ''*'' \<notin> set w \<Longrightarrow> wild w v \<longleftrightarrow> v = w"
  using wild_literal [of w "[]" v] by simp

lemma wild_star_extend: "wild (CHR ''*'' # ps) b \<Longrightarrow> wild (CHR ''*'' # ps) (a @ b)"
  unfolding wild_star by (metis append.assoc)

text \<open>After a star the first occurrence of the next literal will do: whatever a later one allows, the
  star that follows it allows after the first one too.\<close>

lemma leftmost_suffices:
  assumes "find_from w v = Some r" "v = a @ w @ b" "wild (CHR ''*'' # ps) b"
  shows "wild (CHR ''*'' # ps) (drop (length w) r)"
proof -
  have "\<exists>c. drop (length w) r = c @ b"
    using assms(1,2)
  proof (induction v arbitrary: a)
    case Nil
    then show ?case by simp
  next
    case (Cons x v)
    show ?case
    proof (cases "starts_with w (x # v)")
      case True
      then obtain r' where r': "x # v = w @ r'" by (auto simp: starts_with_iff)
      moreover from True Cons.prems(1) have "r = x # v" by simp
      ultimately have "drop (length w) r = r'" by simp
      moreover have "\<exists>c. r' = c @ b"
      proof -
        have "w @ r' = (a @ w) @ b" using r' Cons.prems(2) by simp
        then consider us where "w = (a @ w) @ us" "us @ r' = b" | us where "r' = us @ b"
          unfolding append_eq_append_conv2 by blast
        then show ?thesis
        proof cases
          case (1 us)
          then have "length w = length ((a @ w) @ us)" by simp
          then have "us = []" by simp
          with 1 show ?thesis by simp
        qed blast
      qed
      ultimately show ?thesis by simp
    next
      case False
      then have "a \<noteq> []" using Cons.prems(2) by (auto simp: starts_with_iff)
      then obtain a' where "v = a' @ w @ b"
        using Cons.prems(2) by (cases a) auto
      then show ?thesis using Cons.IH [of a'] Cons.prems(1) False by simp
    qed
  qed
  then show ?thesis using assms(3) wild_star_extend by force
qed

lemma wild_star_literal:
  assumes "CHR ''*'' \<notin> set w"
  shows "wild (CHR ''*'' # w @ CHR ''*'' # ps) v \<longleftrightarrow>
    (\<exists>r. find_from w v = Some r \<and> wild (CHR ''*'' # ps) (drop (length w) r))"
proof
  assume "wild (CHR ''*'' # w @ CHR ''*'' # ps) v"
  then obtain a b where ab: "v = a @ w @ b" "wild (CHR ''*'' # ps) b"
    using assms by (auto simp: wild_star wild_literal)
  then obtain r where "find_from w v = Some r"
    using find_from_None [of w v] by fastforce
  with ab show "\<exists>r. find_from w v = Some r \<and> wild (CHR ''*'' # ps) (drop (length w) r)"
    using leftmost_suffices by blast
next
  assume "\<exists>r. find_from w v = Some r \<and> wild (CHR ''*'' # ps) (drop (length w) r)"
  then obtain r where r: "find_from w v = Some r" "wild (CHR ''*'' # ps) (drop (length w) r)"
    by blast
  then obtain a b where "v = a @ w @ b" "r = w @ b"
    using find_from_SomeD [of w v r] by (auto simp: starts_with_iff)
  moreover from this r(2) assms have "wild (w @ CHR ''*'' # ps) (w @ b)"
    by (simp add: wild_literal)
  ultimately show "wild (CHR ''*'' # w @ CHR ''*'' # ps) v"
    unfolding wild_star [of "w @ CHR ''*'' # ps"] by blast
qed

lemma wild_star_last:
  "CHR ''*'' \<notin> set w \<Longrightarrow> wild (CHR ''*'' # w) v \<longleftrightarrow> ends_with w v"
  by (simp add: wild_star wild_plain ends_with_iff)

end
