(* ===== verification/FlowFilter.thy ===== *)
theory FlowFilter
  imports FlowModel Globs
begin

text \<open>
  The filter language of the flow table (\<open>crates/kubyl_netflow_core/src/filter.rs\<close>): fields,
  terms and their matchers, parsing and printing, free text, and completion.
\<close>

section \<open>Fields and operators\<close>

datatype side = Either | Source | Destination

datatype field =
    F_Namespace | F_Pod | F_Workload | F_Ip | F_Port | F_Kind | F_Node | F_Service | F_Label
  | F_Protocol | F_Direction | F_Verdict | F_Policy | F_Reason | F_Bytes | F_Packets
  | F_HttpMethod | F_HttpCode | F_HttpPath | F_Dns

definition field_all :: "field list" where
  "field_all =
     [F_Namespace, F_Pod, F_Workload, F_Ip, F_Port, F_Kind, F_Node, F_Service, F_Label, F_Protocol,
      F_Direction, F_Verdict, F_Policy, F_Reason, F_Bytes, F_Packets, F_HttpMethod, F_HttpCode,
      F_HttpPath, F_Dns]"

fun field_key :: "field \<Rightarrow> str" where
  "field_key F_Namespace = ''ns''"
| "field_key F_Pod = ''pod''"
| "field_key F_Workload = ''workload''"
| "field_key F_Ip = ''ip''"
| "field_key F_Port = ''port''"
| "field_key F_Kind = ''kind''"
| "field_key F_Node = ''node''"
| "field_key F_Service = ''service''"
| "field_key F_Label = ''label''"
| "field_key F_Protocol = ''proto''"
| "field_key F_Direction = ''dir''"
| "field_key F_Verdict = ''verdict''"
| "field_key F_Policy = ''policy''"
| "field_key F_Reason = ''reason''"
| "field_key F_Bytes = ''bytes''"
| "field_key F_Packets = ''packets''"
| "field_key F_HttpMethod = ''http.method''"
| "field_key F_HttpCode = ''http.code''"
| "field_key F_HttpPath = ''http.path''"
| "field_key F_Dns = ''dns''"

definition field_parse :: "str \<Rightarrow> field option" where
  "field_parse key =
     (let k = to_ascii_lowercase key
      in if k \<in> {''ns'', ''namespace''} then Some F_Namespace
         else if k = ''pod'' then Some F_Pod
         else if k \<in> {''workload'', ''wl'', ''owner''} then Some F_Workload
         else if k \<in> {''ip'', ''addr'', ''address''} then Some F_Ip
         else if k = ''port'' then Some F_Port
         else if k = ''kind'' then Some F_Kind
         else if k = ''node'' then Some F_Node
         else if k \<in> {''service'', ''svc''} then Some F_Service
         else if k = ''label'' then Some F_Label
         else if k \<in> {''proto'', ''protocol''} then Some F_Protocol
         else if k \<in> {''dir'', ''direction''} then Some F_Direction
         else if k = ''verdict'' then Some F_Verdict
         else if k = ''policy'' then Some F_Policy
         else if k = ''reason'' then Some F_Reason
         else if k = ''bytes'' then Some F_Bytes
         else if k \<in> {''packets'', ''pkts''} then Some F_Packets
         else if k \<in> {''http.method'', ''method''} then Some F_HttpMethod
         else if k \<in> {''http.code'', ''status'', ''code''} then Some F_HttpCode
         else if k \<in> {''http.path'', ''path'', ''url''} then Some F_HttpPath
         else if k \<in> {''dns'', ''dns.query''} then Some F_Dns
         else None)"

definition sided :: "field \<Rightarrow> bool" where
  "sided f \<longleftrightarrow> f \<in> {F_Namespace, F_Pod, F_Workload, F_Ip, F_Port, F_Kind, F_Node, F_Service, F_Label}"

definition is_numeric :: "field \<Rightarrow> bool" where
  "is_numeric f \<longleftrightarrow> f \<in> {F_Port, F_Bytes, F_Packets, F_HttpCode}"

datatype op = Eq | Ne | Gt | Ge | Lt | Le

fun op_text :: "op \<Rightarrow> str" where
  "op_text Eq = ''=''"
| "op_text Ne = ''!=''"
| "op_text Gt = ''>''"
| "op_text Ge = ''>=''"
| "op_text Lt = ''<''"
| "op_text Le = ''<=''"

section \<open>Patterns, address blocks, numbers\<close>

text \<open>The loop of \<open>glob\<close> over the parts between the stars: \<open>i\<close> is the index of the part, \<open>n\<close> their
  number.\<close>

fun glob_loop :: "nat \<Rightarrow> nat \<Rightarrow> str list \<Rightarrow> str \<Rightarrow> bool" where
  "glob_loop i n [] rest = (rest = [])"
| "glob_loop i n (part # parts) rest =
     (if i = 0 then
        (case strip_prefix part rest of Some r \<Rightarrow> glob_loop (Suc i) n parts r | None \<Rightarrow> False)
      else if i = n - 1 then part = [] \<or> ends_with part rest
      else
        (case find_from part rest of
           Some found \<Rightarrow> glob_loop (Suc i) n parts (drop (length part) found)
         | None \<Rightarrow> False))"

definition glob :: "str \<Rightarrow> str \<Rightarrow> bool" where
  "glob pat val =
     (let parts = split_on (\<lambda>c. c = CHR ''*'') pat in glob_loop 0 (length parts) parts val)"

record pattern =
  pat_text :: str
  pat_prefix :: bool

definition pattern_new :: "str \<Rightarrow> bool \<Rightarrow> pattern" where
  "pattern_new s prefix = \<lparr>pat_text = to_lowercase s, pat_prefix = prefix\<rparr>"

definition pattern_matches :: "pattern \<Rightarrow> str \<Rightarrow> bool" where
  "pattern_matches p val =
     (let val = to_lowercase val
      in if CHR ''*'' \<in> set (pat_text p) then glob (pat_text p) val
         else if pat_prefix p then starts_with (pat_text p) val
         else val = pat_text p)"

definition pattern_contains :: "pattern \<Rightarrow> str \<Rightarrow> bool" where
  "pattern_contains p val =
     (let val = to_lowercase val
      in if CHR ''*'' \<in> set (pat_text p) then glob (pat_text p) val
         else contains (pat_text p) val)"

definition split_namespace :: "pattern \<Rightarrow> (str \<times> pattern) option" where
  "split_namespace p =
     (case split_once (CHR ''/'') (pat_text p) of
        None \<Rightarrow> None
      | Some (ns, rest) \<Rightarrow> Some (ns, \<lparr>pat_text = rest, pat_prefix = pat_prefix p\<rparr>))"

record ip_block =
  blk_ip :: ip_addr
  blk_prefix :: nat

definition ip_block_parse :: "str \<Rightarrow> ip_block option" where
  "ip_block_parse s =
     (case (case split_once (CHR ''/'') s of
              Some (ip, prefix) \<Rightarrow>
                (case (parse_ip ip, parse_uint 8 prefix) of
                   (Some a, Some n) \<Rightarrow> Some (a, Some n) | _ \<Rightarrow> None)
            | None \<Rightarrow> (case parse_ip s of Some a \<Rightarrow> Some (a, None) | None \<Rightarrow> None)) of
        None \<Rightarrow> None
      | Some (ip, prefix) \<Rightarrow>
          (let max_len = (case ip of V4 _ \<Rightarrow> 32 | V6 _ \<Rightarrow> 128);
               n = unwrap_or prefix max_len
           in if n \<le> max_len then Some \<lparr>blk_ip = ip, blk_prefix = n\<rparr> else None))"

text \<open>\<open>checked_shl\<close> of all ones: nothing is left of the mask when the shift is the whole width.\<close>

definition mask_of :: "nat \<Rightarrow> nat \<Rightarrow> 'a::len word" where
  "mask_of width prefix = (if width - prefix < width then push_bit (width - prefix) (- 1) else 0)"

definition block_contains :: "ip_block \<Rightarrow> ip_addr \<Rightarrow> bool" where
  "block_contains b ip =
     (case (blk_ip b, ip) of
        (V4 block, V4 a) \<Rightarrow>
          and block (mask_of 32 (blk_prefix b)) = and a (mask_of 32 (blk_prefix b))
      | (V6 block, V6 a) \<Rightarrow>
          and block (mask_of 128 (blk_prefix b)) = and a (mask_of 128 (blk_prefix b))
      | _ \<Rightarrow> False)"

datatype number_match = NumRange nat nat | NumGlob str

definition u64_max :: nat where "u64_max = 2 ^ 64 - 1"

definition parse_number :: "field \<Rightarrow> str \<Rightarrow> str + nat" where
  "parse_number f t =
     ok_or (parse_uint 64 (trim t)) (field_key f @ '' needs a number, not '' @ t)"

definition number_parse :: "field \<Rightarrow> op \<Rightarrow> str \<Rightarrow> str + number_match" where
  "number_parse f op s =
     (let number = parse_number f
      in if f = F_HttpCode \<and> CHR ''*'' \<in> set s \<and> op \<in> {Eq, Ne} then Inr (NumGlob s)
         else (case op of
             Gt \<Rightarrow> and_then (number s) (\<lambda>n. Inr (NumRange (min (n + 1) u64_max) u64_max))
           | Ge \<Rightarrow> and_then (number s) (\<lambda>n. Inr (NumRange n u64_max))
           | Lt \<Rightarrow> and_then (number s) (\<lambda>n. Inr (NumRange 0 (n - 1)))
           | Le \<Rightarrow> and_then (number s) (\<lambda>n. Inr (NumRange 0 n))
           | _ \<Rightarrow>
               (case split_once (CHR ''-'') s of
                  Some (low, high) \<Rightarrow>
                    and_then (number low) (\<lambda>l. and_then (number high) (\<lambda>h. Inr (NumRange l h)))
                | None \<Rightarrow> and_then (number s) (\<lambda>n. Inr (NumRange n n)))))"

fun number_matches :: "number_match \<Rightarrow> nat \<Rightarrow> bool" where
  "number_matches (NumRange low high) n = (low \<le> n \<and> n \<le> high)"
| "number_matches (NumGlob pat) n = glob pat (show_nat n)"

fun number_exact :: "number_match \<Rightarrow> nat option" where
  "number_exact (NumRange low high) = (if low = high then Some low else None)"
| "number_exact (NumGlob pat) = None"

section \<open>Matchers\<close>

datatype policy_match = PM_Isolated | PM_None | PM_Name pattern

datatype matcher =
    M_Text "pattern list"
  | M_Ip "ip_block list"
  | M_Number "number_match list"
  | M_Verdict "verdict list"
  | M_Direction "direction list"
  | M_Kind "endpoint_kind list"
  | M_Protocol "str list"
  | M_Policy "policy_match list"

definition protocol_value :: "str \<Rightarrow> str" where
  "protocol_value v =
     (case protocol_from_name v of
        P_Unknown \<Rightarrow> to_lowercase v
      | l4 \<Rightarrow> to_lowercase (protocol_label l4))"

definition policy_value :: "str \<Rightarrow> policy_match" where
  "policy_value v =
     (if to_lowercase v = ''isolated'' then PM_Isolated
      else if to_lowercase v = ''none'' then PM_None
      else PM_Name (pattern_new v False))"

definition kind_value :: "str \<Rightarrow> endpoint_kind option" where
  "kind_value v = find (\<lambda>k. eq_ignore_ascii_case (kind_label k) v) kind_all"

definition matcher_build :: "field \<Rightarrow> op \<Rightarrow> str list \<Rightarrow> str + matcher" where
  "matcher_build f op vals =
     (if f = F_Ip then
        and_then (collect_results (map (\<lambda>v. ok_or (ip_block_parse v)
          (v @ '' isn't an IP address or CIDR block'')) vals)) (\<lambda>bs. Inr (M_Ip bs))
      else if f \<in> {F_Port, F_Bytes, F_Packets, F_HttpCode} then
        and_then (collect_results (map (number_parse f op) vals)) (\<lambda>ns. Inr (M_Number ns))
      else if f = F_Verdict then
        and_then (collect_results (map (\<lambda>v. ok_or (verdict_parse v)
          (''Unknown verdict '' @ v @ '': forwarded, dropped, no-reply, error, audit, redirected, traced, translated'')) vals))
          (\<lambda>vs. Inr (M_Verdict vs))
      else if f = F_Direction then
        and_then (collect_results (map (\<lambda>v. ok_or (direction_parse v)
          (''Unknown direction '' @ v @ '': ingress or egress'')) vals)) (\<lambda>ds. Inr (M_Direction ds))
      else if f = F_Kind then
        and_then (collect_results (map (\<lambda>v. ok_or (kind_value v)
          (''Unknown kind '' @ v @ '': pod, service, host, remote-node, kube-apiserver, world, internal, unknown'')) vals))
          (\<lambda>ks. Inr (M_Kind ks))
      else if f = F_Protocol then Inr (M_Protocol (map protocol_value vals))
      else if f = F_Policy then Inr (M_Policy (map policy_value vals))
      else if f \<in> {F_Pod, F_HttpPath} then Inr (M_Text (map (\<lambda>v. pattern_new v True) vals))
      else Inr (M_Text (map (\<lambda>v. pattern_new v False) vals)))"

text \<open>A pattern with a namespace part (\<open>payments/checkout-api\<close>) asks for exactly that namespace.\<close>

definition scoped_matches :: "pattern \<Rightarrow> str option \<Rightarrow> str option \<Rightarrow> bool" where
  "scoped_matches p namespace val =
     (case split_namespace p of
        Some (ns, q) \<Rightarrow>
          namespace = Some ns \<and> (case val of Some n \<Rightarrow> pattern_matches q n | None \<Rightarrow> False)
      | None \<Rightarrow> (case val of Some n \<Rightarrow> pattern_matches p n | None \<Rightarrow> False))"

definition some_and :: "('a \<Rightarrow> bool) \<Rightarrow> 'a option \<Rightarrow> bool" where
  "some_and p x = (case x of Some y \<Rightarrow> p y | None \<Rightarrow> False)"

fun matches_endpoint :: "matcher \<Rightarrow> field \<Rightarrow> endpoint \<Rightarrow> bool" where
  "matches_endpoint (M_Text pats) f e =
     (if f = F_Namespace then some_and (\<lambda>ns. list_ex (\<lambda>p. pattern_matches p ns) pats) (ep_namespace e)
      else if f = F_Pod then list_ex (\<lambda>p. scoped_matches p (ep_namespace e) (ep_pod e)) pats
      else if f = F_Workload then list_ex (\<lambda>p. scoped_matches p (ep_namespace e) (workload_name e)) pats
      else if f = F_Node then some_and (\<lambda>n. list_ex (\<lambda>p. pattern_matches p n) pats) (ep_node e)
      else if f = F_Service then
        some_and (\<lambda>svc. list_ex (\<lambda>p. scoped_matches p (ep_namespace e) (Some svc)) pats) (ep_service e)
      else if f = F_Label then list_ex (\<lambda>l. list_ex (\<lambda>p. pattern_matches p l) pats) (ep_labels e)
      else False)"
| "matches_endpoint (M_Ip blocks) f e = some_and (\<lambda>ip. list_ex (\<lambda>b. block_contains b ip) blocks) (ep_ip e)"
| "matches_endpoint (M_Number ranges) f e =
     (f = F_Port \<and> some_and (\<lambda>port. list_ex (\<lambda>r. number_matches r port) ranges) (ep_port e))"
| "matches_endpoint (M_Kind kinds) f e = (ep_kind e \<in> set kinds)"
| "matches_endpoint _ f e = False"

definition protocol_matches :: "flow \<Rightarrow> str \<Rightarrow> bool" where
  "protocol_matches fl want =
     (want = to_lowercase (protocol_label (fl_protocol fl))
      \<or> (want = ''icmp'' \<and> fl_protocol fl = P_IcmpV6)
      \<or> some_and (\<lambda>l. l7_protocol l = want) (fl_l7 fl))"

fun policy_matches :: "policies \<Rightarrow> policy_match \<Rightarrow> bool" where
  "policy_matches ps PM_Isolated = isolated ps"
| "policy_matches ps PM_None = (policies_all ps = [] \<and> \<not> isolated ps)"
| "policy_matches ps (PM_Name p) =
     list_ex (\<lambda>pol. pattern_matches p (pol_name pol) \<or> pattern_matches p (policy_label pol)) (policies_all ps)"

fun http_code_of :: "l7 \<Rightarrow> nat option" where
  "http_code_of (Http _ _ code _ _ _ _) = code"
| "http_code_of _ = None"

fun http_method_of :: "l7 \<Rightarrow> str option" where
  "http_method_of (Http method _ _ _ _ _ _) = Some method"
| "http_method_of _ = None"

fun http_path_of :: "l7 \<Rightarrow> str option" where
  "http_path_of (Http _ url _ _ _ _ _) = Some (path_of url)"
| "http_path_of _ = None"

fun dns_name_of :: "l7 \<Rightarrow> str option" where
  "dns_name_of (Dns query _ _ _) = Some (trim_end_matches (\<lambda>c. c = CHR ''.'') query)"
| "dns_name_of _ = None"

fun matches_flow :: "matcher \<Rightarrow> field \<Rightarrow> flow \<Rightarrow> bool" where
  "matches_flow (M_Verdict vs) f fl = (fl_verdict fl \<in> set vs)"
| "matches_flow (M_Direction ds) f fl = (fl_direction fl \<in> set ds)"
| "matches_flow (M_Protocol wanted) f fl = list_ex (protocol_matches fl) wanted"
| "matches_flow (M_Policy ms) f fl = list_ex (policy_matches (fl_policies fl)) ms"
| "matches_flow (M_Text pats) f fl =
     (let l7_text = (\<lambda>get. some_and (\<lambda>v. list_ex (\<lambda>p. pattern_matches p v) pats)
                              (Option.bind (fl_l7 fl) get))
      in if f = F_Reason then
           some_and (\<lambda>r. list_ex (\<lambda>p. pattern_contains p r) pats) (reason (fl_policies fl))
         else if f = F_HttpMethod then l7_text http_method_of
         else if f = F_HttpPath then l7_text http_path_of
         else if f = F_Dns then l7_text dns_name_of
         else False)"
| "matches_flow (M_Number ranges) f fl =
     (let any = some_and (\<lambda>n. list_ex (\<lambda>r. number_matches r n) ranges)
      in if f = F_Bytes then any (fl_bytes fl)
         else if f = F_Packets then any (fl_packets fl)
         else if f = F_HttpCode then any (Option.bind (fl_l7 fl) http_code_of)
         else False)"
| "matches_flow _ f fl = False"

section \<open>Terms and filters\<close>

record filter_term =
  t_side :: side
  t_field :: field
  t_op :: op
  t_values :: "str list"
  t_matcher :: matcher

definition term_new :: "side \<Rightarrow> field \<Rightarrow> op \<Rightarrow> str list \<Rightarrow> str + filter_term" where
  "term_new sd f o' vals =
     and_then (matcher_build f o' vals) (\<lambda>m.
       Inr \<lparr>t_side = sd, t_field = f, t_op = o', t_values = vals, t_matcher = m\<rparr>)"

definition term_matches :: "filter_term \<Rightarrow> flow \<Rightarrow> bool" where
  "term_matches t fl =
     (let hit =
            (if sided (t_field t) then
               (case t_side t of
                  Source \<Rightarrow> matches_endpoint (t_matcher t) (t_field t) (fl_source fl)
                | Destination \<Rightarrow> matches_endpoint (t_matcher t) (t_field t) (fl_destination fl)
                | Either \<Rightarrow> matches_endpoint (t_matcher t) (t_field t) (fl_source fl)
                          \<or> matches_endpoint (t_matcher t) (t_field t) (fl_destination fl))
             else matches_flow (t_matcher t) (t_field t) fl)
      in if t_op t = Ne then \<not> hit else hit)"

definition has_glob :: "filter_term \<Rightarrow> bool" where
  "has_glob t = list_ex (\<lambda>v. CHR ''*'' \<in> set v) (t_values t)"

definition exact_numbers :: "filter_term \<Rightarrow> nat list option" where
  "exact_numbers t =
     (case t_matcher t of
        M_Number ranges \<Rightarrow>
          if t_op t = Eq \<and> list_all (\<lambda>r. number_exact r \<noteq> None) ranges
          then Some (map (\<lambda>r. the (number_exact r)) ranges) else None
      | _ \<Rightarrow> None)"

definition quote :: "str \<Rightarrow> str" where
  "quote val =
     (if val = [] \<or> list_ex (\<lambda>c. is_whitespace c \<or> c = CHR '','' \<or> c = CHR 0x22) val
      then CHR 0x22 # filter (\<lambda>c. c \<noteq> CHR 0x22) val @ [CHR 0x22]
      else val)"

fun side_text :: "side \<Rightarrow> str" where
  "side_text Either = []"
| "side_text Source = ''src.''"
| "side_text Destination = ''dst.''"

definition term_text :: "filter_term \<Rightarrow> str" where
  "term_text t =
     side_text (t_side t) @ field_key (t_field t) @ op_text (t_op t) @ join '','' (map quote (t_values t))"

record flow_filter =
  ff_terms :: "filter_term list"
  ff_words :: "str list"

definition filter_default :: flow_filter where
  "filter_default = \<lparr>ff_terms = [], ff_words = []\<rparr>"

section \<open>Parsing\<close>

record token =
  tok_text :: str
  tok_start :: nat
  tok_end :: nat

text \<open>\<open>tokens\<close>: \<open>ix\<close> is the byte index of the next character, \<open>start\<close> where the token being read
  began with its characters so far (in reverse), \<open>quoted\<close> whether a quote is open.\<close>

fun token_scan :: "nat \<Rightarrow> (nat \<times> str) option \<Rightarrow> bool \<Rightarrow> str \<Rightarrow> token list" where
  "token_scan ix start quoted [] =
     (case start of
        None \<Rightarrow> []
      | Some (s, acc) \<Rightarrow> [\<lparr>tok_text = rev acc, tok_start = s, tok_end = ix\<rparr>])"
| "token_scan ix start quoted (c # cs) =
     (let ix' = ix + length (utf8 c)
      in case start of
           None \<Rightarrow>
             if is_whitespace c then token_scan ix' None quoted cs
             else token_scan ix' (Some (ix, [c])) (c = CHR 0x22) cs
         | Some (s, acc) \<Rightarrow>
             if c = CHR 0x22 then token_scan ix' (Some (s, c # acc)) (\<not> quoted) cs
             else if is_whitespace c \<and> \<not> quoted
             then \<lparr>tok_text = rev acc, tok_start = s, tok_end = ix\<rparr> # token_scan ix' None quoted cs
             else token_scan ix' (Some (s, c # acc)) quoted cs)"

definition tokens :: "str \<Rightarrow> token list" where
  "tokens s = token_scan 0 None False s"

record parts =
  p_negated :: bool
  p_side :: side
  p_key :: str
  p_op :: op
  p_value :: str

definition is_op_char :: "char \<Rightarrow> bool" where
  "is_op_char c \<longleftrightarrow> c \<in> {CHR ''='', CHR ''!'', CHR ''>'', CHR ''<''}"

definition is_key_char :: "char \<Rightarrow> bool" where
  "is_key_char c \<longleftrightarrow> is_ascii_alphanumeric c \<or> c \<in> {CHR ''.'', CHR ''_'', CHR ''-''}"

definition read_op :: "str \<Rightarrow> (op \<times> str) option" where
  "read_op after =
     (if starts_with ''!='' after then Some (Ne, drop 2 after)
      else if starts_with ''>='' after then Some (Ge, drop 2 after)
      else if starts_with ''<='' after then Some (Le, drop 2 after)
      else if starts_with ''='' after then Some (Eq, drop 1 after)
      else if starts_with ''>'' after then Some (Gt, drop 1 after)
      else if starts_with ''<'' after then Some (Lt, drop 1 after)
      else None)"

definition read_side :: "str \<Rightarrow> side \<times> str" where
  "read_side key_part =
     (case strip_prefix ''src.'' key_part of
        Some k \<Rightarrow> (Source, k)
      | None \<Rightarrow> (case strip_prefix ''dst.'' key_part of
                  Some k \<Rightarrow> (Destination, k) | None \<Rightarrow> (Either, key_part)))"

definition split_token :: "str \<Rightarrow> parts option" where
  "split_token token =
     (let (negated, rest) = (case strip_prefix ''!'' token of
                               Some r \<Rightarrow> (True, r) | None \<Rightarrow> (False, token));
          key_part = takeWhile (\<lambda>c. \<not> is_op_char c) rest;
          after = dropWhile (\<lambda>c. \<not> is_op_char c) rest
      in if after = [] then None
         else if key_part = [] \<or> \<not> list_all is_key_char key_part then None
         else (case read_op after of
             None \<Rightarrow> None
           | Some (o', val) \<Rightarrow>
               (let (sd, key) = read_side key_part
                in Some \<lparr>p_negated = negated, p_side = sd, p_key = key, p_op = o', p_value = val\<rparr>)))"

definition read_values :: "str \<Rightarrow> str list" where
  "read_values s =
     filter (\<lambda>v. v \<noteq> []) (map (\<lambda>v. trim_matches (\<lambda>c. c = CHR 0x22) (trim v))
       (split_on (\<lambda>c. c = CHR '','') s))"

definition parse_term :: "str \<Rightarrow> str + filter_term option" where
  "parse_term token =
     (case split_token token of
        None \<Rightarrow> Inr None
      | Some ps \<Rightarrow>
          (case field_parse (p_key ps) of
             None \<Rightarrow> Inl (''Unknown field '' @ p_key ps @ ''. Fields: ns, pod, workload, ip, port, kind, node, service, label, proto, dir, verdict, policy, reason, bytes, packets, http.method, http.code, http.path, dns.'')
           | Some f \<Rightarrow>
               if p_side ps \<noteq> Either \<and> \<not> sided f
               then Inl (field_key f @ '' has no source or destination: drop the src. or dst.'')
               else if p_negated ps \<and> p_op ps \<notin> {Eq, Ne}
               then Inl ''Use ! only with = (like !verdict=forwarded).''
               else (let o' = (if p_negated ps then (if p_op ps = Eq then Ne else Eq) else p_op ps);
                         vals = read_values (p_value ps)
                     in if o' \<in> {Gt, Ge, Lt, Le} \<and> \<not> is_numeric f
                        then Inl (field_key f @ '' can't be compared with > or <'')
                        else if vals = [] then Inl (field_key f @ '' needs a value'')
                        else and_then (term_new (p_side ps) f o' vals) (\<lambda>t. Inr (Some t)))))"

record parse_error =
  pe_message :: str
  pe_start :: nat
  pe_end :: nat

fun parse_tokens :: "flow_filter \<Rightarrow> token list \<Rightarrow> parse_error + flow_filter" where
  "parse_tokens ff [] = Inr ff"
| "parse_tokens ff (tok # toks) =
     (case parse_term (tok_text tok) of
        Inr (Some t) \<Rightarrow> parse_tokens (ff\<lparr>ff_terms := ff_terms ff @ [t]\<rparr>) toks
      | Inr None \<Rightarrow>
          (let word = to_lowercase (trim_matches (\<lambda>c. c = CHR 0x22) (tok_text tok))
           in if word \<noteq> [] then parse_tokens (ff\<lparr>ff_words := ff_words ff @ [word]\<rparr>) toks
              else parse_tokens ff toks)
      | Inl message \<Rightarrow>
          Inl \<lparr>pe_message = message, pe_start = tok_start tok, pe_end = tok_end tok\<rparr>)"

definition filter_parse :: "str \<Rightarrow> parse_error + flow_filter" where
  "filter_parse s = parse_tokens filter_default (tokens s)"

definition filter_text :: "flow_filter \<Rightarrow> str" where
  "filter_text ff = join '' '' (map term_text (ff_terms ff) @ map quote (ff_words ff))"

definition canonical :: "flow_filter \<Rightarrow> str" where
  "canonical ff = filter_text ff"

section \<open>Matching\<close>

definition push_word :: "str \<Rightarrow> str" where
  "push_word w = w @ '' ''"

definition haystack_endpoint :: "endpoint \<Rightarrow> str" where
  "haystack_endpoint e =
     push_word (endpoint_label e)
     @ (case ep_workload e of Some w \<Rightarrow> push_word (wl_name w) | None \<Rightarrow> [])
     @ (case ep_ip e of Some ip \<Rightarrow> push_word (show_ip ip) | None \<Rightarrow> [])
     @ (case ep_service e of Some svc \<Rightarrow> push_word svc | None \<Rightarrow> [])
     @ concat (map push_word (ep_names e))
     @ (case ep_port e of Some port \<Rightarrow> push_word (show_nat port) | None \<Rightarrow> [])"

definition haystack :: "flow \<Rightarrow> str" where
  "haystack fl = to_lowercase
     (haystack_endpoint (fl_source fl) @ haystack_endpoint (fl_destination fl)
      @ push_word (verdict_label (fl_verdict fl))
      @ push_word (flow_protocol_label fl)
      @ concat (map (\<lambda>p. push_word (policy_label p)) (policies_all (fl_policies fl)))
      @ (case reason (fl_policies fl) of Some r \<Rightarrow> push_word r | None \<Rightarrow> [])
      @ (case fl_node fl of Some n \<Rightarrow> n | None \<Rightarrow> []))"

definition filter_matches :: "flow_filter \<Rightarrow> flow \<Rightarrow> bool" where
  "filter_matches ff fl =
     (list_all (\<lambda>t. term_matches t fl) (ff_terms ff)
      \<and> (ff_words ff = [] \<or> list_all (\<lambda>w. contains w (haystack fl)) (ff_words ff)))"

definition push_new :: "'a list \<Rightarrow> 'a \<Rightarrow> 'a list" where
  "push_new xs x = (if x \<in> set xs then xs else xs @ [x])"

definition filter_and :: "flow_filter \<Rightarrow> flow_filter \<Rightarrow> flow_filter" where
  "filter_and ff other =
     ff\<lparr>ff_terms := foldl push_new (ff_terms ff) (ff_terms other),
       ff_words := foldl push_new (ff_words ff) (ff_words other)\<rparr>"

definition filter_subset :: "(filter_term \<Rightarrow> bool) \<Rightarrow> flow_filter \<Rightarrow> flow_filter" where
  "filter_subset keep ff = \<lparr>ff_terms = filter keep (ff_terms ff), ff_words = []\<rparr>"

definition split_verdicts :: "flow_filter \<Rightarrow> flow_filter \<times> flow_filter" where
  "split_verdicts ff =
     (let (verdicts, rest) = partition (\<lambda>t. t_field t = F_Verdict) (ff_terms ff)
      in (\<lparr>ff_terms = rest, ff_words = ff_words ff\<rparr>, \<lparr>ff_terms = verdicts, ff_words = []\<rparr>))"

section \<open>Completion\<close>

record suggestion =
  sg_start :: nat
  sg_end :: nat
  sg_text :: str
  sg_label :: str
  sg_count :: "nat option"
  sg_verdict :: "verdict option"

text \<open>The characters before a byte position; \<open>None\<close> when it is inside a character.\<close>

fun before_byte :: "nat \<Rightarrow> str \<Rightarrow> str option" where
  "before_byte 0 s = Some []"
| "before_byte (Suc n) [] = None"
| "before_byte (Suc n) (c # s) =
     (if length (utf8 c) \<le> Suc n then map_option (Cons c) (before_byte (Suc n - length (utf8 c)) s)
      else None)"

definition last_token :: "str \<Rightarrow> str" where
  "last_token s = rev (takeWhile (\<lambda>c. \<not> is_whitespace c) (rev s))"

definition seen_values :: "(field \<Rightarrow> (str \<times> nat) list) \<Rightarrow> field \<Rightarrow> (str \<times> nat) list" where
  "seen_values seen f =
     (let vals = seen f
      in if f = F_Verdict \<and> vals = [] then [(verdict_key V_Forwarded, 0), (verdict_key V_Dropped, 0)]
         else if f = F_Direction \<and> vals = [] then [(''ingress'', 0), (''egress'', 0)]
         else vals)"

definition value_suggestions ::
  "nat \<Rightarrow> nat \<Rightarrow> str \<Rightarrow> parts \<Rightarrow> field \<Rightarrow> (field \<Rightarrow> (str \<times> nat) list) \<Rightarrow> nat \<Rightarrow> suggestion list" where
  "value_suggestions start cursor token ps f seen limit =
     (let (listed_part, partial) = (case rsplit_once (CHR '','') (p_value ps) of
                               Some (a, b) \<Rightarrow> (a @ '','', b) | None \<Rightarrow> ([], p_value ps));
          head = take (length token - length (p_value ps)) token;
          partial = to_lowercase partial;
          listed = filter (\<lambda>v. v \<noteq> []) (split_on (\<lambda>c. c = CHR '','') listed_part);
          candidates = filter (\<lambda>(v, n). v \<notin> set listed) (seen_values seen f);
          hits = filter (\<lambda>(v, n). contains partial (to_lowercase v)) candidates;
          is_prefix = (\<lambda>(v, n). starts_with partial (to_lowercase v));
          ordered = filter is_prefix hits @ filter (\<lambda>h. \<not> is_prefix h) hits
      in map (\<lambda>(v, n).
           (let s = head @ listed_part @ quote v
            in \<lparr>sg_start = start, sg_end = cursor, sg_text = s, sg_label = s,
                sg_count = (if 0 < n then Some n else None),
                sg_verdict = (if f = F_Verdict then verdict_parse v else None)\<rparr>))
         (take limit ordered))"

definition key_suggestions :: "nat \<Rightarrow> nat \<Rightarrow> str \<Rightarrow> nat \<Rightarrow> suggestion list" where
  "key_suggestions start cursor token limit =
     (let lower = to_lowercase token;
          (side, key) = (case strip_prefix ''src.'' lower of
                           Some k \<Rightarrow> (''src.'', k)
                         | None \<Rightarrow> (case strip_prefix ''dst.'' lower of
                                     Some k \<Rightarrow> (''dst.'', k) | None \<Rightarrow> ([], lower)))
      in map (\<lambda>f. (let s = side @ field_key f @ ''=''
                   in \<lparr>sg_start = start, sg_end = cursor, sg_text = s, sg_label = s,
                       sg_count = None, sg_verdict = None\<rparr>))
         (take limit
           (filter (\<lambda>f. (side = [] \<or> sided f) \<and> starts_with key (field_key f) \<and> field_key f \<noteq> key)
             field_all)))"

definition complete_filter ::
  "str \<Rightarrow> nat \<Rightarrow> (field \<Rightarrow> (str \<times> nat) list) \<Rightarrow> nat \<Rightarrow> suggestion list" where
  "complete_filter input cursor seen limit =
     (let cursor = min cursor (byte_len input)
      in case before_byte cursor input of
           None \<Rightarrow> []
         | Some typed \<Rightarrow>
             (let token = last_token typed;
                  start = byte_len typed - byte_len token
              in if token = [] then []
                 else (case split_token token of
                     Some ps \<Rightarrow>
                       (case field_parse (p_key ps) of
                          None \<Rightarrow> []
                        | Some f \<Rightarrow> value_suggestions start cursor token ps f seen limit)
                   | None \<Rightarrow> key_suggestions start cursor token limit)))"

end
