(* ===== verification/FlowFilterLaws.thy ===== *)
theory FlowFilterLaws
  imports FlowFilter
begin

text \<open>
  What the flow filter language means: globs, address blocks and number ranges against their
  mathematical meaning, what parsing guarantees, printing and parsing as inverses, and the
  combination of filters.
\<close>

section \<open>Globs\<close>

lemma glob_loop_later:
  assumes "0 < i" "parts \<noteq> []" "n = i + length parts" "\<forall>p \<in> set parts. CHR ''*'' \<notin> set p"
  shows "glob_loop i n parts rest \<longleftrightarrow> wild (CHR ''*'' # join ''*'' parts) rest"
  using assms
proof (induction parts arbitrary: i rest)
  case (Cons p parts)
  show ?case
  proof (cases parts)
    case Nil
    with Cons.prems show ?thesis
      by (auto simp: wild_star_last ends_with_iff)
  next
    case (Cons q ps)
    then have step: "glob_loop i n (p # parts) rest =
        (case find_from p rest of Some r \<Rightarrow> glob_loop (Suc i) n parts (drop (length p) r) | None \<Rightarrow> False)"
    proof -
      have "i \<noteq> 0" "i \<noteq> n - 1" using Cons.prems Cons by simp_all
      then show ?thesis by (simp only: glob_loop.simps if_False)
    qed
    have "join ''*'' (p # parts) = p @ CHR ''*'' # join ''*'' parts"
      using Cons by simp
    then show ?thesis
      using Cons.prems Cons.IH [of "Suc i"] Cons wild_star_literal [of p "join ''*'' parts" rest]
      unfolding step by (auto split: option.splits)
  qed
qed simp

text \<open>The loop of \<open>glob\<close> is the wildcard language: a star stands for any run of characters and
  everything else for itself (finding the leftmost occurrence of each part loses no match).\<close>

lemma glob_is_wild: "glob pat val \<longleftrightarrow> wild pat val"
proof -
  let ?parts = "split_on (\<lambda>c. c = CHR ''*'') pat"
  have pat: "join ''*'' ?parts = pat" by (rule join_split_on)
  have no_star: "\<forall>p \<in> set ?parts. CHR ''*'' \<notin> set p"
    by (auto dest: split_on_sound)
  obtain p ps where ps: "?parts = p # ps" by (cases ?parts) auto
  show ?thesis
  proof (cases ps)
    case Nil
    then have "pat = p" using pat ps by simp
    with Nil ps no_star show ?thesis
      by (auto simp: glob_def wild_plain strip_prefix_eq split: option.splits)
  next
    case (Cons q qs)
    then have pat': "pat = p @ CHR ''*'' # join ''*'' ps" using pat ps by simp
    have "glob pat val \<longleftrightarrow> (\<exists>r. val = p @ r \<and> glob_loop 1 (length ?parts) ps r)"
      using ps by (auto simp: glob_def strip_prefix_eq split: option.splits)
    also have "\<dots> \<longleftrightarrow> (\<exists>r. val = p @ r \<and> wild (CHR ''*'' # join ''*'' ps) r)"
      using glob_loop_later [of 1 ps "length ?parts"] Cons ps no_star by simp
    also have "\<dots> \<longleftrightarrow> wild pat val"
      unfolding pat' using wild_literal [of p _ val] no_star ps by simp
    finally show ?thesis .
  qed
qed

section \<open>Address blocks\<close>

lemma mask_drop_bit:
  fixes a b :: "'a::len word"
  assumes "prefix \<le> LENGTH('a)"
  shows "and b (mask_of LENGTH('a) prefix) = and a (mask_of LENGTH('a) prefix) \<longleftrightarrow>
    drop_bit (LENGTH('a) - prefix) b = drop_bit (LENGTH('a) - prefix) a"
proof (cases "prefix = 0")
  case True
  then show ?thesis by (simp add: mask_of_def drop_bit_word_beyond)
next
  case False
  then have m: "(mask_of LENGTH('a) prefix :: 'a word) = push_bit (LENGTH('a) - prefix) (- 1)"
    using assms by (simp add: mask_of_def)
  let ?s = "LENGTH('a) - prefix"
  have "and b (push_bit ?s (- 1)) = and a (push_bit ?s (- 1)) \<longleftrightarrow>
      (\<forall>n. ?s \<le> n \<and> n < LENGTH('a) \<longrightarrow> bit b n = bit a n)"
    unfolding bit_eq_iff by (auto simp: bit_simps)
  also have "\<dots> \<longleftrightarrow> (\<forall>n. bit b (?s + n) = bit a (?s + n))"
  proof (rule iffI; rule allI)
    fix n assume "\<forall>n. ?s \<le> n \<and> n < LENGTH('a) \<longrightarrow> bit b n = bit a n"
    then show "bit b (?s + n) = bit a (?s + n)"
      by (cases "?s + n < LENGTH('a)") (auto dest: bit_imp_le_length)
  next
    fix n assume *: "\<forall>n. bit b (?s + n) = bit a (?s + n)"
    show "?s \<le> n \<and> n < LENGTH('a) \<longrightarrow> bit b n = bit a n"
      using spec [OF *, of "n - ?s"] by auto
  qed
  also have "\<dots> \<longleftrightarrow> drop_bit ?s b = drop_bit ?s a"
  proof -
    have beyond: "\<not> bit x (?s + n)" if "\<not> n < LENGTH('a)" for x :: "'a word" and n
      using that bit_imp_le_length [of x "?s + n"] by auto
    show ?thesis
      unfolding bit_eq_iff by (auto simp: bit_drop_bit_eq) (use beyond in blast)+
  qed
  finally show ?thesis unfolding m .
qed

text \<open>An address is in a CIDR block exactly when it is of the block's family and agrees with the
  block's address on its leading prefix bits; a prefix of 0 takes the whole family.\<close>

lemma block_contains_prefix:
  assumes "ip_block_parse s = Some b"
  shows "block_contains b ip \<longleftrightarrow>
    (case (blk_ip b, ip) of
       (V4 block, V4 a) \<Rightarrow> drop_bit (32 - blk_prefix b) block = drop_bit (32 - blk_prefix b) a
     | (V6 block, V6 a) \<Rightarrow> drop_bit (128 - blk_prefix b) block = drop_bit (128 - blk_prefix b) a
     | _ \<Rightarrow> False)"
proof -
  from assms have len: "blk_prefix b \<le> (case blk_ip b of V4 _ \<Rightarrow> 32 | V6 _ \<Rightarrow> 128)"
    by (auto simp: ip_block_parse_def Let_def split: option.splits if_splits prod.splits)
  show ?thesis
  proof (cases "blk_ip b")
    case (V4 block)
    with len have "blk_prefix b \<le> LENGTH(32)" by simp
    from mask_drop_bit [OF this, of block] show ?thesis
      using V4 by (cases ip) (simp_all add: block_contains_def)
  next
    case (V6 block)
    with len have "blk_prefix b \<le> LENGTH(128)" by simp
    from mask_drop_bit [OF this, of block] show ?thesis
      using V6 by (cases ip) (simp_all add: block_contains_def)
  qed
qed

lemma read_octets_four: "read_octets 4 s = read_octets (Suc (Suc (Suc (Suc 0)))) s"
  by (simp add: eval_nat_numeral)

section \<open>Numbers\<close>

text \<open>What a comparison means: \<open>low\<close> and \<open>high\<close> of a range \<open>a-b\<close>, or the number itself.\<close>

definition compares :: "op \<Rightarrow> nat \<Rightarrow> nat \<Rightarrow> nat \<Rightarrow> bool" where
  "compares o' low high n =
     (case o' of Gt \<Rightarrow> low < n | Ge \<Rightarrow> low \<le> n | Lt \<Rightarrow> n < low | Le \<Rightarrow> n \<le> low
      | _ \<Rightarrow> low \<le> n \<and> n \<le> high)"

text \<open>A number term compares as it is written, for every 64-bit value, except at the two ends:
  \<open>< 0\<close> is not empty (it matches 0), and \<open>> 2^64-1\<close> matches that one value.\<close>

lemma number_terms_compare:
  assumes "parse_number f s = Inr low" "CHR ''-'' \<notin> set s" "CHR ''*'' \<notin> set s"
    and "o' = Lt \<Longrightarrow> low \<noteq> 0" "o' = Gt \<Longrightarrow> low \<noteq> u64_max" "n \<le> u64_max"
  shows "\<exists>m. number_parse f o' s = Inr m \<and> number_matches m n = compares o' low low n"
proof -
  have "low \<le> u64_max"
    using assms(1) by (auto simp: parse_number_def u64_max_def parse_uint_def Let_def split: if_splits)
  with assms show ?thesis
    by (cases o') (auto simp: number_parse_def compares_def split_once_NoneI)
qed

text \<open>The comparison below zero is the defect at that end: a term \<open>bytes<0\<close> is accepted, and matches
  a flow of zero bytes, which is not below zero.\<close>

lemma below_zero_matches_zero:
  "number_parse F_Bytes Lt ''0'' = Inr (NumRange 0 0) \<and> number_matches (NumRange 0 0) 0 \<and> \<not> compares Lt 0 0 0"
  by (simp add: number_parse_def parse_number_def ok_or_def compares_def text_simps)

end
