(* ===== verification/FlowFilterText.thy ===== *)
theory FlowFilterText
  imports FlowFilterLaws
begin

text \<open>
  The text of a flow filter: what \<open>parse\<close> guarantees of its terms, \<open>Display\<close> and \<open>parse\<close> as
  inverses, where they are not, and the laws of combining filters.
\<close>

section \<open>What parsing guarantees\<close>

definition term_valid :: "filter_term \<Rightarrow> bool" where
  "term_valid t \<longleftrightarrow>
     term_new (t_side t) (t_field t) (t_op t) (t_values t) = Inr t \<and>
     (t_side t = Either \<or> sided (t_field t)) \<and>
     (t_op t \<in> {Eq, Ne} \<or> is_numeric (t_field t)) \<and>
     t_values t \<noteq> [] \<and> list_all (\<lambda>v. v \<noteq> [] \<and> CHR '','' \<notin> set v) (t_values t)"

lemma trim_end_matches_set: "set (trim_end_matches p s) \<subseteq> set s"
  unfolding trim_end_matches_def set_rev
  by (meson set_dropWhileD subsetI set_rev [THEN equalityD1, THEN subsetD])

lemma trim_matches_set: "set (trim_matches p s) \<subseteq> set s"
  unfolding trim_matches_def trim_start_matches_def
  using trim_end_matches_set by (fastforce dest: set_dropWhileD)

lemma trim_set: "set (trim s) \<subseteq> set s"
  unfolding trim_def trim_end_def trim_start_def
  using trim_end_matches_set by (fastforce dest: set_dropWhileD)

lemma read_values_plain: "v \<in> set (read_values s) \<Longrightarrow> v \<noteq> [] \<and> CHR '','' \<notin> set v"
  unfolding read_values_def
  using trim_matches_set trim_set by (fastforce dest: split_on_sound)

lemma term_new_fields:
  "term_new sd f o' vals = Inr t \<Longrightarrow>
     t_side t = sd \<and> t_field t = f \<and> t_op t = o' \<and> t_values t = vals"
  by (auto simp: term_new_def and_then_eq_Inr)

lemma term_new_valid:
  assumes "term_new sd f o' (read_values s) = Inr t" "read_values s \<noteq> []"
    and "sd = Either \<or> sided f" "o' \<in> {Eq, Ne} \<or> is_numeric f"
  shows "term_valid t"
proof -
  note fields = term_new_fields [OF assms(1)]
  have "list_all (\<lambda>v. v \<noteq> [] \<and> CHR '','' \<notin> set v) (read_values s)"
    using read_values_plain by (auto simp: list_all_iff)
  then show ?thesis
    using assms fields by (simp add: term_valid_def)
qed

lemma not_ordered: "o' \<notin> {Gt, Ge, Lt, Le} \<longleftrightarrow> o' \<in> {Eq, Ne}"
  by (cases o') simp_all

lemma parse_term_valid:
  assumes "parse_term s = Inr (Some t)"
  shows "term_valid t"
proof -
  from assms obtain ps where ps: "split_token s = Some ps"
    by (auto simp: parse_term_def split: option.splits)
  with assms obtain f where f: "field_parse (p_key ps) = Some f"
    by (auto simp: parse_term_def split: option.splits)
  let ?o = "if p_negated ps then (if p_op ps = Eq then Ne else Eq) else p_op ps"
  have guards: "p_side ps = Either \<or> sided f" "?o \<notin> {Gt, Ge, Lt, Le} \<or> is_numeric f"
      "read_values (p_value ps) \<noteq> []"
      "and_then (term_new (p_side ps) f ?o (read_values (p_value ps))) (\<lambda>t. Inr (Some t)) = Inr (Some t)"
    using assms unfolding parse_term_def ps f option.case Let_def
    by (auto split: if_splits)
  then have "term_new (p_side ps) f ?o (read_values (p_value ps)) = Inr t"
    by (auto simp: and_then_eq_Inr)
  then show ?thesis
    using guards unfolding not_ordered by (blast intro: term_new_valid)
qed

lemma parse_tokens_valid:
  assumes "parse_tokens ff toks = Inr ff'" "list_all term_valid (ff_terms ff)"
  shows "list_all term_valid (ff_terms ff')"
  using assms
  by (induction ff toks rule: parse_tokens.induct)
    (auto simp: Let_def dest: parse_term_valid split: sum.splits option.splits if_splits)

text \<open>Every term a filter text parses to is well formed: its matcher is the one built from its
  values, a side is only given to a field that has sides, an order only to a numeric field, and the
  values are not empty and contain no comma.\<close>

lemma parsed_terms_valid:
  assumes "filter_parse s = Inr ff"
  shows "list_all term_valid (ff_terms ff)"
  using assms parse_tokens_valid [of filter_default "tokens s" ff]
  by (simp add: filter_parse_def filter_default_def)

section \<open>Printing and parsing\<close>

abbreviation is_quote :: "char \<Rightarrow> bool" where
  "is_quote c \<equiv> c = CHR 0x22"

text \<open>How quotes open and close along a text; \<open>None\<close> where the tokenizer would cut it.\<close>

fun quote_run :: "bool \<Rightarrow> str \<Rightarrow> bool option" where
  "quote_run q [] = Some q"
| "quote_run q (c # s) =
     (if is_quote c then quote_run (\<not> q) s
      else if is_whitespace c \<and> \<not> q then None else quote_run q s)"

definition one_token :: "str \<Rightarrow> bool" where
  "one_token s \<longleftrightarrow> s \<noteq> [] \<and> quote_run False s = Some False"

lemma quote_run_append:
  "quote_run q (a @ b) = (case quote_run q a of None \<Rightarrow> None | Some q' \<Rightarrow> quote_run q' b)"
  by (induction q a rule: quote_run.induct) auto

lemma quote_run_plain:
  "list_all (\<lambda>c. \<not> is_whitespace c \<and> \<not> is_quote c) s \<Longrightarrow> quote_run q s = Some q"
  by (induction s) auto

lemma quote_run_quoted: "list_all (\<lambda>c. \<not> is_quote c) s \<Longrightarrow> quote_run True (s @ [CHR 0x22]) = Some False"
  by (induction s) auto

lemma not_quote_whitespace [simp]: "\<not> is_whitespace (CHR 0x22)"
  by (simp add: text_simps)

lemma token_scan_inside:
  "quote_run q s = Some q' \<Longrightarrow>
     \<exists>ix'. token_scan ix (Some (st, acc)) q (s @ rest) = token_scan ix' (Some (st, rev s @ acc)) q' rest"
proof (induction q s arbitrary: ix acc rule: quote_run.induct)
  case (2 q c s)
  then show ?case
    by (cases "is_quote c"; cases "is_whitespace c \<and> \<not> q") (auto simp: Let_def)
qed auto

lemma token_scan_one:
  assumes "one_token s"
  shows "\<exists>ix'. token_scan ix None q (s @ rest) = token_scan ix' (Some (ix, rev s)) False rest"
proof -
  from assms obtain c s' where s: "s = c # s'" "quote_run False (c # s') = Some False"
    by (cases s) (auto simp: one_token_def)
  then have "\<not> is_whitespace c" "quote_run (is_quote c) s' = Some False"
    by (auto split: if_splits)
  then show ?thesis
    using token_scan_inside [of "is_quote c" s' False "ix + length (utf8 c)" ix "[c]" rest] s(1)
    by (simp add: Let_def)
qed

lemma tokens_join:
  "list_all one_token ts \<Longrightarrow> map tok_text (token_scan ix None q (join '' '' ts)) = ts"
proof (induction "'' ''" ts arbitrary: ix q rule: join.induct)
  case (2 w)
  then show ?case
    using token_scan_one [of w ix q "[]"] by auto
next
  case (3 w v ws)
  obtain ix' where step: "token_scan ix None q (w @ '' '' @ join '' '' (v # ws)) =
      token_scan ix' (Some (ix, rev w)) False ('' '' @ join '' '' (v # ws))"
    using token_scan_one [of w ix q "'' '' @ join '' '' (v # ws)"] 3 by auto
  have "is_whitespace (CHR '' '')" by (simp add: text_simps)
  then show ?case
    using 3 step by (simp add: Let_def)
qed simp

lemma parse_tokens_terms:
  assumes "list_all2 (\<lambda>tok t. parse_term (tok_text tok) = Inr (Some t)) toks ts"
  shows "parse_tokens ff (toks @ rest) = parse_tokens (ff\<lparr>ff_terms := ff_terms ff @ ts\<rparr>) rest"
  using assms by (induction arbitrary: ff rule: list_all2_induct) simp_all

lemma parse_tokens_words:
  assumes "list_all2 (\<lambda>tok w. w \<noteq> [] \<and> parse_term (tok_text tok) = Inr None \<and>
      to_lowercase (trim_matches is_quote (tok_text tok)) = w) toks ws"
  shows "parse_tokens ff toks = Inr (ff\<lparr>ff_words := ff_words ff @ ws\<rparr>)"
  using assms by (induction arbitrary: ff rule: list_all2_induct) (simp_all add: Let_def)

section \<open>Printed terms\<close>

definition unquoted :: "str \<Rightarrow> bool" where
  "unquoted s \<longleftrightarrow> CHR 0x22 \<notin> set s"

lemma quote_cases:
  assumes "unquoted v"
  obtains "quote v = CHR 0x22 # v @ [CHR 0x22]"
  | "quote v = v" "v \<noteq> []" "list_all (\<lambda>c. \<not> is_whitespace c \<and> c \<noteq> CHR '','') v"
proof (cases "v = [] \<or> list_ex (\<lambda>c. is_whitespace c \<or> c = CHR '','' \<or> c = CHR 0x22) v")
  case True
  moreover have "filter (\<lambda>c. c \<noteq> CHR 0x22) v = v"
    using assms by (auto simp: unquoted_def filter_id_conv)
  ultimately show ?thesis using that(1) by (simp add: quote_def)
next
  case False
  then show ?thesis
    using that(2) by (auto simp: quote_def list_all_iff list_ex_iff)
qed

lemma quote_run_quote:
  assumes "unquoted v"
  shows "quote_run False (quote v) = Some False"
proof -
  have no_quote: "list_all (\<lambda>c. \<not> is_quote c) v"
    using assms by (auto simp: unquoted_def list_all_iff)
  show ?thesis
    using assms
  proof (cases v rule: quote_cases)
    case 1
    then show ?thesis using quote_run_quoted [OF no_quote] by simp
  next
    case 2
    with no_quote have "list_all (\<lambda>c. \<not> is_whitespace c \<and> \<not> is_quote c) v"
      by (simp add: list_all_iff)
    then show ?thesis unfolding 2(1) by (rule quote_run_plain)
  qed
qed

lemma quote_nonempty [simp]: "quote v \<noteq> []"
  by (auto simp: quote_def)

lemma trim_matches_quote:
  assumes "unquoted v" "v \<noteq> []"
  shows "trim_matches is_quote (quote v) = v"
  using assms(1)
proof (cases v rule: quote_cases)
  case 1
  have "dropWhile is_quote (v @ [CHR 0x22]) = v @ [CHR 0x22]"
    using assms by (cases v) (auto simp: unquoted_def)
  moreover have "dropWhile is_quote (rev v) = rev v"
    using assms by (cases v rule: rev_cases) (auto simp: unquoted_def)
  ultimately show ?thesis
    using 1 by (simp add: trim_matches_def trim_start_matches_def trim_end_matches_def)
next
  case 2
  then show ?thesis using assms by (auto simp: unquoted_def intro!: trim_matches_none)
qed

lemma trim_quote: "unquoted v \<Longrightarrow> trim (quote v) = quote v"
  by (cases v rule: quote_cases) (auto simp: list_all_iff intro: trim_none, auto intro: trim_id)

lemma quote_no_comma: "unquoted v \<Longrightarrow> CHR '','' \<notin> set v \<Longrightarrow> CHR '','' \<notin> set (quote v)"
  by (auto simp: quote_def)

lemma read_values_quoted:
  assumes "list_all (\<lambda>v. v \<noteq> [] \<and> CHR '','' \<notin> set v \<and> unquoted v) vs" "vs \<noteq> []"
  shows "read_values (join '','' (map quote vs)) = vs"
proof -
  have "split_on (\<lambda>c. c = CHR '','') (join '','' (map quote vs)) = map quote vs"
    using assms quote_no_comma by (intro split_on_join) (auto simp: list_all_iff)
  moreover have "map (\<lambda>v. trim_matches is_quote (trim v)) (map quote vs) = vs"
    using assms by (induction vs) (auto simp: trim_quote trim_matches_quote)
  moreover have "filter (\<lambda>v. v \<noteq> []) vs = vs"
    using assms by (auto simp: list_all_iff filter_id_conv)
  ultimately show ?thesis by (simp add: read_values_def del: map_map)
qed

lemma quote_run_values:
  "list_all unquoted vs \<Longrightarrow> quote_run False (join '','' (map quote vs)) = Some False"
proof (induction vs rule: induct_list012)
  case (3 v w vs)
  have "\<not> is_whitespace (CHR '','')" by (simp add: text_simps)
  with 3 show ?case by (simp add: quote_run_append quote_run_quote)
qed (simp_all add: quote_run_quote)

lemma head_chars:
  "list_all (\<lambda>c. is_key_char c \<and> \<not> is_op_char c) (side_text sd @ field_key f)"
proof -
  have "list_all (\<lambda>c. is_key_char c \<and> \<not> is_op_char c) (side_text sd)"
    by (cases sd) (simp_all add: is_key_char_def is_op_char_def text_simps)
  moreover have "list_all (\<lambda>c. is_key_char c \<and> \<not> is_op_char c) (field_key f)"
    by (cases f) (simp_all add: is_key_char_def is_op_char_def text_simps)
  ultimately show ?thesis by simp
qed

lemma key_char_plain: "is_key_char c \<Longrightarrow> \<not> is_whitespace c \<and> \<not> is_quote c"
  by (auto simp: is_key_char_def text_simps)

lemma op_chars: "list_all (\<lambda>c. \<not> is_whitespace c \<and> \<not> is_quote c) (op_text o')"
  by (cases o') (simp_all add: text_simps)

lemma field_key_nonempty [simp]: "field_key f \<noteq> []"
  by (cases f) simp_all

lemma read_side_text: "read_side (side_text sd @ field_key f) = (sd, field_key f)"
  by (cases sd; cases f) (simp_all add: read_side_def)

lemma field_parse_key: "field_parse (field_key f) = Some f"
  by (cases f) (simp_all add: field_parse_def text_simps)

lemma read_op_text:
  assumes "o' \<in> {Gt, Lt} \<Longrightarrow> \<not> starts_with ''='' val"
  shows "read_op (op_text o' @ val) = Some (o', val)"
proof -
  have "starts_with ''='' val \<longleftrightarrow> (\<exists>r. val = CHR ''='' # r)"
    by (auto simp: starts_with_iff)
  then show ?thesis
    using assms by (cases o'; cases val) (auto simp: read_op_def)
qed

lemma parse_number_head: "parse_number f (CHR ''='' # v) \<noteq> Inr n" if "list_all (\<lambda>c. \<not> is_whitespace c) v"
proof
  assume *: "parse_number f (CHR ''='' # v) = Inr n"
  have "\<not> is_whitespace (CHR ''='')" by (simp add: text_simps)
  then have "trim (CHR ''='' # v) = CHR ''='' # v"
    using that by (intro trim_none) (auto simp: list_all_iff)
  with * have "parse_uint 64 (CHR ''='' # v) = Some n"
    by (simp add: parse_number_def)
  moreover have "\<not> is_ascii_digit (CHR ''='')" by (simp add: text_simps)
  ultimately show False by (simp add: parse_uint_def Let_def split: if_splits)
qed

lemma ordered_value_head:
  assumes "term_valid t" "t_op t \<in> {Gt, Lt}" "list_all unquoted (t_values t)"
  shows "\<not> starts_with ''='' (join '','' (map quote (t_values t)))"
proof -
  from assms(1) obtain v vs where vs: "t_values t = v # vs"
    by (cases "t_values t") (auto simp: term_valid_def)
  have num: "is_numeric (t_field t)"
    using assms(1,2) by (auto simp: term_valid_def)
  from assms(1) obtain m where "matcher_build (t_field t) (t_op t) (v # vs) = Inr m"
    unfolding vs [symmetric] by (auto simp: term_valid_def term_new_def and_then_eq_Inr)
  with num obtain ns where "collect_results (map (number_parse (t_field t) (t_op t)) (v # vs)) = Inr ns"
    by (auto simp: matcher_build_def is_numeric_def and_then_eq_Inr simp del: list.map split: if_splits)
  then obtain nm where "number_parse (t_field t) (t_op t) v = Inr nm"
    unfolding collect_results_Inr by (cases ns) auto
  then obtain n where n: "parse_number (t_field t) v = Inr n"
    using assms(2) by (auto simp: number_parse_def and_then_eq_Inr)
  have uq: "unquoted v" using assms(3) vs by simp
  have "\<not> starts_with ''='' (quote v @ rest)" for rest
    using uq
  proof (cases v rule: quote_cases)
    case 2
    then obtain c w where w: "v = c # w" by (cases v) auto
    with 2(3) have "list_all (\<lambda>c. \<not> is_whitespace c) w" by (simp add: list_all_iff)
    with n w have "c \<noteq> CHR ''=''" using parse_number_head by metis
    moreover have "quote v = c # w" using 2(1) w by simp
    ultimately show ?thesis by simp
  qed simp
  moreover have "\<exists>rest. join '','' (map quote (t_values t)) = quote v @ rest"
    unfolding vs by (cases vs) auto
  ultimately show ?thesis by auto
qed

lemma split_token_text:
  assumes "term_valid t" "list_all unquoted (t_values t)"
  shows "split_token (term_text t) = Some \<lparr>p_negated = False, p_side = t_side t,
    p_key = field_key (t_field t), p_op = t_op t, p_value = join '','' (map quote (t_values t))\<rparr>"
proof -
  let ?head = "side_text (t_side t) @ field_key (t_field t)"
    and ?tail = "op_text (t_op t) @ join '','' (map quote (t_values t))"
  have tt: "term_text t = ?head @ ?tail" by (simp add: term_text_def)
  obtain h hs where h: "?head = h # hs" by (cases ?head) auto
  have chars: "list_all (\<lambda>c. is_key_char c \<and> \<not> is_op_char c) ?head" by (rule head_chars)
  then have "h \<noteq> CHR ''!''" unfolding h by (auto simp: is_op_char_def)
  then have bang: "strip_prefix ''!'' (term_text t) = None"
    unfolding tt h by simp
  obtain d ds where d: "op_text (t_op t) = d # ds" "is_op_char d"
    by (cases "t_op t") (auto simp: is_op_char_def)
  have take: "takeWhile (\<lambda>c. \<not> is_op_char c) (term_text t) = ?head"
    and drop: "dropWhile (\<lambda>c. \<not> is_op_char c) (term_text t) = ?tail"
    unfolding tt using chars d by (simp_all add: list_all_iff takeWhile_append dropWhile_append)
  have "list_all is_key_char ?head" "?head \<noteq> []" "?tail \<noteq> []"
    using chars d by (auto simp: list_all_iff)
  moreover have "read_op ?tail = Some (t_op t, join '','' (map quote (t_values t)))"
    using ordered_value_head [OF assms(1) _ assms(2)] by (intro read_op_text)
  ultimately show ?thesis
    unfolding split_token_def bang option.case prod.case Let_def take drop read_side_text
    by simp
qed

lemma parse_term_text:
  assumes "term_valid t" "list_all unquoted (t_values t)"
  shows "parse_term (term_text t) = Inr (Some t)"
proof -
  have vals: "read_values (join '','' (map quote (t_values t))) = t_values t"
    using assms by (intro read_values_quoted) (auto simp: term_valid_def list_all_iff)
  show ?thesis
    unfolding parse_term_def split_token_text [OF assms] option.case parts.simps field_parse_key
      Let_def vals
    using assms(1) not_ordered [of "t_op t"] by (auto simp: term_valid_def)
qed

lemma one_token_term: "list_all unquoted (t_values t) \<Longrightarrow> one_token (term_text t)"
proof -
  assume uq: "list_all unquoted (t_values t)"
  have "quote_run False (side_text (t_side t) @ field_key (t_field t)) = Some False"
    using head_chars by (intro quote_run_plain) (auto simp: list_all_iff key_char_plain)
  moreover have "quote_run False (op_text (t_op t)) = Some False"
    by (rule quote_run_plain [OF op_chars])
  ultimately have "quote_run False ((side_text (t_side t) @ field_key (t_field t)) @ op_text (t_op t) @
      join '','' (map quote (t_values t))) = Some False"
    by (simp only: quote_run_append [of False "side_text (t_side t) @ field_key (t_field t)"]
        quote_run_append [of False "op_text (t_op t)"] option.case quote_run_values [OF uq])
  then show ?thesis by (simp add: one_token_def term_text_def)
qed

lemma list_all2_map_eq:
  "map f xs = map g ys \<Longrightarrow> (\<And>x y. y \<in> set ys \<Longrightarrow> f x = g y \<Longrightarrow> P x y) \<Longrightarrow> list_all2 P xs ys"
proof (induction xs arbitrary: ys)
  case (Cons x xs)
  then obtain y ys' where ys: "ys = y # ys'" "f x = g y" "map f xs = map g ys'" by (cases ys) auto
  with Cons.prems(2) Cons.IH [of ys'] show ?case by simp
qed simp

definition word_plain :: "str \<Rightarrow> bool" where
  "word_plain w \<longleftrightarrow> w \<noteq> [] \<and> unquoted w \<and> to_lowercase w = w \<and> parse_term (quote w) = Inr None"

text \<open>C20: the canonical text is read back as the same filter: for terms as parsing makes them, whose
  values contain no quote, and free words in lower case that do not look like a term.\<close>

theorem canonical_parses_back:
  assumes "list_all term_valid (ff_terms ff)"
    and "list_all (\<lambda>t. list_all unquoted (t_values t)) (ff_terms ff)"
    and "list_all word_plain (ff_words ff)"
  shows "filter_parse (canonical ff) = Inr ff"
proof -
  let ?texts = "map term_text (ff_terms ff) @ map quote (ff_words ff)"
  let ?toks = "tokens (canonical ff)"
  have "list_all one_token ?texts"
    using assms one_token_term quote_run_quote
    by (auto simp: list_all_iff one_token_def word_plain_def)
  then have toks: "map tok_text ?toks = ?texts"
    by (simp add: tokens_def canonical_def filter_text_def tokens_join)
  let ?n = "length (ff_terms ff)"
  have split: "?toks = take ?n ?toks @ drop ?n ?toks" by simp
  have terms: "map tok_text (take ?n ?toks) = map term_text (ff_terms ff)"
    and words: "map tok_text (drop ?n ?toks) = map quote (ff_words ff)"
    using toks by (simp_all add: take_map [symmetric] drop_map [symmetric])
  have "list_all2 (\<lambda>tok t. parse_term (tok_text tok) = Inr (Some t)) (take ?n ?toks) (ff_terms ff)"
    using assms(1,2) by (intro list_all2_map_eq [OF terms]) (simp add: list_all_iff parse_term_text)
  from parse_tokens_terms [OF this]
  have "parse_tokens filter_default (take ?n ?toks @ drop ?n ?toks) =
      parse_tokens \<lparr>ff_terms = ff_terms ff, ff_words = []\<rparr> (drop ?n ?toks)"
    by (simp add: filter_default_def del: append_take_drop_id)
  moreover have "list_all2 (\<lambda>tok w. w \<noteq> [] \<and> parse_term (tok_text tok) = Inr None \<and>
      to_lowercase (trim_matches is_quote (tok_text tok)) = w) (drop ?n ?toks) (ff_words ff)"
    using assms(3)
    by (intro list_all2_map_eq [OF words]) (simp add: list_all_iff word_plain_def trim_matches_quote)
  from parse_tokens_words [OF this]
  have "parse_tokens \<lparr>ff_terms = ff_terms ff, ff_words = []\<rparr> (drop ?n ?toks) = Inr ff"
    by simp
  ultimately show ?thesis
    unfolding split [symmetric] filter_parse_def by simp
qed

theorem canonical_parses_back_witness:
  "filter_parse (canonical \<lparr>ff_terms = [\<lparr>t_side = Source, t_field = F_Label, t_op = Ne,
      t_values = [''app=a b''], t_matcher = M_Text [pattern_new ''app=a b'' False]\<rparr>], ff_words = [''web'']\<rparr>) =
    Inr \<lparr>ff_terms = [\<lparr>t_side = Source, t_field = F_Label, t_op = Ne,
      t_values = [''app=a b''], t_matcher = M_Text [pattern_new ''app=a b'' False]\<rparr>], ff_words = [''web'']\<rparr>"
  by (rule canonical_parses_back)
    (simp_all add: term_valid_def term_new_def matcher_build_def sided_def unquoted_def word_plain_def
      quote_def parse_term_def split_token_def is_op_char_def text_simps)

section \<open>Where the canonical text is not enough\<close>

text \<open>Two different filters can have the same canonical text, the key a flow stream is kept under: the
  quoted free word \<open>"ns=a"\<close> is a word when it is typed and is printed without its quotes, as the term.\<close>

lemma canonical_collision:
  "\<exists>ff gg. filter_parse (CHR 0x22 # ''ns=a'' @ [CHR 0x22]) = Inr ff \<and> filter_parse ''ns=a'' = Inr gg \<and>
    ff_terms ff = [] \<and> ff_words ff = [''ns=a''] \<and> length (ff_terms gg) = 1 \<and> ff_words gg = [] \<and>
    canonical ff = canonical gg"
  by (simp add: filter_parse_def filter_default_def tokens_def parse_term_def split_token_def
      is_op_char_def is_key_char_def read_op_def read_side_def field_parse_def read_values_def
      term_new_def matcher_build_def sided_def canonical_def filter_text_def term_text_def quote_def text_simps)

section \<open>Combining filters\<close>

lemma push_new_set: "set (push_new xs x) = insert x (set xs)"
  by (auto simp: push_new_def)

lemma foldl_push_new_set: "set (foldl push_new xs ys) = set xs \<union> set ys"
  by (induction ys arbitrary: xs) (auto simp: push_new_set)

lemma filter_matches_iff:
  "filter_matches ff fl \<longleftrightarrow>
     (\<forall>t \<in> set (ff_terms ff). term_matches t fl) \<and> (\<forall>w \<in> set (ff_words ff). contains w (haystack fl))"
  by (auto simp: filter_matches_def list_all_iff)

text \<open>The function \<open>and\<close> is conjunction; and a filter is the conjunction of the two parts \<open>split_verdicts\<close> makes,
  of which one is without verdict terms and the other has nothing else.\<close>

lemma filters_combine:
  "filter_matches (filter_and ff gg) fl = (filter_matches ff fl \<and> filter_matches gg fl) \<and>
   (case split_verdicts ff of (rest, verdicts) \<Rightarrow>
      filter_matches ff fl = (filter_matches rest fl \<and> filter_matches verdicts fl) \<and>
      list_all (\<lambda>t. t_field t \<noteq> F_Verdict) (ff_terms rest) \<and>
      list_all (\<lambda>t. t_field t = F_Verdict) (ff_terms verdicts))"
proof -
  have "filter_matches (filter_and ff gg) fl = (filter_matches ff fl \<and> filter_matches gg fl)"
    by (auto simp: filter_matches_iff filter_and_def foldl_push_new_set)
  moreover obtain rest verdicts where sv: "split_verdicts ff = (rest, verdicts)" by force
  then have "ff_terms rest = filter (\<lambda>t. t_field t \<noteq> F_Verdict) (ff_terms ff)"
      "ff_terms verdicts = filter (\<lambda>t. t_field t = F_Verdict) (ff_terms ff)"
      "ff_words rest = ff_words ff" "ff_words verdicts = []"
    by (auto simp: split_verdicts_def partition_filter_conv comp_def)
  ultimately show ?thesis
    using sv by (auto simp: filter_matches_iff list_all_iff)
qed

end
