(* ===== verification/FlowBuffer.thy ===== *)
theory FlowBuffer
  imports FlowFilter SeqWindow "HOL-Library.AList"
begin

text \<open>
  The ring buffer a flow stream fills (\<open>crates/kubyl_netflow_core/src/buffer.rs\<close>): bounded by count
  and age, numbered so that views keep stable references, with the number of held flows each
  completable value occurs in.  A hash map is an association list with distinct keys; a missing inner map is empty.
  Subtracting a duration from a timestamp is the \<open>jiff\<close> crate, a parameter.
\<close>

section \<open>The completable values of a flow\<close>

text \<open>The code pushes a pair unless its value is empty or it is there already.\<close>

definition add_key :: "(field \<times> str) list \<Rightarrow> field \<times> str \<Rightarrow> (field \<times> str) list" where
  "add_key out key = (if snd key \<noteq> [] \<and> key \<notin> set out then out @ [key] else out)"

definition endpoint_keys :: "endpoint \<Rightarrow> (field \<times> str) list" where
  "endpoint_keys e =
     (case ep_namespace e of Some ns \<Rightarrow> [(F_Namespace, ns)] | None \<Rightarrow> [])
     @ (case ep_pod e of Some p \<Rightarrow> [(F_Pod, p)] | None \<Rightarrow> [])
     @ (case ep_workload e of Some w \<Rightarrow> [(F_Workload, wl_name w)] | None \<Rightarrow> [])
     @ (case ep_ip e of Some ip \<Rightarrow> [(F_Ip, show_ip ip)] | None \<Rightarrow> [])
     @ (case ep_service e of Some svc \<Rightarrow> [(F_Service, svc)] | None \<Rightarrow> [])
     @ [(F_Kind, kind_label (ep_kind e))]"

definition l7_keys :: "l7 \<Rightarrow> (field \<times> str) list" where
  "l7_keys l = (F_Protocol, l7_protocol l) #
     (case dns_name_of l of Some q \<Rightarrow> [(F_Dns, q)] | None \<Rightarrow> [])"

definition policy_keys :: "policies \<Rightarrow> (field \<times> str) list" where
  "policy_keys ps =
     map (\<lambda>p. (F_Policy, policy_label p)) (policies_all ps)
     @ (if isolated ps then [(F_Policy, ''isolated'')] else [])
     @ (case reason ps of Some r \<Rightarrow> [(F_Reason, r)] | None \<Rightarrow> [])"

definition flow_keys :: "flow \<Rightarrow> (field \<times> str) list" where
  "flow_keys fl = foldl add_key []
     (endpoint_keys (fl_source fl) @ endpoint_keys (fl_destination fl)
      @ (case ep_port (fl_destination fl) of Some port \<Rightarrow> [(F_Port, show_nat port)] | None \<Rightarrow> [])
      @ [(F_Protocol, to_lowercase (protocol_label (fl_protocol fl)))]
      @ (case fl_l7 fl of Some l \<Rightarrow> l7_keys l | None \<Rightarrow> [])
      @ (case fl_direction fl of
           D_Ingress \<Rightarrow> [(F_Direction, ''ingress'')]
         | D_Egress \<Rightarrow> [(F_Direction, ''egress'')]
         | D_Unknown \<Rightarrow> [])
      @ [(F_Verdict, verdict_key (fl_verdict fl))]
      @ policy_keys (fl_policies fl)
      @ (case fl_node fl of Some n \<Rightarrow> [(F_Node, n)] | None \<Rightarrow> []))"

section \<open>Counting values\<close>

type_synonym seen = "field \<Rightarrow> (str \<times> nat) list"

definition seen_default :: seen where
  "seen_default = (\<lambda>_. [])"

definition seen_count :: "seen \<Rightarrow> field \<Rightarrow> str \<Rightarrow> nat" where
  "seen_count sn f v = unwrap_or (map_of (sn f) v) 0"

definition seen_add :: "flow \<Rightarrow> seen \<Rightarrow> seen" where
  "seen_add fl sn =
     foldl (\<lambda>sn (f, v). sn(f := AList.update v (seen_count sn f v + 1) (sn f))) sn (flow_keys fl)"

definition seen_drop :: "seen \<Rightarrow> field \<times> str \<Rightarrow> seen" where
  "seen_drop sn key =
     (case key of (f, v) \<Rightarrow>
        (case map_of (sn f) v of
           None \<Rightarrow> sn
         | Some n \<Rightarrow>
             if n - 1 = 0 then sn(f := AList.delete v (sn f))
             else sn(f := AList.update v (n - 1) (sn f))))"

definition seen_remove :: "flow \<Rightarrow> seen \<Rightarrow> seen" where
  "seen_remove fl sn = foldl seen_drop sn (flow_keys fl)"

definition max_values :: nat where "max_values = 2000"

text \<open>\<open>Seen::values\<close>: most seen first, then by text (two stable sorts), cut at \<open>max_values\<close>; selecting
  the first \<open>max_values\<close> in that order and sorting them afterwards is the same.\<close>

definition values_of :: "seen \<Rightarrow> field \<Rightarrow> (str \<times> nat) list" where
  "values_of sn f = take max_values (sort_key (\<lambda>e. - int (snd e)) (sort_key fst (sn f)))"

section \<open>The buffer\<close>

record flow_buffer =
  fb_flows :: "flow list"
  fb_first :: nat
  fb_max_flows :: nat
  fb_max_age :: nat
  fb_seen :: seen

definition buffer_new :: "nat \<Rightarrow> nat \<Rightarrow> flow_buffer" where
  "buffer_new max_flows max_age =
     \<lparr>fb_flows = [], fb_first = 0, fb_max_flows = max max_flows 100, fb_max_age = max_age,
      fb_seen = seen_default\<rparr>"

definition buffer_range :: "flow_buffer \<Rightarrow> nat \<times> nat" where
  "buffer_range b = (fb_first b, fb_first b + length (fb_flows b))"

definition buffer_clear :: "flow_buffer \<Rightarrow> flow_buffer" where
  "buffer_clear b = b\<lparr>fb_first := snd (buffer_range b), fb_flows := [], fb_seen := seen_default\<rparr>"

definition set_limits :: "nat \<Rightarrow> nat \<Rightarrow> flow_buffer \<Rightarrow> flow_buffer" where
  "set_limits max_flows max_age b = b\<lparr>fb_max_flows := max max_flows 100, fb_max_age := max_age\<rparr>"

definition pop_flow :: "flow_buffer \<Rightarrow> flow_buffer" where
  "pop_flow b =
     (case fb_flows b of
        [] \<Rightarrow> b
      | fl # rest \<Rightarrow>
          b\<lparr>fb_flows := rest, fb_seen := seen_remove fl (fb_seen b), fb_first := fb_first b + 1\<rparr>)"

lemma pop_flow_shorter: "fb_flows b \<noteq> [] \<Longrightarrow> length (fb_flows (pop_flow b)) < length (fb_flows b)"
  by (cases "fb_flows b") (simp_all add: pop_flow_def)

lemma pop_flow_max [simp]: "fb_max_flows (pop_flow b) = fb_max_flows b"
  by (simp add: pop_flow_def split: list.splits)

function pop_over :: "flow_buffer \<Rightarrow> flow_buffer" where
  "pop_over b = (if fb_max_flows b < length (fb_flows b) then pop_over (pop_flow b) else b)"
  by pat_completeness auto
termination
  by (relation "measure (\<lambda>b. length (fb_flows b))") (auto intro: pop_flow_shorter)

declare pop_over.simps [simp del]

definition append_flow :: "flow_buffer \<Rightarrow> flow \<Rightarrow> flow_buffer" where
  "append_flow b fl = b\<lparr>fb_seen := seen_add fl (fb_seen b), fb_flows := fb_flows b @ [fl]\<rparr>"

definition buffer_push :: "flow list \<Rightarrow> flow_buffer \<Rightarrow> flow_buffer \<times> nat \<times> nat" where
  "buffer_push flows b =
     (let start = snd (buffer_range b);
          b = pop_over (foldl append_flow b flows)
      in (b, max start (fb_first b), snd (buffer_range b)))"

function pop_older :: "int \<Rightarrow> flow_buffer \<Rightarrow> flow_buffer \<times> nat" where
  "pop_older cutoff b =
     (if fb_flows b \<noteq> [] \<and> fl_time (hd (fb_flows b)) < cutoff
      then (let (b', n) = pop_older cutoff (pop_flow b) in (b', n + 1))
      else (b, 0))"
  by pat_completeness auto
termination
  by (relation "measure (\<lambda>(_, b). length (fb_flows b))") (auto intro: pop_flow_shorter)

declare pop_older.simps [simp del]

text \<open>\<open>checked_sub\<close> is the timestamp arithmetic of \<open>jiff\<close>; the Unix epoch when it is out of range.\<close>

definition buffer_expire ::
  "(int \<Rightarrow> nat \<Rightarrow> int option) \<Rightarrow> int \<Rightarrow> flow_buffer \<Rightarrow> flow_buffer \<times> nat" where
  "buffer_expire checked_sub now b = pop_older (unwrap_or (checked_sub now (fb_max_age b)) 0) b"

definition buffer_get :: "flow_buffer \<Rightarrow> nat \<Rightarrow> flow option" where
  "buffer_get b s =
     (if s < fb_first b then None
      else (let index = s - fb_first b in
            if index < length (fb_flows b) then Some (fb_flows b ! index) else None))"

definition buffer_since :: "flow_buffer \<Rightarrow> nat \<Rightarrow> (nat \<times> flow) list" where
  "buffer_since b s =
     map (\<lambda>(i, fl). (fb_first b + i, fl)) (drop (s - fb_first b) (enumerate 0 (fb_flows b)))"

definition newest :: "flow_buffer \<Rightarrow> int option" where
  "newest b = (if fb_flows b = [] then None else Some (fl_time (last (fb_flows b))))"

record snapshot =
  sn_first :: nat
  sn_flows :: "flow list"

definition buffer_snapshot :: "flow_buffer \<Rightarrow> snapshot" where
  "buffer_snapshot b = \<lparr>sn_first = fb_first b, sn_flows = fb_flows b\<rparr>"

definition snapshot_iter :: "snapshot \<Rightarrow> (nat \<times> flow) list" where
  "snapshot_iter sn = map (\<lambda>(i, fl). (sn_first sn + i, fl)) (enumerate 0 (sn_flows sn))"

definition snapshot_end :: "snapshot \<Rightarrow> nat" where
  "snapshot_end sn = sn_first sn + length (sn_flows sn)"

section \<open>The counters\<close>

definition seen_inv :: "flow list \<Rightarrow> seen \<Rightarrow> bool" where
  "seen_inv flows sn \<longleftrightarrow>
     (\<forall>f. distinct (map fst (sn f))) \<and>
     (\<forall>f v. let n = length (filter (\<lambda>fl. (f, v) \<in> set (flow_keys fl)) flows)
            in map_of (sn f) v = (if n = 0 then None else Some n))"

lemma add_key_distinct: "distinct out \<Longrightarrow> distinct (add_key out k)"
  by (simp add: add_key_def)

lemma flow_keys_distinct: "distinct (flow_keys fl)"
proof -
  have folded: "distinct out \<Longrightarrow> distinct (foldl add_key out ks)" for out ks
    by (induction ks arbitrary: out) (simp_all add: add_key_distinct)
  show ?thesis unfolding flow_keys_def by (rule folded) simp
qed

lemma seen_add_keys:
  assumes "distinct ks" "\<forall>f. distinct (map fst (sn f))"
  shows "(\<forall>f. distinct (map fst (foldl (\<lambda>sn (f, v). sn(f := AList.update v (seen_count sn f v + 1) (sn f))) sn ks f))) \<and>
    (\<forall>f v. map_of (foldl (\<lambda>sn (f, v). sn(f := AList.update v (seen_count sn f v + 1) (sn f))) sn ks f) v =
      (if (f, v) \<in> set ks then Some (seen_count sn f v + 1) else map_of (sn f) v))"
  using assms
proof (induction ks arbitrary: sn)
  case (Cons k ks)
  obtain f v where k: "k = (f, v)" by force
  let ?sn = "sn(f := AList.update v (seen_count sn f v + 1) (sn f))"
  have d: "\<forall>f. distinct (map fst (?sn f))"
    using Cons.prems(2) by (simp add: distinct_update)
  have m: "map_of (?sn g) w = (if (g, w) = (f, v) then Some (seen_count sn f v + 1) else map_of (sn g) w)" for g w
    by (simp add: update_conv')
  then have c: "seen_count ?sn g w = (if (g, w) = (f, v) then seen_count sn f v + 1 else seen_count sn g w)" for g w
    by (simp add: seen_count_def unwrap_or_def)
  have ks: "distinct ks" "(f, v) \<notin> set ks" using Cons.prems(1) k by simp_all
  show ?case
    using Cons.IH [OF ks(1) d] ks(2)
    unfolding k foldl_Cons prod.case m c by (auto simp del: fun_upd_apply)
qed simp

lemma seen_drop_keys:
  assumes "distinct ks" "\<forall>f. distinct (map fst (sn f))"
  shows "(\<forall>f. distinct (map fst (foldl seen_drop sn ks f))) \<and>
    (\<forall>f v. map_of (foldl seen_drop sn ks f) v =
      (if (f, v) \<in> set ks then
         (case map_of (sn f) v of None \<Rightarrow> None | Some n \<Rightarrow> if n - 1 = 0 then None else Some (n - 1))
       else map_of (sn f) v))"
  using assms
proof (induction ks arbitrary: sn)
  case (Cons k ks)
  obtain f v where k: "k = (f, v)" by force
  have d: "\<forall>g. distinct (map fst (seen_drop sn k g))"
    using Cons.prems(2) k
    by (auto simp: seen_drop_def distinct_update distinct_delete split: option.splits)
  have m: "map_of (seen_drop sn k g) w =
      (if (g, w) = (f, v) then (case map_of (sn f) v of None \<Rightarrow> None | Some n \<Rightarrow> if n - 1 = 0 then None else Some (n - 1))
       else map_of (sn g) w)" for g w
    using k by (auto simp: seen_drop_def update_conv' delete_conv' split: option.splits)
  have "distinct ks" "(f, v) \<notin> set ks" using Cons.prems(1) k by simp_all
  then show ?case
    using Cons.IH [OF _ d] k m by simp
qed simp

lemma seen_inv_add:
  assumes "seen_inv flows sn"
  shows "seen_inv (flows @ [fl]) (seen_add fl sn)"
proof -
  have d: "\<forall>f. distinct (map fst (sn f))" using assms by (simp add: seen_inv_def)
  show ?thesis
    using seen_add_keys [OF flow_keys_distinct d, of fl] assms
    unfolding seen_inv_def seen_add_def [symmetric]
    by (auto simp: Let_def seen_count_def unwrap_or_def split: if_splits)
qed

lemma seen_inv_remove:
  assumes "seen_inv (fl # flows) sn"
  shows "seen_inv flows (seen_remove fl sn)"
proof -
  have d: "\<forall>f. distinct (map fst (sn f))" using assms by (simp add: seen_inv_def)
  show ?thesis
    using seen_drop_keys [OF flow_keys_distinct d, of fl] assms
    unfolding seen_inv_def seen_remove_def [symmetric]
    by (auto simp: Let_def split: if_splits)
qed

section \<open>The window\<close>

definition buffer_inv :: "flow_buffer \<Rightarrow> bool" where
  "buffer_inv b \<longleftrightarrow> seen_inv (fb_flows b) (fb_seen b)"

datatype buffer_op =
    Push "flow list" | Expire "int \<Rightarrow> nat \<Rightarrow> int option" int | Clear_Flows | Set_Limits nat nat

fun buffer_step :: "buffer_op \<Rightarrow> flow_buffer \<Rightarrow> flow_buffer" where
  "buffer_step (Push flows) b = fst (buffer_push flows b)"
| "buffer_step (Expire checked_sub now) b = fst (buffer_expire checked_sub now b)"
| "buffer_step Clear_Flows b = buffer_clear b"
| "buffer_step (Set_Limits n age) b = set_limits n age b"

lemma pop_flow_fields:
  "fb_flows b \<noteq> [] \<Longrightarrow> fb_flows (pop_flow b) = tl (fb_flows b) \<and> fb_first (pop_flow b) = Suc (fb_first b)"
  by (cases "fb_flows b") (simp_all add: pop_flow_def)

lemma pop_flow_inv: "buffer_inv b \<Longrightarrow> buffer_inv (pop_flow b)"
  by (auto simp: buffer_inv_def pop_flow_def seen_inv_remove split: list.splits)

lemma pop_over_spec:
  "buffer_inv b \<Longrightarrow> buffer_inv (pop_over b) \<and>
     (let k = length (fb_flows b) - fb_max_flows b
      in fb_flows (pop_over b) = drop k (fb_flows b) \<and> fb_first (pop_over b) = fb_first b + k \<and>
         fb_max_flows (pop_over b) = fb_max_flows b)"
proof (induction b rule: pop_over.induct)
  case (1 b)
  show ?case
  proof (cases "fb_max_flows b < length (fb_flows b)")
    case True
    then have ne: "fb_flows b \<noteq> []" by auto
    have k: "length (fb_flows b) - fb_max_flows b = Suc (length (tl (fb_flows b)) - fb_max_flows b)"
      using True by (cases "fb_flows b") auto
    show ?thesis
      using 1(1) [OF True pop_flow_inv [OF 1(2)]] True pop_flow_fields [OF ne]
      unfolding pop_over.simps [of b] k by (simp add: Let_def drop_Suc)
  next
    case False
    then show ?thesis using 1 by (simp add: pop_over.simps [of b])
  qed
qed

lemma pop_older_spec:
  "buffer_inv b \<Longrightarrow> buffer_inv (fst (pop_older cutoff b)) \<and>
     (let k = length (takeWhile (\<lambda>fl. fl_time fl < cutoff) (fb_flows b))
      in fb_flows (fst (pop_older cutoff b)) = drop k (fb_flows b) \<and>
         fb_first (fst (pop_older cutoff b)) = fb_first b + k \<and> snd (pop_older cutoff b) = k)"
proof (induction cutoff b rule: pop_older.induct)
  case (1 cutoff b)
  show ?case
  proof (cases "fb_flows b \<noteq> [] \<and> fl_time (hd (fb_flows b)) < cutoff")
    case True
    then have ne: "fb_flows b \<noteq> []" by auto
    have k: "takeWhile (\<lambda>fl. fl_time fl < cutoff) (fb_flows b) =
        hd (fb_flows b) # takeWhile (\<lambda>fl. fl_time fl < cutoff) (tl (fb_flows b))"
      using True by (cases "fb_flows b") auto
    show ?thesis
      using 1(1) [OF True pop_flow_inv [OF 1(2)]] True pop_flow_fields [OF ne]
      unfolding pop_older.simps [of cutoff b] k
      by (simp add: Let_def drop_Suc split_beta)
  next
    case False
    then have "takeWhile (\<lambda>fl. fl_time fl < cutoff) (fb_flows b) = []"
      by (cases "fb_flows b") auto
    then show ?thesis
      using 1(2) unfolding pop_older.simps [of cutoff b] if_not_P [OF False] by simp
  qed
qed

lemma append_flows_spec:
  "buffer_inv b \<Longrightarrow> buffer_inv (foldl append_flow b fls) \<and>
     fb_flows (foldl append_flow b fls) = fb_flows b @ fls \<and>
     fb_first (foldl append_flow b fls) = fb_first b \<and>
     fb_max_flows (foldl append_flow b fls) = fb_max_flows b"
proof (induction fls arbitrary: b)
  case (Cons fl fls)
  have "buffer_inv (append_flow b fl)"
    using Cons.prems by (simp add: buffer_inv_def append_flow_def seen_inv_add)
  from Cons.IH [OF this] show ?case by (simp add: append_flow_def)
qed simp

lemma push_spec:
  fixes fls :: "flow list"
  assumes "buffer_inv b"
  defines "k \<equiv> length (fb_flows b @ fls) - fb_max_flows b"
  shows "buffer_inv (fst (buffer_push fls b))"
    and "fb_flows (fst (buffer_push fls b)) = drop k (fb_flows b @ fls)"
    and "fb_first (fst (buffer_push fls b)) = fb_first b + k"
    and "fb_max_flows (fst (buffer_push fls b)) = fb_max_flows b"
  using pop_over_spec [OF append_flows_spec [OF assms(1), THEN conjunct1], of fls]
    append_flows_spec [OF assms(1), of fls]
  by (simp_all add: buffer_push_def k_def Let_def)

lemma push_range:
  "snd (buffer_push fls b) =
     (max (snd (buffer_range b)) (fb_first (fst (buffer_push fls b))), snd (buffer_range (fst (buffer_push fls b))))"
  by (simp add: buffer_push_def Let_def)

lemma seen_inv_empty: "seen_inv [] seen_default"
  by (simp add: seen_inv_def seen_default_def)

lemma buffer_step_inv: "buffer_inv b \<Longrightarrow> buffer_inv (buffer_step x b)"
proof (cases x)
  case Clear_Flows
  then show ?thesis by (simp add: buffer_inv_def buffer_clear_def seen_inv_empty)
next
  case (Set_Limits n age)
  then show "buffer_inv b \<Longrightarrow> ?thesis" by (simp add: buffer_inv_def set_limits_def)
qed (auto simp: push_spec(1) buffer_expire_def dest: pop_older_spec)

lemma buffer_step_slides:
  assumes "buffer_inv b"
  shows "\<exists>new k. k \<le> length (fb_flows b @ new) \<and>
    fb_flows (buffer_step x b) = drop k (fb_flows b @ new) \<and> fb_first (buffer_step x b) = fb_first b + k"
proof (cases x)
  case (Push fls)
  then show ?thesis
    using push_spec [OF assms, of fls]
    by (intro exI [of _ fls] exI [of _ "length (fb_flows b @ fls) - fb_max_flows b"]) simp
next
  case (Expire sub now)
  let ?c = "unwrap_or (sub now (fb_max_age b)) 0"
  show ?thesis
    using Expire pop_older_spec [OF assms, of ?c]
    by (intro exI [of _ "[]"] exI [of _ "length (takeWhile (\<lambda>fl. fl_time fl < ?c) (fb_flows b))"])
      (simp add: buffer_expire_def Let_def length_takeWhile_le)
next
  case Clear_Flows
  then show ?thesis
    by (intro exI [of _ "[]"] exI [of _ "length (fb_flows b)"]) (simp add: buffer_clear_def buffer_range_def)
next
  case (Set_Limits n age)
  then show ?thesis
    by (intro exI [of _ "[]"] exI [of _ 0]) (simp add: set_limits_def)
qed

lemma buffer_get_window: "buffer_get b s = window_at (fb_first b) (fb_flows b) s"
  by (auto simp: buffer_get_def window_at_def Let_def)

interpretation flow_win: seq_window fb_first fb_flows buffer_get buffer_inv buffer_step "\<lambda>_. True"
  by unfold_locales (erule buffer_step_inv buffer_step_slides | rule buffer_get_window)+

lemma buffer_run_inv: "buffer_inv (fold buffer_step ops (buffer_new n age))"
proof -
  have "buffer_inv (buffer_new n age)"
    by (simp add: buffer_inv_def buffer_new_def seen_inv_empty)
  then show ?thesis
    using flow_win.run_inv [of "buffer_new n age" ops] by (simp add: flow_win.run_def list_all_iff)
qed

section \<open>Properties\<close>

text \<open>C21: whatever is pushed, expired, cleared or resized, the counter of a completable value is exactly
  the number of held flows it occurs in, and a value no held flow has is not offered.\<close>

theorem seen_counts_exact:
  "map_of (fb_seen (fold buffer_step ops (buffer_new n age)) f) v =
     (let held = length (filter (\<lambda>fl. (f, v) \<in> set (flow_keys fl))
                   (fb_flows (fold buffer_step ops (buffer_new n age))))
      in if held = 0 then None else Some held)"
  using buffer_run_inv [of ops n age] by (simp add: buffer_inv_def seen_inv_def)

text \<open>Pushing answers the numbers of exactly those new flows that are still held, in order: reading
  the buffer over the answered range gives the last of the pushed flows, as many as fit.\<close>

lemma push_answers_new_flows:
  fixes ops :: "buffer_op list" and fls :: "flow list" and n age :: nat
  defines "b \<equiv> fold buffer_step ops (buffer_new n age)"
  defines "kept \<equiv> min (length fls) (fb_max_flows b)"
  shows "case buffer_push fls b of (b', low, high) \<Rightarrow>
    high - low = kept \<and> length (fb_flows b') \<le> fb_max_flows b \<and>
    map (buffer_get b') [low ..< high] = map Some (drop (length fls - kept) fls)"
proof -
  let ?b' = "fst (buffer_push fls b)" and ?low = "fst (snd (buffer_push fls b))"
    and ?high = "snd (snd (buffer_push fls b))" and ?n = "length (fb_flows b)"
  let ?k = "?n + length fls - fb_max_flows b"
  have inv: "buffer_inv b" by (simp add: b_def buffer_run_inv)
  note spec = push_spec [OF inv, of fls]
  have low: "?low = max (fb_first b + ?n) (fb_first b + ?k)"
    using spec(3) by (simp add: push_range buffer_range_def)
  have high: "?high = fb_first b + ?k + (?n + length fls - ?k)"
    using spec(2,3) by (simp add: push_range buffer_range_def)
  have len: "?high - ?low = kept"
    unfolding low high kept_def by linarith
  have read: "buffer_get ?b' (?low + i) = Some (drop (length fls - kept) fls ! i)" if "i < kept" for i
  proof -
    have len: "length (fb_flows ?b') = ?n + length fls - ?k"
      using spec(2) by (simp del: drop_append)
    have i: "?low + i - fb_first ?b' + ?k = ?n + (length fls - kept + i)"
      "?low + i - fb_first ?b' < length (fb_flows ?b')" "fb_first ?b' \<le> ?low + i"
      "length fls - kept + i < length fls"
      using that spec(3) unfolding low len kept_def max_def by (auto split: if_splits)
    have "fb_flows ?b' ! (?low + i - fb_first ?b') = (fb_flows b @ fls) ! (?k + (?low + i - fb_first ?b'))"
      unfolding spec(2) length_append using len i(1,4) by (intro nth_drop) simp
    also have "\<dots> = fls ! (length fls - kept + i)"
      using i(1) by (simp add: add.commute [of ?k] nth_append)
    finally show ?thesis
      using i by (simp add: buffer_get_window window_at_def)
  qed
  have "map (buffer_get ?b') [?low ..< ?high] = map Some (drop (length fls - kept) fls)"
  proof (rule nth_equalityI)
    show "length (map (buffer_get ?b') [?low ..< ?high]) = length (map Some (drop (length fls - kept) fls))"
      using len by (simp add: kept_def)
  next
    fix i assume "i < length (map (buffer_get ?b') [?low ..< ?high])"
    then have "i < kept" "?low + i < ?high" using len by auto
    then show "map (buffer_get ?b') [?low ..< ?high] ! i = map Some (drop (length fls - kept) fls) ! i"
      using read by (simp add: kept_def)
  qed
  moreover have "length (fb_flows ?b') \<le> fb_max_flows b"
    using spec(2) by simp
  ultimately show ?thesis
    using len by (simp add: case_prod_beta)
qed

text \<open>A number handed out keeps naming its flow until the flow has fallen out, and names nothing
  afterwards, whatever happens to the buffer.\<close>

lemma flow_numbers_stable:
  assumes "buffer_get (fold buffer_step ops (buffer_new n age)) s = Some fl"
  shows "buffer_get (fold buffer_step (ops @ later) (buffer_new n age)) s =
    (if fb_first (fold buffer_step (ops @ later) (buffer_new n age)) \<le> s then Some fl else None)"
  using flow_win.stable [OF buffer_run_inv _ assms, of later]
  by (simp add: flow_win.run_def list_all_iff)

lemma two_pass_sorted:
  fixes xs :: "(str \<times> nat) list"
  assumes "distinct (map fst xs)"
  defines "s \<equiv> sort_key (\<lambda>e. - int (snd e)) (sort_key fst xs)"
  shows "sorted_wrt (\<lambda>x y. snd y < snd x \<or> (snd x = snd y \<and> fst x < fst y)) s"
  unfolding sorted_wrt_iff_nth_less
proof (intro allI impI)
  fix i j assume ij: "i < j" "j < length s"
  have "sorted (map (\<lambda>e. - int (snd e)) s)" by (simp add: s_def)
  then have le: "snd (s ! j) \<le> snd (s ! i)"
    using ij by (fastforce simp: sorted_iff_nth_mono)
  have "distinct (map fst s)"
    using assms by (simp add: s_def distinct_map)
  then have neq: "fst (s ! i) \<noteq> fst (s ! j)"
    using ij by (auto simp: distinct_conv_nth)
  show "snd (s ! j) < snd (s ! i) \<or> (snd (s ! i) = snd (s ! j) \<and> fst (s ! i) < fst (s ! j))"
  proof (cases "snd (s ! i) = snd (s ! j)")
    case True
    let ?P = "\<lambda>e. - int (snd e) = - int (snd (s ! i))"
    have "filter ?P s = filter ?P (sort_key fst xs)"
      unfolding s_def by (rule sort_key_stable)
    moreover have "sorted_wrt (\<lambda>x y. fst x \<le> fst y) (filter ?P (sort_key fst xs))"
      using sorted_sort_key [of fst xs] by (simp only: sorted_map sorted_wrt_filter)
    ultimately have "sorted_wrt (\<lambda>x y. fst x \<le> fst y) (filter ?P (take j s) @ filter ?P (drop j s))"
      by (simp only: append_take_drop_id filter_append [symmetric])
    moreover have "s ! i \<in> set (filter ?P (take j s))"
    proof -
      have "take j s ! i \<in> set (take j s)" using ij by (intro nth_mem) simp
      then show ?thesis using ij by simp
    qed
    moreover have "s ! j \<in> set (filter ?P (drop j s))"
      using ij True by (simp add: Cons_nth_drop_Suc [symmetric])
    ultimately have "fst (s ! i) \<le> fst (s ! j)"
      unfolding sorted_wrt_append by blast
    with neq True show ?thesis by simp
  qed (use le in simp)
qed

text \<open>Completion offers the most seen values first, those seen equally often in the order of their
  texts, and no value twice.\<close>

lemma values_ranked:
  fixes ops :: "buffer_op list" and n age :: nat and f :: field
  defines "vs \<equiv> values_of (fb_seen (fold buffer_step ops (buffer_new n age))) f"
  shows "sorted_wrt (\<lambda>x y. snd y < snd x \<or> (snd x = snd y \<and> fst x < fst y)) vs \<and> length vs \<le> 2000"
proof -
  have "distinct (map fst (fb_seen (fold buffer_step ops (buffer_new n age)) f))"
    using buffer_run_inv [of ops n age] by (simp add: buffer_inv_def seen_inv_def)
  from two_pass_sorted [OF this] show ?thesis
    by (simp add: vs_def values_of_def max_values_def sorted_wrt_take)
qed

end
