(* ===== verification/Discovery.thy ===== *)
theory Discovery
  imports BaseTypes
begin

text \<open>
  What a cluster serves (\<open>crates/kubyl_kube_core/src/discovery.rs\<close>): the resource types found by
  aggregated or legacy discovery, which version of each is preferred, and how a name the user or an
  agent typed is resolved.  The answers of the API server are arguments.
\<close>

section \<open>Resource types\<close>

record gvk =
  gk_group :: str
  gk_version :: str
  gk_kind :: str

definition api_version :: "str \<Rightarrow> str \<Rightarrow> str" where
  "api_version grp version = (if grp = [] then version else grp @ ''/'' @ version)"

definition gvk_api_version :: "gvk \<Rightarrow> str" where
  "gvk_api_version g = api_version (gk_group g) (gk_version g)"

definition show_gvr :: "gvr \<Rightarrow> str" where
  "show_gvr g = (if gvr_group g = [] then gvr_resource g else gvr_resource g @ ''.'' @ gvr_group g)"

record api_resource_info =
  ar_gvk :: gvk
  ar_gvr :: gvr
  ar_singular :: str
  ar_namespaced :: bool
  ar_verbs :: "str list"
  ar_short_names :: "str list"
  ar_categories :: "str list"
  ar_subresources :: "str list"
  ar_preferred :: bool

definition supports :: "api_resource_info \<Rightarrow> str \<Rightarrow> bool" where
  "supports r verb \<longleftrightarrow> verb \<in> set (ar_verbs r)"

definition is_listable :: "api_resource_info \<Rightarrow> bool" where
  "is_listable r \<longleftrightarrow> supports r ''list'' \<and> supports r ''watch''"

record api_group_info =
  ag_name :: str
  ag_versions :: "str list"

definition preferred_version :: "api_group_info \<Rightarrow> str option" where
  "preferred_version g = (case ag_versions g of [] \<Rightarrow> None | v # _ \<Rightarrow> Some v)"

record discovery =
  di_groups :: "api_group_info list"
  di_resources :: "api_resource_info list"
  di_aggregated :: bool

definition discovery_default :: discovery where
  "discovery_default = \<lparr>di_groups = [], di_resources = [], di_aggregated = False\<rparr>"

section \<open>Looking up\<close>

definition has_group :: "discovery \<Rightarrow> str \<Rightarrow> bool" where
  "has_group d grp = list_ex (\<lambda>g. ag_name g = grp) (di_groups d)"

definition preferred :: "discovery \<Rightarrow> api_resource_info list" where
  "preferred d = filter ar_preferred (di_resources d)"

definition kind_count :: "discovery \<Rightarrow> nat" where
  "kind_count d = length (preferred d)"

text \<open>\<open>Iterator::min_by_key\<close>: the first of the least.\<close>

fun first_least :: "('a \<Rightarrow> nat) \<Rightarrow> 'a list \<Rightarrow> 'a option" where
  "first_least key [] = None"
| "first_least key (x # xs) =
     (case first_least key xs of
        Some y \<Rightarrow> if key y < key x then Some y else Some x
      | None \<Rightarrow> Some x)"

definition name_matches :: "str \<Rightarrow> str option \<Rightarrow> api_resource_info \<Rightarrow> bool" where
  "name_matches name grp r \<longleftrightarrow>
     (case grp of None \<Rightarrow> True | Some g \<Rightarrow> gvr_group (ar_gvr r) = g) \<and>
     (gvr_resource (ar_gvr r) = name \<or> ar_singular r = name \<or> name \<in> set (ar_short_names r) \<or>
      to_lowercase (gk_kind (ar_gvk r)) = name)"

text \<open>The key of the choice: the core group, then groups without a dot, then the rest.\<close>

definition group_rank :: "api_resource_info \<Rightarrow> nat" where
  "group_rank r =
     (let grp = gvr_group (ar_gvr r)
      in (if grp \<noteq> [] then 2 else 0) + (if CHR ''.'' \<in> set grp then 1 else 0))"

definition typed_name :: "str \<Rightarrow> str \<times> str option" where
  "typed_name name =
     (let lower = to_lowercase name
      in case split_once (CHR ''.'') lower of
           Some (name, grp) \<Rightarrow> (name, Some grp)
         | None \<Rightarrow> (lower, None))"

definition resolve :: "discovery \<Rightarrow> str \<Rightarrow> api_resource_info option" where
  "resolve d name =
     (let (name, grp) = typed_name name
      in first_least group_rank (filter (name_matches name grp) (preferred d)))"

definition by_gvk :: "discovery \<Rightarrow> gvk \<Rightarrow> api_resource_info option" where
  "by_gvk d g = find (\<lambda>r. ar_gvk r = g) (di_resources d)"

definition by_gvr :: "discovery \<Rightarrow> gvr \<Rightarrow> api_resource_info option" where
  "by_gvr d g = find (\<lambda>r. ar_gvr r = g) (di_resources d)"

definition serves_crd :: "discovery \<Rightarrow> str \<Rightarrow> bool" where
  "serves_crd d name =
     (case split_once (CHR ''.'') name of
        None \<Rightarrow> False
      | Some (plural, grp) \<Rightarrow>
          list_ex (\<lambda>r. gvr_resource (ar_gvr r) = plural \<and> gvr_group (ar_gvr r) = grp) (di_resources d))"

section \<open>Preferred versions\<close>

text \<open>\<open>mark_preferred\<close>: the first entry of each group and plural, with the ones seen.\<close>

definition group_plural :: "api_resource_info \<Rightarrow> str \<times> str" where
  "group_plural r = (gvr_group (ar_gvr r), gvr_resource (ar_gvr r))"

fun mark_seen :: "(str \<times> str) set \<Rightarrow> api_resource_info list \<Rightarrow> api_resource_info list" where
  "mark_seen seen [] = []"
| "mark_seen seen (r # rs) =
     r\<lparr>ar_preferred := group_plural r \<notin> seen\<rparr> # mark_seen (insert (group_plural r) seen) rs"

definition mark_preferred :: "api_resource_info list \<Rightarrow> api_resource_info list" where
  "mark_preferred rs = mark_seen {} rs"

section \<open>Aggregated discovery\<close>

record served_resource =
  sr_resource :: "str option"
  sr_kind :: "str option"
  sr_singular :: "str option"
  sr_scope :: "str option"
  sr_verbs :: "str list"
  sr_short_names :: "str list"
  sr_categories :: "str list"
  sr_subresources :: "str option list"

record served_version =
  sv_version :: "str option"
  sv_resources :: "served_resource list"

record served_group =
  sg_name :: "str option"
  sg_versions :: "served_version list"

definition aggregated_resource :: "str \<Rightarrow> str \<Rightarrow> bool \<Rightarrow> served_resource \<Rightarrow> api_resource_info option" where
  "aggregated_resource name version_name is_first resource =
     (case sr_resource resource of
        None \<Rightarrow> None
      | Some plural \<Rightarrow>
          (let kind = unwrap_or (sr_kind resource) []
           in Some \<lparr>ar_gvk = \<lparr>gk_group = name, gk_version = version_name, gk_kind = kind\<rparr>,
                    ar_gvr = \<lparr>gvr_group = name, gvr_version = version_name, gvr_resource = plural\<rparr>,
                    ar_singular = (case sr_singular resource of
                        Some s \<Rightarrow> if s \<noteq> [] then s else to_lowercase kind
                      | None \<Rightarrow> to_lowercase kind),
                    ar_namespaced = (sr_scope resource = Some ''Namespaced''),
                    ar_verbs = sr_verbs resource, ar_short_names = sr_short_names resource,
                    ar_categories = sr_categories resource,
                    ar_subresources = List.map_filter (\<lambda>s. s) (sr_subresources resource),
                    ar_preferred = is_first\<rparr>))"

definition aggregated_version :: "str \<Rightarrow> nat \<times> served_version \<Rightarrow> api_resource_info list" where
  "aggregated_version name iv =
     (case sv_version (snd iv) of
        None \<Rightarrow> []
      | Some version_name \<Rightarrow>
          List.map_filter (aggregated_resource name version_name (fst iv = 0)) (sv_resources (snd iv)))"

definition add_aggregated :: "served_group list \<Rightarrow> discovery \<Rightarrow> discovery" where
  "add_aggregated items d =
     (let d = fold (\<lambda>grp d.
                (let name = unwrap_or (sg_name grp) []
                 in d\<lparr>di_resources := di_resources d @
                        concat (map (aggregated_version name) (List.enumerate 0 (sg_versions grp))),
                      di_groups := di_groups d @
                        [\<lparr>ag_name = name, ag_versions = List.map_filter sv_version (sg_versions grp)\<rparr>]\<rparr>)) items d
      in d\<lparr>di_resources := mark_preferred (di_resources d)\<rparr>)"

definition discover_aggregated :: "'e + served_group list \<Rightarrow> 'e + served_group list \<Rightarrow> 'e + discovery" where
  "discover_aggregated core groups =
     and_then core (\<lambda>core. and_then groups (\<lambda>groups.
       Inr (add_aggregated groups (add_aggregated core (discovery_default\<lparr>di_aggregated := True\<rparr>)))))"

section \<open>Legacy discovery\<close>

record legacy_group =
  lg_name :: str
  lg_preferred :: "str option"
  lg_versions :: "str list"

record legacy_resource =
  lr_name :: str
  lr_kind :: str
  lr_singular :: str
  lr_namespaced :: bool
  lr_verbs :: "str list"
  lr_short_names :: "str list option"
  lr_categories :: "str list option"

text \<open>The versions of a group with the preferred one first, and what to ask for: group, version, preferred.\<close>

definition group_order :: "legacy_group \<Rightarrow> str option \<times> str list" where
  "group_order g =
     (let pref = or_else (lg_preferred g) (case lg_versions g of [] \<Rightarrow> None | v # _ \<Rightarrow> Some v)
      in case pref of
           Some p \<Rightarrow> (pref, p # filter (\<lambda>v. v \<noteq> p) (lg_versions g))
         | None \<Rightarrow> (pref, lg_versions g))"

definition group_requests :: "legacy_group \<Rightarrow> (str \<times> str \<times> bool) list" where
  "group_requests g =
     (case group_order g of
        (pref, versions) \<Rightarrow> map (\<lambda>v. (lg_name g, v, Some v = pref)) versions)"

definition legacy_info :: "str \<Rightarrow> str \<Rightarrow> bool \<Rightarrow> legacy_resource \<Rightarrow> api_resource_info" where
  "legacy_info grp version pref r =
     \<lparr>ar_gvk = \<lparr>gk_group = grp, gk_version = version, gk_kind = lr_kind r\<rparr>,
      ar_gvr = \<lparr>gvr_group = grp, gvr_version = version, gvr_resource = lr_name r\<rparr>,
      ar_singular = (if lr_singular r = [] then to_lowercase (lr_kind r) else lr_singular r),
      ar_namespaced = lr_namespaced r, ar_verbs = lr_verbs r,
      ar_short_names = unwrap_or (lr_short_names r) [], ar_categories = unwrap_or (lr_categories r) [],
      ar_subresources = [], ar_preferred = pref\<rparr>"

text \<open>The subresources of each group, version and plural: \<open>pods/log\<close> is one of \<open>pods\<close>.\<close>

definition subresource_of :: "(str \<times> str \<times> bool \<times> legacy_resource list) \<Rightarrow> (gvr \<times> str) list" where
  "subresource_of entry =
     (case entry of (grp, version, _, resources) \<Rightarrow>
        List.map_filter (\<lambda>r. map_option
            (\<lambda>(parent, sub). (\<lparr>gvr_group = grp, gvr_version = version, gvr_resource = parent\<rparr>, sub))
            (split_once (CHR ''/'') (lr_name r))) resources)"

definition legacy_resources :: "(str \<times> str \<times> bool \<times> legacy_resource list) list \<Rightarrow> api_resource_info list" where
  "legacy_resources entries =
     (let subs = concat (map subresource_of entries);
          found = concat (map (\<lambda>(grp, version, pref, resources).
                    map (legacy_info grp version pref)
                      (filter (\<lambda>r. CHR ''/'' \<notin> set (lr_name r)) resources)) entries)
      in mark_preferred (map (\<lambda>r. case map snd (filter (\<lambda>s. fst s = ar_gvr r) subs) of
                                    [] \<Rightarrow> r
                                  | mine \<Rightarrow> r\<lparr>ar_subresources := mine\<rparr>) found))"

text \<open>The list of each group and version: one that fails is left out.\<close>

definition discover_legacy ::
  "'e + str list \<Rightarrow> 'e + legacy_group list \<Rightarrow> (str \<Rightarrow> str \<Rightarrow> 'e + legacy_resource list) \<Rightarrow> 'e + discovery" where
  "discover_legacy core groups list_resources =
     and_then core (\<lambda>core_versions. and_then groups (\<lambda>groups.
       (let asked = map (\<lambda>(i, v). ([], v, i = 0)) (List.enumerate 0 core_versions) @ concat (map group_requests groups);
            entries = List.map_filter (\<lambda>(grp, version, pref).
                        case list_resources grp version of
                          Inr resources \<Rightarrow> Some (grp, version, pref, resources)
                        | Inl _ \<Rightarrow> None) asked
        in Inr \<lparr>di_groups = \<lparr>ag_name = [], ag_versions = core_versions\<rparr>
                   # map (\<lambda>g. \<lparr>ag_name = lg_name g, ag_versions = snd (group_order g)\<rparr>) groups,
                di_resources = legacy_resources entries, di_aggregated = False\<rparr>)))"

definition discover :: "'e + discovery \<Rightarrow> 'e + discovery \<Rightarrow> 'e + discovery" where
  "discover aggregated legacy =
     (case aggregated of
        Inr d \<Rightarrow> if di_resources d \<noteq> [] then Inr d else legacy
      | Inl _ \<Rightarrow> legacy)"

section \<open>One preferred version of each resource\<close>

text \<open>Every group and plural that is served has exactly one preferred entry, the first.\<close>

definition one_preferred :: "api_resource_info list \<Rightarrow> bool" where
  "one_preferred rs \<longleftrightarrow>
     (\<forall>i < length rs. ar_preferred (rs ! i) \<longleftrightarrow> (\<forall>j < i. group_plural (rs ! j) \<noteq> group_plural (rs ! i)))"

lemma group_plural_mark [simp]: "group_plural (r\<lparr>ar_preferred := b\<rparr>) = group_plural r"
  by (simp add: group_plural_def)

lemma mark_seen_keys [simp]: "map group_plural (mark_seen seen rs) = map group_plural rs"
  by (induction rs arbitrary: seen) simp_all

lemma mark_seen_length [simp]: "length (mark_seen seen rs) = length rs"
  by (induction rs arbitrary: seen) simp_all

lemma mark_seen_nth:
  "i < length rs \<Longrightarrow>
     ar_preferred (mark_seen seen rs ! i) \<longleftrightarrow>
       group_plural (rs ! i) \<notin> seen \<and> (\<forall>j < i. group_plural (rs ! j) \<noteq> group_plural (rs ! i))"
proof (induction rs arbitrary: seen i)
  case (Cons r rs)
  then show ?case by (cases i) (auto simp: less_Suc_eq_0_disj)
qed simp

lemma mark_preferred_one: "one_preferred (mark_preferred rs)"
proof -
  have "group_plural (mark_seen {} rs ! i) = group_plural (rs ! i)" if "i < length rs" for i
    using that mark_seen_keys [of "{}" rs] by (metis mark_seen_length nth_map)
  then show ?thesis
    unfolding one_preferred_def mark_preferred_def by (auto simp: mark_seen_nth)
qed

text \<open>However a cluster is discovered, by aggregated or legacy discovery, each group and plural it
  serves has exactly one preferred entry, the first one in the order of the versions.\<close>

lemma discovery_prefers_one:
  "case discover (discover_aggregated core groups) (discover_legacy core' groups' list_resources) of
     Inr d \<Rightarrow> one_preferred (di_resources d)
   | Inl _ \<Rightarrow> True"
  by (auto simp: discover_def discover_aggregated_def discover_legacy_def add_aggregated_def legacy_resources_def
      Let_def and_then_eq_Inr mark_preferred_one split: sum.splits if_splits)

lemma first_least_spec:
  "case first_least key xs of
     None \<Rightarrow> xs = []
   | Some x \<Rightarrow> x \<in> set xs \<and> list_all (\<lambda>y. key x \<le> key y) xs"
  by (induction xs) (fastforce simp: list_all_iff split: option.splits if_splits)+

text \<open>A typed name resolves to a preferred resource that has it as its plural, singular, short name or
  kind (in the group, when it is named), and to one of the core group, or of a group without a dot,
  before any other; it resolves to nothing only if nothing preferred matches.\<close>

lemma resolve_best:
  "case typed_name name of (n, grp) \<Rightarrow>
     (case resolve d name of
        None \<Rightarrow> filter (name_matches n grp) (preferred d) = []
      | Some r \<Rightarrow> r \<in> set (di_resources d) \<and> ar_preferred r \<and> name_matches n grp r \<and>
          list_all (\<lambda>s. group_rank r \<le> group_rank s) (filter (name_matches n grp) (preferred d)))"
proof -
  obtain n grp where "typed_name name = (n, grp)" by fastforce
  with first_least_spec [where key = group_rank and xs = "filter (name_matches n grp) (preferred d)"] show ?thesis
    by (auto simp: resolve_def preferred_def split: option.splits)
qed

end
