(* ===== verification/Store.thy ===== *)
theory Store
  imports Discovery
begin

text \<open>
  The watch cache of one resource (\<open>crates/kubyl_resources_core/src/store.rs\<close>): its objects and
  status, the history of what applied batches touched, and \<open>pump\<close>, which turns watcher events
  into batches.  The Kubernetes client library (\<open>kube::runtime::watcher\<close>) delivers the events;
  serialising an object is \<open>serde\<close>, the parameter \<open>ser\<close>.
\<close>

section \<open>Keys and statuses\<close>

type_synonym object_key = str

definition make_object_key :: "str option \<Rightarrow> str \<Rightarrow> object_key" where
  "make_object_key namespace n =
     (case namespace of
        Some ns \<Rightarrow> if ns \<noteq> [] then ns @ ''/'' @ n else n
      | None \<Rightarrow> n)"

definition key_of :: "json \<Rightarrow> object_key" where
  "key_of obj =
     (let meta = jindex obj ''metadata''
      in make_object_key (as_str (jindex meta ''namespace'')) (unwrap_or (as_str (jindex meta ''name'')) []))"

datatype store_mode = Full | Metadata

record store_key =
  sk_cluster :: cluster_id
  sk_gvr :: gvr
  sk_namespace :: "str option"
  sk_label_selector :: "str option"
  sk_field_selector :: "str option"
  sk_mode :: store_mode

definition store_key_new :: "cluster_id \<Rightarrow> gvr \<Rightarrow> str option \<Rightarrow> store_key" where
  "store_key_new cluster g namespace =
     \<lparr>sk_cluster = cluster, sk_gvr = g, sk_namespace = namespace, sk_label_selector = None,
      sk_field_selector = None, sk_mode = Full\<rparr>"

definition key_metadata :: "store_key \<Rightarrow> store_key" where
  "key_metadata k = k\<lparr>sk_mode := Metadata\<rparr>"

definition key_labels :: "str \<Rightarrow> store_key \<Rightarrow> store_key" where
  "key_labels selector k = k\<lparr>sk_label_selector := (if selector \<noteq> [] then Some selector else None)\<rparr>"

definition key_fields :: "str \<Rightarrow> store_key \<Rightarrow> store_key" where
  "key_fields selector k = k\<lparr>sk_field_selector := (if selector \<noteq> [] then Some selector else None)\<rparr>"

datatype store_status =
    Waiting | Loading | Ready | Forbidden | Unsupported | StoreError str | Paused

definition is_ready :: "store_status \<Rightarrow> bool" where
  "is_ready s \<longleftrightarrow> s = Ready"

definition is_settled :: "store_status \<Rightarrow> bool" where
  "is_settled s \<longleftrightarrow> s \<noteq> Waiting \<and> s \<noteq> Loading"

definition history_batches :: nat where "history_batches = 256"
definition history_keys :: nat where "history_keys = 20000"

datatype touched = Keys "object_key set" | All

datatype change =
    Reset "(object_key \<times> json) list"
  | Upsert object_key json
  | Delete object_key
  | Status store_status

section \<open>The store\<close>

record store =
  st_key :: store_key
  st_objects :: "object_key \<Rightarrow> json option"
  st_status :: store_status
  st_generation :: nat
  st_history :: "(nat \<times> touched) list"
  st_running :: bool
  st_paused :: bool
  st_tasks :: bool

definition store_new :: "store_key \<Rightarrow> store" where
  "store_new k =
     \<lparr>st_key = k, st_objects = (\<lambda>_. None), st_status = Waiting, st_generation = 0, st_history = [],
      st_running = False, st_paused = False, st_tasks = False\<rparr>"

text \<open>Collecting pairs into a hash map: a later pair replaces an earlier one with its key.\<close>

definition collect_map :: "(object_key \<times> json) list \<Rightarrow> object_key \<Rightarrow> json option" where
  "collect_map kvs = map_of (rev kvs)"

definition from_objects :: "store_key \<Rightarrow> json list \<Rightarrow> store" where
  "from_objects k objs =
     (store_new k)\<lparr>st_objects := collect_map (map (\<lambda>obj. (key_of obj, obj)) objs), st_status := Ready\<rparr>"

definition set_generation :: "nat \<Rightarrow> store \<Rightarrow> store" where
  "set_generation g st = st\<lparr>st_generation := g, st_history := []\<rparr>"

fun merge_touched :: "object_key set \<Rightarrow> (nat \<times> touched) list \<Rightarrow> nat \<Rightarrow> touched" where
  "merge_touched ks [] g = Keys ks"
| "merge_touched ks ((after, t) # hist) g =
     (if after \<le> g then merge_touched ks hist g
      else (case t of All \<Rightarrow> All | Keys batch \<Rightarrow> merge_touched (ks \<union> batch) hist g))"

definition changes_since :: "nat \<Rightarrow> store \<Rightarrow> touched option" where
  "changes_since g st =
     (if st_generation st \<le> g then Some (Keys {})
      else (case st_history st of
              [] \<Rightarrow> None
            | (oldest, _) # _ \<Rightarrow>
                if g + 1 < oldest then None else Some (merge_touched {} (st_history st) g)))"

definition touched_size :: "touched \<Rightarrow> nat" where
  "touched_size t = (case t of All \<Rightarrow> 1 | Keys ks \<Rightarrow> max (card ks) 1)"

text \<open>Dropping the oldest entries while there are too many batches or keys, never the last one.\<close>

fun trim_history :: "(nat \<times> touched) list \<Rightarrow> nat \<Rightarrow> (nat \<times> touched) list" where
  "trim_history (oldest # newer # hist) held =
     (if history_batches < length (oldest # newer # hist) \<or> history_keys < held
      then trim_history (newer # hist) (held - touched_size (snd oldest))
      else oldest # newer # hist)"
| "trim_history hist held = hist"

definition bump :: "touched \<Rightarrow> store \<Rightarrow> store" where
  "bump t st =
     (let g = st_generation st + 1;
          hist = st_history st @ [(g, t)];
          held = sum_list (map (touched_size \<circ> snd) hist)
      in st\<lparr>st_generation := g, st_history := trim_history hist held\<rparr>)"

definition take_status :: "store_status \<Rightarrow> store \<Rightarrow> store" where
  "take_status s st =
     (let st = (if s = Forbidden \<or> s = Unsupported
                then st\<lparr>st_objects := (\<lambda>_. None), st_running := False\<rparr> else st)
      in st\<lparr>st_status := s\<rparr>)"

definition touch :: "object_key \<Rightarrow> touched \<Rightarrow> touched" where
  "touch k t = (case t of Keys ks \<Rightarrow> Keys (insert k ks) | All \<Rightarrow> All)"

fun apply_change :: "change \<Rightarrow> touched \<times> store \<Rightarrow> touched \<times> store" where
  "apply_change (Reset objs) (t, st) = (All, st\<lparr>st_objects := collect_map objs, st_status := Ready\<rparr>)"
| "apply_change (Upsert k obj) (t, st) = (touch k t, st\<lparr>st_objects := (st_objects st)(k \<mapsto> obj)\<rparr>)"
| "apply_change (Delete k) (t, st) = (touch k t, st\<lparr>st_objects := (st_objects st)(k := None)\<rparr>)"
| "apply_change (Status s) (t, st) = (All, take_status s st)"

definition apply_batch :: "change list \<Rightarrow> store \<Rightarrow> store" where
  "apply_batch changes st = (let (t, st) = fold apply_change changes (Keys {}, st) in bump t st)"

definition set_status_by_hand :: "store_status \<Rightarrow> store \<Rightarrow> store" where
  "set_status_by_hand s st = bump All (take_status s st)"

definition stop_store :: "store_status \<Rightarrow> store \<Rightarrow> store" where
  "stop_store s st =
     (let st = st\<lparr>st_tasks := False, st_running := False\<rparr>
      in if st_status st \<noteq> s then bump All (st\<lparr>st_status := s\<rparr>) else st)"

definition pause_store :: "store \<Rightarrow> store" where
  "pause_store st = stop_store Paused (st\<lparr>st_paused := True\<rparr>)"

definition resume_store :: "store \<Rightarrow> bool \<times> store" where
  "resume_store st =
     (if \<not> st_paused st then (False, st)
      else (True, bump All (st\<lparr>st_paused := False, st_status := Waiting\<rparr>)))"

definition retry_unsupported :: "store \<Rightarrow> store" where
  "retry_unsupported st = (if st_status st = Unsupported then st\<lparr>st_running := False\<rparr> else st)"

section \<open>Starting the watch\<close>

definition find_resource :: "api_resource_info list \<Rightarrow> gvr \<Rightarrow> api_resource_info option" where
  "find_resource resources g =
     (case or_else (find (\<lambda>r. ar_gvr r = g) resources)
             (find (\<lambda>r. ar_preferred r \<and> gvr_group (ar_gvr r) = gvr_group g \<and>
                        gvr_resource (ar_gvr r) = gvr_resource g) resources) of
        Some r \<Rightarrow> if is_listable r then Some r else None
      | None \<Rightarrow> None)"

text \<open>A connection: whether there is a client, and the discovered resources.\<close>

record connection =
  cn_client :: bool
  cn_discovery :: "api_resource_info list option"

definition ensure_running :: "connection \<Rightarrow> store \<Rightarrow> store" where
  "ensure_running conn st =
     (if st_paused st then st
      else if \<not> cn_client conn then (if st_running st then stop_store Waiting st else st)
      else if st_running st then st
      else (case cn_discovery conn of
              None \<Rightarrow> st
            | Some resources \<Rightarrow>
                (case find_resource resources (sk_gvr (st_key st)) of
                   None \<Rightarrow> stop_store Unsupported st
                 | Some _ \<Rightarrow>
                     bump All (st\<lparr>st_tasks := True, st_running := True, st_status := Loading\<rparr>))))"

section \<open>From watcher events to batches\<close>

text \<open>\<open>watcher::Event\<close> and \<open>watcher::Error\<close>; an API error carries its status code.\<close>

datatype 'k watch_event = Init | InitApply 'k | InitDone | Apply 'k | DeleteObj 'k

datatype watch_error =
    InitialListFailed "nat option" str
  | WatchStartFailed "nat option" str
  | WatchError nat str
  | OtherWatchError str

fun is_status :: "watch_error \<Rightarrow> nat \<Rightarrow> bool" where
  "is_status (InitialListFailed code _) c = (code = Some c)"
| "is_status (WatchStartFailed code _) c = (code = Some c)"
| "is_status (WatchError code _) c = (code = c)"
| "is_status (OtherWatchError _) c = False"

fun error_text :: "watch_error \<Rightarrow> str" where
  "error_text (InitialListFailed _ s) = s"
| "error_text (WatchStartFailed _ s) = s"
| "error_text (WatchError _ s) = s"
| "error_text (OtherWatchError s) = s"

fun drop_managed_fields :: "json \<Rightarrow> json" where
  "drop_managed_fields (JObj kvs) =
     JObj (map (\<lambda>(k, v). (k, if k = ''metadata''
        then (case v of JObj ms \<Rightarrow> JObj (filter (\<lambda>(m, _). m \<noteq> ''managedFields'') ms) | _ \<Rightarrow> v)
        else v)) kvs)"
| "drop_managed_fields v = v"

definition to_json :: "('k \<Rightarrow> json option) \<Rightarrow> 'k \<Rightarrow> json option" where
  "to_json ser obj = map_option drop_managed_fields (ser obj)"

text \<open>What \<open>pump\<close> needs of an object: how it serialises, its namespace and its name.\<close>

record 'k object_type =
  ot_ser :: "'k \<Rightarrow> json option"
  ot_namespace :: "'k \<Rightarrow> str option"
  ot_name :: "'k \<Rightarrow> str option"

definition meta_key :: "'k object_type \<Rightarrow> 'k \<Rightarrow> object_key" where
  "meta_key ty obj = make_object_key (ot_namespace ty obj) (unwrap_or (ot_name ty obj) [])"

record pump_state =
  pm_pending :: "change list"
  pm_initial :: "(object_key \<times> json) list"
  pm_failing :: bool

definition pump_new :: pump_state where
  "pump_new = \<lparr>pm_pending = [], pm_initial = [], pm_failing = False\<rparr>"

definition push_change :: "change \<Rightarrow> pump_state \<Rightarrow> pump_state" where
  "push_change c p = p\<lparr>pm_pending := pm_pending p @ [c]\<rparr>"

text \<open>One item of the stream; \<open>False\<close> when the task ends, having sent what is pending.\<close>

fun pump_event :: "'k object_type \<Rightarrow> 'k watch_event \<Rightarrow> pump_state \<Rightarrow> pump_state" where
  "pump_event ty Init p = p\<lparr>pm_initial := []\<rparr>"
| "pump_event ty (InitApply obj) p =
     (case to_json (ot_ser ty) obj of
        Some v \<Rightarrow> p\<lparr>pm_initial := pm_initial p @ [(meta_key ty obj, v)]\<rparr>
      | None \<Rightarrow> p)"
| "pump_event ty InitDone p = p\<lparr>pm_pending := [Reset (pm_initial p)], pm_initial := []\<rparr>"
| "pump_event ty (Apply obj) p =
     (case to_json (ot_ser ty) obj of
        Some v \<Rightarrow> push_change (Upsert (meta_key ty obj) v) p
      | None \<Rightarrow> p)"
| "pump_event ty (DeleteObj obj) p = push_change (Delete (meta_key ty obj)) p"

definition pump_item ::
  "'k object_type \<Rightarrow> watch_error + 'k watch_event \<Rightarrow> pump_state \<Rightarrow> bool \<times> pump_state" where
  "pump_item ty item p =
     (case item of
        Inr ev \<Rightarrow>
          (let p = (if pm_failing p then push_change (Status Ready) (p\<lparr>pm_failing := False\<rparr>) else p)
           in (True, pump_event ty ev p))
      | Inl err \<Rightarrow>
          if is_status err 403 then (False, push_change (Status Forbidden) p)
          else if is_status err 404 then (False, push_change (Status Unsupported) p)
          else if pm_failing p then (True, p)
          else (True, push_change (Status (StoreError (error_text err))) (p\<lparr>pm_failing := True\<rparr>)))"

text \<open>The items that arrive within one frame.  A frame that ends the task drops the rest.\<close>

fun pump_frame ::
  "'k object_type \<Rightarrow> (watch_error + 'k watch_event) list \<Rightarrow> pump_state \<Rightarrow> bool \<times> pump_state" where
  "pump_frame ty [] p = (True, p)"
| "pump_frame ty (item # items) p =
     (case pump_item ty item p of
        (True, p') \<Rightarrow> pump_frame ty items p'
      | (False, p') \<Rightarrow> (False, p'))"

text \<open>The batches sent for a stream cut into frames.\<close>

fun pump ::
  "'k object_type \<Rightarrow> (watch_error + 'k watch_event) list list \<Rightarrow> pump_state \<Rightarrow> change list list" where
  "pump ty [] p = []"
| "pump ty (frame # frames) p =
     (case pump_frame ty frame p of
        (False, p') \<Rightarrow> [pm_pending p']
      | (True, p') \<Rightarrow>
          (if pm_pending p' = [] then pump ty frames p'
           else pm_pending p' # pump ty frames (p'\<lparr>pm_pending := []\<rparr>)))"

section \<open>Batching does not matter\<close>

text \<open>What the batches decide: the objects, the status and whether the watch runs.\<close>

type_synonym view = "(object_key \<Rightarrow> json option) \<times> store_status \<times> bool"

definition store_view :: "store \<Rightarrow> view" where
  "store_view st = (st_objects st, st_status st, st_running st)"

fun view_change :: "change \<Rightarrow> view \<Rightarrow> view" where
  "view_change (Reset objs) (os, s, r) = (collect_map objs, Ready, r)"
| "view_change (Upsert k v) (os, s, r) = (os(k \<mapsto> v), s, r)"
| "view_change (Delete k) (os, s, r) = (os(k := None), s, r)"
| "view_change (Status s') (os, s, r) =
     (if s' = Forbidden \<or> s' = Unsupported then (\<lambda>_. None, s', False) else (os, s', r))"

lemma bump_fields [simp]:
  "st_objects (bump t st) = st_objects st" "st_status (bump t st) = st_status st"
  "st_running (bump t st) = st_running st" "st_generation (bump t st) = st_generation st + 1"
  "st_paused (bump t st) = st_paused st" "st_key (bump t st) = st_key st"
  by (simp_all add: bump_def Let_def)

lemma apply_change_view: "store_view (snd (apply_change c (t, st))) = view_change c (store_view st)"
  by (cases c) (simp_all add: store_view_def take_status_def Let_def)

lemma fold_apply_view: "store_view (snd (fold apply_change cs (t, st))) = fold view_change cs (store_view st)"
proof (induction cs arbitrary: t st)
  case (Cons c cs)
  obtain t' st' where step: "apply_change c (t, st) = (t', st')" by force
  then have "store_view st' = view_change c (store_view st)"
    using apply_change_view [of c t st] by simp
  with Cons step show ?case by simp
qed simp

lemma apply_batch_view: "store_view (apply_batch cs st) = fold view_change cs (store_view st)"
  using fold_apply_view [of cs "Keys {}" st]
  by (simp add: apply_batch_def case_prod_beta) (simp add: store_view_def)

text \<open>The reference: every event takes effect at once.  The state is the view, the objects of the list in
  progress and whether the watch is failing.\<close>

type_synonym live = "view \<times> (object_key \<times> json) list \<times> bool"

fun live_event :: "'k object_type \<Rightarrow> 'k watch_event \<Rightarrow> view \<times> (object_key \<times> json) list \<Rightarrow> live" where
  "live_event ty Init (v, initial) = (v, [], False)"
| "live_event ty (InitApply obj) (v, initial) =
     (case to_json (ot_ser ty) obj of
        Some j \<Rightarrow> (v, initial @ [(meta_key ty obj, j)], False) | None \<Rightarrow> (v, initial, False))"
| "live_event ty InitDone (v, initial) = (view_change (Reset initial) v, [], False)"
| "live_event ty (Apply obj) (v, initial) =
     (case to_json (ot_ser ty) obj of
        Some j \<Rightarrow> (view_change (Upsert (meta_key ty obj) j) v, initial, False) | None \<Rightarrow> (v, initial, False))"
| "live_event ty (DeleteObj obj) (v, initial) = (view_change (Delete (meta_key ty obj)) v, initial, False)"

definition live_item :: "'k object_type \<Rightarrow> watch_error + 'k watch_event \<Rightarrow> live \<Rightarrow> bool \<times> live" where
  "live_item ty item l =
     (case l of (v, initial, failing) \<Rightarrow>
        (case item of
           Inr ev \<Rightarrow> (True, live_event ty ev (if failing then view_change (Status Ready) v else v, initial))
         | Inl err \<Rightarrow>
             if is_status err 403 then (False, view_change (Status Forbidden) v, initial, failing)
             else if is_status err 404 then (False, view_change (Status Unsupported) v, initial, failing)
             else if failing then (True, v, initial, True)
             else (True, view_change (Status (StoreError (error_text err))) v, initial, True)))"

fun live_run :: "'k object_type \<Rightarrow> (watch_error + 'k watch_event) list \<Rightarrow> live \<Rightarrow> bool \<times> live" where
  "live_run ty [] l = (True, l)"
| "live_run ty (item # items) l =
     (case live_item ty item l of (True, l') \<Rightarrow> live_run ty items l' | (False, l') \<Rightarrow> (False, l'))"

text \<open>What is pending never tells that the watch ended, and so does not change whether it runs.\<close>

definition pending_ok :: "change list \<Rightarrow> bool" where
  "pending_ok cs \<longleftrightarrow> list_all (\<lambda>c. c \<noteq> Status Forbidden \<and> c \<noteq> Status Unsupported) cs"

definition live_of :: "view \<Rightarrow> pump_state \<Rightarrow> live" where
  "live_of v p = (fold view_change (pm_pending p) v, pm_initial p, pm_failing p)"

lemma pending_running: "pending_ok cs \<Longrightarrow> snd (snd (fold view_change cs v)) = snd (snd v)"
proof (induction cs arbitrary: v)
  case (Cons c cs)
  have "snd (snd (view_change c v)) = snd (snd v)"
    using Cons.prems by (cases v; cases c) (auto simp: pending_ok_def)
  with Cons show ?case by (simp add: pending_ok_def)
qed simp

lemma reset_forgets: "pending_ok cs \<Longrightarrow> view_change (Reset objs) (fold view_change cs v) = view_change (Reset objs) v"
  using pending_running [of cs v]
  by (cases v; cases "fold view_change cs v") simp

lemma pump_event_live:
  assumes "pending_ok (pm_pending p)" "\<not> pm_failing p"
  shows "live_of v (pump_event ty ev p) = live_event ty ev (fold view_change (pm_pending p) v, pm_initial p) \<and>
    pending_ok (pm_pending (pump_event ty ev p))"
  using assms
  by (cases ev) (auto simp: live_of_def push_change_def pending_ok_def reset_forgets split: option.splits)

lemma pump_item_live:
  assumes "pending_ok (pm_pending p)" "pump_item ty item p = (go, p')"
  shows "live_item ty item (live_of v p) = (go, live_of v p') \<and> (go \<longrightarrow> pending_ok (pm_pending p'))"
proof (cases item)
  case (Inl err)
  then show ?thesis
    using assms by (auto simp: pump_item_def live_item_def live_of_def push_change_def pending_ok_def split: if_splits)
next
  case (Inr ev)
  let ?p = "if pm_failing p then push_change (Status Ready) (p\<lparr>pm_failing := False\<rparr>) else p"
  have ok: "pending_ok (pm_pending ?p)" "\<not> pm_failing ?p"
    using assms(1) by (simp_all add: push_change_def pending_ok_def)
  have "fold view_change (pm_pending ?p) v =
      (if pm_failing p then view_change (Status Ready) (fold view_change (pm_pending p) v)
       else fold view_change (pm_pending p) v)" "pm_initial ?p = pm_initial p"
    by (simp_all add: push_change_def)
  moreover have "go" "p' = pump_event ty ev ?p"
    using assms(2) Inr by (simp_all add: pump_item_def Let_def)
  ultimately show ?thesis
    using pump_event_live [OF ok, of v ty ev] Inr by (simp add: live_item_def live_of_def [of v p])
qed

lemma pump_frame_live:
  "pending_ok (pm_pending p) \<Longrightarrow> pump_frame ty items p = (go, p') \<Longrightarrow>
     live_run ty items (live_of v p) = (go, live_of v p') \<and> (go \<longrightarrow> pending_ok (pm_pending p'))"
proof (induction items arbitrary: p)
  case (Cons item items)
  obtain go1 p1 where item: "pump_item ty item p = (go1, p1)" by force
  note live = pump_item_live [OF Cons.prems(1) item, of v]
  show ?case
    using Cons.prems(2) Cons.IH [of p1] item live by (cases go1) auto
qed auto

lemma live_run_append:
  "live_run ty (xs @ ys) l = (case live_run ty xs l of (True, l') \<Rightarrow> live_run ty ys l' | (False, l') \<Rightarrow> (False, l'))"
proof (induction xs arbitrary: l)
  case (Cons x xs)
  then show ?case by (cases "live_item ty x l") (auto split: bool.splits)
qed simp

lemma pump_live:
  "pending_ok (pm_pending p) \<Longrightarrow> pm_pending p = [] \<Longrightarrow>
     fold (fold view_change) (pump ty frames p) v = fst (snd (live_run ty (concat frames) (live_of v p)))"
proof (induction frames arbitrary: p v)
  case Nil
  then show ?case by (simp add: live_of_def)
next
  case (Cons frame frames)
  obtain go p' where frame: "pump_frame ty frame p = (go, p')" by force
  note live = pump_frame_live [OF Cons.prems(1) frame, of v]
  show ?case
  proof (cases go)
    case False
    then show ?thesis
      using frame live by (simp add: live_run_append live_of_def)
  next
    case True
    let ?q = "p'\<lparr>pm_pending := []\<rparr>"
    have q: "live_of (fold view_change (pm_pending p') v) ?q = live_of v p'"
      by (simp add: live_of_def)
    have "fold (fold view_change) (pump ty frames ?q) (fold view_change (pm_pending p') v) =
        fst (snd (live_run ty (concat frames) (live_of v p')))"
      using Cons.IH [of ?q "fold view_change (pm_pending p') v"] unfolding q
      by (simp add: pending_ok_def)
    moreover have "?q = p'" if "pm_pending p' = []" using that by simp
    ultimately show ?thesis
      using frame live True by (cases "pm_pending p' = []") (auto simp: live_run_append)
  qed
qed

lemma fold_batches_view:
  "store_view (fold apply_batch batches st) = fold (fold view_change) batches (store_view st)"
  by (induction batches arbitrary: st) (simp_all add: apply_batch_view)

text \<open>C9: how the events of a watch are cut into frames makes no difference: the objects, the status and
  whether the store runs are what applying every event at once, as it arrives, gives (dropping the
  changes of a frame before a finished relist included).\<close>

theorem frames_do_not_matter:
  "store_view (fold apply_batch (pump ty frames pump_new) st) =
     fst (snd (live_run ty (concat frames) (store_view st, [], False)))"
  using pump_live [of pump_new ty frames "store_view st"]
  by (simp add: fold_batches_view pending_ok_def pump_new_def live_of_def)

section \<open>What changed since\<close>

datatype store_op =
    Batch "change list" | Pause | Resume | Retry_Unsupported | Ensure_Running connection
  | Set_Status store_status

fun store_step :: "store_op \<Rightarrow> store \<Rightarrow> store" where
  "store_step (Batch cs) st = apply_batch cs st"
| "store_step Pause st = pause_store st"
| "store_step Resume st = snd (resume_store st)"
| "store_step Retry_Unsupported st = retry_unsupported st"
| "store_step (Ensure_Running conn) st = ensure_running conn st"
| "store_step (Set_Status s) st = set_status_by_hand s st"

text \<open>The remembered generations are the last ones, without a gap.\<close>

definition history_inv :: "store \<Rightarrow> bool" where
  "history_inv st \<longleftrightarrow>
     length (st_history st) \<le> st_generation st \<and>
     map fst (st_history st) = [st_generation st + 1 - length (st_history st) ..< st_generation st + 1] \<and>
     length (st_history st) \<le> history_batches"

lemma trim_suffix: "\<exists>k. trim_history hist n = drop k hist \<and> (hist \<noteq> [] \<longrightarrow> k < length hist)"
proof (induction hist n rule: trim_history.induct)
  case (1 oldest newer hist held)
  show ?case
  proof (cases "history_batches < length (oldest # newer # hist) \<or> history_keys < held")
    case True
    then obtain k where "trim_history (newer # hist) (held - touched_size (snd oldest)) = drop k (newer # hist)"
        "k < length (newer # hist)"
      using 1 by auto
    with True show ?thesis
      by (intro exI [of _ "Suc k"]) simp
  qed (auto intro: exI [of _ 0])
qed (auto intro: exI [of _ 0])

lemma trim_length: "length hist \<le> history_batches + 1 \<Longrightarrow> length (trim_history hist n) \<le> history_batches"
proof (induction hist n rule: trim_history.induct)
  case (1 oldest newer hist held)
  then show ?case by auto
qed (simp_all add: history_batches_def)

lemma bump_history:
  obtains k where "st_history (bump t st) = drop k (st_history st @ [(st_generation st + 1, t)])"
    "k \<le> length (st_history st)"
  using trim_suffix [of "st_history st @ [(st_generation st + 1, t)]"]
  by (fastforce simp: bump_def Let_def)

lemma bump_history_inv:
  assumes "history_inv st"
  shows "history_inv (bump t st)"
proof -
  obtain k where k: "st_history (bump t st) = drop k (st_history st @ [(st_generation st + 1, t)])"
      "k \<le> length (st_history st)"
    by (rule bump_history)
  let ?n = "length (st_history st)" and ?g = "st_generation st"
  have n: "?n \<le> ?g" "map fst (st_history st) = [?g + 1 - ?n ..< ?g + 1]" "?n \<le> history_batches"
    using assms by (simp_all add: history_inv_def)
  have "map fst (st_history st @ [(?g + 1, t)]) = [?g + 1 - ?n ..< ?g + 2]"
    using n by (simp add: upt_Suc_append [symmetric] del: upt_Suc)
  then have "map fst (st_history (bump t st)) = [?g + 1 - ?n + k ..< ?g + 2]"
    unfolding k(1) drop_map [symmetric] by (simp only: drop_upt)
  moreover have "length (st_history (bump t st)) = ?n + 1 - k"
    unfolding k(1) by simp
  moreover have "length (st_history (bump t st)) \<le> history_batches"
    using n(3) by (simp add: bump_def Let_def trim_length)
  ultimately show ?thesis
    using n k(2) by (simp add: history_inv_def Suc_diff_le)
qed

text \<open>What a bump claims was touched covers the difference between two stores.\<close>

definition diff_keys :: "store \<Rightarrow> store \<Rightarrow> object_key set" where
  "diff_keys st st' = {k. st_objects st' k \<noteq> st_objects st k}"

definition covers :: "touched \<Rightarrow> store \<Rightarrow> store \<Rightarrow> bool" where
  "covers t st st' \<longleftrightarrow>
     (case t of All \<Rightarrow> True | Keys ks \<Rightarrow> diff_keys st st' \<subseteq> ks \<and> st_status st' = st_status st)"

definition same_log :: "store \<Rightarrow> store \<Rightarrow> bool" where
  "same_log st st' \<longleftrightarrow> st_generation st' = st_generation st \<and> st_history st' = st_history st"

lemma diff_keys_trans: "diff_keys a c \<subseteq> diff_keys a b \<union> diff_keys b c"
  by (auto simp: diff_keys_def)

lemma apply_change_covers:
  "covers t st0 st \<Longrightarrow> same_log st0 st \<Longrightarrow> apply_change c (t, st) = (t', st') \<Longrightarrow>
     covers t' st0 st' \<and> same_log st0 st'"
  by (cases c; cases t)
    (auto simp: covers_def diff_keys_def same_log_def touch_def take_status_def Let_def split: if_splits)

lemma fold_apply_covers:
  "covers t st0 st \<Longrightarrow> same_log st0 st \<Longrightarrow> fold apply_change cs (t, st) = (t', st') \<Longrightarrow>
     covers t' st0 st' \<and> same_log st0 st'"
proof (induction cs arbitrary: t st)
  case (Cons c cs)
  obtain t1 st1 where step: "apply_change c (t, st) = (t1, st1)" by force
  show ?case
    using Cons.IH [of t1 st1] apply_change_covers [OF Cons.prems(1,2) step] Cons.prems(3) step by simp
qed auto

lemma store_step_forms:
  "(same_log st (store_step x st) \<and> covers (Keys {}) st (store_step x st)) \<or>
   (\<exists>t st'. store_step x st = bump t st' \<and> covers t st st' \<and> same_log st st')"
proof (cases x)
  case (Batch cs)
  obtain t st' where fold: "fold apply_change cs (Keys {}, st) = (t, st')" by force
  have "covers t st st' \<and> same_log st st'"
    by (rule fold_apply_covers [OF _ _ fold]) (simp_all add: covers_def diff_keys_def same_log_def)
  with fold Batch show ?thesis by (auto simp: apply_batch_def)
next
  case (Ensure_Running conn)
  then show ?thesis
    by (auto simp: ensure_running_def stop_store_def covers_def diff_keys_def same_log_def Let_def
        split: option.splits intro!: exI [of _ All])
qed (auto simp: pause_store_def resume_store_def retry_unsupported_def stop_store_def set_status_by_hand_def
    take_status_def covers_def diff_keys_def same_log_def Let_def intro!: exI [of _ All])

lemma store_step_history:
  assumes "history_inv st"
  shows "history_inv (store_step x st)"
  using store_step_forms [of st x]
proof
  assume "same_log st (store_step x st) \<and> covers (Keys {}) st (store_step x st)"
  with assms show ?thesis by (simp add: history_inv_def same_log_def)
next
  assume "\<exists>t st'. store_step x st = bump t st' \<and> covers t st st' \<and> same_log st st'"
  then obtain t st' where "store_step x st = bump t st'" "same_log st st'" by blast
  moreover from this assms have "history_inv st'" by (simp add: history_inv_def same_log_def)
  ultimately show ?thesis using bump_history_inv by simp
qed

interpretation storing: machine store_step history_inv
  by unfold_locales (rule store_step_history)

lemma store_new_history: "history_inv (store_new k)"
  by (simp add: history_inv_def store_new_def)

lemma merge_skip: "\<forall>e \<in> set pre. fst e \<le> g \<Longrightarrow> merge_touched ks (pre @ hist) g = merge_touched ks hist g"
  by (induction pre) auto

lemma merge_last:
  "g < n \<Longrightarrow> merge_touched ks (hist @ [(n, t)]) g =
     (case merge_touched ks hist g of
        All \<Rightarrow> All
      | Keys ks' \<Rightarrow> (case t of All \<Rightarrow> All | Keys batch \<Rightarrow> Keys (ks' \<union> batch)))"
  by (induction ks hist g rule: merge_touched.induct) (auto split: touched.splits)

lemma history_fst:
  "history_inv st \<Longrightarrow> e \<in> set (st_history st) \<Longrightarrow> fst e \<le> st_generation st"
proof -
  assume "history_inv st" "e \<in> set (st_history st)"
  then have "fst e \<in> set [st_generation st + 1 - length (st_history st) ..< st_generation st + 1]"
    by (metis history_inv_def image_eqI set_map)
  then show ?thesis by auto
qed

lemma changes_since_bump:
  assumes "history_inv st" "g \<le> st_generation st" "changes_since g (bump t st) = Some (Keys ks)"
  shows "\<exists>old batch. changes_since g st = Some (Keys old) \<and> t = Keys batch \<and> ks = old \<union> batch"
proof -
  let ?g = "st_generation st" and ?hist = "st_history st"
  obtain k where k: "st_history (bump t st) = drop k (?hist @ [(?g + 1, t)])" "k \<le> length ?hist"
    by (rule bump_history)
  have new: "st_history (bump t st) = drop k ?hist @ [(?g + 1, t)]"
    using k by simp
  obtain n t0 rest where first: "drop k ?hist @ [(?g + 1, t)] = (n, t0) # rest"
    by (cases "drop k ?hist @ [(?g + 1, t)]") auto
  have ge: "n \<le> g + 1" and merged: "merge_touched {} (drop k ?hist @ [(?g + 1, t)]) g = Keys ks"
    using assms(2,3) unfolding changes_since_def new first by (auto split: if_splits)
  have nums: "map fst ?hist = [?g + 1 - length ?hist ..< ?g + 1]" "length ?hist \<le> ?g"
    using assms(1) by (simp_all add: history_inv_def)
  show ?thesis
  proof (cases "g = ?g")
    case True
    have "\<forall>e \<in> set (drop k ?hist). fst e \<le> g"
      using history_fst [OF assms(1)] True by (blast dest: in_set_dropD)
    then have "merge_touched {} (drop k ?hist) g = Keys {}"
      using merge_skip [of "drop k ?hist" g "{}" "[]"] by simp
    with merged True have "t = Keys ks"
      by (auto simp: merge_last split: touched.splits)
    then show ?thesis using True by (auto simp: changes_since_def)
  next
    case False
    then have less: "g < ?g" using assms(2) by simp
    have "drop k ?hist \<noteq> []"
      using first ge less by auto
    then have klt: "k < length ?hist" by simp
    have "n = fst (drop k ?hist ! 0)"
      using first klt by (cases "drop k ?hist") auto
    also have "\<dots> = map fst ?hist ! k" using klt by simp
    also have "\<dots> = ?g + 1 - length ?hist + k"
      unfolding nums(1) using klt nums(2) by (subst nth_upt) auto
    finally have n: "n = ?g + 1 - length ?hist + k" .
    have "fst e \<le> g" if "e \<in> set (take k ?hist)" for e
    proof -
      from that obtain i where i: "i < k" "i < length ?hist" "e = ?hist ! i"
        by (auto simp: in_set_conv_nth)
      then have "fst e = map fst ?hist ! i" by simp
      also have "\<dots> = ?g + 1 - length ?hist + i"
        unfolding nums(1) using i nums(2) by (subst nth_upt) auto
      finally show ?thesis using i n ge by simp
    qed
    then have skip: "merge_touched {} ?hist g = merge_touched {} (drop k ?hist) g"
      using merge_skip [of "take k ?hist" g "{}" "drop k ?hist"] by simp
    obtain m s rest' where head: "?hist = (m, s) # rest'" using klt by (cases ?hist) auto
    have "m = ?g + 1 - length ?hist"
    proof -
      have "m = map fst ?hist ! 0" using head by simp
      also have "\<dots> = ?g + 1 - length ?hist"
        unfolding nums(1) using nums(2) klt by (subst nth_upt) auto
      finally show ?thesis .
    qed
    then have "m \<le> g + 1" using n ge by simp
    then have "changes_since g st = Some (merge_touched {} (drop k ?hist) g)"
      using less skip unfolding changes_since_def by (simp add: head)
    then show ?thesis
      using merged less by (auto simp: merge_last split: touched.splits)
  qed
qed

text \<open>The soundness of \<open>changes_since\<close> between an earlier and a later store.\<close>

definition sound_since :: "store \<Rightarrow> store \<Rightarrow> bool" where
  "sound_since st0 st \<longleftrightarrow> st_generation st0 \<le> st_generation st \<and>
     (\<forall>ks. changes_since (st_generation st0) st = Some (Keys ks) \<longrightarrow> covers (Keys ks) st0 st)"

lemma covers_trans:
  "covers (Keys a) st0 st1 \<Longrightarrow> covers (Keys b) st1 st2 \<Longrightarrow> covers (Keys (a \<union> b)) st0 st2"
  using diff_keys_trans [of st0 st2 st1] by (auto simp: covers_def)

lemma same_log_since:
  assumes "same_log st st'"
  shows "changes_since g st' = changes_since g st"
proof -
  have "st_generation st' = st_generation st" "st_history st' = st_history st"
    using assms by (simp_all add: same_log_def)
  then show ?thesis by (simp only: changes_since_def)
qed

lemma store_step_sound:
  assumes "history_inv st" "sound_since st0 st"
  shows "sound_since st0 (store_step x st)"
  using store_step_forms [of st x]
proof
  assume same: "same_log st (store_step x st) \<and> covers (Keys {}) st (store_step x st)"
  then have "changes_since g (store_step x st) = changes_since g st" for g
    by (intro same_log_since) simp
  with same assms(2) show ?thesis
    using covers_trans [of _ st0 st "{}"] by (auto simp: sound_since_def same_log_def)
next
  assume "\<exists>t st'. store_step x st = bump t st' \<and> covers t st st' \<and> same_log st st'"
  then obtain t st' where b: "store_step x st = bump t st'" "covers t st st'" "same_log st st'" by blast
  have inv': "history_inv st'" using assms(1) b(3) by (simp add: history_inv_def same_log_def)
  have gen: "st_generation st' = st_generation st" using b(3) by (simp add: same_log_def)
  note log = gen same_log_since [OF b(3)]
  have le: "st_generation st0 \<le> st_generation st'"
    using assms(2) gen by (simp add: sound_since_def)
  have "covers (Keys ks) st0 (bump t st')"
    if since: "changes_since (st_generation st0) (bump t st') = Some (Keys ks)" for ks
  proof -
    obtain old batch where ob: "changes_since (st_generation st0) st = Some (Keys old)" "t = Keys batch"
        "ks = old \<union> batch"
      using changes_since_bump [OF inv' le since] unfolding log(2) by auto
    then have "covers (Keys old) st0 st" using assms(2) by (simp add: sound_since_def)
    moreover have "covers (Keys batch) st (bump t st')"
      using b(2) ob(2) by (simp add: covers_def diff_keys_def)
    ultimately show ?thesis unfolding ob(3) by (rule covers_trans)
  qed
  then show ?thesis using b(1) le by (simp add: sound_since_def)
qed

section \<open>A cache kept by generations\<close>

text \<open>The contract views rely on: a change feed names a superset of what changed since a generation they
  remember.  Recomputing just those rows is then recomputing them all.\<close>

locale change_feed =
  fixes generation :: "'s \<Rightarrow> nat"
    and objects :: "'s \<Rightarrow> object_key \<Rightarrow> 'v option"
    and since :: "nat \<Rightarrow> 's \<Rightarrow> touched option"
    and later :: "'s \<Rightarrow> 's \<Rightarrow> bool"
  assumes since_covers: "later s0 s \<Longrightarrow> since (generation s0) s = Some (Keys ks) \<Longrightarrow>
      k \<notin> ks \<Longrightarrow> objects s k = objects s0 k"
begin

definition rows :: "(object_key \<Rightarrow> 'v \<Rightarrow> 'row) \<Rightarrow> 's \<Rightarrow> object_key \<Rightarrow> 'row option" where
  "rows row s k = map_option (row k) (objects s k)"

definition refreshed :: "(object_key \<Rightarrow> 'v \<Rightarrow> 'row) \<Rightarrow> nat \<Rightarrow> (object_key \<Rightarrow> 'row option) \<Rightarrow> 's \<Rightarrow> object_key \<Rightarrow> 'row option" where
  "refreshed row g cache s k =
     (case since g s of
        Some (Keys ks) \<Rightarrow> if k \<in> ks then rows row s k else cache k
      | _ \<Rightarrow> rows row s k)"

lemma refreshed_rows:
  assumes "later s0 s"
  shows "refreshed row (generation s0) (rows row s0) s = rows row s"
proof
  fix k
  show "refreshed row (generation s0) (rows row s0) s k = rows row s k"
    using since_covers [OF assms, of _ k]
    by (auto simp: refreshed_def rows_def split: option.splits touched.splits)
qed

end

definition store_later :: "store \<Rightarrow> store \<Rightarrow> bool" where
  "store_later st0 st \<longleftrightarrow> (\<exists>k ops further. st0 = fold store_step ops (store_new k) \<and> st = fold store_step further st0)"

lemma store_later_sound:
  assumes "store_later st0 st"
  shows "sound_since st0 st"
proof -
  from assms obtain k ops further where st: "st0 = fold store_step ops (store_new k)" "st = fold store_step further st0"
    by (auto simp: store_later_def)
  have inv: "history_inv st0"
    unfolding st(1) by (rule storing.run_keeps [OF store_new_history])
  have "sound_since st0 st0"
    by (simp add: sound_since_def covers_def diff_keys_def changes_since_def)
  then show ?thesis
    unfolding st(2) using storing.run_steps [of st0 "sound_since st0" further] inv store_step_sound by blast
qed

interpretation store_feed: change_feed st_generation st_objects changes_since store_later
  by unfold_locales (use store_later_sound in \<open>auto simp: sound_since_def covers_def diff_keys_def\<close>)

text \<open>C8: a view that remembers a generation and recomputes the rows of just the keys \<open>changes_since\<close>
  names (or all rows when it names none) has the rows a full recomputation gives, whatever batches,
  pauses, reconnects and status changes came in between and however much history was forgotten.\<close>

theorem changes_since_refreshes:
  fixes row :: "object_key \<Rightarrow> json \<Rightarrow> 'row" and ops further :: "store_op list" and k :: store_key
  defines "st0 \<equiv> fold store_step ops (store_new k)"
  defines "st \<equiv> fold store_step further st0"
  defines "all_rows \<equiv> \<lambda>s x. map_option (row x) (st_objects s x)"
  shows "(\<lambda>x. case changes_since (st_generation st0) st of
        Some (Keys ks) \<Rightarrow> if x \<in> ks then all_rows st x else all_rows st0 x
      | _ \<Rightarrow> all_rows st x) = all_rows st"
proof -
  have "store_later st0 st" by (auto simp: store_later_def st0_def st_def)
  from store_feed.refreshed_rows [OF this, of row] show ?thesis
    unfolding store_feed.refreshed_def [abs_def] store_feed.rows_def [abs_def] all_rows_def .
qed

text \<open>The history never holds further than 256 batches, and the remembered batches are the last ones
  without a gap (so that a generation that is not remembered is never mistaken for one that is).\<close>

lemma history_bounded:
  fixes ops :: "store_op list" and k :: store_key
  defines "st \<equiv> fold store_step ops (store_new k)"
  shows "length (st_history st) \<le> 256 \<and>
    map fst (st_history st) = [st_generation st + 1 - length (st_history st) ..< st_generation st + 1]"
  using storing.run_keeps [OF store_new_history, of ops k]
  by (simp add: st_def history_inv_def history_batches_def)

end
