(* ===== verification/Forwards.thy ===== *)
theory Forwards
  imports BaseTypes
begin

text \<open>
  The running port-forwards (\<open>crates/kubyl_portforward_core/src/manager.rs\<close>): a state machine that
  spawned tasks drive with their results.  What it asks of its host (effects, tasks, timers,
  replies) is recorded in order in \<open>fw_out\<close>.  The Kubernetes client is \<open>'c\<close>.  Whether the receiver of
  a reply is still there when it is sent is the parameter \<open>alive\<close>.  A dropped task never reports: a
  run of the model may let it report nevertheless, so what is proved covers the code's runs.
\<close>

section \<open>State\<close>

datatype forward_kind = ToPod str | ToService str | ToWorkload str

datatype remote_port = ContainerPort "nat option" | ServicePort "nat option"

record target =
  tg_cluster :: cluster_id
  tg_namespace :: str
  tg_kind :: forward_kind
  tg_port :: remote_port
  tg_bind_address :: str
  tg_local_port :: nat
  tg_target :: resource_ref
  tg_remote_port :: "nat option"
  tg_http :: bool
  tg_https :: bool
  tg_open_browser :: bool
  tg_ephemeral :: "str option"

definition short_kind :: "str \<Rightarrow> str" where
  "short_kind resource =
     (if resource = ''services'' then ''svc'' else if resource = ''pods'' then ''pod''
      else if resource = ''deployments'' then ''deploy'' else if resource = ''statefulsets'' then ''sts''
      else if resource = ''daemonsets'' then ''ds'' else resource)"

definition target_label :: "target \<Rightarrow> str" where
  "target_label t =
     (let kind = short_kind (gvr_resource (rr_gvr (tg_target t)));
          n = unwrap_or (rr_name (tg_target t)) []
      in case tg_remote_port t of
           Some port \<Rightarrow> kind @ ''/'' @ n @ '' :'' @ show_nat port
         | None \<Rightarrow> kind @ ''/'' @ n)"

definition session_label :: "target \<Rightarrow> str" where
  "session_label t = (case tg_ephemeral t of Some title \<Rightarrow> title | None \<Rightarrow> target_label t)"

datatype forward_state = Starting | Listening | Reconnecting str | Failed str

record 'c forward =
  f_target :: target
  f_state :: forward_state
  f_local_port :: nat
  f_resolved_port :: "nat option"
  f_resolved_pod :: "str option"
  f_connections :: nat
  f_bytes_sent :: nat
  f_bytes_received :: nat
  f_client :: 'c
  f_probe :: bool

record waiting =
  w_reply :: nat
  w_reconnect_grace :: "nat option"

datatype action =
    Changed nat | OpenUrl str | Reaching nat | Released nat
  | Emit | Notify | Toast str
  | SpawnListener nat | SpawnCheck nat
  | AfterProbe nat | AfterGrace nat nat | AfterTimeout nat nat
  | Reply nat "str + nat \<times> nat"

record 'c forwards =
  fw_map :: "nat \<Rightarrow> 'c forward option"
  fw_next :: nat
  fw_waiting :: "nat \<Rightarrow> waiting option"
  fw_watchers :: "nat set"
  fw_out :: "action list"

definition forwards_new :: "'c forwards" where
  "forwards_new =
     \<lparr>fw_map = (\<lambda>_. None), fw_next = 0, fw_waiting = (\<lambda>_. None), fw_watchers = {}, fw_out = []\<rparr>"

definition emit :: "action \<Rightarrow> 'c forwards \<Rightarrow> 'c forwards" where
  "emit a fw = fw\<lparr>fw_out := fw_out fw @ [a]\<rparr>"

definition update_forward :: "nat \<Rightarrow> ('c forward \<Rightarrow> 'c forward) \<Rightarrow> 'c forwards \<Rightarrow> 'c forwards" where
  "update_forward i upd fw =
     (case fw_map fw i of None \<Rightarrow> fw | Some f \<Rightarrow> fw\<lparr>fw_map := (fw_map fw)(i \<mapsto> upd f)\<rparr>)"

section \<open>Addresses\<close>

definition display_host :: "str \<Rightarrow> str" where
  "display_host bind = (if bind \<in> {''0.0.0.0'', ''::'', []} then ''localhost'' else bind)"

definition host_port :: "str \<Rightarrow> nat \<Rightarrow> str" where
  "host_port host port =
     (if CHR '':'' \<in> set host \<and> \<not> starts_with ''['' host
      then ''['' @ host @ '']:'' @ show_nat port else host @ '':'' @ show_nat port)"

definition forward_local :: "'c forward \<Rightarrow> str" where
  "forward_local f = host_port (display_host (tg_bind_address (f_target f))) (f_local_port f)"

definition forward_address :: "'c forward \<Rightarrow> str" where
  "forward_address f = host_port (tg_bind_address (f_target f)) (f_local_port f)"

definition forward_url :: "'c forward \<Rightarrow> str" where
  "forward_url f =
     (if tg_https (f_target f) then ''https'' else ''http'') @ ''://'' @ forward_local f"

definition is_live :: "'c forward \<Rightarrow> bool" where
  "is_live f = (case f_state f of Listening \<Rightarrow> True | Reconnecting _ \<Rightarrow> True | _ \<Rightarrow> False)"

section \<open>Operations\<close>

definition next_id :: "'c forwards \<Rightarrow> nat \<times> 'c forwards" where
  "next_id fw = (fw_next fw, fw\<lparr>fw_next := fw_next fw + 1\<rparr>)"

definition remove :: "nat \<Rightarrow> 'c forwards \<Rightarrow> 'c forwards" where
  "remove i fw =
     (case fw_map fw i of
        None \<Rightarrow> fw
      | Some _ \<Rightarrow>
          (let fw = fw\<lparr>fw_map := (fw_map fw)(i := None), fw_watchers := fw_watchers fw - {i}\<rparr>;
               fw = (case fw_waiting fw i of
                       None \<Rightarrow> fw
                     | Some w \<Rightarrow> emit (Reply (w_reply w) (Inl ''the port-forward stopped''))
                                   (fw\<lparr>fw_waiting := (fw_waiting fw)(i := None)\<rparr>))
           in emit Notify (emit Emit fw)))"

definition release :: "nat \<Rightarrow> 'c forwards \<Rightarrow> 'c forwards" where
  "release i fw = emit (Released i) (remove i fw)"

definition give_up :: "nat \<Rightarrow> str \<Rightarrow> 'c forwards \<Rightarrow> 'c forwards" where
  "give_up i err fw =
     (case fw_waiting fw i of
        None \<Rightarrow> fw
      | Some w \<Rightarrow> release i (emit (Reply (w_reply w) (Inl err))
                   (fw\<lparr>fw_waiting := (fw_waiting fw)(i := None)\<rparr>)))"

definition settle :: "(nat \<Rightarrow> bool) \<Rightarrow> nat \<Rightarrow> 'c forwards \<Rightarrow> 'c forwards" where
  "settle alive i fw =
     (case fw_map fw i of
        None \<Rightarrow> fw
      | Some f \<Rightarrow>
          (case f_state f of
             Listening \<Rightarrow>
               if f_local_port f \<noteq> 0 then
                 (case fw_waiting fw i of
                    None \<Rightarrow> fw
                  | Some w \<Rightarrow>
                      (let fw = emit (Reply (w_reply w) (Inr (i, f_local_port f)))
                                  (fw\<lparr>fw_waiting := (fw_waiting fw)(i := None)\<rparr>)
                       in if alive (w_reply w) then fw\<lparr>fw_watchers := insert i (fw_watchers fw)\<rparr>
                          else release i fw))
               else fw
           | Failed err \<Rightarrow> give_up i (''port-forward: '' @ err) fw
           | Reconnecting _ \<Rightarrow>
               (case fw_waiting fw i of
                  None \<Rightarrow> fw
                | Some w \<Rightarrow>
                    (case w_reconnect_grace w of
                       None \<Rightarrow> fw
                     | Some grace \<Rightarrow> emit (AfterGrace i grace)
                         (fw\<lparr>fw_waiting := (fw_waiting fw)(i \<mapsto> w\<lparr>w_reconnect_grace := None\<rparr>)\<rparr>)))
           | Starting \<Rightarrow> fw))"

text \<open>The timer of the grace period: gives up when the forward is still reconnecting.\<close>

definition grace_fires :: "nat \<Rightarrow> 'c forwards \<Rightarrow> 'c forwards" where
  "grace_fires i fw =
     (case map_option f_state (fw_map fw i) of
        Some (Reconnecting err) \<Rightarrow> give_up i (''port-forward: '' @ err) fw
      | _ \<Rightarrow> fw)"

definition timeout_fires :: "nat \<Rightarrow> 'c forwards \<Rightarrow> 'c forwards" where
  "timeout_fires i fw =
     give_up i ''the port-forward didn't start (needs create pods/portforward)'' fw"

definition check_target :: "nat \<Rightarrow> 'c forwards \<Rightarrow> 'c forwards" where
  "check_target i fw =
     (case fw_map fw i of
        None \<Rightarrow> fw
      | Some _ \<Rightarrow> update_forward i (\<lambda>f. f\<lparr>f_probe := True\<rparr>) (emit (SpawnCheck i) fw))"

definition probe_fires :: "nat \<Rightarrow> 'c forwards \<Rightarrow> 'c forwards" where
  "probe_fires i fw = (case fw_map fw i of Some _ \<Rightarrow> check_target i fw | None \<Rightarrow> fw)"

definition start :: "nat \<Rightarrow> 'c \<Rightarrow> target \<Rightarrow> 'c forwards \<Rightarrow> 'c forwards" where
  "start i client t fw =
     (let fw = emit (SpawnListener i) fw;
          fw = fw\<lparr>fw_map := (fw_map fw)(i \<mapsto>
                 \<lparr>f_target = t, f_state = Starting, f_local_port = tg_local_port t,
                  f_resolved_port = None, f_resolved_pod = None, f_connections = 0,
                  f_bytes_sent = 0, f_bytes_received = 0, f_client = client, f_probe = False\<rparr>)\<rparr>
      in emit Notify (emit Emit (emit (Changed i) (check_target i fw))))"

record resolved =
  rs_pod :: str
  rs_port :: nat

definition is_reconnecting :: "forward_state \<Rightarrow> bool" where
  "is_reconnecting s = (case s of Reconnecting _ \<Rightarrow> True | _ \<Rightarrow> False)"

definition is_failed :: "forward_state \<Rightarrow> bool" where
  "is_failed s = (case s of Failed _ \<Rightarrow> True | _ \<Rightarrow> False)"

definition finish_check ::
  "(nat \<Rightarrow> bool) \<Rightarrow> nat \<Rightarrow> str + resolved \<Rightarrow> 'c forwards \<Rightarrow> 'c forwards" where
  "finish_check alive i result fw =
     (case fw_map fw i of
        None \<Rightarrow> fw
      | Some f \<Rightarrow>
          (case result of
             Inr r \<Rightarrow>
               settle alive i (emit (Changed i) (update_forward i (\<lambda>f.
                 f\<lparr>f_resolved_port := Some (rs_port r), f_resolved_pod := Some (rs_pod r),
                   f_state := (if is_reconnecting (f_state f) then Listening else f_state f),
                   f_probe := False\<rparr>) fw))
           | Inl err \<Rightarrow>
               if is_failed (f_state f) then update_forward i (\<lambda>f. f\<lparr>f_probe := False\<rparr>) fw
               else (let fw = settle alive i (emit (Changed i)
                              (update_forward i (\<lambda>f. f\<lparr>f_state := Reconnecting err\<rparr>) fw))
                     in update_forward i (\<lambda>f. f\<lparr>f_probe := True\<rparr>) (emit (AfterProbe i) fw))))"

definition set_state ::
  "(nat \<Rightarrow> bool) \<Rightarrow> nat \<Rightarrow> forward_state \<Rightarrow> 'c forwards \<Rightarrow> 'c forwards" where
  "set_state alive i s fw =
     (case fw_map fw i of
        None \<Rightarrow> fw
      | Some _ \<Rightarrow> settle alive i (emit (Changed i) (update_forward i (\<lambda>f. f\<lparr>f_state := s\<rparr>) fw)))"

text \<open>The listener task returned an error: binding the local port failed.\<close>

definition listener_failed :: "(nat \<Rightarrow> bool) \<Rightarrow> nat \<Rightarrow> str \<Rightarrow> 'c forwards \<Rightarrow> 'c forwards" where
  "listener_failed alive i err fw =
     emit (Toast (''Port-forward failed: '' @ err)) (set_state alive i (Failed err) fw)"

datatype forward_event =
    EvListening nat | EvConnectionOpened str | EvConnectionClosed | EvBytes nat nat | EvError str

definition event_update :: "nat \<Rightarrow> forward_event \<Rightarrow> 'c forwards \<Rightarrow> 'c forwards" where
  "event_update i ev fw =
     (case ev of
        EvListening port \<Rightarrow>
          (let fw = update_forward i (\<lambda>f. f\<lparr>f_local_port := port,
                      f_state := (if f_state f = Starting then Listening else f_state f)\<rparr>) fw
           in case fw_map fw i of
                Some f \<Rightarrow> if tg_open_browser (f_target f) \<and> tg_http (f_target f)
                          then emit (OpenUrl (forward_url f)) fw else fw
              | None \<Rightarrow> fw)
      | EvConnectionOpened pod \<Rightarrow>
          update_forward i (\<lambda>f.
            (let f = f\<lparr>f_connections := f_connections f + 1, f_resolved_pod := Some pod\<rparr>
             in if is_reconnecting (f_state f) then f\<lparr>f_state := Listening, f_probe := False\<rparr> else f)) fw
      | EvConnectionClosed \<Rightarrow> update_forward i (\<lambda>f. f\<lparr>f_connections := f_connections f - 1\<rparr>) fw
      | EvBytes sent received \<Rightarrow>
          update_forward i (\<lambda>f. f\<lparr>f_bytes_sent := f_bytes_sent f + sent,
            f_bytes_received := f_bytes_received f + received\<rparr>) fw
      | EvError message \<Rightarrow>
          (case fw_map fw i of
             None \<Rightarrow> fw
           | Some f \<Rightarrow>
               if is_failed (f_state f) then fw
               else (let fw' = update_forward i (\<lambda>f. f\<lparr>f_state := Reconnecting message\<rparr>) fw
                     in if f_probe f then fw' else check_target i fw')))"

definition apply_event ::
  "(nat \<Rightarrow> bool) \<Rightarrow> nat \<Rightarrow> forward_event \<Rightarrow> 'c forwards \<Rightarrow> bool \<times> 'c forwards" where
  "apply_event alive i ev fw =
     (case fw_map fw i of
        None \<Rightarrow> (False, fw)
      | Some _ \<Rightarrow> (True, settle alive i (emit (Changed i) (event_update i ev fw))))"

text \<open>A batch of events of one listener stops at the first one that finds the forward gone.\<close>

fun apply_events ::
  "(nat \<Rightarrow> bool) \<Rightarrow> nat \<Rightarrow> forward_event list \<Rightarrow> 'c forwards \<Rightarrow> 'c forwards" where
  "apply_events alive i [] fw = fw"
| "apply_events alive i (ev # evs) fw =
     (case apply_event alive i ev fw of
        (True, fw') \<Rightarrow> apply_events alive i evs fw'
      | (False, fw') \<Rightarrow> fw')"

datatype reach_port = PortNumber nat | PortName str

record 'c reach_request =
  rq_client :: 'c
  rq_cluster :: cluster_id
  rq_namespace :: str
  rq_service :: str
  rq_port :: reach_port
  rq_title :: str
  rq_https :: bool
  rq_timeout :: nat
  rq_reconnect_grace :: "nat option"

text \<open>\<open>ReachPort::parse\<close>: a number, else a name.\<close>

definition reach_port_parse :: "str \<Rightarrow> reach_port" where
  "reach_port_parse port =
     (case parse_uint 16 port of Some n \<Rightarrow> PortNumber n | None \<Rightarrow> PortName port)"

datatype 'c reach_command = Open "'c reach_request" nat | Stop nat

definition reach_target :: "'c reach_request \<Rightarrow> nat \<Rightarrow> target" where
  "reach_target rq number =
     \<lparr>tg_cluster = rq_cluster rq, tg_namespace = rq_namespace rq, tg_kind = ToService (rq_service rq),
      tg_port = ServicePort (Some number), tg_bind_address = ''127.0.0.1'', tg_local_port = 0,
      tg_target = ref_object (rq_cluster rq)
        \<lparr>gvr_group = [], gvr_version = ''v1'', gvr_resource = ''services''\<rparr>
        (Some (rq_namespace rq)) (rq_service rq),
      tg_remote_port = Some number, tg_http = False, tg_https = rq_https rq,
      tg_open_browser = False, tg_ephemeral = Some (rq_title rq)\<rparr>"

fun handle :: "(nat \<Rightarrow> bool) \<Rightarrow> 'c reach_command \<Rightarrow> 'c forwards \<Rightarrow> 'c forwards" where
  "handle alive (Stop i) fw = (if fw_map fw i \<noteq> None then release i fw else fw)"
| "handle alive (Open rq reply) fw =
     (case rq_port rq of
        PortName _ \<Rightarrow> emit (Reply reply (Inl ''the port isn't resolved'')) fw
      | PortNumber number \<Rightarrow>
          (let (i, fw) = next_id fw;
               fw = start i (rq_client rq) (reach_target rq number) fw;
               fw = emit (AfterTimeout i (rq_timeout rq)) (emit (Reaching i) fw);
               fw = fw\<lparr>fw_waiting := (fw_waiting fw)(i \<mapsto>
                      \<lparr>w_reply = reply, w_reconnect_grace = rq_reconnect_grace rq\<rparr>)\<rparr>
           in settle alive i fw))"

definition rekey :: "cluster_id \<Rightarrow> cluster_id \<Rightarrow> 'c forwards \<Rightarrow> 'c forwards" where
  "rekey from to fw = fw\<lparr>fw_map := (\<lambda>i. map_option
     (\<lambda>f. if tg_cluster (f_target f) = from then f\<lparr>f_target := (f_target f)\<lparr>tg_cluster := to\<rparr>\<rparr> else f)
     (fw_map fw i))\<rparr>"

section \<open>Queries\<close>

text \<open>Ids are handed out in order, so the forwards in the order of their ids are those below the next
  one.\<close>

definition forward_list :: "'c forwards \<Rightarrow> (nat \<times> 'c forward) list" where
  "forward_list fw =
     List.map_filter (\<lambda>i. map_option (Pair i) (fw_map fw i)) [0 ..< fw_next fw]"

definition fw_clusters :: "'c forwards \<Rightarrow> cluster_id list" where
  "fw_clusters fw = remdups (map (\<lambda>(_, f). tg_cluster (f_target f)) (forward_list fw))"

definition disconnected :: "(cluster_id \<Rightarrow> bool) \<Rightarrow> 'c forwards \<Rightarrow> nat list" where
  "disconnected is_connected fw =
     map fst (filter (\<lambda>(_, f). \<not> is_connected (tg_cluster (f_target f))) (forward_list fw))"

record forward_info =
  fi_state :: forward_state
  fi_local_port :: nat
  fi_pod :: "str option"
  fi_remote_port :: "nat option"
  fi_connections :: nat
  fi_bytes_sent :: nat
  fi_bytes_received :: nat

definition info :: "nat \<Rightarrow> 'c forwards \<Rightarrow> forward_info option" where
  "info i fw = map_option (\<lambda>f.
     \<lparr>fi_state = f_state f, fi_local_port = f_local_port f, fi_pod = f_resolved_pod f,
      fi_remote_port = f_resolved_port f, fi_connections = f_connections f,
      fi_bytes_sent = f_bytes_sent f, fi_bytes_received = f_bytes_received f\<rparr>) (fw_map fw i)"

record active_forward =
  af_id :: nat
  af_target :: resource_ref
  af_remote_port :: "nat option"
  af_local :: "str option"
  af_url :: "str option"

definition active :: "'c forwards \<Rightarrow> active_forward list" where
  "active fw =
     map (\<lambda>(i, f). (let listening = (f_state f = Listening \<and> f_local_port f \<noteq> 0)
       in \<lparr>af_id = i, af_target = tg_target (f_target f), af_remote_port = tg_remote_port (f_target f),
           af_local = (if listening then Some (forward_local f) else None),
           af_url = (if listening \<and> tg_http (f_target f) then Some (forward_url f) else None)\<rparr>))
     (filter (\<lambda>(_, f). tg_ephemeral (f_target f) = None) (forward_list fw))"

definition last_url :: "'c forwards \<Rightarrow> str option" where
  "last_url fw =
     (let live = filter (\<lambda>(_, f). f_local_port f \<noteq> 0 \<and> tg_ephemeral (f_target f) = None \<and>
                    tg_http (f_target f) \<and> is_live f) (forward_list fw)
      in if live = [] then None else Some (forward_url (snd (last live))))"

section \<open>Steps\<close>

text \<open>Everything that reaches the core: the UI starting or stopping a forward, a cluster changing its id,
  a request of another feature, and the reports of tasks and timers.  Starting takes the next id.\<close>

datatype 'c forwards_op =
    Begin 'c target
  | Remove nat
  | Rekey cluster_id cluster_id
  | Handle "'c reach_command"
  | Listener_Failed nat str
  | Events nat "forward_event list"
  | Check_Done nat "str + resolved"
  | Probe_Fires nat
  | Grace_Fires nat
  | Timeout_Fires nat

fun forwards_step :: "(nat \<Rightarrow> bool) \<Rightarrow> 'c forwards_op \<Rightarrow> 'c forwards \<Rightarrow> 'c forwards" where
  "forwards_step alive (Begin client t) fw = (let (i, fw) = next_id fw in start i client t fw)"
| "forwards_step alive (Remove i) fw = remove i fw"
| "forwards_step alive (Rekey a b) fw = rekey a b fw"
| "forwards_step alive (Handle cmd) fw = handle alive cmd fw"
| "forwards_step alive (Listener_Failed i err) fw = listener_failed alive i err fw"
| "forwards_step alive (Events i evs) fw = apply_events alive i evs fw"
| "forwards_step alive (Check_Done i r) fw = finish_check alive i r fw"
| "forwards_step alive (Probe_Fires i) fw = probe_fires i fw"
| "forwards_step alive (Grace_Fires i) fw = grace_fires i fw"
| "forwards_step alive (Timeout_Fires i) fw = timeout_fires i fw"

section \<open>The invariant\<close>

text \<open>A request may wait only for a forward that neither listens nor failed.\<close>

definition may_wait :: "'c forward \<Rightarrow> bool" where
  "may_wait f \<longleftrightarrow> (case f_state f of Starting \<Rightarrow> True | Reconnecting _ \<Rightarrow> True
     | Listening \<Rightarrow> f_local_port f = 0 | Failed _ \<Rightarrow> False)"

text \<open>The part every intermediate state keeps: waiting requests and watchers belong to different
  forwards that exist, and ids are below the next one.\<close>

definition fw_wf :: "'c forwards \<Rightarrow> bool" where
  "fw_wf fw \<longleftrightarrow>
     (\<forall>i. fw_map fw i \<noteq> None \<longrightarrow> i < fw_next fw) \<and>
     (\<forall>i. fw_waiting fw i \<noteq> None \<longrightarrow> fw_map fw i \<noteq> None \<and> i \<notin> fw_watchers fw) \<and>
     (\<forall>i \<in> fw_watchers fw. fw_map fw i \<noteq> None)"

definition settled_but :: "nat \<Rightarrow> 'c forwards \<Rightarrow> bool" where
  "settled_but j fw \<longleftrightarrow>
     (\<forall>i f. i \<noteq> j \<longrightarrow> fw_waiting fw i \<noteq> None \<longrightarrow> fw_map fw i = Some f \<longrightarrow> may_wait f)"

definition settled :: "'c forwards \<Rightarrow> bool" where
  "settled fw \<longleftrightarrow> (\<forall>i f. fw_waiting fw i \<noteq> None \<longrightarrow> fw_map fw i = Some f \<longrightarrow> may_wait f)"

definition fw_inv :: "'c forwards \<Rightarrow> bool" where
  "fw_inv fw \<longleftrightarrow> fw_wf fw \<and> settled fw"

text \<open>What a reply channel has been answered, and the requests on it that still wait.\<close>

definition answers :: "nat \<Rightarrow> 'c forwards \<Rightarrow> nat" where
  "answers ch fw = length (filter (\<lambda>a. case a of Reply c _ \<Rightarrow> c = ch | _ \<Rightarrow> False) (fw_out fw))"

definition waits :: "nat \<Rightarrow> 'c forwards \<Rightarrow> nat set" where
  "waits ch fw = {i. \<exists>w. fw_waiting fw i = Some w \<and> w_reply w = ch}"

definition accounted :: "nat \<Rightarrow> 'c forwards \<Rightarrow> nat" where
  "accounted ch fw = answers ch fw + card (waits ch fw)"

lemma emit_fields [simp]:
  "fw_map (emit a fw) = fw_map fw" "fw_next (emit a fw) = fw_next fw"
  "fw_waiting (emit a fw) = fw_waiting fw" "fw_watchers (emit a fw) = fw_watchers fw"
  by (simp_all add: emit_def)

lemma update_forward_fields [simp]:
  "fw_next (update_forward i u fw) = fw_next fw"
  "fw_waiting (update_forward i u fw) = fw_waiting fw"
  "fw_watchers (update_forward i u fw) = fw_watchers fw"
  "fw_map (update_forward i u fw) j = (if j = i then map_option u (fw_map fw i) else fw_map fw j)"
  by (auto simp: update_forward_def split: option.splits)

lemma wf_emit [simp]: "fw_wf (emit a fw) = fw_wf fw"
  by (simp add: fw_wf_def)

lemma wf_update [simp]: "fw_wf (update_forward i u fw) = fw_wf fw"
  by (auto simp: fw_wf_def)

lemma settled_emit [simp]: "settled (emit a fw) = settled fw" "settled_but j (emit a fw) = settled_but j fw"
  by (simp_all add: settled_def settled_but_def)

lemma settled_but_update [simp]: "settled_but i (update_forward i u fw) = settled_but i fw"
  by (simp add: settled_but_def)

lemma settled_update:
  "settled fw \<Longrightarrow> (\<And>f. fw_map fw i = Some f \<Longrightarrow> may_wait f \<Longrightarrow> may_wait (u f)) \<Longrightarrow> settled (update_forward i u fw)"
  by (auto simp: settled_def)

lemma settled_imp_but: "settled fw \<Longrightarrow> settled_but j fw"
  by (auto simp: settled_def settled_but_def)

lemma may_wait_probe [simp]: "may_wait (f\<lparr>f_probe := b\<rparr>) = may_wait f"
  by (simp add: may_wait_def split: forward_state.splits)

lemma answers_emit:
  "answers ch (emit a fw) = answers ch fw + (case a of Reply c _ \<Rightarrow> if c = ch then 1 else 0 | _ \<Rightarrow> 0)"
  by (simp add: answers_def emit_def split: action.splits)

lemma waits_emit [simp]: "waits ch (emit a fw) = waits ch fw"
  by (simp add: waits_def)

lemma out_fields [simp]:
  "fw_out (update_forward i u fw) = fw_out fw"
  by (simp add: update_forward_def split: option.splits)

lemma account_update [simp]: "accounted ch (update_forward i u fw) = accounted ch fw"
  by (simp add: accounted_def answers_def waits_def)

definition no_reply :: "action \<Rightarrow> bool" where
  "no_reply a \<longleftrightarrow> (case a of Reply _ _ \<Rightarrow> False | _ \<Rightarrow> True)"

lemma account_emit: "no_reply a \<Longrightarrow> accounted ch (emit a fw) = accounted ch fw"
  by (cases a) (simp_all add: no_reply_def accounted_def answers_emit)

lemma no_reply_simps [simp]:
  "no_reply (Changed i)" "no_reply (OpenUrl s)" "no_reply (Reaching i)" "no_reply (Released i)"
  "no_reply Emit" "no_reply Notify" "no_reply (Toast s)" "no_reply (SpawnListener i)"
  "no_reply (SpawnCheck i)" "no_reply (AfterProbe i)" "no_reply (AfterGrace i g)"
  "no_reply (AfterTimeout i g)"
  by (simp_all add: no_reply_def)

lemma waits_finite: "fw_wf fw \<Longrightarrow> finite (waits ch fw)"
proof -
  assume "fw_wf fw"
  then have "waits ch fw \<subseteq> {..< fw_next fw}"
    by (auto simp: waits_def fw_wf_def)
  then show ?thesis by (rule finite_subset) simp
qed

text \<open>Answering a waiting request keeps the account.\<close>

lemma account_answer:
  assumes "fw_wf fw" "fw_waiting fw i = Some w"
  shows "accounted ch (emit (Reply (w_reply w) r) (fw\<lparr>fw_waiting := (fw_waiting fw)(i := None)\<rparr>)) =
    accounted ch fw"
proof -
  let ?fw = "fw\<lparr>fw_waiting := (fw_waiting fw)(i := None)\<rparr>"
  have w: "waits ch ?fw = waits ch fw - {i}"
    by (auto simp: waits_def)
  have "answers ch ?fw = answers ch fw" by (simp add: answers_def)
  moreover have "i \<in> waits ch fw \<longleftrightarrow> w_reply w = ch"
    using assms(2) by (auto simp: waits_def)
  moreover have "card (waits ch fw - {i}) = card (waits ch fw) - (if w_reply w = ch then 1 else 0)"
    using calculation(2) by (simp add: card_Diff_singleton_if)
  moreover have "w_reply w = ch \<Longrightarrow> 0 < card (waits ch fw)"
    using calculation(2) waits_finite [OF assms(1)] by (auto simp: card_gt_0_iff)
  ultimately show ?thesis
    unfolding accounted_def answers_emit waits_emit w by auto
qed

section \<open>Each operation keeps it\<close>

lemma wf_drop_waiting: "fw_wf fw \<Longrightarrow> fw_wf (fw\<lparr>fw_waiting := (fw_waiting fw)(i := None)\<rparr>)"
  by (auto simp: fw_wf_def)

lemma remove_keeps:
  assumes "fw_wf fw"
  shows "fw_wf (remove i fw)" "settled_but i fw \<Longrightarrow> settled (remove i fw)"
    "accounted ch (remove i fw) = accounted ch fw" "fw_map (remove i fw) = (fw_map fw)(i := None)"
proof -
  show "fw_wf (remove i fw)"
    using assms by (auto simp: remove_def fw_wf_def Let_def split: option.splits)
  have waiting: "fw_waiting (remove i fw) = (fw_waiting fw)(i := None)"
    using assms by (auto simp: remove_def fw_wf_def Let_def fun_eq_iff split: option.splits)
  have map: "fw_map (remove i fw) = (fw_map fw)(i := None)"
    by (auto simp: remove_def Let_def split: option.splits)
  show "settled (remove i fw)" if "settled_but i fw"
    using that by (simp add: settled_def settled_but_def waiting map)
  let ?gone = "fw\<lparr>fw_map := (fw_map fw)(i := None), fw_watchers := fw_watchers fw - {i}\<rparr>"
  show "fw_map (remove i fw) = (fw_map fw)(i := None)"
    by (auto simp: remove_def Let_def split: option.splits)
  show "accounted ch (remove i fw) = accounted ch fw"
  proof (cases "fw_waiting fw i")
    case None
    have "accounted ch ?gone = accounted ch fw"
      by (simp add: accounted_def answers_def waits_def)
    with None show ?thesis
      by (simp add: remove_def Let_def account_emit split: option.splits)
  next
    case (Some w)
    let ?rest = "fw\<lparr>fw_waiting := (fw_waiting fw)(i := None)\<rparr>"
    have "accounted ch (emit (Reply (w_reply w) r) (?gone\<lparr>fw_waiting := (fw_waiting fw)(i := None)\<rparr>)) =
        accounted ch (emit (Reply (w_reply w) r) ?rest)" for r
      by (simp add: accounted_def answers_def waits_def emit_def)
    with Some account_answer [OF assms Some] show ?thesis
      by (simp add: remove_def Let_def account_emit split: option.splits)
  qed
qed

lemma release_keeps:
  assumes "fw_wf fw"
  shows "fw_wf (release i fw)" "settled_but i fw \<Longrightarrow> settled (release i fw)"
    "accounted ch (release i fw) = accounted ch fw"
  using remove_keeps [OF assms] by (simp_all add: release_def account_emit)

lemma give_up_keeps:
  assumes "fw_wf fw"
  shows "fw_wf (give_up i err fw)" "accounted ch (give_up i err fw) = accounted ch fw"
    "settled fw \<Longrightarrow> settled (give_up i err fw)"
    "settled_but i fw \<Longrightarrow> fw_waiting fw i \<noteq> None \<Longrightarrow> settled (give_up i err fw)"
proof -
  show "fw_wf (give_up i err fw)"
    using assms by (auto simp: give_up_def split: option.splits intro!: release_keeps wf_drop_waiting)
  show "accounted ch (give_up i err fw) = accounted ch fw"
    using assms
    by (auto simp: give_up_def release_keeps wf_drop_waiting account_answer split: option.splits)
  have but: "settled (give_up i err fw)" if "settled_but i fw" "fw_waiting fw i \<noteq> None"
  proof -
    from that obtain w where w: "fw_waiting fw i = Some w" by auto
    have "settled_but i (fw\<lparr>fw_waiting := (fw_waiting fw)(i := None)\<rparr>)"
      using that by (simp add: settled_but_def)
    then show ?thesis
      using w assms by (simp add: give_up_def release_keeps wf_drop_waiting)
  qed
  show "settled_but i fw \<Longrightarrow> fw_waiting fw i \<noteq> None \<Longrightarrow> settled (give_up i err fw)" by (rule but)
  show "settled fw \<Longrightarrow> settled (give_up i err fw)"
    using but settled_imp_but by (cases "fw_waiting fw i") (auto simp: give_up_def)
qed

lemma settle_keeps:
  assumes "fw_wf fw"
  shows "fw_wf (settle alive i fw)" "accounted ch (settle alive i fw) = accounted ch fw"
    "settled_but i fw \<Longrightarrow> settled (settle alive i fw)"
proof -
  have answer: "fw_wf (emit (Reply (w_reply w) r) (fw\<lparr>fw_waiting := (fw_waiting fw)(i := None)\<rparr>))"
    for w r using assms by (simp add: wf_drop_waiting)
  have watch: "fw_wf (emit a (fw\<lparr>fw_waiting := (fw_waiting fw)(i := None)\<rparr>)
      \<lparr>fw_watchers := insert i (fw_watchers fw)\<rparr>)" if "fw_map fw i = Some f" for a f
    using assms that by (auto simp: fw_wf_def)
  have grace: "fw_wf (fw\<lparr>fw_waiting := (fw_waiting fw)(i \<mapsto> w\<lparr>w_reconnect_grace := None\<rparr>)\<rparr>)"
    if "fw_waiting fw i = Some w" for w
    using assms that by (auto simp: fw_wf_def)
  show "fw_wf (settle alive i fw)"
    using assms answer grace
    by (auto simp: settle_def Let_def give_up_keeps release_keeps watch split: option.splits forward_state.splits)
  have acc_watch: "accounted ch (fw'\<lparr>fw_watchers := s\<rparr>) = accounted ch fw'" for fw' :: "'a forwards" and s
    by (simp add: accounted_def answers_def waits_def)
  have acc_grace: "accounted ch (fw\<lparr>fw_waiting := (fw_waiting fw)(i \<mapsto> w\<lparr>w_reconnect_grace := None\<rparr>)\<rparr>) = accounted ch fw"
    if "fw_waiting fw i = Some w" for w
  proof -
    have "waits ch (fw\<lparr>fw_waiting := (fw_waiting fw)(i \<mapsto> w\<lparr>w_reconnect_grace := None\<rparr>)\<rparr>) = waits ch fw"
      using that by (auto simp: waits_def)
    then show ?thesis by (simp add: accounted_def answers_def)
  qed
  show "accounted ch (settle alive i fw) = accounted ch fw"
    using assms answer
    by (auto simp: settle_def Let_def give_up_keeps release_keeps acc_watch acc_grace account_emit
        account_answer split: option.splits forward_state.splits)
  assume but: "settled_but i fw"
  show "settled (settle alive i fw)"
  proof (cases "fw_waiting fw i")
    case None
    then have "settled fw"
      using but by (auto simp: settled_def settled_but_def) (metis option.distinct(1))
    with None show ?thesis
      by (auto simp: settle_def give_up_def split: option.splits forward_state.splits)
  next
    case (Some w)
    let ?drop = "fw\<lparr>fw_waiting := (fw_waiting fw)(i := None)\<rparr>"
    have dropped: "settled_but i (emit a ?drop)" "settled (emit a ?drop)" for a
      using but by (simp_all add: settled_def settled_but_def)
    have watched: "settled (fw'\<lparr>fw_watchers := s\<rparr>) = settled fw'" for fw' :: "'a forwards" and s
      by (simp add: settled_def)
    from assms Some obtain f where f: "fw_map fw i = Some f"
      by (auto simp: fw_wf_def)
    show ?thesis
    proof (cases "may_wait f")
      case True
      then have "settled fw"
        using but f by (auto simp: settled_def settled_but_def) (metis option.inject)
      moreover have "settled (fw\<lparr>fw_waiting := (fw_waiting fw)(i \<mapsto> w')\<rparr>)" if "settled fw" for w'
        using that Some by (auto simp: settled_def split: if_splits)
      ultimately show ?thesis
        using True f Some
        by (auto simp: settle_def may_wait_def split: option.splits forward_state.splits)
    next
      case False
      then show ?thesis
        using f Some dropped but assms answer
        by (auto simp: settle_def may_wait_def Let_def watched release_keeps give_up_keeps
            split: option.splits forward_state.splits)
    qed
  qed
qed

text \<open>A handler that changes one forward and settles it keeps the invariant.\<close>

lemma settled_change:
  assumes "fw_inv fw" "fw_wf fw'" "settled_but i fw'"
  shows "fw_inv (settle alive i fw')"
  using settle_keeps assms by (auto simp: fw_inv_def)

lemma inv_update_settle:
  assumes "fw_inv fw"
  shows "fw_inv (settle alive i (emit a (update_forward i u fw)))"
  using assms by (intro settled_change [OF assms]) (simp_all add: fw_inv_def settled_imp_but)

lemma check_target_keeps:
  shows "fw_wf (check_target i fw) = fw_wf fw"
    and "settled_but i (check_target i fw) = settled_but i fw"
    and "settled fw \<Longrightarrow> settled (check_target i fw)"
    and "accounted ch (check_target i fw) = accounted ch fw"
    and "fw_waiting (check_target i fw) = fw_waiting fw"
  by (auto simp: check_target_def account_emit intro!: settled_update split: option.splits)

lemma finish_check_inv: "fw_inv fw \<Longrightarrow> fw_inv (finish_check alive i r fw)"
proof (cases r)
  case (Inl err)
  assume inv: "fw_inv fw"
  have "fw_inv (update_forward i (\<lambda>f. f\<lparr>f_probe := b\<rparr>) fw')" if "fw_inv fw'" for b and fw' :: "'a forwards"
    using that by (auto simp: fw_inv_def intro: settled_update)
  moreover have "fw_inv (emit a fw')" if "fw_inv fw'" for a and fw' :: "'a forwards"
    using that by (simp add: fw_inv_def)
  ultimately show ?thesis
    using Inl inv by (auto simp: finish_check_def Let_def inv_update_settle split: option.splits)
next
  case (Inr x)
  then show "fw_inv fw \<Longrightarrow> ?thesis"
    by (auto simp: finish_check_def inv_update_settle split: option.splits)
qed

lemma set_state_inv: "fw_inv fw \<Longrightarrow> fw_inv (set_state alive i s fw)"
  by (auto simp: set_state_def inv_update_settle split: option.splits)

lemma event_update_keeps:
  "fw_wf (event_update i ev fw) = fw_wf fw" "settled_but i (event_update i ev fw) = settled_but i fw"
  "accounted ch (event_update i ev fw) = accounted ch fw"
  by (auto simp: event_update_def Let_def check_target_keeps account_emit
      split: forward_event.splits option.splits)

lemma apply_event_inv: "fw_inv fw \<Longrightarrow> fw_inv (snd (apply_event alive i ev fw))"
  by (auto simp: apply_event_def fw_inv_def event_update_keeps settled_imp_but settle_keeps split: option.splits)

lemma apply_events_inv: "fw_inv fw \<Longrightarrow> fw_inv (apply_events alive i evs fw)"
proof (induction evs arbitrary: fw)
  case (Cons ev evs)
  have "fw_inv (snd (apply_event alive i ev fw))" by (rule apply_event_inv [OF Cons.prems])
  with Cons.IH show ?case
    by (cases "apply_event alive i ev fw") (auto split: bool.splits)
qed simp

lemma start_keeps:
  assumes "fw_wf fw" "i < fw_next fw" "fw_map fw i = None"
  shows "fw_wf (start i client t fw)" "settled fw \<Longrightarrow> settled (start i client t fw)"
    "accounted ch (start i client t fw) = accounted ch fw"
    "fw_map (start i client t fw) i \<noteq> None" "fw_waiting (start i client t fw) = fw_waiting fw"
    "fw_watchers (start i client t fw) = fw_watchers fw"
proof -
  let ?new = "\<lambda>f. (emit (SpawnListener i) fw)\<lparr>fw_map := (fw_map fw)(i \<mapsto> f)\<rparr>"
  have wf: "fw_wf (?new f)" for f
    using assms by (auto simp: fw_wf_def)
  have no_wait: "fw_waiting fw i = None"
    using assms by (cases "fw_waiting fw i") (auto simp: fw_wf_def)
  have st: "settled fw \<Longrightarrow> settled (?new f)" for f
    using no_wait by (auto simp: settled_def)
  have acc: "accounted ch (?new f) = accounted ch fw" for f
    by (simp add: accounted_def answers_def waits_def emit_def)
  show "fw_wf (start i client t fw)"
    using wf by (simp add: start_def Let_def check_target_keeps)
  show "settled fw \<Longrightarrow> settled (start i client t fw)"
    using st by (simp add: start_def Let_def check_target_keeps)
  show "accounted ch (start i client t fw) = accounted ch fw"
    using acc by (simp add: start_def Let_def check_target_keeps account_emit)
  show "fw_map (start i client t fw) i \<noteq> None" "fw_waiting (start i client t fw) = fw_waiting fw"
    "fw_watchers (start i client t fw) = fw_watchers fw"
    by (simp_all add: start_def Let_def check_target_def)
qed

lemma next_id_keeps:
  assumes "fw_wf fw"
  shows "fw_wf (snd (next_id fw))" "fw_map (snd (next_id fw)) (fst (next_id fw)) = None"
    "fst (next_id fw) < fw_next (snd (next_id fw))"
    "settled (snd (next_id fw)) = settled fw" "accounted ch (snd (next_id fw)) = accounted ch fw"
proof -
  show "fw_wf (snd (next_id fw))"
    using assms by (auto simp: next_id_def fw_wf_def less_Suc_eq)
  show "fw_map (snd (next_id fw)) (fst (next_id fw)) = None"
    using assms by (auto simp: next_id_def fw_wf_def)
  show "fst (next_id fw) < fw_next (snd (next_id fw))"
    "settled (snd (next_id fw)) = settled fw" "accounted ch (snd (next_id fw)) = accounted ch fw"
    by (simp_all add: next_id_def settled_def accounted_def answers_def waits_def)
qed

lemma handle_keeps:
  assumes "fw_inv fw"
  shows "fw_inv (handle alive cmd fw)"
    "accounted ch (handle alive cmd fw) =
       accounted ch fw + (case cmd of Open _ reply \<Rightarrow> if reply = ch then 1 else 0 | _ \<Rightarrow> 0)"
proof -
  have "fw_inv (handle alive cmd fw) \<and> accounted ch (handle alive cmd fw) =
       accounted ch fw + (case cmd of Open _ reply \<Rightarrow> if reply = ch then 1 else 0 | _ \<Rightarrow> 0)"
  proof (cases cmd)
    case (Stop i)
    then show ?thesis
      using assms by (auto simp: fw_inv_def release_keeps settled_imp_but)
  next
    case (Open rq reply)
    show ?thesis
    proof (cases "rq_port rq")
      case (PortName n)
      then show ?thesis
        using assms Open by (simp add: fw_inv_def accounted_def answers_emit)
    next
      case (PortNumber n)
      obtain i fw1 where fw1: "next_id fw = (i, fw1)" by force
      define fw2 where "fw2 = emit (AfterTimeout i (rq_timeout rq)) (emit (Reaching i)
        (start i (rq_client rq) (reach_target rq n) fw1))"
      let ?w = "\<lparr>w_reply = reply, w_reconnect_grace = rq_reconnect_grace rq\<rparr>"
      let ?fw3 = "fw2\<lparr>fw_waiting := (fw_waiting fw2)(i \<mapsto> ?w)\<rparr>"
      have wf: "fw_wf fw" and st: "settled fw" using assms by (simp_all add: fw_inv_def)
      note fresh = next_id_keeps [OF wf, unfolded fw1 fst_conv snd_conv]
      note started = start_keeps [OF fresh(1,3,2), where client = "rq_client rq" and t = "reach_target rq n"]
      have wf2: "fw_wf fw2" and st2: "settled fw2" and acc2: "accounted ch fw2 = accounted ch fw"
        using started fresh st by (simp_all add: fw2_def account_emit)
      have no_wait: "fw_waiting fw2 i = None" and no_watch: "i \<notin> fw_watchers fw2"
        using fresh(1,2) started by (auto simp: fw2_def fw_wf_def)
      have wf3: "fw_wf ?fw3"
        using wf2 no_watch started(4) by (auto simp: fw2_def fw_wf_def)
      have st3: "settled_but i ?fw3"
        using st2 by (simp add: settled_def settled_but_def)
      have waits3: "waits ch ?fw3 = (if reply = ch then insert i (waits ch fw2) else waits ch fw2)"
        using no_wait by (auto simp: waits_def)
      have "i \<notin> waits ch fw2" using no_wait by (auto simp: waits_def)
      moreover have "answers ch ?fw3 = answers ch fw2" by (simp add: answers_def)
      ultimately have acc3: "accounted ch ?fw3 = accounted ch fw + (if reply = ch then 1 else 0)"
        using acc2 waits_finite [OF wf2, of ch] by (simp add: accounted_def waits3)
      have "handle alive cmd fw = settle alive i ?fw3"
        using Open PortNumber fw1 by (simp add: Let_def fw2_def)
      then show ?thesis
        using settle_keeps(1,3) [OF wf3, where alive = alive and i = i]
          settle_keeps(2) [OF wf3, where alive = alive and i = i and ch = ch] st3 acc3 Open by (simp add: fw_inv_def)
    qed
  qed
  then show "fw_inv (handle alive cmd fw)"
    "accounted ch (handle alive cmd fw) =
       accounted ch fw + (case cmd of Open _ reply \<Rightarrow> if reply = ch then 1 else 0 | _ \<Rightarrow> 0)"
    by simp_all
qed

lemma rekey_keeps:
  "fw_inv fw \<Longrightarrow> fw_inv (rekey a b fw)" "accounted ch (rekey a b fw) = accounted ch fw"
proof -
  have wait: "may_wait (f\<lparr>f_target := t\<rparr>) = may_wait f" for t and f :: "'a forward"
    by (simp add: may_wait_def split: forward_state.splits)
  show "fw_inv fw \<Longrightarrow> fw_inv (rekey a b fw)"
    by (auto simp: fw_inv_def fw_wf_def settled_def rekey_def wait)
  show "accounted ch (rekey a b fw) = accounted ch fw"
    by (simp add: rekey_def accounted_def answers_def waits_def)
qed

lemma forwards_step_inv: "fw_inv fw \<Longrightarrow> fw_inv (forwards_step alive x fw)"
proof (cases x)
  case (Begin client t)
  assume "fw_inv fw"
  then show ?thesis
    using Begin next_id_keeps [of fw] start_keeps [where fw = "snd (next_id fw)" and i = "fst (next_id fw)" and client = client and t = t]
    by (simp add: fw_inv_def case_prod_beta)
next
  case (Listener_Failed i err)
  assume "fw_inv fw"
  then have "fw_inv (set_state alive i (Failed err) fw)" by (rule set_state_inv)
  then show ?thesis using Listener_Failed by (simp add: listener_failed_def fw_inv_def)
qed (auto simp: fw_inv_def remove_keeps give_up_keeps settled_imp_but probe_fires_def grace_fires_def
    timeout_fires_def check_target_keeps handle_keeps(1) [unfolded fw_inv_def]
    rekey_keeps(1) [unfolded fw_inv_def] apply_events_inv [unfolded fw_inv_def]
    finish_check_inv [unfolded fw_inv_def] split: option.splits forward_state.splits)

interpretation forwarding: machine "forwards_step alive" fw_inv for alive
  by unfold_locales (rule forwards_step_inv)

lemma forwards_new_inv: "fw_inv forwards_new"
  by (simp add: fw_inv_def fw_wf_def settled_def forwards_new_def)

section \<open>Accounts and final states over a step\<close>

definition opens :: "nat \<Rightarrow> 'c forwards_op \<Rightarrow> nat" where
  "opens ch x = (case x of Handle (Open _ reply) \<Rightarrow> if reply = ch then 1 else 0 | _ \<Rightarrow> 0)"

lemma apply_event_account:
  "fw_wf fw \<Longrightarrow> accounted ch (snd (apply_event alive i ev fw)) = accounted ch fw"
  by (auto simp: apply_event_def settle_keeps event_update_keeps account_emit split: option.splits)

lemma apply_events_account:
  "fw_inv fw \<Longrightarrow> accounted ch (apply_events alive i evs fw) = accounted ch fw"
proof (induction evs arbitrary: fw)
  case (Cons ev evs)
  have "fw_inv (snd (apply_event alive i ev fw))" by (rule apply_event_inv [OF Cons.prems])
  moreover have "accounted ch (snd (apply_event alive i ev fw)) = accounted ch fw"
    using Cons.prems by (intro apply_event_account) (simp add: fw_inv_def)
  ultimately show ?case
    using Cons.IH by (cases "apply_event alive i ev fw") (auto split: bool.splits)
qed simp

lemma forwards_step_account:
  assumes "fw_inv fw"
  shows "accounted ch (forwards_step alive x fw) = accounted ch fw + opens ch x"
proof -
  have wf: "fw_wf fw" using assms by (simp add: fw_inv_def)
  show ?thesis
  proof (cases x)
    case (Begin client t)
    then show ?thesis
      using next_id_keeps [OF wf]
        start_keeps(3) [where fw = "snd (next_id fw)" and i = "fst (next_id fw)" and client = client and t = t]
      by (simp add: case_prod_beta opens_def)
  next
    case (Handle cmd)
    then show ?thesis
      using handle_keeps(2) [OF assms] by (simp add: opens_def split: reach_command.splits)
  next
    case (Listener_Failed i err)
    then show ?thesis
      using wf by (simp add: listener_failed_def set_state_def settle_keeps account_emit opens_def split: option.splits)
  next
    case (Check_Done i r)
    then show ?thesis
      using wf by (auto simp: finish_check_def Let_def settle_keeps account_emit opens_def
          split: option.splits sum.splits)
  qed (auto simp: wf assms remove_keeps rekey_keeps apply_events_account probe_fires_def grace_fires_def
      timeout_fires_def check_target_keeps give_up_keeps opens_def split: option.splits forward_state.splits)
qed

text \<open>Failed, or gone for good: its id was given and is not given again.\<close>

definition failed_or_gone :: "nat \<Rightarrow> 'c forwards \<Rightarrow> bool" where
  "failed_or_gone i fw \<longleftrightarrow> i < fw_next fw \<and>
     (case fw_map fw i of None \<Rightarrow> True | Some f \<Rightarrow> is_failed (f_state f))"

lemma failed_or_gone_emit [simp]: "failed_or_gone j (emit a fw) = failed_or_gone j fw"
  by (simp add: failed_or_gone_def)

lemma next_keeps [simp]:
  "fw_next (remove i fw) = fw_next fw" "fw_next (release i fw) = fw_next fw"
  "fw_next (give_up i e fw) = fw_next fw" "fw_next (settle alive i fw) = fw_next fw"
  by (simp_all add: remove_def release_def give_up_def settle_def Let_def
      split: option.splits forward_state.splits)

lemma remove_map: "fw_map (remove i fw) j = (if j = i then None else fw_map fw j)"
  by (auto simp: remove_def Let_def split: option.splits)

lemma give_up_map:
  "fw_map (give_up i e fw) j = (if j = i \<and> fw_waiting fw i \<noteq> None then None else fw_map fw j)"
  by (auto simp: give_up_def release_def remove_map split: option.splits)

lemma settle_map: "fw_map (settle alive i fw) j = None \<or> fw_map (settle alive i fw) j = fw_map fw j"
  by (auto simp: settle_def release_def remove_map give_up_map Let_def
      split: option.splits forward_state.splits)

lemma failed_or_gone_sub:
  "failed_or_gone j fw \<Longrightarrow> fw_next fw' = fw_next fw \<Longrightarrow>
     fw_map fw' j = None \<or> fw_map fw' j = fw_map fw j \<Longrightarrow> failed_or_gone j fw'"
  by (auto simp: failed_or_gone_def)

lemma failed_or_gone_less:
  "failed_or_gone j fw \<Longrightarrow> failed_or_gone j (remove i fw)"
  "failed_or_gone j fw \<Longrightarrow> failed_or_gone j (release i fw)"
  "failed_or_gone j fw \<Longrightarrow> failed_or_gone j (give_up i e fw)"
  "failed_or_gone j fw \<Longrightarrow> failed_or_gone j (settle alive i fw)"
  by (erule failed_or_gone_sub; simp add: remove_map release_def give_up_map settle_map)+

lemma failed_or_gone_update:
  "failed_or_gone j fw \<Longrightarrow> (\<And>f. is_failed (f_state f) \<Longrightarrow> is_failed (f_state (u f))) \<Longrightarrow>
     failed_or_gone j (update_forward i u fw)"
  by (auto simp: failed_or_gone_def split: option.splits)

lemma failed_or_gone_update_here:
  "failed_or_gone j fw \<Longrightarrow> fw_map fw i = Some f \<Longrightarrow> \<not> is_failed (f_state f) \<Longrightarrow>
     failed_or_gone j (update_forward i u fw)"
  by (auto simp: failed_or_gone_def split: option.splits)

lemma failed_or_gone_check [simp]: "failed_or_gone j (check_target i fw) = failed_or_gone j fw"
  by (auto simp: check_target_def failed_or_gone_def split: option.splits)

lemma is_failed_not: "is_failed s \<Longrightarrow> \<not> is_reconnecting s \<and> s \<noteq> Starting"
  by (cases s) (simp_all add: is_failed_def is_reconnecting_def)

lemma failed_or_gone_event:
  assumes "failed_or_gone j fw"
  shows "failed_or_gone j (event_update i ev fw)"
proof (cases ev)
  case (EvError m)
  then show ?thesis
    using assms
    by (auto simp: event_update_def Let_def intro: failed_or_gone_update_here split: option.splits)
qed (use assms in \<open>auto simp: event_update_def Let_def is_failed_not intro!: failed_or_gone_update split: option.splits\<close>)

lemma failed_or_gone_events: "failed_or_gone j fw \<Longrightarrow> failed_or_gone j (apply_events alive i evs fw)"
proof (induction evs arbitrary: fw)
  case (Cons ev evs)
  then have "failed_or_gone j (snd (apply_event alive i ev fw))"
    by (auto simp: apply_event_def failed_or_gone_less failed_or_gone_event split: option.splits)
  with Cons.IH Cons.prems show ?case
    by (cases "apply_event alive i ev fw") (auto split: bool.splits)
qed simp

lemma failed_or_gone_check_done: "failed_or_gone j fw \<Longrightarrow> failed_or_gone j (finish_check alive i r fw)"
proof (cases r)
  case (Inl err)
  assume j: "failed_or_gone j fw"
  have probe: "failed_or_gone j (update_forward i (\<lambda>f. f\<lparr>f_probe := b\<rparr>) fw')"
    if "failed_or_gone j fw'" for b and fw' :: "'a forwards"
    using that by (rule failed_or_gone_update) simp
  show ?thesis
    using Inl j
    by (auto simp: finish_check_def Let_def failed_or_gone_less probe failed_or_gone_update_here
        split: option.splits)
next
  case (Inr x)
  then show "failed_or_gone j fw \<Longrightarrow> ?thesis"
    by (auto simp: finish_check_def is_failed_not split: option.splits
        intro!: failed_or_gone_less failed_or_gone_update)
qed

lemma failed_or_gone_next: "failed_or_gone j fw \<Longrightarrow> failed_or_gone j (snd (next_id fw)) \<and> j \<noteq> fst (next_id fw)"
  by (auto simp: next_id_def failed_or_gone_def)

lemma failed_or_gone_start: "failed_or_gone j fw \<Longrightarrow> j \<noteq> i \<Longrightarrow> failed_or_gone j (start i client t fw)"
  by (simp add: start_def Let_def) (simp add: failed_or_gone_def)

lemma failed_or_gone_step: "failed_or_gone j fw \<Longrightarrow> failed_or_gone j (forwards_step alive x fw)"
proof (cases x)
  case (Begin client t)
  then show "failed_or_gone j fw \<Longrightarrow> ?thesis"
    using failed_or_gone_next [of j fw] by (auto simp: case_prod_beta failed_or_gone_start)
next
  case (Rekey a b)
  then show "failed_or_gone j fw \<Longrightarrow> ?thesis"
    by (auto simp: rekey_def failed_or_gone_def split: option.splits)
next
  case (Handle cmd)
  assume j: "failed_or_gone j fw"
  have waiting: "failed_or_gone j (fw'\<lparr>fw_waiting := w\<rparr>) = failed_or_gone j fw'" for w and fw' :: "'a forwards"
    by (simp add: failed_or_gone_def)
  show ?thesis
    using Handle j failed_or_gone_next [OF j]
    by (cases cmd) (auto simp: Let_def case_prod_beta failed_or_gone_less waiting failed_or_gone_start
        split: reach_port.splits)
next
  case (Listener_Failed i err)
  then show "failed_or_gone j fw \<Longrightarrow> ?thesis"
    by (auto simp: listener_failed_def set_state_def is_failed_def split: option.splits
        intro!: failed_or_gone_less failed_or_gone_update)
qed (auto simp: failed_or_gone_less failed_or_gone_events failed_or_gone_check_done probe_fires_def
    grace_fires_def timeout_fires_def split: option.splits forward_state.splits)

section \<open>Properties\<close>

text \<open>C10: a request never waits in vain: whatever happened, in whatever order, every request that still waits
  does so for a forward that exists and neither listens on its port nor failed (those were answered),
  and that nobody was given yet.\<close>

theorem waiting_not_in_vain:
  fixes alive :: "nat \<Rightarrow> bool" and ops :: "'c forwards_op list"
  defines "fw \<equiv> fold (forwards_step alive) ops forwards_new"
  shows "case fw_waiting fw i of
      None \<Rightarrow> True
    | Some _ \<Rightarrow> i \<notin> fw_watchers fw \<and>
        (case fw_map fw i of
           None \<Rightarrow> False
         | Some f \<Rightarrow> f_state f = Starting \<or> is_reconnecting (f_state f)
                   \<or> (f_state f = Listening \<and> f_local_port f = 0))"
proof -
  have "fw_inv fw"
    unfolding fw_def by (rule forwarding.run_keeps [OF forwards_new_inv])
  then have wf: "fw_wf fw" and st: "settled fw" by (simp_all add: fw_inv_def)
  show ?thesis
  proof (cases "fw_waiting fw i")
    case (Some w)
    with wf obtain f where f: "fw_map fw i = Some f" "i \<notin> fw_watchers fw"
      by (auto simp: fw_wf_def)
    with Some st have "may_wait f" by (auto simp: settled_def)
    with Some f show ?thesis
      by (auto simp: may_wait_def is_reconnecting_def split: forward_state.splits)
  qed simp
qed

text \<open>C11: every request is answered exactly once or still waits: on each reply channel, the answers sent
  and the requests waiting are together as many as the requests made, whether the forward listened,
  failed, timed out, was stopped or its target never resolved.\<close>

theorem requests_answered_once:
  fixes alive :: "nat \<Rightarrow> bool" and ops :: "'c forwards_op list"
  defines "fw \<equiv> fold (forwards_step alive) ops forwards_new"
  shows "length (filter (\<lambda>a. case a of Reply c _ \<Rightarrow> c = ch | _ \<Rightarrow> False) (fw_out fw)) +
      card {i. \<exists>w. fw_waiting fw i = Some w \<and> w_reply w = ch} =
    length (filter (\<lambda>x. case x of Handle (Open _ reply) \<Rightarrow> reply = ch | _ \<Rightarrow> False) ops)"
proof -
  have "accounted ch fw = accounted ch (forwards_new :: 'c forwards) + sum_list (map (opens ch) ops)"
    unfolding fw_def
    by (rule forwarding.run_adds [OF forwards_new_inv]) (rule forwards_step_account)
  moreover have "accounted ch (forwards_new :: 'c forwards) = 0"
    by (simp add: accounted_def answers_def waits_def forwards_new_def)
  moreover have "sum_list (map (opens ch) ops) =
      length (filter (\<lambda>x. case x of Handle (Open _ reply) \<Rightarrow> reply = ch | _ \<Rightarrow> False) ops)"
    by (induction ops) (auto simp: opens_def split: forwards_op.splits reach_command.splits)
  ultimately show ?thesis by (simp add: accounted_def answers_def waits_def)
qed

text \<open>Failing to bind is final: whatever is reported afterwards, a failed forward stays failed until it
  is removed, and its id is never given to another forward.\<close>

lemma failed_is_final:
  assumes "fw_map (fold (forwards_step alive) ops forwards_new) i = Some f" "f_state f = Failed err"
  shows "case fw_map (fold (forwards_step alive) (ops @ later) forwards_new) i of
      None \<Rightarrow> True | Some g \<Rightarrow> is_failed (f_state g)"
proof -
  let ?fw = "fold (forwards_step alive) ops forwards_new"
  have "fw_inv ?fw" by (rule forwarding.run_keeps [OF forwards_new_inv])
  then have "failed_or_gone i ?fw"
    using assms by (auto simp: failed_or_gone_def fw_inv_def fw_wf_def is_failed_def)
  then have "failed_or_gone i (fold (forwards_step alive) later ?fw)"
    using forwarding.run_steps [where P = "failed_or_gone i"] failed_or_gone_step \<open>fw_inv ?fw\<close> by blast
  then show ?thesis by (simp add: failed_or_gone_def)
qed

definition web_target :: target where
  "web_target =
     \<lparr>tg_cluster = ''c1'', tg_namespace = ''shop'', tg_kind = ToService ''web'', tg_port = ServicePort (Some 80),
      tg_bind_address = ''127.0.0.1'', tg_local_port = 0,
      tg_target = \<lparr>rr_cluster = ''c1'', rr_gvr = \<lparr>gvr_group = [], gvr_version = ''v1'', gvr_resource = ''services''\<rparr>,
        rr_namespace = Some ''shop'', rr_name = Some ''web''\<rparr>,
      tg_remote_port = Some 80, tg_http = True, tg_https = False, tg_open_browser = False,
      tg_ephemeral = None\<rparr>"

end
