(* ===== verification/PaneGroup.thy ===== *)
theory PaneGroup
  imports BaseTypes
begin

text \<open>
  The split tree of the center area (\<open>crates/kubyl/src/workspace/pane_group.rs\<close>, the layout types of
  \<open>layout.rs\<close>).  A pane is an entity handle \<open>'p\<close>; what a persisted tab holds is \<open>'v\<close>.  Making a pane
  for a leaf of a layout changes the state \<open>'s\<close> of the application: \<open>make_pane\<close> is a parameter.
\<close>

section \<open>The tree and its operations\<close>

datatype split_axis = Horizontal | Vertical

datatype 'v pane_layout =
    PaneLeaf "'v list" nat
  | SplitLayout split_axis "'v pane_layout list"

datatype 'p member =
    is_pane: Pane 'p
  | is_split: Split nat split_axis "'p member list"

record 'p pane_group =
  pg_root :: "'p member"
  pg_next :: nat

fun member_from_layout ::
    "('v list \<Rightarrow> nat \<Rightarrow> 's \<Rightarrow> 'p \<times> 's) \<Rightarrow> 'v pane_layout \<Rightarrow> nat \<times> 's \<Rightarrow> 'p member \<times> nat \<times> 's"
  and members_from_layout ::
    "('v list \<Rightarrow> nat \<Rightarrow> 's \<Rightarrow> 'p \<times> 's) \<Rightarrow> 'v pane_layout list \<Rightarrow> nat \<times> 's \<Rightarrow> 'p member list \<times> nat \<times> 's"
where
  "member_from_layout mk (PaneLeaf tabs active) (next, s) =
     (let (p, s) = mk tabs active s in (Pane p, next, s))"
| "member_from_layout mk (SplitLayout axis []) (next, s) =
     (let (p, s) = mk [] 0 s in (Pane p, next, s))"
| "member_from_layout mk (SplitLayout axis [child]) (next, s) = member_from_layout mk child (next, s)"
| "member_from_layout mk (SplitLayout axis (c1 # c2 # cs)) (next, s) =
     (let i = next + 1;
          (ms, next, s) = members_from_layout mk (c1 # c2 # cs) (i, s)
      in (Split i axis ms, next, s))"
| "members_from_layout mk [] (next, s) = ([], next, s)"
| "members_from_layout mk (c # cs) (next, s) =
     (let (m, next, s) = member_from_layout mk c (next, s);
          (ms, next, s) = members_from_layout mk cs (next, s)
      in (m # ms, next, s))"

definition from_layout ::
  "('v list \<Rightarrow> nat \<Rightarrow> 's \<Rightarrow> 'p \<times> 's) \<Rightarrow> 'v pane_layout \<Rightarrow> 's \<Rightarrow> 'p pane_group \<times> 's" where
  "from_layout mk layout s =
     (let (whole, next, s) = member_from_layout mk layout (0, s) in (\<lparr>pg_root = whole, pg_next = next\<rparr>, s))"

fun collect :: "'p member \<Rightarrow> 'p list" where
  "collect (Pane p) = [p]"
| "collect (Split i axis ms) = concat (map collect ms)"

definition panes :: "'p pane_group \<Rightarrow> 'p list" where
  "panes g = collect (pg_root g)"

text \<open>The index of the first direct child that is the pane.\<close>

fun pane_position :: "'p \<Rightarrow> 'p member list \<Rightarrow> nat option" where
  "pane_position p [] = None"
| "pane_position p (m # ms) = (if m = Pane p then Some 0 else map_option Suc (pane_position p ms))"

text \<open>\<open>split_member\<close>: the changed member, whether the target was found, and what is left of \<open>new\<close> and
  \<open>next_id\<close>.  \<open>None\<close> is the panic of taking \<open>new\<close> twice.\<close>

fun split_member ::
    "'p \<Rightarrow> split_axis \<Rightarrow> 'p member \<Rightarrow> 'p option \<times> nat \<Rightarrow> (bool \<times> 'p member \<times> 'p option \<times> nat) option"
  and split_any ::
    "'p \<Rightarrow> split_axis \<Rightarrow> 'p member list \<Rightarrow> 'p option \<times> nat
      \<Rightarrow> (bool \<times> 'p member list \<times> 'p option \<times> nat) option"
where
  "split_member target axis (Pane p) (new, next) =
     (if p = target
      then (case new of
              None \<Rightarrow> None
            | Some n \<Rightarrow> Some (True, Split (next + 1) axis [Pane p, Pane n], None, next + 1))
      else Some (False, Pane p, new, next))"
| "split_member target axis (Split i split_axis ms) (new, next) =
     (case (if split_axis = axis then pane_position target ms else None) of
        Some k \<Rightarrow>
          (case new of
             None \<Rightarrow> None
           | Some n \<Rightarrow>
               Some (True, Split i split_axis (take (k + 1) ms @ Pane n # drop (k + 1) ms), None, next))
      | None \<Rightarrow>
          (case split_any target axis ms (new, next) of
             None \<Rightarrow> None
           | Some (found, ms', new, next) \<Rightarrow> Some (found, Split i split_axis ms', new, next)))"
| "split_any target axis [] (new, next) = Some (False, [], new, next)"
| "split_any target axis (m # ms) (new, next) =
     (case split_member target axis m (new, next) of
        None \<Rightarrow> None
      | Some (True, m', new, next) \<Rightarrow> Some (True, m' # ms, new, next)
      | Some (False, m', new, next) \<Rightarrow>
          (case split_any target axis ms (new, next) of
             None \<Rightarrow> None
           | Some (found, ms', new, next) \<Rightarrow> Some (found, m' # ms', new, next)))"

definition split_group :: "'p \<Rightarrow> 'p \<Rightarrow> split_axis \<Rightarrow> 'p pane_group \<Rightarrow> (bool \<times> 'p pane_group) option" where
  "split_group target new axis g =
     (case split_member target axis (pg_root g) (Some new, pg_next g) of
        None \<Rightarrow> None
      | Some (found, whole, _, next) \<Rightarrow> Some (found, \<lparr>pg_root = whole, pg_next = next\<rparr>))"

fun remove_member :: "'p \<Rightarrow> 'p member \<Rightarrow> bool \<times> 'p member"
  and remove_any :: "'p \<Rightarrow> 'p member list \<Rightarrow> bool \<times> 'p member list"
where
  "remove_member p (Pane q) = (False, Pane q)"
| "remove_member p (Split i axis ms) =
     (case pane_position p ms of
        Some k \<Rightarrow> (True, Split i axis (take k ms @ drop (k + 1) ms))
      | None \<Rightarrow> (let (removed, ms') = remove_any p ms in (removed, Split i axis ms')))"
| "remove_any p [] = (False, [])"
| "remove_any p (m # ms) =
     (case remove_member p m of
        (True, m') \<Rightarrow> (True, m' # ms)
      | (False, m') \<Rightarrow> (let (removed, ms') = remove_any p ms in (removed, m' # ms')))"

fun collapse :: "'p member \<Rightarrow> 'p member" where
  "collapse (Pane p) = Pane p"
| "collapse (Split i axis ms) =
     (case map collapse ms of
        [only] \<Rightarrow> only
      | ms' \<Rightarrow> Split i axis ms')"

definition remove_pane :: "'p \<Rightarrow> 'p pane_group \<Rightarrow> bool \<times> 'p pane_group" where
  "remove_pane p g =
     (case pg_root g of
        Pane _ \<Rightarrow> (False, g)
      | Split _ _ _ \<Rightarrow>
          (let (removed, whole) = remove_member p (pg_root g) in (removed, g\<lparr>pg_root := collapse whole\<rparr>)))"

text \<open>\<open>layout\<close>, with what each pane reports of itself.\<close>

fun to_layout :: "('p \<Rightarrow> 'v list \<times> nat) \<Rightarrow> 'p member \<Rightarrow> 'v pane_layout" where
  "to_layout state_of (Pane p) = (let (tabs, active) = state_of p in PaneLeaf tabs active)"
| "to_layout state_of (Split i axis ms) = SplitLayout axis (map (to_layout state_of) ms)"

definition group_layout :: "('p \<Rightarrow> 'v list \<times> nat) \<Rightarrow> 'p pane_group \<Rightarrow> 'v pane_layout" where
  "group_layout state_of g = to_layout state_of (pg_root g)"

section \<open>What the operations do to the panes\<close>

lemma pane_position_Some:
  "pane_position p ms = Some k \<Longrightarrow> k < length ms \<and> ms ! k = Pane p"
  by (induction ms arbitrary: k) (auto split: if_splits)

lemma pane_position_split:
  assumes "pane_position p ms = Some k"
  obtains as bs where "ms = as @ Pane p # bs" "take k ms = as" "drop (k + 1) ms = bs"
    "take (k + 1) ms = as @ [Pane p]"
proof -
  from pane_position_Some [OF assms] have "k < length ms" "ms ! k = Pane p" by auto
  then show thesis
    by (intro that [of "take k ms" "drop (k + 1) ms"])
      (simp_all add: id_take_nth_drop [symmetric] take_Suc_conv_app_nth flip: id_take_nth_drop,
       metis id_take_nth_drop)
qed

text \<open>\<open>before @ target # new # after\<close>, for panes \<open>before @ target # after\<close>.\<close>

definition inserted_after :: "'a \<Rightarrow> 'a \<Rightarrow> 'a list \<Rightarrow> 'a list \<Rightarrow> bool" where
  "inserted_after t n xs ys \<longleftrightarrow> (\<exists>as bs. xs = as @ t # bs \<and> ys = as @ t # n # bs)"

definition taken_out :: "'a \<Rightarrow> 'a list \<Rightarrow> 'a list \<Rightarrow> bool" where
  "taken_out t xs ys \<longleftrightarrow> (\<exists>as bs. xs = as @ t # bs \<and> ys = as @ bs)"

lemma inserted_afterI: "inserted_after t n (as @ t # bs) (as @ t # n # bs)"
  by (auto simp: inserted_after_def)

lemma taken_outI: "taken_out t (as @ t # bs) (as @ bs)"
  by (auto simp: taken_out_def)

lemma inserted_after_context:
  "inserted_after t n xs ys \<Longrightarrow> inserted_after t n (us @ xs @ vs) (us @ ys @ vs)"
  unfolding inserted_after_def by (metis append.assoc append_Cons)

lemma taken_out_context: "taken_out t xs ys \<Longrightarrow> taken_out t (us @ xs @ vs) (us @ ys @ vs)"
  unfolding taken_out_def by (metis append.assoc append_Cons)

lemma split_member_panes:
  "fst x = Some n \<Longrightarrow>
     \<exists>found m' new' next'. split_member t a m x = Some (found, m', new', next') \<and>
       (if t \<in> set (collect m)
        then found \<and> new' = None \<and> inserted_after t n (collect m) (collect m')
        else \<not> found \<and> m' = m \<and> (new', next') = x)"
  "fst x = Some n \<Longrightarrow>
     \<exists>found ms' new' next'. split_any t a ms x = Some (found, ms', new', next') \<and>
       (if t \<in> set (concat (map collect ms))
        then found \<and> new' = None \<and> inserted_after t n (concat (map collect ms)) (concat (map collect ms'))
        else \<not> found \<and> ms' = ms \<and> (new', next') = x)"
proof (induction t a m x and t a ms x rule: split_member_split_any.induct)
  case (1 t a p new nx)
  then show ?case by (auto simp: inserted_after_def intro!: exI [of _ "[]"])
next
  case (2 t a i b ms new nx)
  show ?case
  proof (cases "if b = a then pane_position t ms else None")
    case None
    with 2 show ?thesis by (fastforce split: option.splits)
  next
    case (Some k)
    then obtain as bs where ms: "ms = as @ Pane t # bs"
        and cut: "take (k + 1) ms = as @ [Pane t]" "drop (k + 1) ms = bs"
      by (metis option.distinct(1) pane_position_split)
    have "split_member t a (Split i b ms) (new, nx) = Some (True, Split i b (as @ Pane t # Pane n # bs), None, nx)"
      using Some 2(2) cut by simp
    moreover have "inserted_after t n (collect (Split i b ms)) (collect (Split i b (as @ Pane t # Pane n # bs)))"
      unfolding ms using inserted_afterI [of t n "concat (map collect as)" "concat (map collect bs)"] by simp
    moreover have "t \<in> set (collect (Split i b ms))" by (simp add: ms)
    ultimately show ?thesis by auto
  qed
next
  case (3 t a new nx)
  then show ?case by (auto intro: exI [of _ False])
next
  case (4 t a m ms new nx)
  obtain found m' new' next' where m: "split_member t a m (new, nx) = Some (found, m', new', next')"
      "if t \<in> set (collect m)
       then found \<and> new' = None \<and> inserted_after t n (collect m) (collect m')
       else \<not> found \<and> m' = m \<and> (new', next') = (new, nx)"
    using 4 by blast
  show ?case
  proof (cases "t \<in> set (collect m)")
    case True
    with m inserted_after_context [of t n "collect m" "collect m'" "[]" "concat (map collect ms)"]
    show ?thesis by auto
  next
    case False
    with m 4 obtain found2 ms' new2 next2 where ms: "split_any t a ms (new, nx) = Some (found2, ms', new2, next2)"
      "if t \<in> set (concat (map collect ms))
       then found2 \<and> new2 = None \<and> inserted_after t n (concat (map collect ms)) (concat (map collect ms'))
       else \<not> found2 \<and> ms' = ms \<and> (new2, next2) = (new, nx)"
      by fastforce
    with m False inserted_after_context [of t n "concat (map collect ms)" "concat (map collect ms')" "collect m" "[]"]
    show ?thesis by auto
  qed
qed

lemma remove_member_panes:
  "case remove_member p m of (removed, m') \<Rightarrow>
     (case m of
        Pane _ \<Rightarrow> \<not> removed \<and> m' = m
      | Split _ _ _ \<Rightarrow>
          if p \<in> set (collect m) then removed \<and> taken_out p (collect m) (collect m')
          else \<not> removed \<and> m' = m)"
  "case remove_any p ms of (removed, ms') \<Rightarrow>
     (if Pane p \<in> set ms then True
      else if p \<in> set (concat (map collect ms))
      then removed \<and> taken_out p (concat (map collect ms)) (concat (map collect ms'))
      else \<not> removed \<and> ms' = ms)"
proof (induction p m and p ms rule: remove_member_remove_any.induct)
  case (1 p q)
  then show ?case by simp
next
  case (2 p i a ms)
  show ?case
  proof (cases "pane_position p ms")
    case None
    then have "Pane p \<notin> set ms" by (induction ms) (auto split: if_splits)
    with 2 None show ?thesis by (auto split: prod.splits if_splits)
  next
    case (Some k)
    then obtain as bs where ms: "ms = as @ Pane p # bs"
        and cut: "take k ms = as" "drop (k + 1) ms = bs"
      by (rule pane_position_split)
    have "remove_member p (Split i a ms) = (True, Split i a (as @ bs))"
      using Some cut by simp
    moreover have "taken_out p (collect (Split i a ms)) (collect (Split i a (as @ bs)))"
      unfolding ms using taken_outI [of p "concat (map collect as)" "concat (map collect bs)"] by simp
    ultimately show ?thesis by (simp add: ms)
  qed
next
  case (3 p)
  then show ?case by simp
next
  case (4 p m ms)
  obtain removed m' where m: "remove_member p m = (removed, m')" by fastforce
  obtain removed2 ms' where ms: "remove_any p ms = (removed2, ms')" by fastforce
  have rest: "\<not> removed \<Longrightarrow> if Pane p \<in> set ms then True
      else if p \<in> set (concat (map collect ms))
      then removed2 \<and> taken_out p (concat (map collect ms)) (concat (map collect ms'))
      else \<not> removed2 \<and> ms' = ms"
    using 4(2) [OF m [symmetric]] by (simp add: ms)
  have here: "case m of Pane _ \<Rightarrow> \<not> removed \<and> m' = m
      | Split _ _ _ \<Rightarrow> if p \<in> set (collect m) then removed \<and> taken_out p (collect m) (collect m')
          else \<not> removed \<and> m' = m"
    using 4(1) m by simp
  have step: "remove_any p (m # ms) = (if removed then (True, m' # ms) else (removed2, m' # ms'))"
    using m ms by simp
  show ?case
  proof (cases removed)
    case True
    with here have "p \<in> set (collect m)" "taken_out p (collect m) (collect m')"
      by (auto split: member.splits if_splits)
    with True taken_out_context [of p "collect m" "collect m'" "[]" "concat (map collect ms)"]
    show ?thesis unfolding step by simp
  next
    case False
    with here have "m' = m" "m = Pane p \<or> p \<notin> set (collect m)"
      by (auto split: member.splits if_splits)
    with False rest taken_out_context [of p "concat (map collect ms)" "concat (map collect ms')" "collect m" "[]"]
    show ?thesis unfolding step by (auto split: if_splits)
  qed
qed

lemma collapse_panes [simp]: "collect (collapse m) = collect m"
proof (induction m)
  case (Split i a ms)
  then have "map (collect \<circ> collapse) ms = map collect ms" by simp
  then have "concat (map collect (map collapse ms)) = concat (map collect ms)" by (simp only: map_map)
  then show ?case by (auto split: list.splits)
qed simp

text \<open>Every split has two members at least; numbers of splits are unique and have been given out.\<close>

fun proper :: "'p member \<Rightarrow> bool" where
  "proper (Pane p) \<longleftrightarrow> True"
| "proper (Split i a ms) \<longleftrightarrow> 2 \<le> length ms \<and> list_all proper ms"

fun no_empty_split :: "'p member \<Rightarrow> bool" where
  "no_empty_split (Pane p) \<longleftrightarrow> True"
| "no_empty_split (Split i a ms) \<longleftrightarrow> ms \<noteq> [] \<and> list_all no_empty_split ms"

fun split_ids :: "'p member \<Rightarrow> nat multiset" where
  "split_ids (Pane p) = {#}"
| "split_ids (Split i a ms) = add_mset i (\<Sum>\<^sub># (mset (map split_ids ms)))"

lemma proper_no_empty: "proper m \<Longrightarrow> no_empty_split m"
  by (induction m) (auto simp: list_all_iff)

lemma collapse_proper: "no_empty_split m \<Longrightarrow> proper (collapse m)"
proof (induction m)
  case (Split i a ms)
  then have "list_all proper (map collapse ms)" by (auto simp: list_all_iff)
  with Split.prems show ?case by (cases ms) (auto split: list.splits)
qed simp

lemma collapse_proper_id: "proper m \<Longrightarrow> collapse m = m"
proof (induction m)
  case (Split i a ms)
  then have "map collapse ms = ms" by (auto simp: list_all_iff intro: map_idI)
  with Split.prems show ?case by (auto split: list.splits)
qed simp

lemma collapse_ids: "split_ids (collapse m) \<subseteq># split_ids m"
proof (induction m)
  case (Split i a ms)
  have "\<Sum>\<^sub># (mset (map (split_ids \<circ> collapse) ms)) \<subseteq># \<Sum>\<^sub># (mset (map split_ids ms))"
    using Split by (induction ms) (auto intro: subset_mset.add_mono)
  then have *: "\<Sum>\<^sub># (mset (map split_ids (map collapse ms))) \<subseteq># \<Sum>\<^sub># (mset (map split_ids ms))"
    by (simp only: map_map)
  show ?case
  proof (cases "\<exists>only. map collapse ms = [only]")
    case True
    with * show ?thesis by (auto intro: subset_mset.order_trans)
  next
    case False
    then have "collapse (Split i a ms) = Split i a (map collapse ms)" by (auto split: list.splits)
    with * show ?thesis by (simp del: map_map mset_map)
  qed
qed simp

lemma remove_member_proper:
  "proper m \<Longrightarrow> no_empty_split (snd (remove_member p m)) \<and> split_ids (snd (remove_member p m)) \<subseteq># split_ids m"
  "list_all proper ms \<Longrightarrow> list_all no_empty_split (snd (remove_any p ms)) \<and>
     length (snd (remove_any p ms)) = length ms \<and>
     \<Sum>\<^sub># (mset (map split_ids (snd (remove_any p ms)))) \<subseteq># \<Sum>\<^sub># (mset (map split_ids ms))"
proof (induction p m and p ms rule: remove_member_remove_any.induct)
  case (2 p i a ms)
  show ?case
  proof (cases "pane_position p ms")
    case None
    with 2 show ?thesis by (cases "remove_any p ms") (auto simp: proper_no_empty)
  next
    case (Some k)
    then obtain as bs where ms: "ms = as @ Pane p # bs"
        and cut: "take k ms = as" "drop (k + 1) ms = bs"
      by (rule pane_position_split)
    have "remove_member p (Split i a ms) = (True, Split i a (as @ bs))"
      using Some cut by simp
    with 2(2) show ?thesis unfolding ms by (auto simp: list_all_iff proper_no_empty)
  qed
next
  case (4 p m ms)
  then show ?case
    by (auto split: prod.splits bool.splits simp: proper_no_empty list_all_iff subset_mset.add_mono)
qed simp_all

text \<open>A split gives out at most one number, the next one.\<close>

definition numbered :: "bool \<Rightarrow> nat \<Rightarrow> nat \<Rightarrow> nat multiset \<Rightarrow> nat multiset \<Rightarrow> bool" where
  "numbered found next next' ids ids' \<longleftrightarrow>
     next' = next \<and> ids' = ids \<or> found \<and> next' = next + 1 \<and> ids' = add_mset (next + 1) ids"

lemma split_member_proper:
  "split_member t a m x = Some (found, m', new', next') \<Longrightarrow>
     (proper m \<longrightarrow> proper m') \<and> numbered found (snd x) next' (split_ids m) (split_ids m')"
  "split_any t a ms x = Some (found, ms', new', next') \<Longrightarrow>
     length ms' = length ms \<and> (list_all proper ms \<longrightarrow> list_all proper ms') \<and>
     numbered found (snd x) next' (\<Sum>\<^sub># (mset (map split_ids ms))) (\<Sum>\<^sub># (mset (map split_ids ms')))"
proof (induction t a m x and t a ms x arbitrary: found m' new' next' and found ms' new' next'
    rule: split_member_split_any.induct)
  case (1 t a p new nx)
  then show ?case by (auto simp: numbered_def split: if_splits option.splits)
next
  case (2 t a i b ms new nx)
  show ?case
  proof (cases "if b = a then pane_position t ms else None")
    case None
    with 2 show ?thesis by (fastforce simp: numbered_def split: option.splits)
  next
    case (Some k)
    then obtain as bs where ms: "ms = as @ Pane t # bs"
        and cut: "take (k + 1) ms = as @ [Pane t]" "drop (k + 1) ms = bs"
      by (metis option.distinct(1) pane_position_split)
    from Some 2(2) cut obtain n where "m' = Split i b (as @ Pane t # Pane n # bs)" "next' = nx"
      by (auto split: option.splits)
    then show ?thesis by (simp add: ms numbered_def)
  qed
next
  case (3 t a new nx)
  then show ?case by (simp add: numbered_def)
next
  case (4 t a m ms new nx)
  from 4(3) obtain f1 m1 new1 next1 where m: "split_member t a m (new, nx) = Some (f1, m1, new1, next1)"
    by (auto split: option.splits)
  note here = 4(1) [OF m]
  show ?case
  proof (cases f1)
    case True
    with 4(3) m have "ms' = m1 # ms" "next' = next1" "found" by auto
    with here show ?thesis by (auto simp: numbered_def)
  next
    case False
    with 4(3) m obtain ms1 where ms: "split_any t a ms (new1, next1) = Some (found, ms1, new', next')"
      and "ms' = m1 # ms1" by (auto split: option.splits)
    moreover from here False have "next1 = nx" "split_ids m1 = split_ids m" by (auto simp: numbered_def)
    ultimately show ?thesis
      using here 4(2) [OF m refl _ refl refl ms] False by (auto simp: numbered_def)
  qed
qed

lemma members_from_layout_proper:
  "member_from_layout mk l y = (m, next', s') \<Longrightarrow>
     proper m \<and> fst y \<le> next' \<and> (\<forall>i. count (split_ids m) i = (if fst y < i \<and> i \<le> next' then 1 else 0))"
  "members_from_layout mk ls y = (ms, next', s') \<Longrightarrow>
     list_all proper ms \<and> length ms = length ls \<and> fst y \<le> next' \<and>
     (\<forall>i. count (\<Sum>\<^sub># (mset (map split_ids ms))) i = (if fst y < i \<and> i \<le> next' then 1 else 0))"
proof (induction mk l y and mk ls y arbitrary: m next' s' and ms next' s'
    rule: member_from_layout_members_from_layout.induct)
  case (1 mk tabs active nx s)
  then show ?case by (auto split: prod.splits)
next
  case (2 mk axis nx s)
  then show ?case by (auto split: prod.splits)
next
  case (3 mk axis child nx s)
  then show ?case by simp
next
  case (4 mk axis c1 c2 cs nx s)
  obtain ms n1 s1 where ms: "members_from_layout mk (c1 # c2 # cs) (nx + 1, s) = (ms, n1, s1)"
    by (metis prod_cases3)
  with 4(2) have "m = Split (nx + 1) axis ms" "next' = n1" by simp_all
  with 4(1) [OF refl ms] show ?case by auto
next
  case (5 mk nx s)
  then show ?case by simp
next
  case (6 mk c cs nx s)
  obtain m1 n1 s1 where m: "member_from_layout mk c (nx, s) = (m1, n1, s1)" by (metis prod_cases3)
  obtain ms1 n2 s2 where ms: "members_from_layout mk cs (n1, s1) = (ms1, n2, s2)" by (metis prod_cases3)
  show ?case using 6(1) [OF m] 6(2) [OF m [symmetric] refl refl ms] 6(3) m ms by auto
qed

section \<open>Saving and restoring\<close>

text \<open>What a layout becomes: a split without children is an empty pane, one with a single child is that
  child.\<close>

fun normal_layout :: "'v pane_layout \<Rightarrow> 'v pane_layout" where
  "normal_layout (PaneLeaf tabs active) = PaneLeaf tabs active"
| "normal_layout (SplitLayout axis []) = PaneLeaf [] 0"
| "normal_layout (SplitLayout axis [child]) = normal_layout child"
| "normal_layout (SplitLayout axis (c1 # c2 # cs)) = SplitLayout axis (map normal_layout (c1 # c2 # cs))"

lemma normal_to_layout: "proper m \<Longrightarrow> normal_layout (to_layout f m) = to_layout f m"
proof (induction m)
  case (Split i a ms)
  then obtain m1 m2 ms' where "ms = m1 # m2 # ms'"
    by (cases ms; cases "tl ms") auto
  with Split show ?case by (auto simp: list_all_iff)
qed (simp split: prod.splits)

text \<open>A maker of panes: the pane is a new one, it reports the tabs it was made for, and the panes there
  are report what they did.\<close>

definition makes_panes ::
  "('v list \<Rightarrow> nat \<Rightarrow> 's \<Rightarrow> 'p \<times> 's) \<Rightarrow> ('s \<Rightarrow> 'p set) \<Rightarrow> ('s \<Rightarrow> 'p \<Rightarrow> 'v list \<times> nat) \<Rightarrow> bool" where
  "makes_panes mk known state_of \<longleftrightarrow>
     (\<forall>tabs active s. case mk tabs active s of (p, s') \<Rightarrow>
        p \<notin> known s \<and> known s' = insert p (known s) \<and> state_of s' p = (tabs, active) \<and>
        (\<forall>q \<in> known s. state_of s' q = state_of s q))"

lemma makes_panesD:
  assumes "makes_panes mk known state_of" "mk tabs active s = (p, s')"
  shows "p \<notin> known s" "known s' = insert p (known s)" "state_of s' p = (tabs, active)"
    "\<And>q. q \<in> known s \<Longrightarrow> state_of s' q = state_of s q"
proof -
  from assms have "p \<notin> known s \<and> known s' = insert p (known s) \<and> state_of s' p = (tabs, active) \<and>
      (\<forall>q \<in> known s. state_of s' q = state_of s q)"
    unfolding makes_panes_def by (metis (mono_tags, lifting) case_prod_conv)
  then show "p \<notin> known s" "known s' = insert p (known s)" "state_of s' p = (tabs, active)"
    "\<And>q. q \<in> known s \<Longrightarrow> state_of s' q = state_of s q" by blast+
qed

lemma to_layout_cong: "(\<And>p. p \<in> set (collect m) \<Longrightarrow> f p = g p) \<Longrightarrow> to_layout f m = to_layout g m"
  by (induction m) auto

lemma from_layout_normal:
  "member_from_layout mk l y = (m, next', s') \<Longrightarrow> makes_panes mk known state_of \<Longrightarrow>
     to_layout (state_of s') m = normal_layout l \<and>
     known (snd y) \<union> set (collect m) = known s' \<and> distinct (collect m) \<and> known (snd y) \<inter> set (collect m) = {} \<and>
     (\<forall>q \<in> known (snd y). state_of s' q = state_of (snd y) q)"
  "members_from_layout mk ls y = (ms, next', s') \<Longrightarrow> makes_panes mk known state_of \<Longrightarrow>
     map (to_layout (state_of s')) ms = map normal_layout ls \<and>
     known (snd y) \<union> set (concat (map collect ms)) = known s' \<and>
     distinct (concat (map collect ms)) \<and> known (snd y) \<inter> set (concat (map collect ms)) = {} \<and>
     (\<forall>q \<in> known (snd y). state_of s' q = state_of (snd y) q)"
proof (induction mk l y and mk ls y arbitrary: m next' s' and ms next' s'
    rule: member_from_layout_members_from_layout.induct)
  case (1 mk tabs active nx s)
  obtain p s1 where mk: "mk tabs active s = (p, s1)" by fastforce
  with 1(1) have "m = Pane p" "s' = s1" by auto
  then show ?case using makes_panesD [OF 1(2) mk] by simp
next
  case (2 mk axis nx s)
  obtain p s1 where mk: "mk [] 0 s = (p, s1)" by fastforce
  with 2(1) have "m = Pane p" "s' = s1" by auto
  then show ?case using makes_panesD [OF 2(2) mk] by simp
next
  case (3 mk axis child nx s)
  then show ?case by simp
next
  case (4 mk axis c1 c2 cs nx s)
  obtain ms n1 s1 where ms: "members_from_layout mk (c1 # c2 # cs) (nx + 1, s) = (ms, n1, s1)"
    by (metis prod_cases3)
  with 4(2) have "m = Split (nx + 1) axis ms" "s' = s1" by simp_all
  with 4(1) [OF refl ms 4(3)] show ?case by simp
next
  case (5 mk nx s)
  then show ?case by simp
next
  case (6 mk c cs nx s)
  obtain m1 n1 s1 where m: "member_from_layout mk c (nx, s) = (m1, n1, s1)" by (metis prod_cases3)
  obtain ms1 n2 s2 where ms: "members_from_layout mk cs (n1, s1) = (ms1, n2, s2)" by (metis prod_cases3)
  note first = 6(1) [OF m 6(4), unfolded snd_conv]
  note rest = 6(2) [OF m [symmetric] refl refl ms 6(4), unfolded snd_conv]
  from 6(3) m ms have eqs: "s' = s2" "ms = m1 # ms1" by auto
  have "to_layout (state_of s2) m1 = to_layout (state_of s1) m1"
    by (rule to_layout_cong) (use first rest in auto)
  with first have "to_layout (state_of s2) m1 = normal_layout c" by simp
  moreover have "known s \<subseteq> known s1" using first by blast
  ultimately show ?case using first rest unfolding eqs snd_conv by (auto simp: disjoint_iff)
qed

section \<open>What holds of every group\<close>

definition group_ok :: "'p pane_group \<Rightarrow> bool" where
  "group_ok g \<longleftrightarrow> proper (pg_root g) \<and>
     (\<forall>i. count (split_ids (pg_root g)) i \<le> (if 0 < i \<and> i \<le> pg_next g then 1 else 0))"

lemma from_layout_ok: "group_ok (fst (from_layout mk l s))"
proof -
  obtain m n s' where m: "member_from_layout mk l (0, s) = (m, n, s')" by (metis prod_cases3)
  then show ?thesis
    using members_from_layout_proper(1) [OF m] by (simp add: from_layout_def group_ok_def)
qed

lemma split_group_ok:
  assumes "split_group t n a g = Some (found, g')" "group_ok g"
  shows "group_ok g'"
proof -
  from assms(1) obtain m new' n' where
    split: "split_member t a (pg_root g) (Some n, pg_next g) = Some (found, m, new', n')"
    and g': "g' = \<lparr>pg_root = m, pg_next = n'\<rparr>"
    by (auto simp: split_group_def split: option.splits)
  have ids: "count (split_ids (pg_root g)) i \<le> (if 0 < i \<and> i \<le> pg_next g then 1 else 0)" for i
    using assms(2) by (simp add: group_ok_def)
  from split_member_proper(1) [OF split] assms(2) have "proper m"
      "numbered found (pg_next g) n' (split_ids (pg_root g)) (split_ids m)"
    by (auto simp: group_ok_def)
  moreover have "count (split_ids m) i \<le> (if 0 < i \<and> i \<le> n' then 1 else 0)" for i
    using ids [of i] ids [of "pg_next g + 1"] calculation(2) by (auto simp: numbered_def split: if_splits)
  ultimately show ?thesis by (simp add: group_ok_def g')
qed

lemma remove_pane_ok: "group_ok g \<Longrightarrow> group_ok (snd (remove_pane p g))"
proof (cases "pg_root g")
  case (Split i a ms)
  assume ok: "group_ok g"
  obtain removed m where m: "remove_member p (pg_root g) = (removed, m)" by fastforce
  have "split_ids (collapse m) \<subseteq># split_ids (pg_root g)"
    using collapse_ids [of m] remove_member_proper(1) [of "pg_root g" p] m ok
    by (auto simp: group_ok_def intro: subset_mset.order_trans)
  then have "count (split_ids (collapse m)) i \<le> count (split_ids (pg_root g)) i" for i
    by (rule mset_subset_eq_count)
  moreover have snd_group: "pg_root (snd (remove_pane p g)) = collapse m" "pg_next (snd (remove_pane p g)) = pg_next g"
    using Split m by (simp_all add: remove_pane_def)
  moreover have "proper (collapse m)"
    using remove_member_proper(1) [of "pg_root g" p] m ok by (auto simp: group_ok_def intro: collapse_proper)
  ultimately show ?thesis
    using ok unfolding group_ok_def snd_group by (blast intro: order_trans)
qed (simp add: remove_pane_def)

text \<open>The operations the workspace drives a group with.\<close>

datatype 'p group_op = SplitOp 'p 'p split_axis | RemoveOp 'p

fun group_step :: "'p group_op \<Rightarrow> 'p pane_group \<Rightarrow> 'p pane_group" where
  "group_step (SplitOp t n a) g = (case split_group t n a g of Some (_, g') \<Rightarrow> g' | None \<Rightarrow> g)"
| "group_step (RemoveOp p) g = snd (remove_pane p g)"

interpretation grouping: machine group_step group_ok
proof
  fix g :: "'p pane_group" and x
  assume "group_ok g"
  then show "group_ok (group_step x g)"
    by (cases x) (auto intro: split_group_ok remove_pane_ok split: option.splits)
qed

text \<open>Splitting never panics; it finds the target exactly when the group holds it, and then the new
  pane stands right after the target in visual order and nothing else moves; otherwise the group is
  unchanged.\<close>

lemma split_inserts_after:
  "case split_group target new axis g of
     None \<Rightarrow> False
   | Some (found, g') \<Rightarrow>
       if target \<in> set (panes g) then found \<and> inserted_after target new (panes g) (panes g')
       else \<not> found \<and> g' = g"
  using split_member_panes(1) [of "(Some new, pg_next g)" new target axis "pg_root g"]
  by (fastforce simp: split_group_def panes_def)

text \<open>Removing takes exactly one occurrence of the pane out of the visual order and answers whether
  it did; a group of a single pane keeps it.\<close>

lemma remove_takes_out:
  "case remove_pane p g of (removed, g') \<Rightarrow>
     (case pg_root g of
        Pane _ \<Rightarrow> \<not> removed \<and> g' = g
      | Split _ _ _ \<Rightarrow>
          if p \<in> set (panes g) then removed \<and> taken_out p (panes g) (panes g')
          else \<not> removed \<and> panes g' = panes g)"
  using remove_member_panes(1) [where p = p and m = "pg_root g"]
  by (auto simp: remove_pane_def panes_def split: member.splits prod.splits if_splits)

lemma proper_panes: "proper m \<Longrightarrow> collect m \<noteq> []"
proof (induction m)
  case (Split i a ms)
  then show ?case by (cases ms) auto
qed simp

lemma panes_not_empty: "group_ok g \<Longrightarrow> panes g \<noteq> []"
  by (simp add: group_ok_def panes_def proper_panes)

text \<open>A pane the group does not hold changes nothing; one it holds is gone, if panes are held once.\<close>

lemma remove_pane_split:
  "is_split (pg_root g) \<Longrightarrow> remove_pane p g =
     (fst (remove_member p (pg_root g)), g\<lparr>pg_root := collapse (snd (remove_member p (pg_root g)))\<rparr>)"
  by (cases "pg_root g") (auto simp: remove_pane_def simp del: remove_member.simps split: prod.splits)

lemma remove_pane_lone: "\<not> is_split (pg_root g) \<Longrightarrow> remove_pane p g = (False, g)"
  by (cases "pg_root g") (auto simp: remove_pane_def)

lemma remove_member_found:
  "is_split m \<Longrightarrow> fst (remove_member p m) = (p \<in> set (collect m))"
  "fst (remove_member p m) \<Longrightarrow> taken_out p (collect m) (collect (snd (remove_member p m)))"
  "\<not> fst (remove_member p m) \<Longrightarrow> snd (remove_member p m) = m"
  using remove_member_panes(1) [where p = p and m = m]
  by (cases m; cases "remove_member p m"; auto simp del: remove_member.simps split: if_splits)+

lemma remove_refused: "remove_pane p g = (False, g') \<Longrightarrow> group_ok g \<Longrightarrow> g' = g"
  by (cases "is_split (pg_root g)")
    (auto simp: remove_pane_split remove_pane_lone remove_member_found(3) group_ok_def collapse_proper_id)

lemma remove_absent: "group_ok g \<Longrightarrow> p \<notin> set (panes g) \<Longrightarrow> remove_pane p g = (False, g)"
  by (cases "is_split (pg_root g)")
    (auto simp: remove_pane_split remove_pane_lone remove_member_found panes_def group_ok_def collapse_proper_id)

lemma remove_present:
  assumes "remove_pane p g = (True, g')" "distinct (panes g)"
  shows "set (panes g') = set (panes g) - {p}" "distinct (panes g')"
proof -
  from assms(1) have "taken_out p (panes g) (panes g')"
    by (cases "is_split (pg_root g)") (auto simp: remove_pane_split remove_pane_lone panes_def remove_member_found(2))
  with assms(2) show "set (panes g') = set (panes g) - {p}" "distinct (panes g')"
    by (auto simp: taken_out_def)
qed

lemma split_group_cases:
  obtains c where "t \<in> set (panes g)" "split_group t n a g = Some (True, c)" "inserted_after t n (panes g) (panes c)"
  | "t \<notin> set (panes g)" "split_group t n a g = Some (False, g)"
  using split_member_panes(1) [of "(Some n, pg_next g)" n t a "pg_root g"]
  by (fastforce simp: split_group_def panes_def)

text \<open>After any run of splits and removals, from any restored layout, every split has at least two
  members and the numbers of the splits are unique and have been given out: no empty split, no split
  around a single pane, no two splits sharing a saved size.\<close>

lemma group_stays_proper:
  "group_ok (fold group_step ops (fst (from_layout mk l s)))"
  by (rule grouping.run_keeps [OF from_layout_ok])

text \<open>A saved group that is restored has the layout it was saved with.\<close>

lemma layout_restored:
  assumes "makes_panes mk known state_of" "group_ok g"
  shows "case from_layout mk (group_layout f g) s of (g', s') \<Rightarrow>
      group_layout (state_of s') g' = group_layout f g \<and> distinct (panes g')"
proof -
  obtain m n s' where m: "member_from_layout mk (to_layout f (pg_root g)) (0, s) = (m, n, s')"
    by (metis prod_cases3)
  have "normal_layout (to_layout f (pg_root g)) = to_layout f (pg_root g)"
    using assms(2) by (simp add: group_ok_def normal_to_layout)
  with from_layout_normal(1) [OF m assms(1)] show ?thesis
    by (simp add: from_layout_def group_layout_def panes_def m)
qed

end
