(* ===== verification/Panes.thy ===== *)
theory Panes
  imports PaneGroup
begin

text \<open>
  The tabs of a pane with their navigation history (\<open>crates/kubyl/src/workspace/pane.rs\<close>), and the
  workspace around the panes (\<open>mod.rs\<close>: the active and the zoomed pane).  A tab is what its view
  reports of itself: the request that would reopen it (\<open>'v\<close>), whether it has unsaved edits, whether
  it asks to be closed.  Building the view of a request is the parameter \<open>build\<close>.  Focus and
  repainting, which leave no trace in this state, are left out.
\<close>

section \<open>Tabs\<close>

record 'v tab =
  tb_id :: nat
  tb_request :: "'v option"
  tb_dirty :: bool
  tb_wants_close :: bool

datatype pane_event = Focused | SplitEvent split_axis | Emptied | ZoomEvent | ChangedEvent

record 'v pane =
  pn_items :: "'v tab list"
  pn_active :: nat
  pn_zoomed :: bool
  pn_history :: "'v list"
  pn_pos :: nat
  pn_navigating :: bool
  pn_events :: "pane_event list"

definition pane_new :: "'v pane" where
  "pane_new =
     \<lparr>pn_items = [], pn_active = 0, pn_zoomed = False, pn_history = [], pn_pos = 0,
      pn_navigating = False, pn_events = []\<rparr>"

definition emit_event :: "pane_event \<Rightarrow> 'v pane \<Rightarrow> 'v pane" where
  "emit_event e pn = pn\<lparr>pn_events := pn_events pn @ [e]\<rparr>"

definition nth_opt :: "'a list \<Rightarrow> nat \<Rightarrow> 'a option" where
  "nth_opt xs i = (if i < length xs then Some (xs ! i) else None)"

fun position_of :: "('a \<Rightarrow> bool) \<Rightarrow> 'a list \<Rightarrow> nat option" where
  "position_of P [] = None"
| "position_of P (x # xs) = (if P x then Some 0 else map_option Suc (position_of P xs))"

definition remove_at :: "nat \<Rightarrow> 'a list \<Rightarrow> 'a list" where
  "remove_at i xs = take i xs @ drop (i + 1) xs"

definition insert_at :: "nat \<Rightarrow> 'a \<Rightarrow> 'a list \<Rightarrow> 'a list" where
  "insert_at i x xs = take i xs @ x # drop i xs"

definition active_item :: "'v pane \<Rightarrow> 'v tab option" where
  "active_item pn = nth_opt (pn_items pn) (pn_active pn)"

definition set_zoomed :: "bool \<Rightarrow> 'v pane \<Rightarrow> 'v pane" where
  "set_zoomed z pn = pn\<lparr>pn_zoomed := z\<rparr>"

definition history_limit :: nat where "history_limit = 100"

definition record_history :: "'v pane \<Rightarrow> 'v pane" where
  "record_history pn =
     (if pn_navigating pn then pn
      else case Option.bind (active_item pn) tb_request of
        None \<Rightarrow> pn
      | Some request \<Rightarrow>
          if nth_opt (pn_history pn) (pn_pos pn) = Some request then pn
          else (let h = take (pn_pos pn + 1) (pn_history pn) @ [request];
                    h = (if history_limit < length h then tl h else h)
                in pn\<lparr>pn_history := h, pn_pos := length h - 1\<rparr>))"

definition activate :: "nat \<Rightarrow> 'v pane \<Rightarrow> 'v pane" where
  "activate i pn =
     (if length (pn_items pn) \<le> i then pn
      else record_history
        (if pn_active pn \<noteq> i then emit_event ChangedEvent (pn\<lparr>pn_active := i\<rparr>) else pn))"

definition insert_item :: "nat \<Rightarrow> 'v tab \<Rightarrow> 'v pane \<Rightarrow> 'v pane" where
  "insert_item i item pn =
     (let i = min i (length (pn_items pn))
      in emit_event ChangedEvent (activate i (pn\<lparr>pn_items := insert_at i item (pn_items pn)\<rparr>)))"

text \<open>The tab of a request.\<close>

definition shows_request :: "'v \<Rightarrow> 'v tab \<Rightarrow> bool" where
  "shows_request r t \<longleftrightarrow> tb_request t = Some r"

definition add_item :: "'v tab \<Rightarrow> 'v pane \<Rightarrow> 'v pane" where
  "add_item item pn =
     (case Option.bind (tb_request item) (\<lambda>r. position_of (shows_request r) (pn_items pn)) of
        Some existing \<Rightarrow> activate existing pn
      | None \<Rightarrow> insert_item (if pn_items pn = [] then 0 else pn_active pn + 1) item pn)"

definition take_item :: "nat \<Rightarrow> 'v pane \<Rightarrow> 'v tab option \<times> 'v pane" where
  "take_item ident pn =
     (case position_of (\<lambda>t. tb_id t = ident) (pn_items pn) of
        None \<Rightarrow> (None, pn)
      | Some i \<Rightarrow>
          (let taken = pn_items pn ! i;
               pn = pn\<lparr>pn_items := remove_at i (pn_items pn)\<rparr>;
               pn = (if pn_items pn = [] then emit_event Emptied (pn\<lparr>pn_active := 0\<rparr>)
                     else (let pn = (if i < pn_active pn \<or> pn_active pn = length (pn_items pn)
                                     then pn\<lparr>pn_active := pn_active pn - 1\<rparr> else pn)
                           in activate (pn_active pn) pn))
           in (Some taken, emit_event ChangedEvent pn)))"

text \<open>\<open>drop_tab\<close> of a tab of the same pane.\<close>

definition drop_here :: "nat \<Rightarrow> nat option \<Rightarrow> 'v pane \<Rightarrow> 'v pane" where
  "drop_here ident target pn =
     (case position_of (\<lambda>t. tb_id t = ident) (pn_items pn) of
        None \<Rightarrow> pn
      | Some i \<Rightarrow>
          (let item = pn_items pn ! i;
               pn = pn\<lparr>pn_items := remove_at i (pn_items pn)\<rparr>;
               n = length (pn_items pn);
               to = min (unwrap_or target n) n;
               pn = pn\<lparr>pn_items := insert_at to item (pn_items pn)\<rparr>
           in emit_event ChangedEvent (activate to pn)))"

text \<open>\<open>drop_tab\<close> of a tab of another pane: the source and the destination after it.\<close>

definition drop_from :: "nat \<Rightarrow> nat option \<Rightarrow> 'v pane \<Rightarrow> 'v pane \<Rightarrow> 'v pane \<times> 'v pane" where
  "drop_from ident target source pn =
     (case find (\<lambda>t. tb_id t = ident) (pn_items source) of
        None \<Rightarrow> (source, pn)
      | Some dragged \<Rightarrow>
          (let existing = Option.bind (tb_request dragged)
                 (\<lambda>r. position_of (shows_request r) (pn_items pn));
               dirty = tb_dirty dragged
           in if (case existing of Some e \<Rightarrow> dirty \<and> tb_dirty (pn_items pn ! e) | None \<Rightarrow> False)
              then (source, pn)
              else case take_item ident source of
                (None, source) \<Rightarrow> (source, pn)
              | (Some item, source) \<Rightarrow>
                  (let i = unwrap_or target (length (pn_items pn))
                   in case existing of
                     Some e \<Rightarrow>
                       (let kept = pn_items pn ! e;
                            pn = pn\<lparr>pn_items := remove_at e (pn_items pn)\<rparr>;
                            i = (if e < i then i - 1 else i)
                        in (source, insert_item i (if dirty then item else kept) pn))
                   | None \<Rightarrow> (source, insert_item i item pn))))"

definition close_tab :: "nat \<Rightarrow> 'v pane \<Rightarrow> 'v pane" where
  "close_tab i pn =
     (if length (pn_items pn) \<le> i then pn
      else
        (let pn = pn\<lparr>pn_items := remove_at i (pn_items pn)\<rparr>;
             pn = (if pn_items pn = [] then emit_event Emptied (pn\<lparr>pn_active := 0\<rparr>)
                   else (let pn = (if i \<le> pn_active pn \<and> 0 < pn_active pn
                                   then pn\<lparr>pn_active := pn_active pn - 1\<rparr> else pn)
                         in activate (pn_active pn) pn))
         in emit_event ChangedEvent pn))"

definition navigate :: "('v \<Rightarrow> 'v tab) \<Rightarrow> int \<Rightarrow> 'v pane \<Rightarrow> bool \<times> 'v pane" where
  "navigate build delta pn =
     (if int (pn_pos pn) + delta < 0 then (False, pn)
      else (let pos = nat (int (pn_pos pn) + delta)
            in case nth_opt (pn_history pn) pos of
                 None \<Rightarrow> (False, pn)
               | Some request \<Rightarrow>
                   (let pn = pn\<lparr>pn_pos := pos, pn_navigating := True\<rparr>;
                        pn = (case position_of (shows_request request) (pn_items pn) of
                                Some i \<Rightarrow> activate i pn
                              | None \<Rightarrow> add_item (build request) pn)
                    in (True, pn\<lparr>pn_navigating := False\<rparr>))))"

text \<open>What the layout saves of a pane: the requests of its tabs, as current ids, and the active one.\<close>

definition pane_layout_of :: "('v \<Rightarrow> 'v) \<Rightarrow> 'v pane \<Rightarrow> 'v list \<times> nat" where
  "pane_layout_of current pn =
     foldl (\<lambda>(tabs, active) (i, item).
         case tb_request item of
           None \<Rightarrow> (tabs, active)
         | Some r \<Rightarrow> (tabs @ [current r], if i = pn_active pn then length tabs else active))
       ([], 0) (List.enumerate 0 (pn_items pn))"

definition refresh_item :: "('v \<Rightarrow> 'v) \<Rightarrow> ('v \<Rightarrow> 'v tab) \<Rightarrow> 'v tab \<Rightarrow> bool \<times> 'v tab" where
  "refresh_item current build item =
     (if tb_dirty item then (False, item)
      else case tb_request item of
        None \<Rightarrow> (False, item)
      | Some r \<Rightarrow> if current r = r then (False, item) else (True, build (current r)))"

definition refresh_clusters :: "('v \<Rightarrow> 'v) \<Rightarrow> ('v \<Rightarrow> 'v tab) \<Rightarrow> 'v pane \<Rightarrow> 'v pane" where
  "refresh_clusters current build pn =
     (let refreshed = map (refresh_item current build) (pn_items pn);
          pn = pn\<lparr>pn_items := map snd refreshed\<rparr>
      in if list_ex fst refreshed
         then emit_event ChangedEvent (pn\<lparr>pn_history := map current (pn_history pn)\<rparr>) else pn)"

lemma position_of_Some: "position_of P xs = Some i \<Longrightarrow> i < length xs \<and> P (xs ! i)"
  by (induction xs arbitrary: i) (auto split: if_splits)

lemma position_of_None: "position_of P xs = None \<longleftrightarrow> (\<forall>x \<in> set xs. \<not> P x)"
  by (induction xs) auto

lemma length_remove_at [simp]: "i < length xs \<Longrightarrow> length (remove_at i xs) = length xs - 1"
  by (simp add: remove_at_def)

lemma remove_at_Nil: "i < length xs \<Longrightarrow> remove_at i xs = [] \<longleftrightarrow> length xs = 1"
  by (simp flip: length_0_conv) arith

lemma length_insert_at [simp]: "i \<le> length xs \<Longrightarrow> length (insert_at i x xs) = length xs + 1"
  by (simp add: insert_at_def)

lemma items_record [simp]: "pn_items (record_history pn) = pn_items pn"
  by (simp add: record_history_def Let_def split: option.splits)

lemma items_emit [simp]: "pn_items (emit_event e pn) = pn_items pn"
  by (simp add: emit_event_def)

lemma items_activate [simp]: "pn_items (activate i pn) = pn_items pn"
  by (simp add: activate_def)

text \<open>The tabs whose views ask for it are closed one after the other, the first one first.\<close>

lemma close_tab_shorter: "i < length (pn_items pn) \<Longrightarrow> length (pn_items (close_tab i pn)) = length (pn_items pn) - 1"
  by (simp add: close_tab_def Let_def remove_at_Nil)

function close_wanted :: "'v pane \<Rightarrow> 'v pane" where
  "close_wanted pn =
     (case position_of tb_wants_close (pn_items pn) of
        None \<Rightarrow> pn
      | Some i \<Rightarrow> close_wanted (close_tab i pn))"
  by pat_completeness auto
termination
proof (relation "measure (length \<circ> pn_items)")
  fix pn :: "'v pane" and i
  assume "position_of tb_wants_close (pn_items pn) = Some i"
  then have "i < length (pn_items pn)" by (rule position_of_Some [THEN conjunct1])
  then show "(close_tab i pn, pn) \<in> measure (length \<circ> pn_items)"
    by (simp add: close_tab_shorter)
qed simp

declare close_wanted.simps [simp del]

definition close_active_tab :: "'v pane \<Rightarrow> 'v pane" where
  "close_active_tab pn =
     (if pn_items pn = [] then emit_event Emptied pn else close_tab (pn_active pn) pn)"

definition activate_next :: "'v pane \<Rightarrow> 'v pane" where
  "activate_next pn =
     (if pn_items pn \<noteq> [] then activate ((pn_active pn + 1) mod length (pn_items pn)) pn else pn)"

definition activate_previous :: "'v pane \<Rightarrow> 'v pane" where
  "activate_previous pn =
     (if pn_items pn \<noteq> []
      then (let n = length (pn_items pn) in activate ((pn_active pn + n - 1) mod n) pn) else pn)"

definition new_tab :: "('v \<Rightarrow> 'v tab) \<Rightarrow> 'v \<Rightarrow> 'v pane \<Rightarrow> 'v pane" where
  "new_tab build welcome pn = add_item (build welcome) pn"

text \<open>What a user or a view does to one pane.  The last three only emit an event.\<close>

datatype 'v pane_op =
    AddTab "'v tab" | ActivateTab nat | CloseTab nat | CloseActive | CloseWanted
  | NextTab | PreviousTab | NewTab 'v | GoTo int | DropHere nat "nat option" | RefreshClusters
  | FocusPane | SplitPane split_axis | ZoomPane

fun pane_step :: "('v \<Rightarrow> 'v) \<Rightarrow> ('v \<Rightarrow> 'v tab) \<Rightarrow> 'v pane_op \<Rightarrow> 'v pane \<Rightarrow> 'v pane" where
  "pane_step current build (AddTab t) pn = add_item t pn"
| "pane_step current build (ActivateTab i) pn = activate i pn"
| "pane_step current build (CloseTab i) pn = close_tab i pn"
| "pane_step current build CloseActive pn = close_active_tab pn"
| "pane_step current build CloseWanted pn = close_wanted pn"
| "pane_step current build NextTab pn = activate_next pn"
| "pane_step current build PreviousTab pn = activate_previous pn"
| "pane_step current build (NewTab w) pn = new_tab build w pn"
| "pane_step current build (GoTo delta) pn = snd (navigate build delta pn)"
| "pane_step current build (DropHere i target) pn = drop_here i target pn"
| "pane_step current build RefreshClusters pn = refresh_clusters current build pn"
| "pane_step current build FocusPane pn = emit_event Focused pn"
| "pane_step current build (SplitPane axis) pn = emit_event (SplitEvent axis) pn"
| "pane_step current build ZoomPane pn = emit_event ZoomEvent pn"

section \<open>The workspace\<close>

record 'v workspace =
  ws_center :: "nat pane_group"
  ws_panes :: "nat \<Rightarrow> 'v pane"
  ws_next_pane :: nat
  ws_active :: nat
  ws_zoomed :: "nat option"
  ws_saved :: "'v pane_layout option"

definition set_pane :: "nat \<Rightarrow> 'v pane \<Rightarrow> 'v workspace \<Rightarrow> 'v workspace" where
  "set_pane p pn ws = ws\<lparr>ws_panes := (ws_panes ws)(p := pn)\<rparr>"

definition center_layout :: "('v \<Rightarrow> 'v) \<Rightarrow> 'v workspace \<Rightarrow> 'v pane_layout" where
  "center_layout current ws = group_layout (\<lambda>p. pane_layout_of current (ws_panes ws p)) (ws_center ws)"

definition save_layout :: "('v \<Rightarrow> 'v) \<Rightarrow> 'v workspace \<Rightarrow> 'v workspace" where
  "save_layout current ws = ws\<lparr>ws_saved := Some (center_layout current ws)\<rparr>"

text \<open>\<open>Workspace::split\<close>.  Filling the new pane makes it emit \<open>Changed\<close>; the layout is saved after it
  anyway, so these events are not kept.\<close>

definition ws_split ::
  "('v \<Rightarrow> 'v) \<Rightarrow> ('v \<Rightarrow> 'v tab) \<Rightarrow> nat \<Rightarrow> split_axis \<Rightarrow> 'v workspace \<Rightarrow> 'v workspace" where
  "ws_split current build p axis ws =
     (let new = ws_next_pane ws;
          pn = (case Option.bind (active_item (ws_panes ws p)) tb_request of
                  Some r \<Rightarrow> (add_item (build r) pane_new)\<lparr>pn_events := []\<rparr>
                | None \<Rightarrow> pane_new);
          ws = set_pane new pn (ws\<lparr>ws_next_pane := new + 1\<rparr>)
      in case split_group p new axis (ws_center ws) of
           Some (True, c) \<Rightarrow>
             save_layout current (ws\<lparr>ws_center := c, ws_zoomed := None, ws_active := new\<rparr>)
         | Some (False, c) \<Rightarrow> ws\<lparr>ws_center := c\<rparr>
         | None \<Rightarrow> ws)"

definition zoom_pane :: "nat \<Rightarrow> bool \<Rightarrow> 'v workspace \<Rightarrow> 'v workspace" where
  "zoom_pane p z ws = set_pane p (set_zoomed z (ws_panes ws p)) ws"

definition toggle_zoom :: "nat \<Rightarrow> 'v workspace \<Rightarrow> 'v workspace" where
  "toggle_zoom p ws =
     (let zoomed = ws_zoomed ws;
          ws = (case zoomed of Some z \<Rightarrow> zoom_pane z False ws | None \<Rightarrow> ws)
      in if zoomed = Some p then ws\<lparr>ws_zoomed := None\<rparr>
         else (zoom_pane p True ws)\<lparr>ws_zoomed := Some p\<rparr>)"

text \<open>What showing or hiding a dock does to a zoomed pane (\<open>toggle_dock\<close>, \<open>activate_dock_panel\<close>).\<close>

definition unzoom :: "'v workspace \<Rightarrow> 'v workspace" where
  "unzoom ws =
     (if ws_zoomed ws \<noteq> None
      then fold (\<lambda>p. zoom_pane p False) (panes (ws_center ws)) (ws\<lparr>ws_zoomed := None\<rparr>)
      else ws)"

definition emptied ::
  "('v \<Rightarrow> 'v) \<Rightarrow> nat \<Rightarrow> 'v workspace \<Rightarrow> 'v workspace" where
  "emptied current p ws =
     (case remove_pane p (ws_center ws) of
        (False, c) \<Rightarrow> ws\<lparr>ws_center := c\<rparr>
      | (True, c) \<Rightarrow>
          save_layout current
            (ws\<lparr>ws_center := c, ws_zoomed := (if ws_zoomed ws = Some p then None else ws_zoomed ws),
               ws_active := hd (panes c)\<rparr>))"

fun handle_pane_event ::
  "('v \<Rightarrow> 'v) \<Rightarrow> ('v \<Rightarrow> 'v tab) \<Rightarrow> nat \<Rightarrow> pane_event \<Rightarrow> 'v workspace \<Rightarrow> 'v workspace" where
  "handle_pane_event current build p Focused ws = ws\<lparr>ws_active := p\<rparr>"
| "handle_pane_event current build p (SplitEvent axis) ws = ws_split current build p axis ws"
| "handle_pane_event current build p Emptied ws = emptied current p ws"
| "handle_pane_event current build p ZoomEvent ws = toggle_zoom p ws"
| "handle_pane_event current build p ChangedEvent ws = save_layout current ws"

text \<open>The events a pane has emitted are handled in their order once its update is over.\<close>

definition drain ::
  "('v \<Rightarrow> 'v) \<Rightarrow> ('v \<Rightarrow> 'v tab) \<Rightarrow> nat \<Rightarrow> 'v workspace \<Rightarrow> 'v workspace" where
  "drain current build p ws =
     fold (handle_pane_event current build p) (pn_events (ws_panes ws p))
       (set_pane p ((ws_panes ws p)\<lparr>pn_events := []\<rparr>) ws)"

datatype 'v ws_op = OnPane nat "'v pane_op" | DropBetween nat nat nat "nat option" | UnZoom

text \<open>A pane the group does not hold is dropped and takes no part any more.\<close>

fun ws_step :: "('v \<Rightarrow> 'v) \<Rightarrow> ('v \<Rightarrow> 'v tab) \<Rightarrow> 'v ws_op \<Rightarrow> 'v workspace \<Rightarrow> 'v workspace" where
  "ws_step current build (OnPane p x) ws =
     (if p \<in> set (panes (ws_center ws))
      then drain current build p (set_pane p (pane_step current build x (ws_panes ws p)) ws) else ws)"
| "ws_step current build (DropBetween src dst i target) ws =
     (if src \<noteq> dst \<and> {src, dst} \<subseteq> set (panes (ws_center ws))
      then (let (a, b) = drop_from i target (ws_panes ws src) (ws_panes ws dst)
            in drain current build dst (drain current build src (set_pane dst b (set_pane src a ws))))
      else ws)"
| "ws_step current build UnZoom ws = unzoom ws"

text \<open>\<open>Workspace::new\<close>: a pane per leaf of the saved layout, with its tabs; the first one is active.\<close>

definition make_pane ::
  "('v \<Rightarrow> 'v tab) \<Rightarrow> 'v list \<Rightarrow> nat \<Rightarrow> nat \<times> (nat \<Rightarrow> 'v pane) \<Rightarrow> nat \<times> nat \<times> (nat \<Rightarrow> 'v pane)" where
  "make_pane build tabs active s =
     (let (n, ps) = s;
          pn = activate active (fold (\<lambda>r. add_item (build r)) tabs pane_new)
      in (n, n + 1, ps(n := pn)))"

definition workspace_new :: "('v \<Rightarrow> 'v) \<Rightarrow> ('v \<Rightarrow> 'v tab) \<Rightarrow> 'v pane_layout \<Rightarrow> 'v workspace" where
  "workspace_new current build layout =
     (let (center, n, ps) = from_layout (make_pane build) layout (0, \<lambda>_. pane_new);
          ws = \<lparr>ws_center = center, ws_panes = ps, ws_next_pane = n, ws_active = hd (panes center),
                ws_zoomed = None, ws_saved = None\<rparr>
      in fold (drain current build) (panes center) ws)"

section \<open>A pane stays in order\<close>

text \<open>The active index and the history position are in range, the history is bounded, and no
  navigation is under way between operations.\<close>

definition active_ok :: "'v pane \<Rightarrow> bool" where
  "active_ok pn \<longleftrightarrow> (if pn_items pn = [] then pn_active pn = 0 else pn_active pn < length (pn_items pn))"

definition history_ok :: "'v pane \<Rightarrow> bool" where
  "history_ok pn \<longleftrightarrow> length (pn_history pn) \<le> history_limit \<and>
     (if pn_history pn = [] then pn_pos pn = 0 else pn_pos pn < length (pn_history pn))"

definition pane_ok :: "'v pane \<Rightarrow> bool" where
  "pane_ok pn \<longleftrightarrow> active_ok pn \<and> history_ok pn \<and> \<not> pn_navigating pn"

lemma record_history_fields [simp]:
  "pn_active (record_history pn) = pn_active pn" "pn_navigating (record_history pn) = pn_navigating pn"
  "pn_zoomed (record_history pn) = pn_zoomed pn" "pn_events (record_history pn) = pn_events pn"
  by (simp_all add: record_history_def Let_def split: option.splits)

lemma emit_event_fields [simp]:
  "pn_active (emit_event e pn) = pn_active pn" "pn_navigating (emit_event e pn) = pn_navigating pn"
  "pn_history (emit_event e pn) = pn_history pn" "pn_pos (emit_event e pn) = pn_pos pn"
  "pn_zoomed (emit_event e pn) = pn_zoomed pn" "pn_events (emit_event e pn) = pn_events pn @ [e]"
  by (simp_all add: emit_event_def)

lemma activate_fields [simp]:
  "pn_active (activate i pn) = (if i < length (pn_items pn) then i else pn_active pn)"
  "pn_navigating (activate i pn) = pn_navigating pn" "pn_zoomed (activate i pn) = pn_zoomed pn"
  by (simp_all add: activate_def)

lemma insert_at_not_Nil [simp]: "insert_at i x xs \<noteq> []"
  by (simp add: insert_at_def)

lemma insert_item_fields [simp]:
  "pn_items (insert_item i t pn) = insert_at (min i (length (pn_items pn))) t (pn_items pn)"
  "pn_active (insert_item i t pn) = min i (length (pn_items pn))"
  "pn_navigating (insert_item i t pn) = pn_navigating pn" "pn_zoomed (insert_item i t pn) = pn_zoomed pn"
  by (simp_all add: insert_item_def Let_def less_Suc_eq_le)

lemma add_item_fields [simp]:
  "pn_navigating (add_item t pn) = pn_navigating pn" "pn_zoomed (add_item t pn) = pn_zoomed pn"
  by (simp_all add: add_item_def split: option.splits)

lemma history_ok_emit [simp]: "history_ok (emit_event e pn) = history_ok pn"
  by (simp add: history_ok_def)

lemma history_ok_record: "history_ok pn \<Longrightarrow> history_ok (record_history pn)"
  by (auto simp: record_history_def history_ok_def history_limit_def Let_def split: option.splits)

lemma history_ok_updates [simp]:
  "history_ok (pn\<lparr>pn_items := xs\<rparr>) = history_ok pn" "history_ok (pn\<lparr>pn_active := i\<rparr>) = history_ok pn"
  "history_ok (pn\<lparr>pn_events := es\<rparr>) = history_ok pn" "history_ok (pn\<lparr>pn_navigating := b\<rparr>) = history_ok pn"
  "history_ok (pn\<lparr>pn_zoomed := b\<rparr>) = history_ok pn"
  by (simp_all add: history_ok_def)

lemma active_ok_updates [simp]:
  "active_ok (pn\<lparr>pn_history := h\<rparr>) = active_ok pn" "active_ok (pn\<lparr>pn_pos := i\<rparr>) = active_ok pn"
  "active_ok (pn\<lparr>pn_events := es\<rparr>) = active_ok pn" "active_ok (pn\<lparr>pn_navigating := b\<rparr>) = active_ok pn"
  "active_ok (pn\<lparr>pn_zoomed := b\<rparr>) = active_ok pn" "active_ok (emit_event e pn) = active_ok pn"
  by (simp_all add: active_ok_def)

lemma history_ok_activate [intro]: "history_ok pn \<Longrightarrow> history_ok (activate i pn)"
  by (simp add: activate_def history_ok_record)

lemma history_ok_insert_item [intro]: "history_ok pn \<Longrightarrow> history_ok (insert_item i t pn)"
  by (auto simp: insert_item_def Let_def)

lemma history_ok_add_item [intro]: "history_ok pn \<Longrightarrow> history_ok (add_item t pn)"
  by (auto simp: add_item_def split: option.splits)

lemma active_ok_activate [intro]: "active_ok pn \<Longrightarrow> active_ok (activate i pn)"
  by (auto simp: active_ok_def)

lemma active_ok_insert_item [intro]: "active_ok (insert_item i t pn)"
  by (simp add: active_ok_def)

lemma active_ok_add_item [intro]: "active_ok pn \<Longrightarrow> active_ok (add_item t pn)"
  by (auto simp: add_item_def split: option.splits)

lemma pane_ok_add_item [intro]: "pane_ok pn \<Longrightarrow> pane_ok (add_item t pn)"
  by (auto simp: pane_ok_def)

lemma pane_ok_insert_item [intro]: "pane_ok pn \<Longrightarrow> pane_ok (insert_item i t pn)"
  by (auto simp: pane_ok_def)

lemma pane_ok_activate [intro]: "pane_ok pn \<Longrightarrow> pane_ok (activate i pn)"
  by (auto simp: pane_ok_def)

lemma pane_ok_emit [simp]: "pane_ok (emit_event e pn) = pane_ok pn"
  by (simp add: pane_ok_def active_ok_def)

lemma pane_ok_close [intro]: "pane_ok pn \<Longrightarrow> pane_ok (close_tab i pn)"
  by (auto simp: close_tab_def Let_def pane_ok_def active_ok_def remove_at_Nil
      intro!: history_ok_activate split: if_splits)

lemma pane_ok_close_wanted [intro]: "pane_ok pn \<Longrightarrow> pane_ok (close_wanted pn)"
  by (induction pn rule: close_wanted.induct) (subst close_wanted.simps, auto split: option.splits)

lemma pane_ok_take [intro]: "pane_ok pn \<Longrightarrow> pane_ok (snd (take_item i pn))"
  by (auto simp: take_item_def Let_def pane_ok_def active_ok_def remove_at_Nil dest!: position_of_Some
      intro!: history_ok_activate split: option.splits if_splits)

lemma pane_ok_drop_here [intro]: "pane_ok pn \<Longrightarrow> pane_ok (drop_here i target pn)"
  by (auto simp: drop_here_def Let_def pane_ok_def active_ok_def dest!: position_of_Some
      intro!: history_ok_activate split: option.splits if_splits)

lemma pane_ok_navigate [intro]: "pane_ok pn \<Longrightarrow> pane_ok (snd (navigate build delta pn))"
proof (cases "nth_opt (pn_history pn) (nat (int (pn_pos pn) + delta))")
  case (Some r)
  assume ok: "pane_ok pn"
  let ?pos = "nat (int (pn_pos pn) + delta)"
  have "history_ok (pn\<lparr>pn_pos := ?pos, pn_navigating := True\<rparr>)" "active_ok (pn\<lparr>pn_pos := ?pos, pn_navigating := True\<rparr>)"
    using ok Some by (auto simp: pane_ok_def history_ok_def active_ok_def nth_opt_def split: if_splits)
  with ok Some show ?thesis
    by (auto simp: navigate_def pane_ok_def Let_def active_ok_updates split: option.splits)
qed (simp add: navigate_def Let_def)

lemma pane_ok_refresh [intro]: "pane_ok pn \<Longrightarrow> pane_ok (refresh_clusters current build pn)"
  by (auto simp: refresh_clusters_def pane_ok_def active_ok_def history_ok_def Let_def)

lemma pane_ok_step: "pane_ok pn \<Longrightarrow> pane_ok (pane_step current build x pn)"
  by (cases x) (auto simp: close_active_tab_def activate_next_def activate_previous_def new_tab_def Let_def)

section \<open>The history follows the active tab\<close>

definition active_request :: "'v pane \<Rightarrow> 'v option" where
  "active_request pn = Option.bind (active_item pn) tb_request"

definition tracks :: "'v pane \<Rightarrow> bool" where
  "tracks pn \<longleftrightarrow>
     (case active_request pn of None \<Rightarrow> True | Some r \<Rightarrow> nth_opt (pn_history pn) (pn_pos pn) = Some r)"

lemma active_request_emit [simp]: "active_request (emit_event e pn) = active_request pn"
  by (simp add: active_request_def active_item_def)

lemma tracks_emit [simp]: "tracks (emit_event e pn) = tracks pn"
  by (simp only: tracks_def emit_event_fields active_request_emit)

lemma tracks_empty [simp]: "pn_items pn = [] \<Longrightarrow> tracks pn"
  by (simp add: tracks_def active_request_def active_item_def nth_opt_def)

lemma active_request_updates [simp]:
  "active_request (pn\<lparr>pn_events := es\<rparr>) = active_request pn" "active_request (pn\<lparr>pn_pos := i\<rparr>) = active_request pn"
  "active_request (pn\<lparr>pn_history := h\<rparr>) = active_request pn"
  "active_request (pn\<lparr>pn_navigating := b\<rparr>) = active_request pn"
  by (simp_all add: active_request_def active_item_def)

lemma active_request_record [simp]: "active_request (record_history pn) = active_request pn"
  by (simp add: active_request_def active_item_def)

lemma active_request_activate [simp]:
  "i < length (pn_items pn) \<Longrightarrow> active_request (activate i pn) = tb_request (pn_items pn ! i)"
  by (simp add: active_request_def active_item_def nth_opt_def)

lemma tracks_record: "\<not> pn_navigating pn \<Longrightarrow> tracks (record_history pn)"
proof (cases "active_request pn")
  case (Some r)
  assume "\<not> pn_navigating pn"
  let ?h = "take (pn_pos pn + 1) (pn_history pn) @ [r]"
  have "nth_opt ?h (length ?h - 1) = Some r" by (simp add: nth_opt_def nth_append)
  moreover have "history_limit < length ?h \<Longrightarrow> nth_opt (tl ?h) (length (tl ?h) - 1) = Some r"
    by (cases "take (pn_pos pn + 1) (pn_history pn)") (auto simp: nth_opt_def nth_append history_limit_def)
  ultimately show ?thesis
    using Some \<open>\<not> pn_navigating pn\<close>
    by (simp add: tracks_def) (simp add: record_history_def active_request_def Let_def)
qed (simp add: tracks_def)

lemma tracks_activate [intro]:
  "i < length (pn_items pn) \<Longrightarrow> \<not> pn_navigating pn \<Longrightarrow> tracks (activate i pn)"
  by (simp add: activate_def tracks_record)

lemma tracks_insert_item [intro]: "\<not> pn_navigating pn \<Longrightarrow> tracks (insert_item i t pn)"
  by (simp add: insert_item_def Let_def less_Suc_eq_le tracks_activate)

lemma tracks_add_item [intro]: "\<not> pn_navigating pn \<Longrightarrow> tracks (add_item t pn)"
  by (auto simp: add_item_def bind_eq_Some_conv dest!: position_of_Some split: option.splits)

lemma tracks_close [intro]: "pane_ok pn \<Longrightarrow> tracks pn \<Longrightarrow> tracks (close_tab i pn)"
  by (auto simp: close_tab_def Let_def pane_ok_def active_ok_def remove_at_Nil split: if_splits)

lemma tracks_close_wanted [intro]: "pane_ok pn \<Longrightarrow> tracks pn \<Longrightarrow> tracks (close_wanted pn)"
  by (induction pn rule: close_wanted.induct) (subst close_wanted.simps, auto split: option.splits)

lemma tracks_drop_here [intro]: "pane_ok pn \<Longrightarrow> tracks pn \<Longrightarrow> tracks (drop_here i target pn)"
  by (auto simp: drop_here_def Let_def pane_ok_def less_Suc_eq_le dest!: position_of_Some split: option.splits)

lemma tracks_take [intro]: "pane_ok pn \<Longrightarrow> tracks pn \<Longrightarrow> tracks (snd (take_item i pn))"
  by (auto simp: take_item_def Let_def pane_ok_def active_ok_def remove_at_Nil dest!: position_of_Some
      split: option.splits if_splits)

text \<open>What the code relies on of \<open>build_view\<close>: the view built for a request reports that request.\<close>

definition builds :: "('v \<Rightarrow> 'v tab) \<Rightarrow> bool" where
  "builds build \<longleftrightarrow> (\<forall>r. tb_request (build r) = Some r)"

text \<open>Going through the history moves the position and shows its request, and nothing else of the
  history.\<close>

lemma navigate_spec:
  assumes "pane_ok pn" "builds build" "0 \<le> int (pn_pos pn) + delta"
    "nth_opt (pn_history pn) (nat (int (pn_pos pn) + delta)) = Some r"
  shows "case navigate build delta pn of (went, pn') \<Rightarrow>
      went \<and> pn_pos pn' = nat (int (pn_pos pn) + delta) \<and> pn_history pn' = pn_history pn \<and>
      active_request pn' = Some r \<and> pane_ok pn'"
proof -
  let ?pn = "pn\<lparr>pn_pos := nat (int (pn_pos pn) + delta), pn_navigating := True\<rparr>"
  have quiet: "pn_history (record_history q) = pn_history q \<and> pn_pos (record_history q) = pn_pos q"
    if "pn_navigating q" for q :: "'a pane"
    using that by (simp add: record_history_def)
  show ?thesis
  proof (cases "position_of (shows_request r) (pn_items pn)")
    case (Some i)
    with position_of_Some [OF Some] have "navigate build delta pn = (True, (activate i ?pn)\<lparr>pn_navigating := False\<rparr>)"
      using assms(3,4) by (simp add: navigate_def Let_def)
    moreover have "pane_ok (snd (navigate build delta pn))" using assms(1) by (rule pane_ok_navigate)
    ultimately show ?thesis
      using position_of_Some [OF Some] by (simp add: shows_request_def) (simp add: activate_def quiet)
  next
    case None
    have new: "tb_request (build r) = Some r" using assms(2) by (simp add: builds_def)
    then have add: "add_item (build r) ?pn = insert_item (if pn_items pn = [] then 0 else pn_active pn + 1) (build r) ?pn"
      using None by (simp add: add_item_def)
    let ?i = "min (if pn_items pn = [] then 0 else pn_active pn + 1) (length (pn_items pn))"
    have "navigate build delta pn =
        (True, (insert_item (if pn_items pn = [] then 0 else pn_active pn + 1) (build r) ?pn)\<lparr>pn_navigating := False\<rparr>)"
      using assms(3,4) None add by (simp add: navigate_def Let_def)
    moreover have "pane_ok (snd (navigate build delta pn))" using assms(1) by (rule pane_ok_navigate)
    moreover have "insert_at ?i (build r) (pn_items pn) ! ?i = build r" by (simp add: insert_at_def nth_append)
    ultimately show ?thesis
      using new by (simp add: insert_item_def Let_def less_Suc_eq_le) (simp add: activate_def quiet)
  qed
qed

lemma navigate_fails: "fst (navigate build delta pn) = False \<Longrightarrow> snd (navigate build delta pn) = pn"
  by (auto simp: navigate_def Let_def split: option.splits if_splits)

lemma navigate_goes:
  "fst (navigate build delta pn) \<Longrightarrow>
     0 \<le> int (pn_pos pn) + delta \<and> nth_opt (pn_history pn) (nat (int (pn_pos pn) + delta)) \<noteq> None"
  by (auto simp: navigate_def Let_def split: option.splits if_splits)

lemma tracks_navigate [intro]:
  assumes "pane_ok pn" "builds build" "tracks pn"
  shows "tracks (snd (navigate build delta pn))"
proof (cases "fst (navigate build delta pn)")
  case True
  from navigate_goes [OF True] obtain r where "0 \<le> int (pn_pos pn) + delta"
      "nth_opt (pn_history pn) (nat (int (pn_pos pn) + delta)) = Some r" by auto
  from navigate_spec [OF assms(1,2) this] this(2) show ?thesis
    by (auto simp: tracks_def split: prod.splits)
next
  case False
  with navigate_fails [of build delta pn] assms(3) show ?thesis by simp
qed

text \<open>A refresh of the cluster ids is left out: it rewrites the history but not the tabs with unsaved
  edits.\<close>

lemma tracks_step:
  assumes "pane_ok pn" "builds build" "tracks pn" "x \<noteq> RefreshClusters"
  shows "tracks (pane_step current build x pn)"
proof (cases x)
  case (ActivateTab i)
  with assms show ?thesis
    by (cases "i < length (pn_items pn)") (auto simp: pane_ok_def, simp add: activate_def)
next
  case PreviousTab
  with assms show ?thesis
    by (auto simp: activate_previous_def Let_def pane_ok_def intro!: tracks_activate)
next
  case NextTab
  with assms show ?thesis by (auto simp: activate_next_def pane_ok_def intro!: tracks_activate)
qed (use assms in \<open>auto simp: close_active_tab_def new_tab_def pane_ok_def[THEN iffD1]\<close>)

definition tracked :: "('v \<Rightarrow> 'v tab) \<Rightarrow> 'v pane \<Rightarrow> bool" where
  "tracked build pn \<longleftrightarrow> pane_ok pn \<and> (builds build \<longrightarrow> tracks pn)"

interpretation history: guarded_machine "pane_step current build" "\<lambda>x. x \<noteq> RefreshClusters" "tracked build"
  for current build
  by unfold_locales (auto simp: tracked_def pane_ok_step tracks_step)

text \<open>Going back and then forward through the history of a pane (or any other number of steps and
  the same number back) shows again what was shown, whatever tabs were opened, moved and closed
  before, and loses nothing of the history.\<close>

lemma back_and_forward:
  assumes "builds build" "list_all (\<lambda>x. x \<noteq> RefreshClusters) ops"
    and "pn = fold (pane_step current build) ops pane_new" "active_request pn = Some r"
    and "navigate build delta pn = (True, pn1)"
  shows "case navigate build (- delta) pn1 of (went, pn2) \<Rightarrow>
      went \<and> active_request pn2 = Some r \<and> pn_history pn2 = pn_history pn \<and> pn_pos pn2 = pn_pos pn"
proof -
  have "tracked build (pane_new :: 'a pane)"
    by (simp add: tracked_def pane_ok_def active_ok_def history_ok_def pane_new_def)
  then have "tracked build pn" unfolding assms(3) by (rule history.run_keeps [OF assms(2)])
  with assms(1,4) have ok: "pane_ok pn" and pos: "nth_opt (pn_history pn) (pn_pos pn) = Some r"
    by (auto simp: tracked_def tracks_def)
  from navigate_goes [of build delta pn] assms(5) obtain q where q: "0 \<le> int (pn_pos pn) + delta"
      "nth_opt (pn_history pn) (nat (int (pn_pos pn) + delta)) = Some q" by auto
  from navigate_spec [OF ok assms(1) q] assms(5) have pn1: "pn_pos pn1 = nat (int (pn_pos pn) + delta)"
      "pn_history pn1 = pn_history pn" "pane_ok pn1" by auto
  have "navigate build (- delta) pn1 = (fst (navigate build (- delta) pn1), snd (navigate build (- delta) pn1))" by simp
  moreover have "0 \<le> int (pn_pos pn1) + - delta" "nat (int (pn_pos pn1) + - delta) = pn_pos pn"
    using pn1(1) q(1) by auto
  ultimately show ?thesis
    using navigate_spec [OF pn1(3) assms(1), of "- delta" r] pos pn1(2) by (auto split: prod.splits)
qed

definition simple_tab :: "str \<Rightarrow> str tab" where
  "simple_tab r = \<lparr>tb_id = length r, tb_request = Some r, tb_dirty = False, tb_wants_close = False\<rparr>"

section \<open>Dragging a tab to another pane\<close>

lemma find_position: "find P xs = map_option ((!) xs) (position_of P xs)"
  by (induction xs) (auto simp: option.map_comp comp_def)

lemma mset_remove_at: "i < length xs \<Longrightarrow> add_mset (xs ! i) (mset (remove_at i xs)) = mset xs"
  by (metis Cons_nth_drop_Suc add_mset_add_single append_take_drop_id mset.simps(2) mset_append remove_at_def
      semiring_norm(174) union_mset_add_mset_right)

lemma mset_insert_at: "mset (insert_at i x xs) = add_mset x (mset xs)"
  by (metis append_take_drop_id insert_at_def mset.simps(2) mset_append union_mset_add_mset_right)

abbreviation tabs_of :: "'v pane \<Rightarrow> 'v tab multiset" where
  "tabs_of pn \<equiv> mset (pn_items pn)"

lemma take_item_tabs:
  assumes "take_item ident pn = (Some t, pn')"
  shows "tabs_of pn = add_mset t (tabs_of pn')" "find (\<lambda>t. tb_id t = ident) (pn_items pn) = Some t"
proof -
  from assms obtain i where i: "position_of (\<lambda>t. tb_id t = ident) (pn_items pn) = Some i" "t = pn_items pn ! i"
      "pn_items pn' = remove_at i (pn_items pn)"
    by (auto simp: take_item_def Let_def split: option.splits if_splits)
  with position_of_Some [OF i(1)] mset_remove_at [of i "pn_items pn"]
  show "tabs_of pn = add_mset t (tabs_of pn')" "find (\<lambda>t. tb_id t = ident) (pn_items pn) = Some t"
    by (auto simp: find_position)
qed

text \<open>What a drop does to the tabs of the two panes.\<close>

lemma drop_from_tabs:
  assumes "drop_from ident target source pn = (source', pn')"
  obtains "source' = source" "pn' = pn"
  | t where "tabs_of source = add_mset t (tabs_of source')" "tabs_of pn' = add_mset t (tabs_of pn)"
      "\<And>r. tb_request t = Some r \<Longrightarrow> \<not> list_ex (shows_request r) (pn_items pn)"
  | t e where "tabs_of source = add_mset t (tabs_of source')" "e \<in># tabs_of pn" "tb_request e = tb_request t"
      "tb_request t \<noteq> None" "\<not> (tb_dirty t \<and> tb_dirty e)"
      "tabs_of pn' = add_mset (if tb_dirty t then t else e) (tabs_of pn - {#e#})"
proof (cases "fst (take_item ident source)")
  case None
  with assms that(1) show ?thesis
    by (auto simp: drop_from_def take_item_def find_position Let_def split: option.splits if_splits)
next
  case (Some t)
  then obtain src where take: "take_item ident source = (Some t, src)" by (metis prod.collapse)
  note tabs = take_item_tabs [OF take]
  show ?thesis
  proof (cases "Option.bind (tb_request t) (\<lambda>r. position_of (shows_request r) (pn_items pn))")
    case None
    then have "\<not> list_ex (shows_request r) (pn_items pn)" if "tb_request t = Some r" for r
      using that by (simp add: position_of_None list_ex_iff)
    moreover from None assms take tabs(2) have "source' = src" "tabs_of pn' = add_mset t (tabs_of pn)"
      by (auto simp: drop_from_def Let_def mset_insert_at)
    ultimately show ?thesis using that(2) [of t] tabs(1) by blast
  next
    case (Some k)
    then obtain r where r: "tb_request t = Some r" "position_of (shows_request r) (pn_items pn) = Some k"
      by (auto simp: bind_eq_Some_conv)
    let ?e = "pn_items pn ! k"
    from position_of_Some [OF r(2)] have k: "k < length (pn_items pn)" "tb_request ?e = tb_request t"
      by (auto simp: shows_request_def r(1))
    show ?thesis
    proof (cases "tb_dirty t \<and> tb_dirty ?e")
      case True
      with that(1) assms Some tabs(2) show ?thesis by (simp add: drop_from_def Let_def)
    next
      case False
      with assms Some take tabs(2) have "source' = src"
          "tabs_of pn' = add_mset (if tb_dirty t then t else ?e) (mset (remove_at k (pn_items pn)))"
        by (auto simp: drop_from_def Let_def mset_insert_at)
      moreover have "mset (remove_at k (pn_items pn)) = tabs_of pn - {#?e#}"
        using mset_remove_at [OF k(1)] by (metis add_mset_remove_trivial)
      ultimately show ?thesis
        using that(3) [of t ?e] tabs(1) k r(1) False by auto
    qed
  qed
qed

text \<open>C19: dragging a tab from one pane to another never loses unsaved edits: the tabs with unsaved
  edits of the two panes are the same as before.  Of the other tabs at most one is gone, and then the
  destination shows its view.\<close>

theorem drop_keeps_edits:
  "case drop_from ident target source pn of (source', pn') \<Rightarrow>
     filter_mset tb_dirty (tabs_of source' + tabs_of pn') = filter_mset tb_dirty (tabs_of source + tabs_of pn) \<and>
     (if tabs_of source' + tabs_of pn' = tabs_of source + tabs_of pn then True
      else \<exists>t u. add_mset t (tabs_of source' + tabs_of pn') = tabs_of source + tabs_of pn \<and>
             \<not> tb_dirty t \<and> u \<in># tabs_of pn' \<and> tb_request u = tb_request t \<and> tb_request t \<noteq> None)"
proof -
  obtain source' pn' where drop: "drop_from ident target source pn = (source', pn')" by fastforce
  then show ?thesis
  proof (rule drop_from_tabs)
    fix t e
    assume t: "tabs_of source = add_mset t (tabs_of source')" and e: "e \<in># tabs_of pn" "tb_request e = tb_request t"
      "tb_request t \<noteq> None" "\<not> (tb_dirty t \<and> tb_dirty e)"
      and pn': "tabs_of pn' = add_mset (if tb_dirty t then t else e) (tabs_of pn - {#e#})"
    from e(1) obtain rest where rest: "tabs_of pn = add_mset e rest" by (metis insert_DiffM)
    show ?thesis
      using t pn' e(2-) by (cases "tb_dirty t") (auto simp: drop rest)
  qed (simp_all add: drop)
qed

section \<open>Which operations report a change\<close>

text \<open>What the saved layout shows of a pane, and whether a pane that shows something else has said so.\<close>

definition pane_view :: "'v pane \<Rightarrow> 'v tab list \<times> nat" where
  "pane_view pn = (pn_items pn, pn_active pn)"

definition reported :: "'v pane \<Rightarrow> 'v pane \<Rightarrow> bool" where
  "reported pn pn' \<longleftrightarrow>
     (pane_view pn' = pane_view pn \<or> ChangedEvent \<in> set (pn_events pn')) \<and>
     set (pn_events pn') \<subseteq> set (pn_events pn) \<union> {Emptied, ChangedEvent} \<and>
     set (pn_events pn) \<subseteq> set (pn_events pn')"

lemma reported_refl [simp]: "reported pn pn"
  by (auto simp: reported_def)

lemma reported_trans: "reported a b \<Longrightarrow> reported b c \<Longrightarrow> reported a c"
  by (auto simp: reported_def)

lemma pane_layout_view: "pane_view a = pane_view b \<Longrightarrow> pane_layout_of current a = pane_layout_of current b"
proof -
  assume "pane_view a = pane_view b"
  then have "pn_items a = pn_items b" "pn_active a = pn_active b" by (simp_all add: pane_view_def)
  then show ?thesis unfolding pane_layout_of_def by (simp only:)
qed

lemma events_activate:
  "pn_events (activate i pn) =
     (if i < length (pn_items pn) \<and> i \<noteq> pn_active pn then pn_events pn @ [ChangedEvent] else pn_events pn)"
  by (simp add: activate_def)

lemma reported_activate [intro]: "reported pn (activate i pn)"
  by (auto simp: reported_def pane_view_def events_activate)

lemma reported_insert_item [intro]: "reported pn (insert_item i t pn)"
  by (auto simp: reported_def insert_item_def Let_def events_activate)

lemma reported_add_item [intro]: "reported pn (add_item t pn)"
  by (auto simp: add_item_def split: option.splits)

lemma reported_close [intro]: "reported pn (close_tab i pn)"
  by (auto simp: reported_def close_tab_def Let_def events_activate)

lemma reported_close_wanted [intro]: "reported pn (close_wanted pn)"
  by (induction pn rule: close_wanted.induct)
    (subst close_wanted.simps, auto split: option.splits intro: reported_trans)

lemma reported_drop_here [intro]: "reported pn (drop_here i target pn)"
  by (auto simp: reported_def drop_here_def Let_def events_activate split: option.splits)

lemma reported_take [intro]: "reported pn (snd (take_item i pn))"
  by (auto simp: reported_def take_item_def Let_def events_activate split: option.splits)

lemma reported_navigate [intro]: "reported pn (snd (navigate build delta pn))"
proof -
  have "reported pn (q\<lparr>pn_navigating := False\<rparr>)"
    if "reported (pn\<lparr>pn_pos := i, pn_navigating := True\<rparr>) q" for q i
    using that by (auto simp: reported_def pane_view_def)
  then show ?thesis
    by (auto simp: navigate_def Let_def reported_activate reported_add_item split: option.splits)
qed

lemma reported_refresh [intro]: "reported pn (refresh_clusters current build pn)"
proof -
  have "map snd (map (refresh_item current build) ts) = ts" if "\<not> list_ex fst (map (refresh_item current build) ts)" for ts
    using that by (induction ts) (auto simp: refresh_item_def split: option.splits if_splits)
  then show ?thesis by (auto simp: refresh_clusters_def reported_def pane_view_def Let_def)
qed

lemma reported_step:
  "x \<notin> {FocusPane, ZoomPane} \<Longrightarrow> \<forall>axis. x \<noteq> SplitPane axis \<Longrightarrow> reported pn (pane_step current build x pn)"
  by (cases x) (auto simp: close_active_tab_def activate_next_def activate_previous_def new_tab_def Let_def
      reported_def [of pn "emit_event Emptied pn"] pane_view_def)

lemma drop_from_shape:
  assumes "drop_from i target source pn = (source', pn')"
  shows "source' = source \<or> source' = snd (take_item i source)"
    "pn' = pn \<or> (\<exists>k t xs. pn' = insert_item k t (pn\<lparr>pn_items := xs\<rparr>))"
proof -
  obtain taken src where take: "take_item i source = (taken, src)" by fastforce
  have same: "insert_item k t pn = insert_item k t (pn\<lparr>pn_items := pn_items pn\<rparr>)" for k t by simp
  from assms show "source' = source \<or> source' = snd (take_item i source)"
    unfolding drop_from_def take by (auto simp: Let_def split: option.splits if_splits)
  from assms show "pn' = pn \<or> (\<exists>k t xs. pn' = insert_item k t (pn\<lparr>pn_items := xs\<rparr>))"
    unfolding drop_from_def take by (auto simp: Let_def split: option.splits if_splits intro: same)
qed

lemma reported_drop_from:
  assumes "drop_from i target source pn = (source', pn')"
  shows "reported source source'" "reported pn pn'"
proof -
  have "reported pn (insert_item k t (pn\<lparr>pn_items := xs\<rparr>))" for k t xs
    by (auto simp: reported_def insert_item_def Let_def events_activate)
  with drop_from_shape [OF assms] show "reported source source'" "reported pn pn'" by auto
qed

lemma pane_ok_drop_from:
  assumes "drop_from i target source pn = (source', pn')" "pane_ok source" "pane_ok pn"
  shows "pane_ok source'" "pane_ok pn'"
proof -
  have "pane_ok (insert_item k t (pn\<lparr>pn_items := xs\<rparr>))" for k t xs
    using assms(3) by (auto simp: pane_ok_def)
  with drop_from_shape [OF assms(1)] assms(2,3) show "pane_ok source'" "pane_ok pn'" by auto
qed

section \<open>The workspace stays in order\<close>

text \<open>The group is well formed, its panes are known and held once, the active and the zoomed pane are
  among them, and every pane is in order.\<close>

definition ws_ok :: "'v workspace \<Rightarrow> bool" where
  "ws_ok ws \<longleftrightarrow> group_ok (ws_center ws) \<and> distinct (panes (ws_center ws)) \<and>
     (\<forall>p \<in> set (panes (ws_center ws)). p < ws_next_pane ws) \<and>
     ws_active ws \<in> set (panes (ws_center ws)) \<and>
     (\<forall>z. ws_zoomed ws = Some z \<longrightarrow> z \<in> set (panes (ws_center ws))) \<and>
     (\<forall>p. pane_ok (ws_panes ws p))"

definition saved_ok :: "('v \<Rightarrow> 'v) \<Rightarrow> 'v pane_layout \<Rightarrow> 'v workspace \<Rightarrow> bool" where
  "saved_ok current start ws \<longleftrightarrow>
     (case ws_saved ws of None \<Rightarrow> center_layout current ws = start | Some l \<Rightarrow> l = center_layout current ws)"

lemma center_layout_cong:
  assumes "ws_center ws' = ws_center ws"
    and "\<And>p. p \<in> set (panes (ws_center ws)) \<Longrightarrow> pane_view (ws_panes ws' p) = pane_view (ws_panes ws p)"
  shows "center_layout current ws' = center_layout current ws"
  unfolding center_layout_def group_layout_def assms(1)
  by (rule to_layout_cong) (use assms(2) in \<open>auto simp: panes_def intro: pane_layout_view\<close>)

lemma save_layout_fields [simp]:
  "ws_center (save_layout current ws) = ws_center ws" "ws_next_pane (save_layout current ws) = ws_next_pane ws"
  "ws_active (save_layout current ws) = ws_active ws" "ws_zoomed (save_layout current ws) = ws_zoomed ws"
  "ws_panes (save_layout current ws) = ws_panes ws"
  by (simp_all add: save_layout_def)

lemma center_layout_updates [simp]:
  "center_layout current (ws\<lparr>ws_zoomed := z\<rparr>) = center_layout current ws"
  "center_layout current (ws\<lparr>ws_active := p\<rparr>) = center_layout current ws"
  by (simp_all add: center_layout_def)

lemma set_pane_fields [simp]:
  "ws_center (set_pane p pn ws) = ws_center ws" "ws_next_pane (set_pane p pn ws) = ws_next_pane ws"
  "ws_active (set_pane p pn ws) = ws_active ws" "ws_zoomed (set_pane p pn ws) = ws_zoomed ws"
  "ws_saved (set_pane p pn ws) = ws_saved ws" "ws_panes (set_pane p pn ws) = (ws_panes ws)(p := pn)"
  by (simp_all add: set_pane_def)

lemma saved_ok_save [simp]: "saved_ok current start (save_layout current ws)"
  by (simp add: saved_ok_def save_layout_def center_layout_def)

lemma saved_ok_frame:
  assumes "saved_ok current start ws" "ws_saved ws' = ws_saved ws" "ws_center ws' = ws_center ws"
    and "\<And>p. p \<in> set (panes (ws_center ws)) \<Longrightarrow> pane_view (ws_panes ws' p) = pane_view (ws_panes ws p)"
  shows "saved_ok current start ws'"
proof -
  have "center_layout current ws' = center_layout current ws" by (rule center_layout_cong) (use assms in auto)
  with assms(1,2) show ?thesis by (simp only: saved_ok_def)
qed

lemma ws_ok_save [simp]: "ws_ok (save_layout current ws) = ws_ok ws"
  by (simp add: ws_ok_def save_layout_def)

lemma pane_ok_new [simp]: "pane_ok pane_new"
  by (simp add: pane_ok_def active_ok_def history_ok_def pane_new_def)

lemma pane_ok_events [simp]: "pane_ok (pn\<lparr>pn_events := es\<rparr>) = pane_ok pn"
  by (simp add: pane_ok_def)

lemma pane_ok_zoomed [simp]: "pane_ok (set_zoomed z pn) = pane_ok pn"
  by (simp add: pane_ok_def set_zoomed_def)

lemma ws_ok_split: "ws_ok ws \<Longrightarrow> ws_ok (ws_split current build p axis ws)"
proof (rule split_group_cases [of p "ws_center ws" "ws_next_pane ws" axis])
  fix c
  assume ok: "ws_ok ws" and split: "split_group p (ws_next_pane ws) axis (ws_center ws) = Some (True, c)"
    and ins: "inserted_after p (ws_next_pane ws) (panes (ws_center ws)) (panes c)"
  from ok split have "group_ok c" by (auto simp: ws_ok_def intro: split_group_ok)
  moreover from ins have "set (panes c) = insert (ws_next_pane ws) (set (panes (ws_center ws)))"
    and "distinct (panes c)" using ok by (auto simp: inserted_after_def ws_ok_def)
  ultimately show ?thesis
    using ok split by (auto simp: ws_split_def Let_def set_pane_def ws_ok_def less_Suc_eq pane_ok_add_item split: option.splits)
next
  assume "ws_ok ws" "split_group p (ws_next_pane ws) axis (ws_center ws) = Some (False, ws_center ws)"
  then show ?thesis
    by (auto simp: ws_split_def Let_def set_pane_def ws_ok_def less_Suc_eq pane_ok_add_item split: option.splits)
qed

lemma saved_ok_split: "ws_ok ws \<Longrightarrow> saved_ok current start ws \<Longrightarrow> saved_ok current start (ws_split current build p axis ws)"
proof (rule split_group_cases [of p "ws_center ws" "ws_next_pane ws" axis])
  assume "ws_ok ws" "saved_ok current start ws" "split_group p (ws_next_pane ws) axis (ws_center ws) = Some (False, ws_center ws)"
  then show ?thesis
    by (auto simp: ws_split_def Let_def set_pane_def ws_ok_def intro!: saved_ok_frame [of current start ws])
qed (simp add: ws_split_def Let_def)

lemma ws_ok_emptied: "ws_ok ws \<Longrightarrow> ws_ok (emptied current p ws)"
proof (cases "remove_pane p (ws_center ws)")
  case (Pair removed c)
  assume ok: "ws_ok ws"
  show ?thesis
  proof (cases removed)
    case True
    with Pair ok have "group_ok c" "set (panes c) = set (panes (ws_center ws)) - {p}" "distinct (panes c)"
      using remove_pane_ok [of "ws_center ws" p] remove_present [of p "ws_center ws" c] by (auto simp: ws_ok_def)
    moreover from this(1) have "hd (panes c) \<in> set (panes c)" by (simp add: panes_not_empty)
    ultimately show ?thesis using True Pair ok by (auto simp: emptied_def ws_ok_def)
  next
    case False
    with Pair ok have "c = ws_center ws" by (auto simp: ws_ok_def dest: remove_refused)
    with False Pair ok show ?thesis by (simp add: emptied_def)
  qed
qed

lemma saved_ok_emptied: "ws_ok ws \<Longrightarrow> saved_ok current start ws \<Longrightarrow> saved_ok current start (emptied current p ws)"
  by (auto simp: emptied_def ws_ok_def dest: remove_refused split: prod.splits bool.splits)

lemma pane_view_zoomed [simp]: "pane_view (set_zoomed z pn) = pane_view pn"
  by (simp add: pane_view_def set_zoomed_def)

lemma pane_view_events [simp]: "pane_view (pn\<lparr>pn_events := es\<rparr>) = pane_view pn"
  by (simp add: pane_view_def)

lemma zoom_pane_fields [simp]:
  "ws_center (zoom_pane p z ws) = ws_center ws" "ws_next_pane (zoom_pane p z ws) = ws_next_pane ws"
  "ws_active (zoom_pane p z ws) = ws_active ws" "ws_zoomed (zoom_pane p z ws) = ws_zoomed ws"
  "ws_saved (zoom_pane p z ws) = ws_saved ws"
  "pane_view (ws_panes (zoom_pane p z ws) q) = pane_view (ws_panes ws q)"
  "pane_ok (ws_panes (zoom_pane p z ws) q) = pane_ok (ws_panes ws q)"
  by (simp_all add: zoom_pane_def)

lemma ws_ok_zoom_pane [simp]: "ws_ok (zoom_pane p z ws) = ws_ok ws"
  by (simp add: ws_ok_def)

lemma saved_ok_zoom_pane: "saved_ok current start ws \<Longrightarrow> saved_ok current start (zoom_pane p z ws)"
  by (rule saved_ok_frame) auto

lemma ws_ok_set_zoomed:
  "ws_ok ws \<Longrightarrow> (\<And>q. z = Some q \<Longrightarrow> q \<in> set (panes (ws_center ws))) \<Longrightarrow> ws_ok (ws\<lparr>ws_zoomed := z\<rparr>)"
  by (simp add: ws_ok_def)

lemma saved_ok_updates [simp]:
  "saved_ok current start (ws\<lparr>ws_zoomed := z\<rparr>) = saved_ok current start ws"
  "saved_ok current start (ws\<lparr>ws_active := p\<rparr>) = saved_ok current start ws"
  unfolding saved_ok_def center_layout_updates by simp_all

lemma toggle_zoom_keeps:
  "ws_ok ws \<Longrightarrow> p \<in> set (panes (ws_center ws)) \<Longrightarrow> ws_ok (toggle_zoom p ws)"
  "saved_ok current start ws \<Longrightarrow> saved_ok current start (toggle_zoom p ws)"
  by (auto simp: toggle_zoom_def Let_def intro!: ws_ok_set_zoomed saved_ok_zoom_pane split: option.splits)

lemma unzoom_keeps:
  assumes "ws_ok ws" "saved_ok current start ws"
  shows "ws_ok (unzoom ws) \<and> saved_ok current start (unzoom ws)"
proof -
  have "ws_ok (fold (\<lambda>p. zoom_pane p False) ps ws') \<and> saved_ok current start (fold (\<lambda>p. zoom_pane p False) ps ws')"
    if "ws_ok ws'" "saved_ok current start ws'" for ps ws'
    using that
  proof (induction ps arbitrary: ws')
    case (Cons a ps)
    then show ?case using Cons.IH [of "zoom_pane a False ws'"] by (simp add: saved_ok_zoom_pane)
  qed simp
  moreover have "ws_ok (ws\<lparr>ws_zoomed := None\<rparr>)" using assms(1) by (rule ws_ok_set_zoomed) simp
  ultimately show ?thesis using assms by (simp add: unzoom_def)
qed

text \<open>Handling the events of a pane: \<open>Focused\<close> and \<open>ToggleZoom\<close> come alone, from a pane of the group, the
  others in any order.\<close>

lemma pane_event_keeps:
  assumes "ws_ok ws" "ev \<in> {Focused, ZoomEvent} \<Longrightarrow> p \<in> set (panes (ws_center ws))"
  shows "ws_ok (handle_pane_event current build p ev ws)"
    "saved_ok current start ws \<or> ev = ChangedEvent \<Longrightarrow> saved_ok current start (handle_pane_event current build p ev ws)"
  using assms
  by (cases ev; auto simp: ws_ok_split ws_ok_emptied toggle_zoom_keeps saved_ok_split saved_ok_emptied; simp add: ws_ok_def)+

lemma handle_all_keeps:
  assumes "ws_ok ws" "set evs \<subseteq> {Emptied, ChangedEvent}"
  shows "ws_ok (fold (handle_pane_event current build p) evs ws) \<and>
    (saved_ok current start ws \<or> ChangedEvent \<in> set evs \<longrightarrow>
     saved_ok current start (fold (handle_pane_event current build p) evs ws))"
  using assms
proof (induction evs arbitrary: ws)
  case (Cons ev evs)
  then have "ws_ok (handle_pane_event current build p ev ws)" by (intro pane_event_keeps) auto
  with Cons show ?case
    using pane_event_keeps(2) [where ws = ws and ev = ev and p = p and current = current and start = start and build = build] by fastforce
qed simp

lemma handle_all_panes:
  "set evs \<subseteq> {Emptied, ChangedEvent} \<Longrightarrow>
     ws_panes (fold (handle_pane_event current build p) evs ws) = ws_panes ws"
  by (induction evs arbitrary: ws) (auto simp: emptied_def split: prod.splits bool.splits)

text \<open>The events of an operation: one of its own from a pane of the group, or what a changed pane says.\<close>

definition drainable :: "nat \<Rightarrow> 'v workspace \<Rightarrow> bool" where
  "drainable p ws \<longleftrightarrow> set (pn_events (ws_panes ws p)) \<subseteq> {Emptied, ChangedEvent} \<or>
     (p \<in> set (panes (ws_center ws)) \<and> (\<exists>ev. pn_events (ws_panes ws p) = [ev]))"

lemma drain_keeps:
  assumes "ws_ok ws" "drainable p ws"
  shows "ws_ok (drain current build p ws)"
    "saved_ok current start ws \<or> ChangedEvent \<in> set (pn_events (ws_panes ws p)) \<Longrightarrow>
     saved_ok current start (drain current build p ws)"
proof -
  let ?evs = "pn_events (ws_panes ws p)"
  let ?ws = "set_pane p ((ws_panes ws p)\<lparr>pn_events := []\<rparr>) ws"
  have ok: "ws_ok ?ws" using assms(1) by (simp add: ws_ok_def)
  have saved: "saved_ok current start ?ws" if "saved_ok current start ws"
    using that by (rule saved_ok_frame) auto
  have "ws_ok (drain current build p ws) \<and>
    (saved_ok current start ws \<or> ChangedEvent \<in> set ?evs \<longrightarrow> saved_ok current start (drain current build p ws))"
  proof (cases "set ?evs \<subseteq> {Emptied, ChangedEvent}")
    case True
    with handle_all_keeps [where current = current and build = build and p = p and start = start, OF ok True] saved show ?thesis by (auto simp: drain_def)
  next
    case False
    with assms(2) obtain ev where ev: "?evs = [ev]" "p \<in> set (panes (ws_center ws))" by (auto simp: drainable_def)
    with pane_event_keeps(1) [where ev = ev and p = p and current = current and build = build, OF ok] pane_event_keeps(2) [where ev = ev and p = p and current = current and start = start and build = build, OF ok] saved
    show ?thesis by (auto simp: drain_def)
  qed
  then show "ws_ok (drain current build p ws)"
    "saved_ok current start ws \<or> ChangedEvent \<in> set ?evs \<Longrightarrow> saved_ok current start (drain current build p ws)" by auto
qed

definition all_quiet :: "'v workspace \<Rightarrow> bool" where
  "all_quiet ws \<longleftrightarrow> (\<forall>p. pn_events (ws_panes ws p) = [])"

lemma events_zoom_pane [simp]: "pn_events (ws_panes (zoom_pane p z ws) q) = pn_events (ws_panes ws q)"
  by (simp add: zoom_pane_def set_zoomed_def)

lemma handle_quiet:
  "(\<forall>q. pn_events (ws_panes ws q) = [] \<or> q \<in> Q) \<Longrightarrow>
     \<forall>q. pn_events (ws_panes (handle_pane_event current build p ev ws) q) = [] \<or> q \<in> Q"
  by (cases ev) (auto simp: ws_split_def emptied_def toggle_zoom_def Let_def pane_new_def
      split: option.splits prod.splits bool.splits)

lemma drain_quiet:
  assumes "\<forall>q. pn_events (ws_panes ws q) = [] \<or> q \<in> insert p Q"
  shows "\<forall>q. pn_events (ws_panes (drain current build p ws) q) = [] \<or> q \<in> Q"
proof -
  have "\<forall>q. pn_events (ws_panes (fold (handle_pane_event current build p) evs ws') q) = [] \<or> q \<in> Q"
    if "\<forall>q. pn_events (ws_panes ws' q) = [] \<or> q \<in> Q" for evs ws'
    using that
  proof (induction evs arbitrary: ws')
    case (Cons ev evs)
    from Cons.IH [OF handle_quiet [OF Cons.prems]] show ?case by simp
  qed simp
  moreover have "\<forall>q. pn_events (ws_panes (set_pane p ((ws_panes ws p)\<lparr>pn_events := []\<rparr>) ws) q) = [] \<or> q \<in> Q"
    using assms by auto
  ultimately show ?thesis unfolding drain_def by blast
qed

definition ws_inv :: "('v \<Rightarrow> 'v) \<Rightarrow> 'v pane_layout \<Rightarrow> 'v workspace \<Rightarrow> bool" where
  "ws_inv current start ws \<longleftrightarrow> ws_ok ws \<and> saved_ok current start ws \<and> all_quiet ws"

lemma ws_ok_set_pane: "ws_ok ws \<Longrightarrow> pane_ok pn \<Longrightarrow> ws_ok (set_pane p pn ws)"
  by (simp add: ws_ok_def)

lemma on_pane_keeps:
  assumes "ws_inv current start ws" "p \<in> set (panes (ws_center ws))"
  shows "ws_inv current start (drain current build p (set_pane p (pane_step current build x (ws_panes ws p)) ws))"
proof -
  let ?pn = "pane_step current build x (ws_panes ws p)"
  let ?ws = "set_pane p ?pn ws"
  have ok: "ws_ok ?ws" using assms(1) by (auto simp: ws_inv_def ws_ok_def intro!: pane_ok_step)
  have quiet: "pn_events (ws_panes ws p) = []" using assms(1) by (simp add: ws_inv_def all_quiet_def)
  have "drainable p ?ws \<and> (saved_ok current start ?ws \<or> ChangedEvent \<in> set (pn_events (ws_panes ?ws p)))"
  proof (cases "x \<in> {FocusPane, ZoomPane} \<or> (\<exists>axis. x = SplitPane axis)")
    case True
    then have "pane_view ?pn = pane_view (ws_panes ws p)" "\<exists>ev. pn_events ?pn = [ev]"
      using quiet by (auto simp: pane_view_def)
    moreover from this(1) have "saved_ok current start ?ws"
      using assms(1) by (auto simp: ws_inv_def intro!: saved_ok_frame [of current start ws])
    ultimately show ?thesis using assms(2) by (auto simp: drainable_def)
  next
    case False
    then have rep: "reported (ws_panes ws p) ?pn" by (intro reported_step) auto
    then have "saved_ok current start ?ws \<or> ChangedEvent \<in> set (pn_events ?pn)"
      using assms(1) by (auto simp: ws_inv_def reported_def intro!: saved_ok_frame [of current start ws])
    moreover have "drainable p ?ws" using rep quiet by (auto simp: reported_def drainable_def)
    ultimately show ?thesis by simp
  qed
  then have "ws_ok (drain current build p ?ws)" "saved_ok current start (drain current build p ?ws)"
    using drain_keeps [OF ok] by blast+
  moreover have "all_quiet (drain current build p ?ws)"
    using drain_quiet [of ?ws p "{}" current build] assms(1) by (auto simp: ws_inv_def all_quiet_def)
  ultimately show ?thesis by (simp add: ws_inv_def)
qed

lemma drop_between_keeps:
  assumes "ws_inv current start ws" "src \<noteq> dst"
    and drop: "drop_from i target (ws_panes ws src) (ws_panes ws dst) = (a, b)"
  shows "ws_inv current start (drain current build dst (drain current build src (set_pane dst b (set_pane src a ws))))"
proof -
  let ?ws = "set_pane dst b (set_pane src a ws)"
  have quiet: "pn_events (ws_panes ws q) = []" for q using assms(1) by (simp add: ws_inv_def all_quiet_def)
  have ok: "ws_ok ?ws"
    using assms(1) pane_ok_drop_from [OF drop] by (auto simp: ws_inv_def ws_ok_def)
  note rep = reported_drop_from [OF drop, unfolded reported_def quiet]
  have events: "pn_events (ws_panes ?ws src) = pn_events a" "pn_events (ws_panes ?ws dst) = pn_events b"
    using assms(2) by auto
  have one: "drainable src ?ws" unfolding drainable_def events using rep(1) by auto
  note first = drain_keeps(1) [where current = current and build = build, OF ok one]
    and first_saved = drain_keeps(2) [where current = current and build = build and start = start, OF ok one]
  have kept: "pn_events (ws_panes (drain current build src ?ws) dst) = pn_events b"
    using assms(2) rep(1) handle_all_panes [of "pn_events a" current build src] by (simp add: drain_def)
  have two: "drainable dst (drain current build src ?ws)" unfolding drainable_def kept using rep(2) by auto
  have "saved_ok current start ?ws \<or> ChangedEvent \<in> set (pn_events a) \<or> ChangedEvent \<in> set (pn_events b)"
    using assms(1) rep by (auto simp: ws_inv_def intro!: saved_ok_frame [of current start ws])
  then have "saved_ok current start (drain current build src ?ws) \<or> ChangedEvent \<in> set (pn_events b)"
    using first_saved events by auto
  then have "saved_ok current start (drain current build dst (drain current build src ?ws))"
    using drain_keeps(2) [where current = current and start = start and build = build, OF first two] kept by auto
  moreover have "all_quiet (drain current build dst (drain current build src ?ws))"
    using drain_quiet [where p = dst and Q = "{}" and current = current and build = build,
      OF drain_quiet [where ws = ?ws and p = src and Q = "{dst}" and current = current and build = build]] quiet
    by (auto simp: all_quiet_def)
  ultimately show ?thesis using drain_keeps(1) [OF first two] by (simp add: ws_inv_def)
qed

lemma unzoom_quiet: "all_quiet ws \<Longrightarrow> all_quiet (unzoom ws)"
proof -
  have "all_quiet (fold (\<lambda>p. zoom_pane p False) ps ws')" if "all_quiet ws'" for ps and ws' :: "'a workspace"
    using that by (induction ps arbitrary: ws') (auto simp: all_quiet_def)
  then show "all_quiet ws \<Longrightarrow> all_quiet (unzoom ws)" by (simp add: unzoom_def all_quiet_def)
qed

interpretation working: machine "ws_step current build" "ws_inv current start" for current build start
proof
  fix ws x
  assume inv: "ws_inv current start ws"
  show "ws_inv current start (ws_step current build x ws)"
  proof (cases x)
    case (OnPane p y)
    with inv show ?thesis by (auto intro: on_pane_keeps)
  next
    case (DropBetween src dst i target)
    with inv show ?thesis by (auto intro: drop_between_keeps split: prod.splits)
  next
    case UnZoom
    with inv unzoom_keeps [of ws current start] unzoom_quiet [of ws] show ?thesis by (simp add: ws_inv_def)
  qed
qed

text \<open>The panes made for a layout: the numbers from the next one on, each in order, and none but they
  have something to say.\<close>

definition fresh_panes :: "nat \<times> (nat \<Rightarrow> 'v pane) \<Rightarrow> bool" where
  "fresh_panes s \<longleftrightarrow> (case s of (n, ps) \<Rightarrow> \<forall>p. pane_ok (ps p) \<and> set (pn_events (ps p)) \<subseteq> {ChangedEvent} \<and>
     (n \<le> p \<longrightarrow> pn_events (ps p) = []))"

lemma make_pane_fresh:
  assumes "make_pane build tabs active s = (p, s')" "fresh_panes s"
  shows "p = fst s" "fst s' = fst s + 1" "fresh_panes s'"
proof -
  have add: "set (pn_events (add_item t pn)) \<subseteq> insert ChangedEvent (set (pn_events pn))" for t and pn :: "'a pane"
    by (auto simp: add_item_def insert_item_def Let_def events_activate split: option.splits)
  have tabs: "pane_ok (fold (\<lambda>r. add_item (build r)) rs pn) \<and>
      set (pn_events (fold (\<lambda>r. add_item (build r)) rs pn)) \<subseteq> {ChangedEvent}"
    if "pane_ok pn" "set (pn_events pn) \<subseteq> {ChangedEvent}" for rs and pn :: "'a pane"
    using that
  proof (induction rs arbitrary: pn)
    case (Cons r rs)
    then show ?case using Cons.IH [of "add_item (build r) pn"] add [of "build r" pn] by auto
  qed simp
  have new: "pn_events (pane_new :: 'a pane) = []" by (simp add: pane_new_def)
  let ?pn = "activate active (fold (\<lambda>r. add_item (build r)) tabs pane_new)"
  have "pane_ok ?pn" "set (pn_events ?pn) \<subseteq> {ChangedEvent}"
    using tabs [OF pane_ok_new, of tabs] new by (auto simp: events_activate)
  then show "p = fst s" "fst s' = fst s + 1" "fresh_panes s'"
    using assms by (auto simp: make_pane_def Let_def fresh_panes_def split: prod.splits if_splits) blast+
qed

lemma from_layout_fresh:
  "member_from_layout (make_pane build) l y = (m, nx', s') \<Longrightarrow> fresh_panes (snd y) \<Longrightarrow>
     fresh_panes s' \<and> fst (snd y) < fst s' \<and> collect m = [fst (snd y)..<fst s']"
  "members_from_layout (make_pane build) ls y = (ms, nx', s') \<Longrightarrow> fresh_panes (snd y) \<Longrightarrow>
     fresh_panes s' \<and> fst (snd y) + length ls \<le> fst s' \<and> concat (map collect ms) = [fst (snd y)..<fst s']"
proof (induction "make_pane build" l y and "make_pane build" ls y arbitrary: m nx' s' and ms nx' s'
    rule: member_from_layout_members_from_layout.induct)
  case (1 tabs active nx s)
  obtain p s1 where mk: "make_pane build tabs active s = (p, s1)" by (metis surj_pair)
  with 1(1) have "m = Pane p" "s' = s1" by auto
  then show ?case using make_pane_fresh [OF mk] 1(2) by (simp add: upt_rec)
next
  case (2 axis nx s)
  obtain p s1 where mk: "make_pane build [] 0 s = (p, s1)" by (metis surj_pair)
  with 2(1) have "m = Pane p" "s' = s1" by auto
  then show ?case using make_pane_fresh [OF mk] 2(2) by (simp add: upt_rec)
next
  case (3 axis child nx s)
  then show ?case by simp
next
  case (4 axis c1 c2 cs nx s)
  obtain ms n1 s1 where ms: "members_from_layout (make_pane build) (c1 # c2 # cs) (nx + 1, s) = (ms, n1, s1)"
    by (metis prod_cases3)
  with 4(2) have "m = Split (nx + 1) axis ms" "s' = s1" by simp_all
  with 4(1) [OF refl ms] 4(3) show ?case by simp
next
  case (5 nx s)
  then show ?case by simp
next
  case (6 c cs nx s)
  obtain m1 n1 s1 where m: "member_from_layout (make_pane build) c (nx, s) = (m1, n1, s1)" by (metis prod_cases3)
  obtain ms1 n2 s2 where ms: "members_from_layout (make_pane build) cs (n1, s1) = (ms1, n2, s2)" by (metis prod_cases3)
  from 6(4) have first: "fresh_panes s1 \<and> fst s < fst s1 \<and> collect m1 = [fst s..<fst s1]"
    using 6(1) [OF m] by simp
  then have rest: "fresh_panes s2 \<and> fst s1 + length cs \<le> fst s2 \<and> concat (map collect ms1) = [fst s1..<fst s2]"
    using 6(2) [OF m [symmetric] refl refl ms] by simp
  from rest have "fst s1 \<le> fst s2" by simp
  then obtain k where "fst s2 = fst s1 + k" by (auto simp: le_iff_add)
  with first upt_add_eq_append [of "fst s" "fst s1" k] have "[fst s..<fst s1] @ [fst s1..<fst s2] = [fst s..<fst s2]"
    by simp
  moreover from 6(3) m ms have eqs: "ms = m1 # ms1" "s' = s2" by auto
  ultimately have "concat (map collect ms) = [fst s..<fst s']"
    using first rest by (simp only: list.map concat.simps)
  moreover have "fresh_panes s'" "fst s + length (c # cs) \<le> fst s'" using first rest eqs by simp_all
  ultimately show ?case by (simp only: snd_conv)
qed

lemma drain_list_keeps:
  assumes "ws_ok ws" "saved_ok current start ws" "set ps \<subseteq> set (panes (ws_center ws))"
    and "\<forall>q. set (pn_events (ws_panes ws q)) \<subseteq> {ChangedEvent} \<and> (pn_events (ws_panes ws q) = [] \<or> q \<in> set ps)"
  shows "ws_inv current start (fold (drain current build) ps ws)"
  using assms
proof (induction ps arbitrary: ws)
  case Nil
  then show ?case by (simp add: ws_inv_def all_quiet_def)
next
  case (Cons p ps)
  let ?ws = "drain current build p ws"
  have only: "set (pn_events (ws_panes ws p)) \<subseteq> {ChangedEvent}" using Cons.prems(4) by blast
  then have "drainable p ws" by (auto simp: drainable_def)
  note keeps = drain_keeps [where current = current and build = build and p = p, OF Cons.prems(1) this]
  from only have "set (pn_events (ws_panes ws p)) \<subseteq> {Emptied, ChangedEvent}" by auto
  then have panes: "ws_panes ?ws = (ws_panes ws)(p := (ws_panes ws p)\<lparr>pn_events := []\<rparr>)"
    by (simp add: drain_def handle_all_panes)
  have "ws_center (fold (handle_pane_event current build p) evs w) = ws_center w" if "set evs \<subseteq> {ChangedEvent}" for evs w
    using that by (induction evs arbitrary: w) auto
  then have center: "ws_center ?ws = ws_center ws" using only by (simp add: drain_def)
  have "ws_inv current start (fold (drain current build) ps ?ws)"
  proof (rule Cons.IH)
    show "saved_ok current start ?ws" using keeps(2) Cons.prems(2) by blast
    show "\<forall>q. set (pn_events (ws_panes ?ws q)) \<subseteq> {ChangedEvent} \<and> (pn_events (ws_panes ?ws q) = [] \<or> q \<in> set ps)"
      using Cons.prems(4) unfolding panes by auto
  qed (use keeps(1) Cons.prems(3) center in auto)
  then show ?case by simp
qed

text \<open>The workspace before the events of its making are handled.\<close>

definition workspace_made :: "('v \<Rightarrow> 'v tab) \<Rightarrow> 'v pane_layout \<Rightarrow> 'v workspace" where
  "workspace_made build layout =
     (let (center, n, ps) = from_layout (make_pane build) layout (0, \<lambda>_. pane_new)
      in \<lparr>ws_center = center, ws_panes = ps, ws_next_pane = n, ws_active = hd (panes center),
          ws_zoomed = None, ws_saved = None\<rparr>)"

lemma workspace_new_made:
  "workspace_new current build layout =
     fold (drain current build) (panes (ws_center (workspace_made build layout))) (workspace_made build layout)"
  by (simp add: workspace_new_def workspace_made_def Let_def split: prod.splits)

lemma workspace_new_inv:
  "ws_inv current (center_layout current (workspace_made build layout)) (workspace_new current build layout)"
proof -
  obtain m nx n ps where m: "member_from_layout (make_pane build) layout (0, 0, \<lambda>_. pane_new) = (m, nx, n, ps)"
    by (metis prod_cases4)
  let ?ws = "workspace_made build layout"
  have "fresh_panes (0, \<lambda>_. pane_new :: 'a pane)" by (simp add: fresh_panes_def) (simp add: pane_new_def)
  then have made: "fresh_panes (n, ps)" "0 < n" "collect m = [0..<n]"
    using from_layout_fresh(1) [OF m] by auto
  have ws: "ws_center ?ws = fst (from_layout (make_pane build) layout (0, \<lambda>_. pane_new))" "ws_panes ?ws = ps"
    "ws_next_pane ?ws = n" "panes (fst (from_layout (make_pane build) layout (0, \<lambda>_. pane_new))) = [0..<n]" "ws_active ?ws = hd [0..<n]" "ws_zoomed ?ws = None"
    "ws_saved ?ws = None"
    by (simp_all add: workspace_made_def from_layout_def m panes_def made(3))
  have "hd [0..<n] \<in> {0..<n}" using made(2) by (simp add: upt_conv_Cons)
  then have "ws_ok ?ws"
    using made from_layout_ok [of "make_pane build" layout "(0, \<lambda>_. pane_new)"]
    by (auto simp: ws_ok_def ws fresh_panes_def)
  moreover have "saved_ok current (center_layout current ?ws) ?ws" by (simp add: saved_ok_def ws(7))
  moreover have "\<forall>q. set (pn_events (ws_panes ?ws q)) \<subseteq> {ChangedEvent} \<and>
      (pn_events (ws_panes ?ws q) = [] \<or> q \<in> set (panes (ws_center ?ws)))"
    unfolding ws(2) ws(1) ws(4) using made(1) by (auto simp: fresh_panes_def)
  ultimately show ?thesis
    unfolding workspace_new_made by (intro drain_list_keeps) simp_all
qed

text \<open>C18: after any run of what users and views do to the panes of a restored workspace, the active and
  the zoomed pane are panes of the split tree, which holds every pane once and is never empty; every
  pane's active tab and history position are in range and its history holds at most 100 entries.\<close>

theorem workspace_consistent:
  "let ws = fold (ws_step current build) ops (workspace_new current build layout);
       held = panes (ws_center ws)
   in distinct held \<and> ws_active ws \<in> set held \<and>
      (case ws_zoomed ws of None \<Rightarrow> True | Some z \<Rightarrow> z \<in> set held) \<and>
      (case ws_panes ws p of pn \<Rightarrow>
         (if pn_items pn = [] then pn_active pn = 0 else pn_active pn < length (pn_items pn)) \<and>
         (if pn_history pn = [] then pn_pos pn = 0 else pn_pos pn < length (pn_history pn)) \<and>
         length (pn_history pn) \<le> 100)"
proof -
  have "ws_inv current (center_layout current (workspace_made build layout))
      (fold (ws_step current build) ops (workspace_new current build layout))"
    by (rule working.run_keeps [OF workspace_new_inv])
  then show ?thesis
    unfolding Let_def ws_inv_def ws_ok_def pane_ok_def active_ok_def history_ok_def history_limit_def
    by (simp split: option.splits)
qed

text \<open>C17: the layout on disk is never out of date: after any run it is the layout the window shows, or,
  when nothing was saved yet, the window still shows the layout it was restored with.\<close>

theorem saved_layout_current:
  "let ws = fold (ws_step current build) ops (workspace_new current build layout)
   in case ws_saved ws of
        Some l \<Rightarrow> l = center_layout current ws
      | None \<Rightarrow> center_layout current ws = center_layout current (workspace_made build layout)"
proof -
  have "ws_inv current (center_layout current (workspace_made build layout))
      (fold (ws_step current build) ops (workspace_new current build layout))"
    by (rule working.run_keeps [OF workspace_new_inv])
  then show ?thesis by (simp add: Let_def ws_inv_def saved_ok_def split: option.splits)
qed

text \<open>Splitting a zoomed pane ends the zoom, but leaves the pane itself marked as zoomed: its button
  still offers to end the zoom, and zooms instead.\<close>

lemma split_leaves_zoom_mark:
  "let ws = fold (ws_step id simple_tab) [OnPane 0 ZoomPane, OnPane 0 (SplitPane Horizontal)]
              (workspace_new id simple_tab (PaneLeaf [''pods''] 0))
   in ws_zoomed ws = None \<and> pn_zoomed (ws_panes ws 0)"
  by (simp add: workspace_new_def from_layout_def make_pane_def panes_def add_item_def insert_item_def
      insert_at_def activate_def record_history_def active_item_def nth_opt_def simple_tab_def emit_event_def
      history_limit_def drain_def save_layout_def set_pane_def toggle_zoom_def zoom_pane_def set_zoomed_def
      ws_split_def split_group_def pane_new_def Let_def)

lemma items_close: "i < length (pn_items pn) \<Longrightarrow> pn_items (close_tab i pn) = remove_at i (pn_items pn)"
  by (simp add: close_tab_def Let_def)

lemma remove_first: "position_of P xs = Some i \<Longrightarrow> filter (\<lambda>x. \<not> P x) (remove_at i xs) = filter (\<lambda>x. \<not> P x) xs"
  by (induction xs arbitrary: i) (auto simp: remove_at_def split: if_splits)

text \<open>C22: closing the tabs that ask for it ends, closes exactly those and keeps the others in their order.\<close>

theorem close_wanted_closes:
  "pn_items (close_wanted pn) = filter (\<lambda>t. \<not> tb_wants_close t) (pn_items pn)"
proof (induction pn rule: close_wanted.induct)
  case (1 pn)
  show ?case
  proof (cases "position_of tb_wants_close (pn_items pn)")
    case None
    then have "close_wanted pn = pn" by (subst close_wanted.simps) simp
    with None show ?thesis by (simp add: position_of_None)
  next
    case (Some i)
    with 1 [OF Some] position_of_Some [OF Some] remove_first [OF Some] show ?thesis
      by (subst close_wanted.simps) (simp add: items_close)
  qed
qed

end
