(* ===== verification/Redact.thy ===== *)
theory Redact
  imports TextLaws "HOL-Library.AList"
begin

text \<open>
  Masking of what leaves Kubyl's own views (\<open>crates/kubyl_resources_core/src/redact.rs\<close>, and the parts of
  \<open>route.rs\<close> it calls): Secrets, values under names of credentials, a Route's inline key.  Parsing the
  text of an annotation as JSON is the parameter \<open>parse_json\<close>; \<open>scrub_text\<close>, which is regular expressions
  only, is left out.
\<close>

section \<open>JSON objects in place\<close>

text \<open>\<open>Value::pointer\<close> along keys that are not numbers, so arrays have nothing there.\<close>

fun jpath :: "str list \<Rightarrow> json \<Rightarrow> json option" where
  "jpath [] v = Some v"
| "jpath (k # ks) v = Option.bind (jget v k) (jpath ks)"

text \<open>\<open>get_mut\<close> and \<open>pointer_mut\<close>: change what is there, if anything is.\<close>

fun jadjust :: "str \<Rightarrow> (json \<Rightarrow> json) \<Rightarrow> json \<Rightarrow> json" where
  "jadjust k f (JObj kvs) = JObj (AList.map_entry k f kvs)"
| "jadjust k f v = v"

fun jpath_adjust :: "str list \<Rightarrow> (json \<Rightarrow> json) \<Rightarrow> json \<Rightarrow> json" where
  "jpath_adjust [] f v = f v"
| "jpath_adjust (k # ks) f v = jadjust k (jpath_adjust ks f) v"

fun jremove :: "str \<Rightarrow> json \<Rightarrow> json" where
  "jremove k (JObj kvs) = JObj (AList.delete k kvs)"
| "jremove k v = v"

definition jstr_at :: "str list \<Rightarrow> json \<Rightarrow> str option" where
  "jstr_at ks v = Option.bind (jpath ks v) as_str"

section \<open>Credentials\<close>

text \<open>The mask: eight bullets (\<open>CHR 0x95\<close> stands for U+2022).\<close>

definition mask_text :: str where "mask_text = replicate 8 (CHR 0x95)"

definition last_applied :: str where
  "last_applied = ''kubectl.kubernetes.io/last-applied-configuration''"

text \<open>\<open>CREDENTIAL_NAME\<close>: a credential word at the end of the name, whatever its case.\<close>

definition credential_words :: "str list" where
  "credential_words =
     [''password'', ''passwd'', ''pwd'', ''secret'', ''token'', ''credential'', ''credentials'',
      ''apikey'', ''api_key'', ''api-key'', ''accesskey'', ''access_key'', ''access-key'',
      ''privatekey'', ''private_key'', ''private-key'']"

definition is_credential_name :: "str \<Rightarrow> bool" where
  "is_credential_name name = list_ex (\<lambda>w. ends_with w (to_ascii_lowercase name)) credential_words"

definition env_name :: "(str \<times> json) list \<Rightarrow> bool" where
  "env_name kvs =
     (case Option.bind (map_of kvs ''name'') as_str of Some name \<Rightarrow> is_credential_name name | None \<Rightarrow> False)"

definition sensitive :: "bool \<Rightarrow> str \<Rightarrow> bool" where
  "sensitive env key \<longleftrightarrow> is_credential_name key \<or> env \<and> key = ''value''"

fun mask_credential_fields :: "json \<Rightarrow> bool \<times> json"
  and mask_entries :: "bool \<Rightarrow> (str \<times> json) list \<Rightarrow> bool \<times> (str \<times> json) list"
  and mask_items :: "json list \<Rightarrow> bool \<times> json list" where
  "mask_credential_fields (JObj kvs) = (let (masked, kvs') = mask_entries (env_name kvs) kvs in (masked, JObj kvs'))"
| "mask_credential_fields (JArr items) = (let (masked, items') = mask_items items in (masked, JArr items'))"
| "mask_credential_fields v = (False, v)"
| "mask_entries env [] = (False, [])"
| "mask_entries env ((key, child) # rest) =
     (let (m, child') =
            (case child of
               JStr t \<Rightarrow> if sensitive env key \<and> t \<noteq> [] \<and> t \<noteq> mask_text then (True, JStr mask_text)
                         else mask_credential_fields child
             | _ \<Rightarrow> mask_credential_fields child);
          (n, rest') = mask_entries env rest
      in (m \<or> n, (key, child') # rest'))"
| "mask_items [] = (False, [])"
| "mask_items (item # items) =
     (let (m, item') = mask_credential_fields item; (n, items') = mask_items items in (m \<or> n, item' # items'))"

section \<open>Secrets and Routes\<close>

definition is_secret_object :: "json \<Rightarrow> bool" where
  "is_secret_object v \<longleftrightarrow> as_str (jindex v ''kind'') = Some ''Secret'' \<and> as_str (jindex v ''apiVersion'') = Some ''v1''"

definition mask_values :: "json \<Rightarrow> json" where
  "mask_values v = (case v of JObj kvs \<Rightarrow> JObj (map (\<lambda>(k, _). (k, JStr mask_text)) kvs) | _ \<Rightarrow> v)"

definition mask_last_applied :: "json \<Rightarrow> json" where
  "mask_last_applied = jpath_adjust [''metadata'', ''annotations'', last_applied] (\<lambda>_. JStr mask_text)"

definition mask_secret :: "json \<Rightarrow> bool \<times> json" where
  "mask_secret v =
     (if \<not> is_secret_object v then (False, v)
      else (True, mask_last_applied (jadjust ''stringData'' mask_values (jadjust ''data'' mask_values v))))"

definition is_route_object :: "json \<Rightarrow> bool" where
  "is_route_object v =
     (case (Option.bind (jget v ''kind'') as_str, Option.bind (jget v ''apiVersion'') as_str) of
        (Some kind, Some api) \<Rightarrow> kind = ''Route'' \<and> starts_with ''route.openshift.io/'' api
      | (Some kind, None) \<Rightarrow> kind = ''Route''
      | (None, _) \<Rightarrow> jpath [''spec'', ''to''] v \<noteq> None)"

definition has_inline_key :: "json \<Rightarrow> bool" where
  "has_inline_key v \<longleftrightarrow>
     is_route_object v \<and> (case jstr_at [''spec'', ''tls'', ''key''] v of Some k \<Rightarrow> k \<noteq> [] | None \<Rightarrow> False)"

definition applied_text_has_key :: "(str \<Rightarrow> json option) \<Rightarrow> str \<Rightarrow> bool" where
  "applied_text_has_key parse_json text =
     (if text = [] \<or> text = mask_text then False
      else (case parse_json text of
              Some applied \<Rightarrow>
                (case jstr_at [''spec'', ''tls'', ''key''] applied of Some k \<Rightarrow> k \<noteq> [] \<and> k \<noteq> mask_text | None \<Rightarrow> False)
            | None \<Rightarrow> True))"

definition last_applied_has_key :: "(str \<Rightarrow> json option) \<Rightarrow> json \<Rightarrow> bool" where
  "last_applied_has_key parse_json v \<longleftrightarrow>
     is_route_object v \<and>
     (case jstr_at [''metadata'', ''annotations'', last_applied] v of
        Some text \<Rightarrow> applied_text_has_key parse_json text | None \<Rightarrow> False)"

definition has_key_material :: "(str \<Rightarrow> json option) \<Rightarrow> json \<Rightarrow> bool" where
  "has_key_material parse_json v \<longleftrightarrow> has_inline_key v \<or> last_applied_has_key parse_json v"

definition mask_inline_key :: "(str \<Rightarrow> json option) \<Rightarrow> json \<Rightarrow> bool \<times> json" where
  "mask_inline_key parse_json v =
     (if \<not> has_key_material parse_json v then (False, v)
      else (True, mask_last_applied
              (if has_inline_key v then jpath_adjust [''spec'', ''tls'', ''key''] (\<lambda>_. JStr mask_text) v else v)))"

definition mask_object :: "(str \<Rightarrow> json option) \<Rightarrow> json \<Rightarrow> bool \<times> json" where
  "mask_object parse_json v =
     (let v = jpath_adjust [''metadata''] (jremove ''managedFields'') v;
          (fields, v) = mask_credential_fields v;
          (secret, v) = mask_secret v;
          (inline, v) = mask_inline_key parse_json v
      in (secret \<or> inline \<or> fields, v))"

definition is_helm_release :: "json \<Rightarrow> bool" where
  "is_helm_release v \<longleftrightarrow>
     as_str (jindex v ''kind'') \<in> {Some ''Secret'', Some ''ConfigMap''} \<and>
     jstr_at [''metadata'', ''labels'', ''owner''] v = Some ''helm''"

section \<open>What is exposed\<close>

text \<open>Whether a text under the name of a credential, or the value of such an environment variable, can
  still be read somewhere in a value.\<close>

fun exposed :: "json \<Rightarrow> bool"
  and exposed_entry :: "bool \<Rightarrow> str \<times> json \<Rightarrow> bool" where
  "exposed (JObj kvs) \<longleftrightarrow> list_ex (exposed_entry (env_name kvs)) kvs"
| "exposed (JArr items) \<longleftrightarrow> list_ex exposed items"
| "exposed v \<longleftrightarrow> False"
| "exposed_entry env (key, child) \<longleftrightarrow>
     (case child of JStr t \<Rightarrow> sensitive env key \<and> t \<noteq> [] \<and> t \<noteq> mask_text | _ \<Rightarrow> exposed child)"

text \<open>Masking leaves the texts under harmless keys, and so the name of a variable, as they are.\<close>

lemma name_is_harmless [simp]: "\<not> sensitive env ''name''"
  by (simp add: sensitive_def is_credential_name_def credential_words_def ends_with_def starts_with_def
      to_ascii_lower_def is_ascii_uppercase_def)

lemma mask_as_str [simp]: "as_str (snd (mask_credential_fields v)) = as_str v"
  by (cases v) (auto split: prod.splits)

lemma mask_entries_name:
  "Option.bind (map_of (snd (mask_entries env kvs)) ''name'') as_str = Option.bind (map_of kvs ''name'') as_str"
proof (induction kvs)
  case (Cons kv kvs)
  then show ?case
    by (cases kv) (auto simp: Let_def split: prod.splits json.splits)
qed simp

lemma mask_entries_env [simp]: "env_name (snd (mask_entries env kvs)) = env_name kvs"
  by (simp add: env_name_def mask_entries_name)

text \<open>One entry, masked.\<close>

definition mask_child :: "bool \<Rightarrow> str \<Rightarrow> json \<Rightarrow> bool \<times> json" where
  "mask_child env key child =
     (case child of
        JStr t \<Rightarrow> if sensitive env key \<and> t \<noteq> [] \<and> t \<noteq> mask_text then (True, JStr mask_text)
                  else mask_credential_fields child
      | _ \<Rightarrow> mask_credential_fields child)"

lemma mask_entries_Cons:
  "mask_entries env ((key, child) # rest) =
     (fst (mask_child env key child) \<or> fst (mask_entries env rest),
      (key, snd (mask_child env key child)) # snd (mask_entries env rest))"
  by (simp add: mask_child_def Let_def split_beta)

declare exposed_entry.simps [simp del]

lemma exposed_entry_text [simp]:
  "exposed_entry env (key, JStr t) \<longleftrightarrow> sensitive env key \<and> t \<noteq> [] \<and> t \<noteq> mask_text"
  by (simp add: exposed_entry.simps)

lemma exposed_entry_no_text: "as_str c = None \<Longrightarrow> exposed_entry env (key, c) = exposed c"
  by (cases c) (auto simp: exposed_entry.simps)

definition masked_well :: "('a \<Rightarrow> bool) \<Rightarrow> 'a \<Rightarrow> bool \<times> 'a \<Rightarrow> bool" where
  "masked_well shows v r \<longleftrightarrow> fst r = shows v \<and> \<not> shows (snd r) \<and> (\<not> shows v \<longrightarrow> snd r = v)"

lemma mask_child_well:
  assumes "masked_well exposed child (mask_credential_fields child)"
  shows "masked_well (exposed_entry env) (key, child) (apsnd (Pair key) (mask_child env key child))"
proof (cases "as_str child")
  case None
  moreover from this have "as_str (snd (mask_credential_fields child)) = None" by simp
  moreover from None have "mask_child env key child = mask_credential_fields child"
    by (cases child) (simp_all add: mask_child_def)
  ultimately show ?thesis using assms by (simp add: masked_well_def exposed_entry_no_text)
next
  case (Some t)
  then have "child = JStr t" by (cases child) simp_all
  then show ?thesis by (simp add: masked_well_def mask_child_def)
qed

lemma masking_spec:
  "masked_well exposed v (mask_credential_fields v)"
  "masked_well (list_ex (exposed_entry env)) kvs (mask_entries env kvs)"
  "masked_well (list_ex exposed) items (mask_items items)"
proof (induction v and env kvs and items rule: mask_credential_fields_mask_entries_mask_items.induct)
  case (1 kvs)
  with mask_entries_env [of "env_name kvs" kvs] show ?case by (simp add: masked_well_def split_beta)
next
  case (5 env key child rest)
  have "masked_well exposed child (mask_credential_fields child)"
  proof (cases child)
    case (JStr t)
    then show ?thesis by (simp add: masked_well_def)
  qed (use 5 in simp_all)
  moreover have "masked_well (list_ex (exposed_entry env)) rest (mask_entries env rest)"
    by (rule 5) (rule refl, rule prod.collapse)
  ultimately show ?case using mask_child_well [of child env key]
    unfolding mask_entries_Cons by (auto simp: masked_well_def)
next
  case (7 item items)
  have "masked_well (list_ex exposed) items (mask_items items)"
    by (rule 7) (rule refl, rule prod.collapse)
  with 7 show ?case by (auto simp: masked_well_def split_beta)
qed (simp_all add: masked_well_def split_beta)

section \<open>Masked objects\<close>

lemma map_of_map_entry_if:
  "map_of (AList.map_entry k f kvs) k' = (if k' = k then map_option f (map_of kvs k) else map_of kvs k')"
  by (induction kvs) auto

lemma jget_adjust [simp]:
  "jget (jadjust k f v) k' = (if k' = k then map_option f (jget v k) else jget v k')"
  by (cases v) (simp_all add: map_of_map_entry_if)

lemma adjust_as_str [simp]: "as_str (jadjust k f v) = as_str v"
  by (cases v) simp_all

definition env_of :: "json \<Rightarrow> bool" where
  "env_of v = (case v of JObj kvs \<Rightarrow> env_name kvs | _ \<Rightarrow> False)"

lemma map_of_mask_entries:
  "map_of (snd (mask_entries env kvs)) k = map_option (\<lambda>c. snd (mask_child env k c)) (map_of kvs k)"
  by (induction kvs) (auto simp: mask_entries_Cons simp del: mask_entries.simps(2))

lemma jget_mask:
  "jget (snd (mask_credential_fields v)) k = map_option (\<lambda>c. snd (mask_child (env_of v) k c)) (jget v k)"
  by (cases v) (auto simp: env_of_def map_of_mask_entries split_beta)

lemma mask_child_harmless: "\<not> sensitive env k \<Longrightarrow> mask_child env k c = mask_credential_fields c"
  by (cases c) (simp_all add: mask_child_def)

lemma jget_mask_harmless:
  "\<not> is_credential_name k \<Longrightarrow> k \<noteq> ''value'' \<Longrightarrow>
     jget (snd (mask_credential_fields v)) k = map_option (\<lambda>c. snd (mask_credential_fields c)) (jget v k)"
  unfolding jget_mask by (simp add: mask_child_harmless sensitive_def)

text \<open>Keys the masking of objects goes through.\<close>

lemma harmless_keys [simp]:
  "\<not> is_credential_name ''kind''" "\<not> is_credential_name ''apiVersion''" "\<not> is_credential_name ''metadata''"
  "\<not> is_credential_name ''managedFields''" "\<not> is_credential_name ''spec''" "\<not> is_credential_name ''to''"
  by (simp_all add: is_credential_name_def credential_words_def ends_with_def starts_with_def
      to_ascii_lower_def is_ascii_uppercase_def)

lemma bind_map_option: "Option.bind (map_option f x) g = Option.bind x (g \<circ> f)"
  by (cases x) simp_all

lemma adjust_hides:
  assumes "\<not> exposed v" "k \<noteq> ''name''" "\<And>x. \<not> exposed x \<Longrightarrow> \<not> exposed (f x)"
    "\<And>x t. f x = JStr t \<Longrightarrow> t = mask_text \<or> x = JStr t"
  shows "\<not> exposed (jadjust k f v)"
proof (cases v)
  case (JObj kvs)
  have one: "\<not> exposed_entry env (k, f x)" if "\<not> exposed_entry env (k, x)" for env x
  proof (cases "as_str (f x)")
    case None
    have "\<not> exposed x" using that by (cases x) (auto simp: exposed_entry_no_text)
    with None assms(3) show ?thesis by (simp add: exposed_entry_no_text)
  next
    case (Some t)
    then have "f x = JStr t" by (cases "f x") simp_all
    with assms(4) [of x t] that show ?thesis by auto
  qed
  have "env_name (AList.map_entry k f kvs) = env_name kvs"
    using assms(2) by (simp add: env_name_def map_of_map_entry_if)
  moreover have "\<not> list_ex (exposed_entry env) (AList.map_entry k f kvs)"
    if "\<not> list_ex (exposed_entry env) kvs" for env
    using that by (induction kvs) (auto simp: one)
  ultimately show ?thesis using assms(1) by (simp add: JObj)
qed (use assms in simp_all)

lemma path_adjust_hides:
  "\<not> exposed v \<Longrightarrow> ''name'' \<notin> set ks \<Longrightarrow> \<not> exposed (jpath_adjust ks (\<lambda>_. JStr mask_text) v)"
proof (induction ks arbitrary: v)
  case (Cons k ks)
  have "t = mask_text \<or> x = JStr t" if "jpath_adjust ks (\<lambda>_. JStr mask_text) x = JStr t" for x t
  proof (cases ks)
    case (Cons k' ks')
    with that have "as_str x = Some t" using adjust_as_str [of k' "jpath_adjust ks' (\<lambda>_. JStr mask_text)" x] by simp
    then show ?thesis by (cases x) simp_all
  qed (use that in simp)
  moreover have "\<not> exposed (jpath_adjust ks (\<lambda>_. JStr mask_text) x)" if "\<not> exposed x" for x
    using Cons.IH [OF that] Cons.prems(2) by simp
  ultimately show ?case using Cons.prems unfolding jpath_adjust.simps by (intro adjust_hides) auto
qed simp

lemma mask_values_hides: "\<not> exposed x \<Longrightarrow> \<not> exposed (mask_values x)"
proof (cases x)
  case (JObj kvs)
  have "\<not> list_ex (exposed_entry env) (map (\<lambda>(k, _). (k, JStr mask_text)) kvs)" for env
    by (induction kvs) auto
  then show ?thesis by (simp add: JObj mask_values_def)
qed (simp_all add: mask_values_def)

lemma mask_values_text: "mask_values x = JStr t \<Longrightarrow> x = JStr t"
  by (cases x) (simp_all add: mask_values_def)

lemma last_applied_not_name [simp]: "''name'' \<noteq> last_applied" "last_applied \<noteq> ''name''"
  by (simp_all add: last_applied_def)

lemma mask_last_applied_hides: "\<not> exposed v \<Longrightarrow> \<not> exposed (mask_last_applied v)"
  unfolding mask_last_applied_def by (rule path_adjust_hides) simp_all

lemma adjust_values_hides: "\<not> exposed v \<Longrightarrow> k \<noteq> ''name'' \<Longrightarrow> \<not> exposed (jadjust k mask_values v)"
  by (rule adjust_hides) (simp_all add: mask_values_hides, metis mask_values_text)

lemma mask_secret_hides: "\<not> exposed v \<Longrightarrow> \<not> exposed (snd (mask_secret v))"
  by (simp add: mask_secret_def mask_last_applied_hides adjust_values_hides)

lemma mask_inline_key_hides: "\<not> exposed v \<Longrightarrow> \<not> exposed (snd (mask_inline_key parse_json v))"
  using path_adjust_hides [of v "[''spec'', ''tls'', ''key'']"]
  by (simp add: mask_inline_key_def mask_last_applied_hides del: jpath_adjust.simps)

text \<open>What the parts of an object are after each step.\<close>

lemma bind_jpath_Nil [simp]: "Option.bind x (jpath []) = x"
  by (cases x) simp_all

lemma jpath_adjust_same: "jpath ks (jpath_adjust ks f v) = map_option f (jpath ks v)"
proof (induction ks arbitrary: v)
  case (Cons k ks)
  then show ?case by (cases "jget v k") simp_all
qed simp

lemma jget_last_applied:
  "jget (mask_last_applied v) k =
     (if k = ''metadata'' then map_option (jpath_adjust [''annotations'', last_applied] (\<lambda>_. JStr mask_text)) (jget v k)
      else jget v k)"
  by (auto simp: mask_last_applied_def)

lemma last_applied_masked:
  "jpath [''metadata'', ''annotations'', last_applied] (mask_last_applied v) \<in> {None, Some (JStr mask_text)}"
  unfolding mask_last_applied_def jpath_adjust_same by (cases "jpath [''metadata'', ''annotations'', last_applied] v") auto

lemma managed_fields_last_applied:
  "jpath [''metadata'', ''managedFields''] (mask_last_applied v) = jpath [''metadata'', ''managedFields''] v"
  by (cases "jget v ''metadata''") (simp_all add: jget_last_applied)

lemma managed_fields_removed: "jpath [''metadata'', ''managedFields''] (jpath_adjust [''metadata''] (jremove ''managedFields'') v) = None"
proof -
  have "jget (jremove k u) k = None" for k u by (cases u) (simp_all add: delete_conv')
  then show ?thesis by (cases "jget v ''metadata''") simp_all
qed

lemma managed_fields_masked:
  "jpath [''metadata'', ''managedFields''] v = None \<Longrightarrow>
     jpath [''metadata'', ''managedFields''] (snd (mask_credential_fields v)) = None"
  by (cases "jget v ''metadata''") (simp_all add: jget_mask_harmless)

definition kind_of :: "json \<Rightarrow> str option" where "kind_of v = Option.bind (jget v ''kind'') as_str"
definition api_of :: "json \<Rightarrow> str option" where "api_of v = Option.bind (jget v ''apiVersion'') as_str"
definition has_to :: "json \<Rightarrow> bool" where "has_to v \<longleftrightarrow> jpath [''spec'', ''to''] v \<noteq> None"

lemma kinds_eq:
  "is_secret_object v \<longleftrightarrow> kind_of v = Some ''Secret'' \<and> api_of v = Some ''v1''"
  "is_route_object v =
     (case (kind_of v, api_of v) of
        (Some kind, Some api) \<Rightarrow> kind = ''Route'' \<and> starts_with ''route.openshift.io/'' api
      | (Some kind, None) \<Rightarrow> kind = ''Route''
      | (None, _) \<Rightarrow> has_to v)"
  by (auto simp: is_secret_object_def is_route_object_def kind_of_def api_of_def has_to_def jindex_def
      split: option.splits)

definition same_kind :: "json \<Rightarrow> json \<Rightarrow> bool" where
  "same_kind v w \<longleftrightarrow> kind_of w = kind_of v \<and> api_of w = api_of v \<and> has_to w = has_to v"

lemma same_kind_objects:
  "same_kind v w \<Longrightarrow> is_secret_object w = is_secret_object v \<and> is_route_object w = is_route_object v"
  by (auto simp: kinds_eq same_kind_def split: option.split)

lemma same_kind_trans: "same_kind u v \<Longrightarrow> same_kind v w \<Longrightarrow> same_kind u w"
  by (simp add: same_kind_def)

lemma same_kind_fields: "same_kind v (snd (mask_credential_fields v))"
proof -
  have "has_to (snd (mask_credential_fields v)) = has_to v"
    by (cases "jget v ''spec''") (simp_all add: has_to_def jget_mask_harmless)
  then show ?thesis by (simp add: same_kind_def kind_of_def api_of_def jget_mask_harmless bind_map_option comp_def)
qed

lemma same_kind_adjust:
  "k \<notin> {''kind'', ''apiVersion'', ''spec''} \<Longrightarrow> same_kind v (jadjust k f v)"
  by (auto simp: same_kind_def kind_of_def api_of_def has_to_def)

lemma same_kind_last_applied: "same_kind v (mask_last_applied v)"
  unfolding mask_last_applied_def jpath_adjust.simps by (rule same_kind_adjust) simp

lemma same_kind_secret: "same_kind v (snd (mask_secret v))"
proof -
  have "same_kind v (mask_last_applied (jadjust ''stringData'' mask_values (jadjust ''data'' mask_values v)))"
    by (rule same_kind_trans [OF same_kind_trans [OF same_kind_adjust same_kind_adjust] same_kind_last_applied]) simp_all
  then show ?thesis by (simp add: mask_secret_def same_kind_def)
qed

lemma same_kind_inline: "same_kind v (snd (mask_inline_key parse_json v))"
proof -
  have "same_kind v (jpath_adjust [''spec'', ''tls'', ''key''] f v)" for f
    by (cases "jget v ''spec''") (auto simp: same_kind_def kind_of_def api_of_def has_to_def)
  then show ?thesis
    using same_kind_trans [OF _ same_kind_last_applied] same_kind_last_applied
    by (auto simp: mask_inline_key_def same_kind_def simp del: jpath_adjust.simps)
qed

section \<open>Nothing is left to read\<close>

definition values_masked :: "json option \<Rightarrow> bool" where
  "values_masked x = (case x of Some (JObj kvs) \<Rightarrow> list_all (\<lambda>kv. snd kv = JStr mask_text) kvs | _ \<Rightarrow> True)"

definition secret_masked :: "json \<Rightarrow> bool" where
  "secret_masked w =
     (if is_secret_object w
      then values_masked (jget w ''data'') \<and> values_masked (jget w ''stringData'') \<and>
        jpath [''metadata'', ''annotations'', last_applied] w \<in> {None, Some (JStr mask_text)}
      else True)"

definition route_masked :: "(str \<Rightarrow> json option) \<Rightarrow> json \<Rightarrow> bool" where
  "route_masked parse_json w =
     (if is_route_object w
      then jstr_at [''spec'', ''tls'', ''key''] w \<in> {None, Some [], Some mask_text} \<and> \<not> last_applied_has_key parse_json w
      else True)"

lemma values_masked_map: "values_masked (map_option mask_values x)"
  by (cases x) (auto simp: values_masked_def mask_values_def list_all_iff split: json.splits)

lemma secret_masked_secret: "secret_masked (snd (mask_secret v))"
proof (cases "is_secret_object v")
  case True
  let ?w = "mask_last_applied (jadjust ''stringData'' mask_values (jadjust ''data'' mask_values v))"
  have "values_masked (jget ?w ''data'')" "values_masked (jget ?w ''stringData'')"
    by (simp_all add: jget_last_applied values_masked_map)
  with True last_applied_masked show ?thesis by (auto simp: mask_secret_def secret_masked_def simp del: jpath.simps)
next
  case False
  then show ?thesis by (simp add: mask_secret_def secret_masked_def)
qed

lemma secret_is_no_route: "is_secret_object v \<Longrightarrow> \<not> is_route_object v"
  by (auto simp: kinds_eq)

lemma inline_key_not_route: "\<not> is_route_object v \<Longrightarrow> mask_inline_key parse_json v = (False, v)"
  by (simp add: mask_inline_key_def has_key_material_def has_inline_key_def last_applied_has_key_def)

lemma route_masked_inline: "route_masked parse_json (snd (mask_inline_key parse_json v))"
proof (cases "is_route_object v \<and> has_key_material parse_json v")
  case True
  let ?u = "if has_inline_key v then jpath_adjust [''spec'', ''tls'', ''key''] (\<lambda>_. JStr mask_text) v else v"
  have w: "snd (mask_inline_key parse_json v) = mask_last_applied ?u" using True by (simp add: mask_inline_key_def)
  have "jpath [''spec'', ''tls'', ''key''] (mask_last_applied ?u) = jpath [''spec'', ''tls'', ''key''] ?u"
    by (simp add: jget_last_applied del: jpath_adjust.simps)
  moreover have "Option.bind (jpath [''spec'', ''tls'', ''key''] ?u) as_str \<in> {None, Some [], Some mask_text}"
  proof (cases "has_inline_key v")
    case True
    then have "jpath [''spec'', ''tls'', ''key''] ?u = map_option (\<lambda>_. JStr mask_text) (jpath [''spec'', ''tls'', ''key''] v)"
      by (simp only: if_True jpath_adjust_same)
    then show ?thesis by (cases "jpath [''spec'', ''tls'', ''key''] v") simp_all
  next
    case False
    with True show ?thesis by (auto simp: has_inline_key_def jstr_at_def split: option.splits)
  qed
  moreover have "\<not> last_applied_has_key parse_json (mask_last_applied ?u)"
    using last_applied_masked [of ?u]
    by (auto simp: last_applied_has_key_def jstr_at_def applied_text_has_key_def simp del: jpath.simps jpath_adjust.simps)
  ultimately show ?thesis unfolding w route_masked_def jstr_at_def by simp
next
  case False
  then have "mask_inline_key parse_json v = (False, v)"
  proof (cases "is_route_object v")
    case True
    with False show ?thesis by (simp add: mask_inline_key_def)
  qed (rule inline_key_not_route)
  with False show ?thesis
    by (auto simp: route_masked_def has_key_material_def has_inline_key_def split: option.splits)
qed

lemma managed_fields_secret:
  "jpath [''metadata'', ''managedFields''] (snd (mask_secret v)) = jpath [''metadata'', ''managedFields''] v"
  by (simp add: mask_secret_def managed_fields_last_applied del: jpath.simps) simp

lemma managed_fields_inline:
  "jpath [''metadata'', ''managedFields''] (snd (mask_inline_key parse_json v)) = jpath [''metadata'', ''managedFields''] v"
  by (simp add: mask_inline_key_def managed_fields_last_applied del: jpath.simps) simp

text \<open>C15: after masking an object no text can be read under the name of a credential or as the value of an
  environment variable named like one, no value of a Secret or copy of it, no inline key of a Route;
  its managed fields are gone and it is still the same kind of object.\<close>

theorem mask_object_hides:
  "case snd (mask_object parse_json v) of w \<Rightarrow>
     \<not> exposed w \<and> secret_masked w \<and> route_masked parse_json w \<and>
     jpath [''metadata'', ''managedFields''] w = None \<and> same_kind v w"
proof -
  let ?v1 = "jpath_adjust [''metadata''] (jremove ''managedFields'') v"
  let ?v2 = "snd (mask_credential_fields ?v1)"
  let ?v3 = "snd (mask_secret ?v2)"
  let ?w = "snd (mask_inline_key parse_json ?v3)"
  have "\<not> exposed ?v2" using masking_spec(1) [of ?v1] by (simp add: masked_well_def)
  then have hidden: "\<not> exposed ?w" by (intro mask_inline_key_hides mask_secret_hides)
  have "same_kind v ?v1" unfolding jpath_adjust.simps by (rule same_kind_adjust) simp
  then have kind: "same_kind v ?w"
    by (rule same_kind_trans [OF same_kind_trans [OF same_kind_trans [OF _ same_kind_fields] same_kind_secret]
          same_kind_inline])
  have "secret_masked ?w"
  proof (cases "is_secret_object ?v3")
    case True
    then show ?thesis using secret_masked_secret inline_key_not_route secret_is_no_route by (metis snd_conv)
  next
    case False
    then show ?thesis using same_kind_objects [OF same_kind_inline [of ?v3 parse_json]] by (simp add: secret_masked_def)
  qed
  moreover have "jpath [''metadata'', ''managedFields''] ?w = None"
    unfolding managed_fields_inline managed_fields_secret by (rule managed_fields_masked [OF managed_fields_removed])
  moreover have "snd (mask_object parse_json v) = ?w" by (simp add: mask_object_def Let_def split_beta)
  ultimately show ?thesis using hidden kind route_masked_inline [of parse_json ?v3] by simp
qed

text \<open>A Deployment whose container has a password in its environment, applied by kubectl: its annotation
  holds the manifest as text.\<close>

definition env_deployment :: "str \<Rightarrow> str \<Rightarrow> json" where
  "env_deployment password manifest =
     JObj [(''apiVersion'', JStr ''apps/v1''), (''kind'', JStr ''Deployment''),
       (''metadata'', JObj [(''name'', JStr ''web''), (''annotations'', JObj [(last_applied, JStr manifest)])]),
       (''spec'', JObj [(''env'', JArr [JObj [(''name'', JStr ''DB_PASSWORD''), (''value'', JStr password)]])])]"

lemma variable_names:
  "is_credential_name ''DB_PASSWORD''" "\<not> is_credential_name last_applied" "\<not> is_credential_name ''name''"
  "\<not> is_credential_name ''env''" "\<not> is_credential_name ''annotations''" "\<not> is_credential_name ''web''"
  "\<not> is_credential_name ''value''"
  by code_simp+

text \<open>C39: masking a Deployment hides a password in its environment but keeps kubectl's copy of the manifest
  as it is, with the same password in it.\<close>

theorem last_applied_kept:
  "snd (mask_object parse_json (env_deployment (c # password) manifest)) = env_deployment mask_text manifest"
proof -
  let ?v = "env_deployment (c # password) manifest"
  have v: "jpath_adjust [''metadata''] (jremove ''managedFields'') ?v = ?v"
    by (simp add: env_deployment_def last_applied_def)
  have masked: "snd (mask_credential_fields ?v) = env_deployment mask_text manifest"
    unfolding env_deployment_def
    by (simp add: mask_entries_Cons mask_child_def variable_names env_name_def sensitive_def
        del: mask_entries.simps(2))
  have "\<not> is_secret_object (env_deployment mask_text manifest)" "\<not> is_route_object (env_deployment mask_text manifest)"
    by (simp_all add: env_deployment_def is_secret_object_def is_route_object_def jindex_def)
  then show ?thesis
    unfolding mask_object_def v
    by (simp add: split_beta masked mask_secret_def inline_key_not_route del: jpath_adjust.simps)
qed

end
