(* ===== verification/SecretRender.thy ===== *)
theory SecretRender
  imports Redact
begin

text \<open>
  From a live object to the text of the YAML editor and back (\<open>crates/kubyl_yaml_core/src/render.rs\<close>):
  what of a Secret or Route is masked, and what is put back before it is sent.  The text is the YAML of
  the value \<open>render_parts\<close> answers.  Base64 together with UTF-8 is the pair of parameters \<open>decode\<close> (\<open>None\<close>
  when the bytes are no text) and \<open>encode\<close>; \<open>json_text\<close> prints a JSON value.
\<close>

record render_options =
  ro_hide_managed_fields :: bool
  ro_reveal_secrets :: bool

record secret_values =
  sv_original :: "(str \<times> str) list"
  sv_binary :: "str set"
  sv_last_applied :: "str option"
  sv_route_key :: "str option"

definition secret_vals_default :: secret_values where
  "secret_vals_default = \<lparr>sv_original = [], sv_binary = {}, sv_last_applied = None, sv_route_key = None\<rparr>"

definition last_applied_path :: "str list" where
  "last_applied_path = [''metadata'', ''annotations'', last_applied]"

definition route_key_path :: "str list" where
  "route_key_path = [''spec'', ''tls'', ''key'']"

definition inline_key :: "json \<Rightarrow> str option" where
  "inline_key v =
     (if \<not> is_route_object v then None
      else (case jstr_at route_key_path v of Some k \<Rightarrow> if k \<noteq> [] then Some k else None | None \<Rightarrow> None))"

definition managers :: "json \<Rightarrow> str list" where
  "managers v =
     (case Option.bind (jpath [''metadata'', ''managedFields''] v) as_array of
        None \<Rightarrow> []
      | Some entries \<Rightarrow>
          fold (\<lambda>entry out. case as_str (jindex entry ''manager'') of
                  Some manager \<Rightarrow> if manager \<in> set out then out else out @ [manager]
                | None \<Rightarrow> out) entries [])"

text \<open>Fields the API server sets.\<close>

definition server_fields :: "str list" where
  "server_fields = [''managedFields'', ''resourceVersion'', ''uid'', ''generation'', ''creationTimestamp'', ''selfLink'']"

definition strip_server_fields :: "json \<Rightarrow> json" where
  "strip_server_fields v = jremove ''status'' (jadjust ''metadata'' (fold jremove server_fields) v)"

section \<open>Rendering\<close>

text \<open>The loop over the values of a Secret: the shown value, and what is remembered of it.\<close>

definition shown_value :: "(str \<Rightarrow> str option) \<Rightarrow> bool \<Rightarrow> json \<Rightarrow> json" where
  "shown_value decode reveal v =
     (case decode (unwrap_or (as_str v) []) of
        None \<Rightarrow> v
      | Some text \<Rightarrow> JStr (if reveal then text else mask_text))"

definition remember_values :: "(str \<Rightarrow> str option) \<Rightarrow> (str \<times> json) list \<Rightarrow> secret_values" where
  "remember_values decode data =
     secret_vals_default
       \<lparr>sv_original := map (\<lambda>(k, v). (k, unwrap_or (as_str v) [])) data,
        sv_binary := set (map fst (filter (\<lambda>(k, v). decode (unwrap_or (as_str v) []) = None) data))\<rparr>"

definition render_secret :: "(str \<Rightarrow> str option) \<Rightarrow> bool \<Rightarrow> json \<Rightarrow> json \<times> secret_values option" where
  "render_secret decode reveal v =
     (if is_secret_object v then
        (case jget v ''data'' of
           Some (JObj data) \<Rightarrow>
             (let v' = jadjust ''data'' (\<lambda>_. JObj (map (\<lambda>(k, x). (k, shown_value decode reveal x)) data)) v
              in (mask_last_applied v',
                  Some ((remember_values decode data)\<lparr>sv_last_applied := jstr_at last_applied_path v'\<rparr>)))
         | _ \<Rightarrow> (v, None))
      else (v, None))"

definition render_route ::
  "(str \<Rightarrow> json option) \<Rightarrow> bool \<Rightarrow> json \<times> secret_values option \<Rightarrow> json \<times> secret_values option" where
  "render_route parse_json reveal r =
     (let (v, secret) = r
      in if has_key_material parse_json v then
           (let values = secret_vals_default\<lparr>sv_route_key := inline_key v, sv_last_applied := jstr_at last_applied_path v\<rparr>;
                w = snd (mask_inline_key parse_json v);
                w = (case sv_route_key values of
                       Some key \<Rightarrow> if reveal then jpath_adjust route_key_path (\<lambda>_. JStr key) w else w
                     | None \<Rightarrow> w)
            in (w, Some values))
         else (v, secret))"

definition hide_managed :: "render_options \<Rightarrow> json \<Rightarrow> json" where
  "hide_managed opts v = (if ro_hide_managed_fields opts then jadjust ''metadata'' (jremove ''managedFields'') v else v)"

definition render_parts ::
  "(str \<Rightarrow> json option) \<Rightarrow> (str \<Rightarrow> str option) \<Rightarrow> render_options \<Rightarrow> json \<Rightarrow> json \<times> secret_values option" where
  "render_parts parse_json decode opts v =
     render_route parse_json (ro_reveal_secrets opts)
       (render_secret decode (ro_reveal_secrets opts) (hide_managed opts v))"

text \<open>\<open>sorted\<close>: keys in order at every level (code points, as the order of the bytes of UTF-8).\<close>

fun key_less :: "str \<Rightarrow> str \<Rightarrow> bool" where
  "key_less [] [] \<longleftrightarrow> False"
| "key_less [] (_ # _) \<longleftrightarrow> True"
| "key_less (_ # _) [] \<longleftrightarrow> False"
| "key_less (a # s) (b # t) \<longleftrightarrow> code_of a < code_of b \<or> a = b \<and> key_less s t"

fun insert_entry :: "str \<times> json \<Rightarrow> (str \<times> json) list \<Rightarrow> (str \<times> json) list" where
  "insert_entry e [] = [e]"
| "insert_entry e (d # ds) = (if key_less (fst d) (fst e) then d # insert_entry e ds else e # d # ds)"

fun sorted_json :: "json \<Rightarrow> json" where
  "sorted_json (JObj kvs) = JObj (foldr insert_entry (map (\<lambda>kv. (fst kv, sorted_json (snd kv))) kvs) [])"
| "sorted_json (JArr items) = JArr (map sorted_json items)"
| "sorted_json v = v"

section \<open>Restoring\<close>

definition put_back :: "str list \<Rightarrow> str option \<Rightarrow> json \<Rightarrow> json" where
  "put_back path original v =
     (case original of
        Some text \<Rightarrow> if jstr_at path v = Some mask_text then jpath_adjust path (\<lambda>_. JStr text) v else v
      | None \<Rightarrow> v)"

definition restored_value :: "(str \<Rightarrow> str) \<Rightarrow> (json \<Rightarrow> str) \<Rightarrow> secret_values \<Rightarrow> str \<Rightarrow> json \<Rightarrow> json" where
  "restored_value encode json_text values key v =
     (let text = (case v of JStr s \<Rightarrow> s | JNull \<Rightarrow> [] | _ \<Rightarrow> json_text v)
      in JStr (case (if text = mask_text then map_of (sv_original values) key else None) of
                 Some original \<Rightarrow> original
               | None \<Rightarrow> if key \<in> sv_binary values then text else encode text))"

definition restore_secret :: "(str \<Rightarrow> str) \<Rightarrow> (json \<Rightarrow> str) \<Rightarrow> secret_values option \<Rightarrow> json \<Rightarrow> json" where
  "restore_secret encode json_text values v =
     (let route = (is_route_object v \<and> jget v ''kind'' \<noteq> None);
          values = unwrap_or values secret_vals_default
      in if \<not> is_secret_object v \<and> \<not> route then v
         else (let w = (if route then put_back route_key_path (sv_route_key values) v else v);
                   w = put_back last_applied_path (sv_last_applied values) w
               in if route then w
                  else jadjust ''data'' (\<lambda>d. case d of
                         JObj kvs \<Rightarrow> JObj (map (\<lambda>(k, x). (k, restored_value encode json_text values k x)) kvs)
                       | _ \<Rightarrow> d) w))"

section \<open>Changing and changing back\<close>

lemma map_entry_twice: "AList.map_entry k f (AList.map_entry k g kvs) = AList.map_entry k (f \<circ> g) kvs"
  by (induction kvs) auto

lemma map_entry_commute:
  "k \<noteq> l \<Longrightarrow> AList.map_entry k f (AList.map_entry l g kvs) = AList.map_entry l g (AList.map_entry k f kvs)"
  by (induction kvs) auto

lemma map_entry_same:
  "(\<And>x. map_of kvs k = Some x \<Longrightarrow> f x = x) \<Longrightarrow> AList.map_entry k f kvs = kvs"
  by (induction kvs) auto

lemma jadjust_twice: "jadjust k f (jadjust k g v) = jadjust k (f \<circ> g) v"
  by (cases v) (simp_all add: map_entry_twice)

lemma jadjust_commute: "k \<noteq> l \<Longrightarrow> jadjust k f (jadjust l g v) = jadjust l g (jadjust k f v)"
  by (cases v) (simp_all add: map_entry_commute)

lemma jadjust_same: "(\<And>x. jget v k = Some x \<Longrightarrow> f x = x) \<Longrightarrow> jadjust k f v = v"
  by (cases v) (simp_all add: map_entry_same)

lemma jpath_adjust_twice: "jpath_adjust ks f (jpath_adjust ks g v) = jpath_adjust ks (f \<circ> g) v"
proof (induction ks arbitrary: v)
  case (Cons k ks)
  have "jpath_adjust ks f \<circ> jpath_adjust ks g = jpath_adjust ks (f \<circ> g)"
    by (rule ext) (simp add: comp_def Cons)
  then show ?case by (simp add: jadjust_twice del: comp_apply)
qed simp

lemma jpath_adjust_unchanged:
  "(\<And>x. jpath ks v = Some x \<Longrightarrow> f x = x) \<Longrightarrow> jpath_adjust ks f v = v"
proof (induction ks arbitrary: v)
  case (Cons k ks)
  then show ?case by (auto intro: jadjust_same)
qed simp

lemma jpath_adjust_None: "jpath ks v = None \<Longrightarrow> jpath_adjust ks f v = v"
  by (rule jpath_adjust_unchanged) simp

lemma jpath_adjust_Some: "jpath ks v = Some x \<Longrightarrow> f x = x \<Longrightarrow> jpath_adjust ks f v = v"
  by (rule jpath_adjust_unchanged) simp

lemma paths_commute:
  "jpath_adjust last_applied_path f (jpath_adjust route_key_path g v) =
     jpath_adjust route_key_path g (jpath_adjust last_applied_path f v)"
  by (simp add: last_applied_path_def route_key_path_def jadjust_commute)

lemma mask_last_applied_path: "mask_last_applied = jpath_adjust last_applied_path (\<lambda>_. JStr mask_text)"
  by (simp add: mask_last_applied_def last_applied_path_def)

text \<open>A text that was masked is put back, one that is not there is not.\<close>

definition text_or_absent :: "str list \<Rightarrow> json \<Rightarrow> bool" where
  "text_or_absent path v = (case jpath path v of None \<Rightarrow> True | Some x \<Rightarrow> as_str x \<noteq> None)"

lemma as_str_Some: "as_str x = Some t \<longleftrightarrow> x = JStr t"
  by (cases x) simp_all

lemma put_back_masked:
  assumes "text_or_absent path v" "original = jstr_at path v"
  shows "put_back path original (jpath_adjust path (\<lambda>_. JStr mask_text) v) = v"
proof (cases "jpath path v")
  case None
  with assms show ?thesis by (simp add: put_back_def jstr_at_def jpath_adjust_None)
next
  case (Some x)
  with assms(1) obtain t where "x = JStr t" by (auto simp: text_or_absent_def as_str_Some)
  with Some assms(2) show ?thesis
    by (simp add: put_back_def jstr_at_def jpath_adjust_same jpath_adjust_twice comp_def jpath_adjust_Some)
qed

lemma put_back_plain: "original = jstr_at path v \<Longrightarrow> put_back path original v = v"
  by (auto simp: put_back_def jstr_at_def as_str_Some bind_eq_Some_conv jpath_adjust_Some split: option.splits)

section \<open>What is rendered is restored\<close>

text \<open>What a live object of the API looks like: annotations are texts, the data of a Secret are texts under
  distinct keys, and a Route says what it is.\<close>

definition data_texts :: "json \<Rightarrow> bool" where
  "data_texts v =
     (case jget v ''data'' of
        Some (JObj kvs) \<Rightarrow> list_all (\<lambda>kv. as_str (snd kv) \<noteq> None) kvs \<and> distinct (map fst kvs)
      | _ \<Rightarrow> True)"

definition plain_object :: "json \<Rightarrow> bool" where
  "plain_object v \<longleftrightarrow>
     text_or_absent last_applied_path v \<and> (if is_secret_object v then data_texts v else True) \<and>
     (if is_route_object v then jget v ''kind'' \<noteq> None else True)"

lemma restored_values:
  assumes "\<And>raw t. decode raw = Some t \<Longrightarrow> encode t = raw"
    and "list_all (\<lambda>kv. as_str (snd kv) \<noteq> None) kvs" "distinct (map fst kvs)" "(k, x) \<in> set kvs"
  shows "restored_value encode json_text ((remember_values decode kvs)\<lparr>sv_last_applied := a\<rparr>) k (shown_value decode reveal x) = x"
proof -
  from assms(2,4) obtain raw where raw: "x = JStr raw" by (auto simp: list_all_iff as_str_Some)
  have known: "map_of (map (\<lambda>(k, v). (k, unwrap_or (as_str v) [])) kvs) k = Some raw"
    using assms(3,4) by (auto simp: map_of_map raw unwrap_or_def)
  have "k \<in> set (map fst (filter (\<lambda>(k, v). decode (unwrap_or (as_str v) []) = None) kvs)) \<longleftrightarrow> decode raw = None"
    using assms(3,4) eq_key_imp_eq_value [OF assms(3)] by (force simp: raw unwrap_or_def)
  with known show ?thesis
    using assms(1) [of raw]
    by (cases "decode raw")
      (auto simp: restored_value_def shown_value_def remember_values_def secret_vals_default_def raw unwrap_or_def)
qed

lemma secret_restores:
  assumes "\<And>raw t. decode raw = Some t \<Longrightarrow> encode t = raw" "is_secret_object v" "plain_object v"
  shows "case render_secret decode reveal v of (w, vals) \<Rightarrow>
     is_secret_object w \<and> restore_secret encode json_text vals w = v"
proof (cases "\<exists>kvs. jget v ''data'' = Some (JObj kvs)")
  case True
  then obtain kvs where data: "jget v ''data'' = Some (JObj kvs)" by blast
  let ?shown = "\<lambda>_. JObj (map (\<lambda>(k, x). (k, shown_value decode reveal x)) kvs)"
  let ?u = "jadjust ''data'' ?shown v"
  define vals where "vals = (remember_values decode kvs)\<lparr>sv_last_applied := jstr_at last_applied_path ?u\<rparr>"
  have texts: "list_all (\<lambda>kv. as_str (snd kv) \<noteq> None) kvs" "distinct (map fst kvs)"
    using assms(2,3) data by (simp_all add: plain_object_def data_texts_def)
  have path: "jpath last_applied_path ?u = jpath last_applied_path v" by (simp add: last_applied_path_def)
  have rendered: "render_secret decode reveal v = (mask_last_applied ?u, Some vals)"
    using assms(2) data by (simp add: render_secret_def vals_def Let_def)
  have "same_kind v (mask_last_applied ?u)"
    by (rule same_kind_trans [OF same_kind_adjust same_kind_last_applied]) simp
  then have secret: "is_secret_object (mask_last_applied ?u)" "\<not> is_route_object (mask_last_applied ?u)"
    using same_kind_objects assms(2) secret_is_no_route by blast+
  have undone: "put_back last_applied_path (jstr_at last_applied_path ?u) (mask_last_applied ?u) = ?u"
    unfolding mask_last_applied_path
    by (rule put_back_masked) (use assms(3) path in \<open>simp_all add: plain_object_def text_or_absent_def\<close>)
  have "map (\<lambda>(k, x). (k, restored_value encode json_text vals k x))
      (map (\<lambda>(k, x). (k, shown_value decode reveal x)) kvs) = kvs"
    unfolding map_map by (rule map_idI) (auto simp: vals_def restored_values [OF assms(1) texts])
  with data have "jadjust ''data'' (\<lambda>d. case d of JObj kvs \<Rightarrow> JObj (map (\<lambda>(k, x). (k, restored_value encode json_text vals k x)) kvs)
      | _ \<Rightarrow> d) ?u = v"
    unfolding jadjust_twice by (intro jadjust_same) simp
  moreover have "sv_last_applied vals = jstr_at last_applied_path ?u" by (simp add: vals_def)
  ultimately have "restore_secret encode json_text (Some vals) (mask_last_applied ?u) = v"
    by (simp add: restore_secret_def secret undone unwrap_or_def)
  with secret rendered show ?thesis by simp
next
  case False
  then have "render_secret decode reveal v = (v, None)"
    by (auto simp: render_secret_def split: option.splits json.splits)
  moreover have "jadjust ''data'' (\<lambda>d. case d of JObj kvs \<Rightarrow> JObj (g kvs) | _ \<Rightarrow> d) v = v" for g
    using False by (intro jadjust_same) (auto split: json.splits)
  ultimately show ?thesis
    using assms(2) secret_is_no_route [OF assms(2)]
    by (simp add: restore_secret_def unwrap_or_def secret_vals_default_def put_back_def)
qed

lemma key_path_kinds: "same_kind v (jpath_adjust route_key_path f v)"
  by (cases "jget v ''spec''") (auto simp: same_kind_def kind_of_def api_of_def has_to_def route_key_path_def)

lemma last_applied_path_kinds: "same_kind v (jpath_adjust last_applied_path f v)"
  unfolding last_applied_path_def jpath_adjust.simps by (rule same_kind_adjust) simp

lemma has_inline_key_eq: "has_inline_key v \<longleftrightarrow> inline_key v \<noteq> None"
  by (auto simp: has_inline_key_def inline_key_def route_key_path_def split: option.splits)

lemma inline_key_Some: "inline_key v = Some k \<Longrightarrow> jpath route_key_path v = Some (JStr k)"
  by (auto simp: inline_key_def jstr_at_def bind_eq_Some_conv as_str_Some split: if_splits option.splits)

text \<open>What a Route is shown as: its key (masked or not) and its annotation masked.\<close>

lemma put_back_key:
  assumes "inline_key v = Some k" "t = mask_text \<or> t = k"
  shows "put_back route_key_path (Some k) (jpath_adjust route_key_path (\<lambda>_. JStr t) v) = v"
  using assms inline_key_Some [OF assms(1)]
  by (auto simp: put_back_def jstr_at_def jpath_adjust_same jpath_adjust_twice comp_def jpath_adjust_Some)

lemma put_back_key_commutes:
  "put_back route_key_path original (jpath_adjust last_applied_path f v) =
     jpath_adjust last_applied_path f (put_back route_key_path original v)"
proof -
  have "jpath route_key_path (jpath_adjust last_applied_path f v) = jpath route_key_path v"
    by (simp add: last_applied_path_def route_key_path_def)
  then show ?thesis by (simp add: put_back_def jstr_at_def paths_commute split: option.split)
qed

lemma route_restores:
  assumes "is_route_object v" "plain_object v"
  shows "case render_route parse_json reveal (v, None) of (w, vals) \<Rightarrow> restore_secret encode json_text vals w = v"
proof -
  have plain: "text_or_absent last_applied_path v" "jget v ''kind'' \<noteq> None" using assms by (simp_all add: plain_object_def)
  let ?last = "jstr_at last_applied_path v"
  have route: "is_route_object w \<and> jget w ''kind'' \<noteq> None" "\<not> is_secret_object w"
    if "w = jpath_adjust last_applied_path f (jpath_adjust route_key_path g v)" for f g w
  proof -
    have "same_kind v w" unfolding that by (rule same_kind_trans [OF key_path_kinds last_applied_path_kinds])
    moreover have "jget w ''kind'' = jget v ''kind''" by (simp add: that last_applied_path_def route_key_path_def)
    ultimately show "is_route_object w \<and> jget w ''kind'' \<noteq> None" "\<not> is_secret_object w"
      using assms(1) plain(2) same_kind_objects secret_is_no_route by auto
  qed
  have restored: "restore_secret encode json_text (Some vals) w = v"
    if w: "w = jpath_adjust last_applied_path (\<lambda>_. JStr mask_text) (jpath_adjust route_key_path g v)"
      and key: "put_back route_key_path (sv_route_key vals) (jpath_adjust route_key_path g v) = v"
      and last: "sv_last_applied vals = ?last" for g w vals
    using route [OF w]
    by (simp add: restore_secret_def unwrap_or_def Let_def w put_back_key_commutes key put_back_masked [OF plain(1) last])
  show ?thesis
  proof (cases "has_key_material parse_json v")
    case False
    then show ?thesis
      using assms(1) plain(2) secret_is_no_route by (auto simp: render_route_def restore_secret_def unwrap_or_def
          secret_vals_default_def put_back_def)
  next
    case True
    let ?vals = "secret_vals_default\<lparr>sv_route_key := inline_key v, sv_last_applied := ?last\<rparr>"
    show ?thesis
    proof (cases "inline_key v")
      case None
      have same: "jpath_adjust route_key_path (\<lambda>x. x) v = v" by (rule jpath_adjust_unchanged) simp
      have "render_route parse_json reveal (v, None) = (jpath_adjust last_applied_path (\<lambda>_. JStr mask_text) v, Some ?vals)"
        using True None by (simp add: render_route_def Let_def mask_inline_key_def has_inline_key_eq mask_last_applied_path)
      moreover have "restore_secret encode json_text (Some ?vals) (jpath_adjust last_applied_path (\<lambda>_. JStr mask_text) v) = v"
        by (rule restored [where g = "\<lambda>x. x"]) (simp_all add: same None put_back_def)
      ultimately show ?thesis by simp
    next
      case (Some k)
      let ?t = "if reveal then k else mask_text"
      have "render_route parse_json reveal (v, None) =
          (jpath_adjust last_applied_path (\<lambda>_. JStr mask_text) (jpath_adjust route_key_path (\<lambda>_. JStr ?t) v), Some ?vals)"
        using True Some
        by (simp add: render_route_def Let_def mask_inline_key_def has_inline_key_eq mask_last_applied_path
            route_key_path_def [symmetric] paths_commute [symmetric] jpath_adjust_twice comp_def)
      moreover have "restore_secret encode json_text (Some ?vals)
          (jpath_adjust last_applied_path (\<lambda>_. JStr mask_text) (jpath_adjust route_key_path (\<lambda>_. JStr ?t) v)) = v"
        by (rule restored [OF refl]) (simp_all add: Some put_back_key)
      ultimately show ?thesis by simp
    qed
  qed
qed

lemma hide_managed_plain:
  "plain_object v \<Longrightarrow> plain_object (hide_managed opts v) \<and> same_kind v (hide_managed opts v)"
proof -
  have kinds: "same_kind v (jadjust ''metadata'' f v)" for f by (rule same_kind_adjust) simp
  have "jget (jremove ''managedFields'' m) ''annotations'' = jget m ''annotations''" for m
    by (cases m) (simp_all add: delete_conv')
  then have "jpath last_applied_path (jadjust ''metadata'' (jremove ''managedFields'') v) = jpath last_applied_path v"
    by (cases "jget v ''metadata''") (simp_all add: last_applied_path_def)
  then show "plain_object v \<Longrightarrow> ?thesis"
    using same_kind_objects [OF kinds [of "jremove ''managedFields''"]] kinds
    by (auto simp: plain_object_def hide_managed_def text_or_absent_def data_texts_def same_kind_def)
qed

text \<open>C16: whatever the editor shows of an object, masked or revealed, sending it back untouched restores the
  object (but for the managed fields, when they are hidden): no value of a Secret, no key of a Route
  and no copy of kubectl's is lost or changed by the masking.\<close>

theorem render_restores:
  assumes "\<And>raw t. decode raw = Some t \<Longrightarrow> encode t = raw" "plain_object v"
  shows "case render_parts parse_json decode opts v of
      (w, values) \<Rightarrow> restore_secret encode json_text values w = hide_managed opts v"
proof -
  let ?v = "hide_managed opts v"
  from hide_managed_plain [OF assms(2)] have plain: "plain_object ?v" by blast
  consider (secret) "is_secret_object ?v" | (route) "is_route_object ?v" "\<not> is_secret_object ?v"
    | (other) "\<not> is_secret_object ?v" "\<not> is_route_object ?v" by blast
  then show ?thesis
  proof cases
    case secret
    from secret_restores [where decode = decode and encode = encode and v = ?v and reveal = "ro_reveal_secrets opts",
        OF assms(1) secret plain] secret_is_no_route
    show ?thesis
      by (auto simp: render_parts_def render_route_def has_key_material_def has_inline_key_def last_applied_has_key_def
          split: prod.splits)
  next
    case route
    from route_restores [OF route(1) plain, where parse_json = parse_json and reveal = "ro_reveal_secrets opts"
        and encode = encode and json_text = json_text] route(2) show ?thesis
      by (simp add: render_parts_def render_secret_def)
  next
    case other
    then show ?thesis
      by (simp add: render_parts_def render_secret_def render_route_def has_key_material_def has_inline_key_def
          last_applied_has_key_def restore_secret_def)
  qed
qed

definition sample_secret :: json where
  "sample_secret =
     JObj [(''apiVersion'', JStr ''v1''), (''kind'', JStr ''Secret''),
       (''metadata'', JObj [(''name'', JStr ''db''), (''annotations'', JObj [(last_applied, JStr ''copy'')])]),
       (''data'', JObj [(''password'', JStr ''xhunter2''), (''blob'', JStr ''raw'')])]"

definition plain_decode :: "str \<Rightarrow> str option" where
  "plain_decode raw = (case raw of c # t \<Rightarrow> if c = CHR ''x'' then Some t else None | [] \<Rightarrow> None)"

theorem render_restores_witness:
  "case render_parts (\<lambda>_. None) plain_decode \<lparr>ro_hide_managed_fields = True, ro_reveal_secrets = False\<rparr> sample_secret of
      (w, values) \<Rightarrow> restore_secret ((#) (CHR ''x'')) (\<lambda>_. []) values w =
        hide_managed \<lparr>ro_hide_managed_fields = True, ro_reveal_secrets = False\<rparr> sample_secret"
proof (rule render_restores)
  show "CHR ''x'' # t = raw" if "plain_decode raw = Some t" for raw t
    using that by (auto simp: plain_decode_def split: list.splits if_splits)
  show "plain_object sample_secret"
    by (simp add: plain_object_def sample_secret_def text_or_absent_def last_applied_path_def data_texts_def
        is_secret_object_def is_route_object_def jindex_def)
qed

text \<open>Of a Secret whose data was taken out, the editor shows kubectl's copy of the applied object as it
  is, with the old values in it, masked or not.\<close>

lemma dataless_secret_shows_copy:
  "jstr_at last_applied_path (fst (render_parts parse_json decode opts
     (JObj [(''apiVersion'', JStr ''v1''), (''kind'', JStr ''Secret''),
        (''metadata'', JObj [(''annotations'', JObj [(last_applied, JStr manifest)])])]))) = Some manifest"
  by (simp add: render_parts_def render_secret_def render_route_def hide_managed_def has_key_material_def
      has_inline_key_def last_applied_has_key_def is_route_object_def jstr_at_def last_applied_path_def)

end
