(* ===== verification/Effects.thy ===== *)
theory Effects
  imports Prelude
begin

text \<open>
  Code that talks to the outside, as a function of the events so far: it answers a result and the events
  with its own at the end.  What the outside answers may depend on everything that happened before.
  \<open>runs P Q m\<close> says of such code that its events satisfy \<open>P\<close> and its result \<open>Q\<close>; the rules below take
  it apart along the code.
\<close>

type_synonym ('e, 'a) io = "'e list \<Rightarrow> 'a \<times> 'e list"

definition io_return :: "'a \<Rightarrow> ('e, 'a) io" where
  "io_return x = (\<lambda>past. (x, past))"

definition io_bind :: "('e, 'a) io \<Rightarrow> ('a \<Rightarrow> ('e, 'b) io) \<Rightarrow> ('e, 'b) io" where
  "io_bind m f = (\<lambda>past. case m past of (x, past) \<Rightarrow> f x past)"

text \<open>The question mark of Rust: an error ends the function.\<close>

definition io_try :: "('e, 'x + 'a) io \<Rightarrow> ('a \<Rightarrow> ('e, 'x + 'b) io) \<Rightarrow> ('e, 'x + 'b) io" where
  "io_try m f = io_bind m (\<lambda>r. case r of Inl err \<Rightarrow> io_return (Inl err) | Inr x \<Rightarrow> f x)"

definition io_check :: "'x + 'a \<Rightarrow> ('a \<Rightarrow> ('e, 'x + 'b) io) \<Rightarrow> ('e, 'x + 'b) io" where
  "io_check r f = (case r of Inl err \<Rightarrow> io_return (Inl err) | Inr x \<Rightarrow> f x)"

definition io_map_err :: "('x \<Rightarrow> 'y) \<Rightarrow> ('e, 'x + 'a) io \<Rightarrow> ('e, 'y + 'a) io" where
  "io_map_err g m = io_bind m (\<lambda>r. io_return (case r of Inl err \<Rightarrow> Inl (g err) | Inr x \<Rightarrow> Inr x))"

text \<open>One question to the outside, recorded with its answer.\<close>

definition io_ask :: "('e list \<Rightarrow> 'q \<Rightarrow> 'a) \<Rightarrow> ('q \<Rightarrow> 'a \<Rightarrow> 'e) \<Rightarrow> 'q \<Rightarrow> ('e, 'a) io" where
  "io_ask outside event q = (\<lambda>past. (outside past q, past @ [event q (outside past q)]))"

text \<open>A timeout: the code gets as far as \<open>n\<close> events, the last of which may go unanswered.\<close>

definition io_timeout :: "nat option \<Rightarrow> 'x \<Rightarrow> ('e, 'x + 'a) io \<Rightarrow> ('e, 'x + 'a) io" where
  "io_timeout limit late m =
     (\<lambda>past. case m past of (r, full) \<Rightarrow>
        (case limit of
           Some n \<Rightarrow> if length past + n < length full then (Inl late, take (length past + n) full) else (r, full)
         | None \<Rightarrow> (r, full)))"

fun io_fold :: "('b \<Rightarrow> 'a \<Rightarrow> ('e, 'x + 'b) io) \<Rightarrow> 'b \<Rightarrow> 'a list \<Rightarrow> ('e, 'x + 'b) io" where
  "io_fold f acc [] = io_return (Inr acc)"
| "io_fold f acc (x # xs) = io_try (f acc x) (\<lambda>acc. io_fold f acc xs)"

fun io_map :: "('a \<Rightarrow> ('e, 'b) io) \<Rightarrow> 'a list \<Rightarrow> ('e, 'b list) io" where
  "io_map f [] = io_return []"
| "io_map f (x # xs) = io_bind (f x) (\<lambda>y. io_bind (io_map f xs) (\<lambda>ys. io_return (y # ys)))"

section \<open>What code does\<close>

definition runs :: "('e \<Rightarrow> bool) \<Rightarrow> ('a \<Rightarrow> bool) \<Rightarrow> ('e, 'a) io \<Rightarrow> bool" where
  "runs P Q m \<longleftrightarrow> (\<forall>past. \<exists>es. snd (m past) = past @ es \<and> list_all P es \<and> Q (fst (m past)))"

named_theorems io_rules

lemma runs_return [io_rules]: "Q x \<Longrightarrow> runs P Q (io_return x)"
  by (simp add: runs_def io_return_def)

lemma runsD:
  assumes "runs P Q m" "m past = (r, full)"
  shows "\<exists>es. full = past @ es \<and> list_all P es \<and> Q r"
  using assms(1) [unfolded runs_def, rule_format, of past] assms(2) by auto

lemma runs_bind:
  assumes "runs P R m" "\<And>x. R x \<Longrightarrow> runs P Q (f x)"
  shows "runs P Q (io_bind m f)"
  unfolding runs_def
proof
  fix past
  obtain x past' where m: "m past = (x, past')" by fastforce
  from runsD [OF assms(1) m] obtain es where es: "past' = past @ es" "list_all P es" "R x" by blast
  obtain y full where f: "f x past' = (y, full)" by fastforce
  from runsD [OF assms(2) [OF es(3)] f] obtain fs where "full = past' @ fs" "list_all P fs" "Q y" by blast
  with es m f show "\<exists>es. snd (io_bind m f past) = past @ es \<and> list_all P es \<and> Q (fst (io_bind m f past))"
    by (auto simp: io_bind_def)
qed

lemma runs_try:
  assumes "runs P (\<lambda>r. case r of Inl err \<Rightarrow> Q (Inl err) | Inr x \<Rightarrow> R x) m" "\<And>x. R x \<Longrightarrow> runs P Q (f x)"
  shows "runs P Q (io_try m f)"
  unfolding io_try_def
  by (rule runs_bind [OF assms(1)]) (auto intro: assms(2) runs_return split: sum.splits)

lemma runs_check:
  "(\<And>err. r = Inl err \<Longrightarrow> Q (Inl err)) \<Longrightarrow> (\<And>x. r = Inr x \<Longrightarrow> runs P Q (f x)) \<Longrightarrow> runs P Q (io_check r f)"
  by (cases r) (auto simp: io_check_def intro: runs_return)

lemma runs_ask [io_rules]:
  "(\<And>a. P (event q a)) \<Longrightarrow> (\<And>a. Q a) \<Longrightarrow> runs P Q (io_ask outside event q)"
  by (simp add: runs_def io_ask_def)

lemma runs_map_err:
  "runs P (\<lambda>r. Q (case r of Inl err \<Rightarrow> Inl (g err) | Inr x \<Rightarrow> Inr x)) m \<Longrightarrow> runs P Q (io_map_err g m)"
  unfolding io_map_err_def by (erule runs_bind) (rule runs_return)

lemma runs_weaken: "runs P R m \<Longrightarrow> (\<And>e. P e \<Longrightarrow> P' e) \<Longrightarrow> (\<And>x. R x \<Longrightarrow> Q x) \<Longrightarrow> runs P' Q m"
  unfolding runs_def list_all_iff by meson

lemma runs_timeout:
  assumes "runs P Q m" "Q (Inl late)"
  shows "runs P Q (io_timeout limit late m)"
  unfolding runs_def
proof
  fix past
  obtain r full where m: "m past = (r, full)" by fastforce
  from runsD [OF assms(1) m] obtain es where "full = past @ es" "list_all P es" "Q r" by blast
  moreover from this(2) have "list_all P (take n es)" for n by (auto simp: list_all_iff dest: in_set_takeD)
  ultimately show "\<exists>es. snd (io_timeout limit late m past) = past @ es \<and> list_all P es \<and>
      Q (fst (io_timeout limit late m past))"
    using assms(2) by (auto simp: io_timeout_def m split: option.splits)
qed

lemma runs_fold:
  assumes "\<And>acc x. I acc \<Longrightarrow> x \<in> set xs \<Longrightarrow> runs P (\<lambda>r. case r of Inl err \<Rightarrow> Q (Inl err) | Inr y \<Rightarrow> I y) (f acc x)"
    "I acc" "\<And>acc. I acc \<Longrightarrow> Q (Inr acc)"
  shows "runs P Q (io_fold f acc xs)"
  using assms(1,2)
proof (induction xs arbitrary: acc)
  case Nil
  then show ?case by (simp add: runs_return assms(3))
next
  case (Cons x xs)
  show ?case
    unfolding io_fold.simps by (rule runs_try [OF Cons.prems(1) Cons.IH]) (use Cons.prems in auto)
qed

lemma runs_map:
  assumes "\<And>x. x \<in> set xs \<Longrightarrow> runs P (R x) (f x)"
  shows "runs P (list_all2 R xs) (io_map f xs)"
  using assms
proof (induction xs)
  case Nil
  then show ?case by (simp add: runs_return)
next
  case (Cons x xs)
  show ?case
    unfolding io_map.simps
    by (rule runs_bind [OF Cons.prems], simp, rule runs_bind [OF Cons.IH])
      (use Cons.prems in \<open>auto intro: runs_return\<close>)
qed

lemma runs_apply:
  "runs P Q m \<Longrightarrow> \<exists>r es. m past = (r, past @ es) \<and> list_all P es \<and> Q r"
  using runsD [of P Q m past "fst (m past)" "snd (m past)"] by (metis prod.collapse)

section \<open>What code does, with its events\<close>

text \<open>\<open>does Q m\<close> relates the result of \<open>m\<close> to the events it adds.\<close>

definition does :: "('a \<Rightarrow> 'e list \<Rightarrow> bool) \<Rightarrow> ('e, 'a) io \<Rightarrow> bool" where
  "does Q m \<longleftrightarrow> (\<forall>past. \<exists>es. snd (m past) = past @ es \<and> Q (fst (m past)) es)"

lemma runs_does: "runs P Q m \<longleftrightarrow> does (\<lambda>r es. list_all P es \<and> Q r) m"
  by (simp add: runs_def does_def)

lemma doesD:
  assumes "does Q m" "m past = (r, full)"
  shows "\<exists>es. full = past @ es \<and> Q r es"
  using assms(1) [unfolded does_def, rule_format, of past] assms(2) by auto

lemma does_apply: "does Q m \<Longrightarrow> \<exists>r es. m past = (r, past @ es) \<and> Q r es"
  using doesD [of Q m past "fst (m past)" "snd (m past)"] by (metis prod.collapse)

lemma does_return: "Q x [] \<Longrightarrow> does Q (io_return x)"
  by (simp add: does_def io_return_def)

lemma does_if: "(c \<Longrightarrow> does Q m) \<Longrightarrow> (\<not> c \<Longrightarrow> does Q n) \<Longrightarrow> does Q (if c then m else n)"
  by simp

lemma does_bind:
  assumes "does R m" "\<And>x es. R x es \<Longrightarrow> does (\<lambda>y fs. Q y (es @ fs)) (f x)"
  shows "does Q (io_bind m f)"
  unfolding does_def
proof
  fix past
  obtain x past' where m: "m past = (x, past')" by fastforce
  from doesD [OF assms(1) m] obtain es where es: "past' = past @ es" "R x es" by blast
  obtain y full where f: "f x past' = (y, full)" by fastforce
  from doesD [OF assms(2) [OF es(2)] f] obtain fs where "full = past' @ fs" "Q y (es @ fs)" by blast
  with es m f show "\<exists>es. snd (io_bind m f past) = past @ es \<and> Q (fst (io_bind m f past)) es"
    by (auto simp: io_bind_def)
qed

lemma does_try:
  assumes "does (\<lambda>r es. case r of Inl err \<Rightarrow> Q (Inl err) es | Inr x \<Rightarrow> R x es) m"
    "\<And>x es. R x es \<Longrightarrow> does (\<lambda>y fs. Q y (es @ fs)) (f x)"
  shows "does Q (io_try m f)"
  unfolding io_try_def
  by (rule does_bind [OF assms(1)]) (auto intro: assms(2) does_return split: sum.splits)

lemma does_check:
  "(\<And>err. r = Inl err \<Longrightarrow> Q (Inl err) []) \<Longrightarrow> (\<And>x. r = Inr x \<Longrightarrow> does Q (f x)) \<Longrightarrow> does Q (io_check r f)"
  by (cases r) (auto simp: io_check_def intro: does_return)

lemma does_ask: "(\<And>a. Q a [event q a]) \<Longrightarrow> does Q (io_ask outside event q)"
  by (simp add: does_def io_ask_def)

lemma does_map_err:
  "does (\<lambda>r. Q (case r of Inl err \<Rightarrow> Inl (g err) | Inr x \<Rightarrow> Inr x)) m \<Longrightarrow> does Q (io_map_err g m)"
  unfolding io_map_err_def by (erule does_bind) (rule does_return, simp)

lemma does_weaken: "does R m \<Longrightarrow> (\<And>r es. R r es \<Longrightarrow> Q r es) \<Longrightarrow> does Q m"
  unfolding does_def by meson

lemma does_timeout:
  assumes "does Q m" "\<And>r es n. Q r es \<Longrightarrow> Q (Inl late) (take n es)"
  shows "does Q (io_timeout limit late m)"
  unfolding does_def
proof
  fix past
  obtain r full where m: "m past = (r, full)" by fastforce
  from doesD [OF assms(1) m] obtain es where "full = past @ es" "Q r es" by blast
  then show "\<exists>es. snd (io_timeout limit late m past) = past @ es \<and> Q (fst (io_timeout limit late m past)) es"
    using assms(2) by (auto simp: io_timeout_def m split: option.splits)
qed

lemma does_fold:
  assumes "\<And>acc x es. I acc es \<Longrightarrow> x \<in> set xs \<Longrightarrow>
      does (\<lambda>r fs. case r of Inl err \<Rightarrow> Q (Inl err) (es @ fs) | Inr y \<Rightarrow> I y (es @ fs)) (f acc x)"
    "\<And>acc es. I acc es \<Longrightarrow> Q (Inr acc) es" "I acc es"
  shows "does (\<lambda>r fs. Q r (es @ fs)) (io_fold f acc xs)"
  using assms(1,3)
proof (induction xs arbitrary: acc es)
  case Nil
  then show ?case by (simp add: does_return assms(2))
next
  case (Cons x xs)
  have first: "does (\<lambda>r fs. case r of Inl err \<Rightarrow> Q (Inl err) (es @ fs) | Inr y \<Rightarrow> I y (es @ fs)) (f acc x)"
    using Cons.prems by simp
  have rest: "does (\<lambda>r gs. Q r (es @ fs @ gs)) (io_fold f y xs)" if "I y (es @ fs)" for y fs
    using Cons.IH [OF Cons.prems(1) that] by simp
  show ?case
    unfolding io_fold.simps by (rule does_try [OF first]) (use rest in simp)
qed

section \<open>Events as the outside made them\<close>

text \<open>\<open>traced T past es\<close>: after \<open>past\<close>, each event of \<open>es\<close> is one the outside \<open>T\<close> makes where it stands.\<close>

fun traced :: "('e list \<Rightarrow> 'e \<Rightarrow> bool) \<Rightarrow> 'e list \<Rightarrow> 'e list \<Rightarrow> bool" where
  "traced T past [] \<longleftrightarrow> True"
| "traced T past (e # es) \<longleftrightarrow> T past e \<and> traced T (past @ [e]) es"

lemma traced_append [simp]: "traced T past (es @ fs) \<longleftrightarrow> traced T past es \<and> traced T (past @ es) fs"
  by (induction es arbitrary: past) auto

definition honest :: "('e list \<Rightarrow> 'e \<Rightarrow> bool) \<Rightarrow> ('e, 'a) io \<Rightarrow> bool" where
  "honest T m \<longleftrightarrow> (\<forall>past. \<exists>es. snd (m past) = past @ es \<and> traced T past es)"

named_theorems honest_rules

lemma honestD: "honest T m \<Longrightarrow> m past = (x, full) \<Longrightarrow> \<exists>es. full = past @ es \<and> traced T past es"
  unfolding honest_def by (metis snd_conv)

lemma honest_return [honest_rules]: "honest T (io_return x)"
  by (simp add: honest_def io_return_def)

lemma honest_ask: "(\<And>past. T past (event q (outside past q))) \<Longrightarrow> honest T (io_ask outside event q)"
  by (simp add: honest_def io_ask_def)

lemma honest_bind [honest_rules]:
  assumes "honest T m" "\<And>x. honest T (f x)"
  shows "honest T (io_bind m f)"
  unfolding honest_def
proof
  fix past
  obtain x past' where m: "m past = (x, past')" by fastforce
  from honestD [OF assms(1) m] obtain es where es: "past' = past @ es" "traced T past es" by blast
  obtain y full where f: "f x past' = (y, full)" by fastforce
  from honestD [OF assms(2) f] obtain fs where "full = past' @ fs" "traced T past' fs" by blast
  with es m f show "\<exists>es. snd (io_bind m f past) = past @ es \<and> traced T past es"
    by (intro exI [of _ "es @ fs"]) (simp add: io_bind_def)
qed

lemma honest_sum [honest_rules]:
  "(\<And>x. honest T (f x)) \<Longrightarrow> (\<And>y. honest T (g y)) \<Longrightarrow> honest T (case r of Inl x \<Rightarrow> f x | Inr y \<Rightarrow> g y)"
  by (cases r) simp_all

lemma honest_option [honest_rules]:
  "honest T m \<Longrightarrow> (\<And>y. honest T (g y)) \<Longrightarrow> honest T (case r of None \<Rightarrow> m | Some y \<Rightarrow> g y)"
  by (cases r) simp_all

lemma honest_if [honest_rules]: "honest T m \<Longrightarrow> honest T n \<Longrightarrow> honest T (if c then m else n)"
  by simp

lemma honest_pair [honest_rules]: "(\<And>x y. honest T (f x y)) \<Longrightarrow> honest T (case p of (x, y) \<Rightarrow> f x y)"
  by (cases p) simp

lemma honest_try [honest_rules]: "honest T m \<Longrightarrow> (\<And>x. honest T (f x)) \<Longrightarrow> honest T (io_try m f)"
  unfolding io_try_def by (intro honest_rules)

lemma honest_check [honest_rules]: "(\<And>x. honest T (f x)) \<Longrightarrow> honest T (io_check r f)"
  unfolding io_check_def by (intro honest_rules)

lemma honest_map_err [honest_rules]: "honest T m \<Longrightarrow> honest T (io_map_err g m)"
  unfolding io_map_err_def by (intro honest_rules)

lemma honest_timeout [honest_rules]:
  assumes "honest T m"
  shows "honest T (io_timeout limit late m)"
  unfolding honest_def
proof
  fix past
  obtain r full where m: "m past = (r, full)" by fastforce
  from honestD [OF assms m] obtain es where "full = past @ es" "traced T past es" by blast
  moreover from this(2) have "traced T past (take n es)" for n
    using traced_append [of T past "take n es" "drop n es"] by simp
  ultimately show "\<exists>es. snd (io_timeout limit late m past) = past @ es \<and> traced T past es"
    by (auto simp: io_timeout_def m split: option.splits)
qed

lemma honest_fold [honest_rules]: "(\<And>acc x. honest T (f acc x)) \<Longrightarrow> honest T (io_fold f acc xs)"
  by (induction xs arbitrary: acc) (auto intro: honest_rules)

lemma honest_map [honest_rules]: "(\<And>x. honest T (f x)) \<Longrightarrow> honest T (io_map f xs)"
  by (induction xs) (auto intro: honest_rules)

end
