(* ===== verification/YamlApply.thy ===== *)
theory YamlApply
  imports Discovery SecretRender Effects
begin

text \<open>
  Dry run and apply of YAML documents (\<open>crates/kubyl_yaml_core/src/apply.rs\<close>), and the requests of the
  Kubernetes client it and the change tools make.  A parsed document is its tree of nodes without their
  positions (\<open>parse.rs\<close>); resolving a plain scalar is the parameter \<open>resolve_plain\<close>.  The client is a
  function from a request to code that answers it.
\<close>

section \<open>Requests\<close>

record api_resource =
  as_group :: str
  as_version :: str
  as_api_version :: str
  as_kind :: str
  as_plural :: str

definition api_resource_of :: "api_resource_info \<Rightarrow> api_resource" where
  "api_resource_of info =
     \<lparr>as_group = gk_group (ar_gvk info), as_version = gk_version (ar_gvk info),
      as_api_version = gvk_api_version (ar_gvk info), as_kind = gk_kind (ar_gvk info),
      as_plural = gvr_resource (ar_gvr info)\<rparr>"

text \<open>\<open>Api::namespaced_with\<close> and \<open>Api::all_with\<close>.\<close>

type_synonym api = "api_resource \<times> str option"

record patch_params =
  pp_manager :: str
  pp_force :: bool
  pp_dry_run :: bool
  pp_strict :: bool

record post_params =
  po_manager :: str
  po_dry_run :: bool

datatype patch = MergePatch json | StrategicPatch json | JsonPatch json | ApplyPatch json

datatype api_request =
    GetObject api str
  | GetScale api str
  | PatchObject api str patch_params patch
  | PatchScale api str patch_params patch
  | CreateObject api post_params json
  | ReplaceObject api str post_params json
  | DeleteObject api str "str option"

record status_cause =
  ca_reason :: str
  ca_message :: str
  ca_field :: str

record api_status =
  sa_code :: nat
  sa_message :: str
  sa_reason :: str
  sa_causes :: "status_cause list"

datatype kube_error = ApiError api_status | OtherError str

type_synonym api_answer = "kube_error + json"

type_synonym 'e client = "api_request \<Rightarrow> ('e, api_answer) io"

definition field_manager :: str where "field_manager = ''kubyl''"

text \<open>\<open>get_opt\<close>: an object that is not there is no error.\<close>

definition absent :: "api_answer \<Rightarrow> bool" where
  "absent r = (case r of Inl (ApiError s) \<Rightarrow> sa_code s = 404 | _ \<Rightarrow> False)"

definition get_opt :: "'e client \<Rightarrow> api \<Rightarrow> str \<Rightarrow> ('e, kube_error + json option) io" where
  "get_opt client a name =
     io_bind (client (GetObject a name))
       (\<lambda>r. io_return (if absent r then Inr None else case r of Inl err \<Rightarrow> Inl err | Inr v \<Rightarrow> Inr (Some v)))"

section \<open>Documents\<close>

record scalar =
  sc_text :: str
  sc_plain :: bool
  sc_tag :: "str option"

datatype node = MapNode "(node \<times> node) list" | SeqNode "node list" | ScalarNode scalar

definition scalar_json :: "(str \<Rightarrow> json) \<Rightarrow> scalar \<Rightarrow> json" where
  "scalar_json resolve_plain s =
     (if sc_tag s \<in> {Some ''str'', Some ''binary''} then JStr (sc_text s)
      else if sc_tag s \<in> {Some ''int'', Some ''float'', Some ''bool'', Some ''null''} then resolve_plain (sc_text s)
      else if sc_plain s then resolve_plain (sc_text s) else JStr (sc_text s))"

fun key_str :: "node \<Rightarrow> str" where
  "key_str (ScalarNode s) = sc_text s"
| "key_str _ = []"

fun node_json :: "(str \<Rightarrow> json) \<Rightarrow> node \<Rightarrow> json" where
  "node_json rp (MapNode entries) =
     JObj (fold (\<lambda>(k, v) kvs. case k of Some key \<Rightarrow> AList.update key v kvs | None \<Rightarrow> kvs)
             (map (\<lambda>kv. (case fst kv of ScalarNode s \<Rightarrow> Some (sc_text s) | _ \<Rightarrow> None, node_json rp (snd kv))) entries) [])"
| "node_json rp (SeqNode items) = JArr (map (node_json rp) items)"
| "node_json rp (ScalarNode s) = scalar_json rp s"

definition node_get :: "node \<Rightarrow> str \<Rightarrow> node option" where
  "node_get n key =
     (case n of MapNode entries \<Rightarrow> map_option snd (find (\<lambda>e. key_str (fst e) = key) entries) | _ \<Rightarrow> None)"

definition node_str :: "node \<Rightarrow> str option" where
  "node_str n = (case n of ScalarNode s \<Rightarrow> Some (sc_text s) | _ \<Rightarrow> None)"

definition non_empty :: "str option \<Rightarrow> str option" where
  "non_empty s = (case s of Some t \<Rightarrow> if t \<noteq> [] then Some t else None | None \<Rightarrow> None)"

record prepared =
  pr_index :: nat
  pr_gvk :: gvk
  pr_resource :: api_resource
  pr_namespace :: "str option"
  pr_name :: str
  pr_object :: json

definition prepared_label :: "prepared \<Rightarrow> str" where
  "prepared_label d = to_lowercase (gk_kind (pr_gvk d)) @ ''/'' @ pr_name d"

text \<open>\<open>Map::insert\<close>.\<close>

fun jinsert :: "str \<Rightarrow> json \<Rightarrow> json \<Rightarrow> json" where
  "jinsert k x (JObj kvs) = JObj (AList.update k x kvs)"
| "jinsert k x v = v"

record env =
  en_resolve_plain :: "str \<Rightarrow> json"
  en_encode :: "str \<Rightarrow> str"
  en_json_text :: "json \<Rightarrow> str"
  en_object_error :: "json \<Rightarrow> str option"

definition prepare_one ::
  "env \<Rightarrow> nat \<Rightarrow> node \<Rightarrow> discovery \<Rightarrow> str option \<Rightarrow> secret_values option \<Rightarrow> str + prepared" where
  "prepare_one en index root_node d default_namespace secrets =
     and_then (ok_or (non_empty (Option.bind (node_get root_node ''apiVersion'') node_str)) ''Required value: apiVersion'')
       (\<lambda>version_text.
     and_then (ok_or (non_empty (Option.bind (node_get root_node ''kind'') node_str)) ''Required value: kind'')
       (\<lambda>kind.
     (let (grp, version) = (case split_once (CHR ''/'') version_text of Some gv \<Rightarrow> gv | None \<Rightarrow> ([], version_text));
          g = \<lparr>gk_group = grp, gk_version = version, gk_kind = kind\<rparr>
      in and_then (ok_or (by_gvk d g) (''The cluster doesn't serve '' @ kind @ '' in '' @ version_text @ ''.''))
           (\<lambda>info.
         (let object = node_json (en_resolve_plain en) root_node
          in and_then (ok_or (non_empty (jstr_at [''metadata'', ''name''] object)) ''Required value: metadata.name'')
               (\<lambda>name.
             (let namespace =
                    (if ar_namespaced info
                     then Some (unwrap_or (or_else (non_empty (jstr_at [''metadata'', ''namespace''] object)) default_namespace)
                                  ''default'')
                     else None);
                  object = (case namespace of
                      Some ns \<Rightarrow> jadjust ''metadata'' (jinsert ''namespace'' (JStr ns)) object | None \<Rightarrow> object)
              in Inr \<lparr>pr_index = index, pr_gvk = g, pr_resource = api_resource_of info, pr_namespace = namespace,
                      pr_name = name,
                      pr_object = restore_secret (en_encode en) (en_json_text en) secrets (strip_server_fields object)\<rparr>)))))))"

text \<open>A parsed buffer: the syntax error, if any, and the roots of its documents.\<close>

record parsed =
  pa_error :: "str option"
  pa_docs :: "node option list"

definition prepare ::
  "env \<Rightarrow> parsed \<Rightarrow> discovery \<Rightarrow> str option \<Rightarrow> secret_values option \<Rightarrow> str list + prepared list" where
  "prepare en parsed d default_namespace secrets =
     (let results = List.map_filter (\<lambda>(index, root_node).
                      map_option (\<lambda>r. prepare_one en index r d default_namespace secrets) root_node)
                      (List.enumerate 0 (pa_docs parsed));
          problems = (case pa_error parsed of Some e \<Rightarrow> [e] | None \<Rightarrow> []) @
                     List.map_filter (\<lambda>r. case r of Inl p \<Rightarrow> Some p | Inr _ \<Rightarrow> None) results;
          out = List.map_filter (\<lambda>r. case r of Inr p \<Rightarrow> Some p | Inl _ \<Rightarrow> None) results;
          problems = (if out = [] \<and> problems = [] then [''Nothing to apply.''] else problems)
      in if problems = [] then Inr out else Inl problems)"

section \<open>Applying\<close>

record conflict =
  co_manager :: str
  co_field :: str

record apply_cause =
  cu_field :: str
  cu_message :: str

datatype outcome = Applied json | Conflicts "conflict list" | Failed str "apply_cause list"

record doc_result =
  dr_index :: nat
  dr_label :: str
  dr_outcome :: outcome

record apply_options =
  ao_dry_run :: bool
  ao_force :: bool

definition doc_api :: "prepared \<Rightarrow> api" where
  "doc_api d = (pr_resource d, pr_namespace d)"

text \<open>\<open>str::split\<close> on a text: the parts after each occurrence.\<close>

fun parts_after :: "nat \<Rightarrow> str \<Rightarrow> str \<Rightarrow> str list" where
  "parts_after 0 p s = []"
| "parts_after (Suc n) p s =
     (case split_at_str p s of
        None \<Rightarrow> []
      | Some (_, rest) \<Rightarrow>
          (case split_at_str p rest of Some (part, _) \<Rightarrow> part | None \<Rightarrow> rest) # parts_after n p rest)"

definition rsplit_at_str :: "str \<Rightarrow> str \<Rightarrow> (str \<times> str) option" where
  "rsplit_at_str p s = map_option (\<lambda>(a, b). (rev b, rev a)) (split_at_str (rev p) (rev s))"

definition conflict_mark :: str where "conflict_mark = ''conflict with '' @ [CHR 0x22]"

definition manager_of :: "str \<Rightarrow> str option" where
  "manager_of t =
     Option.bind (split_at_str conflict_mark t) (\<lambda>(_, rest). map_option fst (split_once (CHR 0x22) rest))"

definition conflicts_of :: "str \<Rightarrow> status_cause list \<Rightarrow> conflict list" where
  "conflicts_of message causes =
     (let out = List.map_filter (\<lambda>c. map_option (\<lambda>m. \<lparr>co_manager = m, co_field = ca_field c\<rparr>) (manager_of (ca_message c)))
                  (filter (\<lambda>c. ca_reason c = ''FieldManagerConflict'' \<or> contains ''conflict with'' (ca_message c)) causes)
      in if out \<noteq> [] then out
         else List.map_filter (\<lambda>part.
                map_option (\<lambda>(manager, rest).
                    \<lparr>co_manager = manager,
                     co_field = (case rsplit_at_str '': '' rest of
                        Some (_, f) \<Rightarrow> trim_end_matches (\<lambda>c. c = CHR '','') (trim f) | None \<Rightarrow> [])\<rparr>)
                  (split_once (CHR 0x22) part))
                (parts_after (length message) conflict_mark message))"

definition failure :: "kube_error \<Rightarrow> outcome" where
  "failure err =
     (case err of
        OtherError message \<Rightarrow> Failed message []
      | ApiError s \<Rightarrow>
          (let conflicts = (if sa_code s = 409 \<and> (sa_reason s = ''Conflict'' \<or> sa_causes s \<noteq> [])
                            then conflicts_of (sa_message s) (sa_causes s) else [])
           in if conflicts \<noteq> [] then Conflicts conflicts
              else Failed (sa_message s)
                (map (\<lambda>c. \<lparr>cu_field = trim_start_matches (\<lambda>c. c = CHR ''.'') (ca_field c), cu_message = ca_message c\<rparr>)
                   (sa_causes s))))"

definition outcome_of :: "api_answer \<Rightarrow> outcome" where
  "outcome_of r = (case r of Inr v \<Rightarrow> Applied v | Inl err \<Rightarrow> failure err)"

definition meta_text :: "str \<Rightarrow> json \<Rightarrow> str option" where
  "meta_text k v = jstr_at [''metadata'', k] v"

text \<open>\<open>object.metadata.resource_version = ...\<close>.\<close>

definition set_version :: "str option \<Rightarrow> json \<Rightarrow> json" where
  "set_version version v =
     jadjust ''metadata'' (case version of
        Some t \<Rightarrow> jinsert ''resourceVersion'' (JStr t) | None \<Rightarrow> jremove ''resourceVersion'') v"

definition replace_or_create :: "env \<Rightarrow> 'e client \<Rightarrow> prepared \<Rightarrow> apply_options \<Rightarrow> ('e, outcome) io" where
  "replace_or_create en client d options =
     (let params = \<lparr>po_manager = field_manager, po_dry_run = ao_dry_run options\<rparr>
      in case en_object_error en (pr_object d) of
           Some message \<Rightarrow> io_return (Failed message [])
         | None \<Rightarrow>
             io_bind (get_opt client (doc_api d) (pr_name d))
               (\<lambda>r. case r of
                  Inl err \<Rightarrow> io_return (failure err)
                | Inr (Some live) \<Rightarrow>
                    io_bind (client (ReplaceObject (doc_api d) (pr_name d) params
                               (set_version (meta_text ''resourceVersion'' live) (pr_object d))))
                      (\<lambda>r. io_return (outcome_of r))
                | Inr None \<Rightarrow>
                    io_bind (client (CreateObject (doc_api d) params (pr_object d))) (\<lambda>r. io_return (outcome_of r))))"

definition apply_one :: "env \<Rightarrow> 'e client \<Rightarrow> prepared \<Rightarrow> apply_options \<Rightarrow> ('e, outcome) io" where
  "apply_one en client d options =
     io_bind (client (PatchObject (doc_api d) (pr_name d)
         \<lparr>pp_manager = field_manager, pp_force = ao_force options, pp_dry_run = ao_dry_run options, pp_strict = True\<rparr>
         (ApplyPatch (pr_object d))))
       (\<lambda>r. case r of
          Inl (ApiError s) \<Rightarrow>
            if sa_code s = 415 then replace_or_create en client d options else io_return (failure (ApiError s))
        | _ \<Rightarrow> io_return (outcome_of r))"

definition apply_all :: "env \<Rightarrow> 'e client \<Rightarrow> prepared list \<Rightarrow> apply_options \<Rightarrow> ('e, doc_result list) io" where
  "apply_all en client docs options =
     io_map (\<lambda>d. io_bind (apply_one en client d options)
               (\<lambda>r. io_return \<lparr>dr_index = pr_index d, dr_label = prepared_label d, dr_outcome = r\<rparr>)) docs"

section \<open>What is prepared, what is sent\<close>

text \<open>A prepared document goes to the resource type discovery knows under its kind.\<close>

definition serves :: "discovery \<Rightarrow> prepared \<Rightarrow> bool" where
  "serves d doc \<longleftrightarrow>
     (\<exists>info \<in> set (di_resources d). ar_gvk info = pr_gvk doc \<and> pr_resource doc = api_resource_of info \<and>
        (pr_namespace doc = None \<longleftrightarrow> \<not> ar_namespaced info)) \<and>
     meta_text ''name'' (pr_object doc) = Some (pr_name doc)"

text \<open>The steps of preparing keep the name.\<close>

lemma jget_remove [simp]: "jget (jremove k v) k' = (if k' = k then None else jget v k')"
  by (cases v) (simp_all add: delete_conv')

lemma jget_insert_other [simp]: "k' \<noteq> k \<Longrightarrow> jget (jinsert k x v) k' = jget v k'"
  by (cases v) (simp_all add: update_conv')

lemma jget_remove_fold: "k \<notin> set ks \<Longrightarrow> jget (fold jremove ks v) k = jget v k"
  by (induction ks arbitrary: v) auto

lemma meta_text_eq: "meta_text k v = Option.bind (Option.bind (jget v ''metadata'') (\<lambda>m. jget m k)) as_str"
  by (cases "jget v ''metadata''") (simp_all add: meta_text_def jstr_at_def)

lemma meta_text_adjust:
  "(\<And>m. jget (f m) k = jget m k) \<Longrightarrow> meta_text k (jadjust ''metadata'' f v) = meta_text k v"
  by (cases "jget v ''metadata''") (simp_all add: meta_text_eq)

lemma meta_text_adjust_other: "k' \<noteq> ''metadata'' \<Longrightarrow> meta_text k (jadjust k' f v) = meta_text k v"
  by (simp add: meta_text_eq)

lemma meta_text_strip: "k \<notin> set server_fields \<Longrightarrow> meta_text k (strip_server_fields v) = meta_text k v"
proof -
  assume k: "k \<notin> set server_fields"
  have "meta_text k (strip_server_fields v) = meta_text k (jadjust ''metadata'' (fold jremove server_fields) v)"
    by (simp add: strip_server_fields_def meta_text_eq)
  with k show ?thesis by (simp add: meta_text_adjust jget_remove_fold)
qed

lemma meta_text_put_back:
  "k \<noteq> ''annotations'' \<Longrightarrow> meta_text k (put_back last_applied_path original v) = meta_text k v"
  "meta_text k (put_back route_key_path original v) = meta_text k v"
  by (auto simp: put_back_def last_applied_path_def route_key_path_def meta_text_adjust meta_text_adjust_other
      split: option.split)

lemma meta_text_restore:
  "k \<noteq> ''annotations'' \<Longrightarrow> meta_text k (restore_secret encode json_text secrets v) = meta_text k v"
  by (simp add: restore_secret_def Let_def meta_text_put_back meta_text_adjust_other)

lemma name_kept:
  "meta_text ''name'' (restore_secret encode json_text secrets (strip_server_fields
     (case namespace of Some ns \<Rightarrow> jadjust ''metadata'' (jinsert ''namespace'' (JStr ns)) v | None \<Rightarrow> v))) =
   jstr_at [''metadata'', ''name''] v"
  by (simp add: meta_text_restore meta_text_strip server_fields_def meta_text_adjust split: option.split)
    (simp add: meta_text_def)

lemma find_SomeD: "find P xs = Some x \<Longrightarrow> x \<in> set xs \<and> P x"
  by (induction xs) (auto split: if_splits)

lemma non_empty_Some: "non_empty s = Some t \<Longrightarrow> s = Some t"
  by (cases s) (auto simp: non_empty_def split: if_splits)

lemma prepare_one_serves:
  assumes "prepare_one en index root_node d ns secrets = Inr doc"
  shows "serves d doc"
proof -
  obtain vt where vt: "non_empty (Option.bind (node_get root_node ''apiVersion'') node_str) = Some vt"
    using assms unfolding prepare_one_def and_then_eq_Inr by auto
  obtain grp version where gv: "(case split_once (CHR ''/'') vt of Some gv \<Rightarrow> gv | None \<Rightarrow> ([], vt)) = (grp, version)"
    by fastforce
  show ?thesis
    using assms unfolding prepare_one_def vt
    by (auto simp: and_then_eq_Inr gv Let_def serves_def by_gvk_def name_kept dest!: find_SomeD non_empty_Some)
qed

lemma prepare_serves: "prepare en parsed d ns secrets = Inr docs \<Longrightarrow> list_all (serves d) docs"
  by (fastforce simp: prepare_def Let_def list_all_iff List.map_filter_def split: if_splits sum.splits
      dest: prepare_one_serves)

text \<open>Applying one document asks for its own object only, with the options given.\<close>

definition request_target :: "api_request \<Rightarrow> api \<times> str" where
  "request_target q =
     (case q of
        GetObject a n \<Rightarrow> (a, n) | GetScale a n \<Rightarrow> (a, n) | PatchObject a n _ _ \<Rightarrow> (a, n)
      | PatchScale a n _ _ \<Rightarrow> (a, n) | ReplaceObject a n _ _ \<Rightarrow> (a, n) | DeleteObject a n _ \<Rightarrow> (a, n)
      | CreateObject a _ v \<Rightarrow> (a, unwrap_or (meta_text ''name'' v) []))"

definition writes :: "api_request \<Rightarrow> bool" where
  "writes q \<longleftrightarrow>
     (case q of
        GetObject _ _ \<Rightarrow> False | GetScale _ _ \<Rightarrow> False
      | PatchObject _ _ params _ \<Rightarrow> \<not> pp_dry_run params | PatchScale _ _ params _ \<Rightarrow> \<not> pp_dry_run params
      | CreateObject _ params _ \<Rightarrow> \<not> po_dry_run params | ReplaceObject _ _ params _ \<Rightarrow> \<not> po_dry_run params
      | DeleteObject _ _ _ \<Rightarrow> True)"

definition named :: "prepared \<Rightarrow> bool" where
  "named doc \<longleftrightarrow> meta_text ''name'' (pr_object doc) = Some (pr_name doc)"

definition about_doc :: "prepared \<Rightarrow> api_request \<Rightarrow> bool" where
  "about_doc doc q \<longleftrightarrow> request_target q = (doc_api doc, pr_name doc)"

definition obeys :: "apply_options \<Rightarrow> api_request \<Rightarrow> bool" where
  "obeys options q \<longleftrightarrow>
     (writes q \<longrightarrow> \<not> ao_dry_run options) \<and>
     (case q of PatchObject _ _ params (ApplyPatch _) \<Rightarrow> pp_force params = ao_force options
      | PatchObject _ _ _ _ \<Rightarrow> False | DeleteObject _ _ _ \<Rightarrow> False
      | PatchScale _ _ _ _ \<Rightarrow> False | _ \<Rightarrow> True)"

lemma runs_get_opt:
  "(\<And>q. q = GetObject a name \<Longrightarrow> runs P (\<lambda>_. True) (client q)) \<Longrightarrow> (\<And>r. Q r) \<Longrightarrow> runs P Q (get_opt client a name)"
  unfolding get_opt_def by (rule runs_bind [where R = "\<lambda>_. True"]) (auto intro: runs_return)

lemma apply_one_runs:
  assumes "named d" "\<And>q. about_doc d q \<Longrightarrow> obeys options q \<Longrightarrow> runs P (\<lambda>_. True) (client q)"
  shows "runs P (\<lambda>_. True) (apply_one en client d options)"
proof -
  have sent: "runs P (\<lambda>_. True) (io_bind (client q) (\<lambda>r. io_return (outcome_of r)))"
    if "about_doc d q" "obeys options q" for q
    by (rule runs_bind [OF assms(2) [OF that]]) (rule runs_return, simp)
  have "runs P (\<lambda>_. True) (get_opt client (doc_api d) (pr_name d))"
    by (rule runs_get_opt) (auto intro!: assms(2) simp: about_doc_def obeys_def request_target_def writes_def)
  then have "runs P (\<lambda>_. True) (replace_or_create en client d options)"
    unfolding replace_or_create_def Let_def
    using assms(1)
    by (auto intro!: runs_return runs_bind [where R = "\<lambda>_. True"] sent split: sum.split option.split
        simp: about_doc_def named_def unwrap_or_def obeys_def request_target_def writes_def)
  then show ?thesis
    unfolding apply_one_def
    by (intro runs_bind [where R = "\<lambda>_. True"] assms(2))
      (auto intro: runs_return split: sum.split kube_error.split
        simp: about_doc_def obeys_def request_target_def writes_def)
qed

lemma apply_all_runs:
  assumes "list_all named docs" "\<And>d q. d \<in> set docs \<Longrightarrow> about_doc d q \<Longrightarrow> obeys options q \<Longrightarrow> runs P (\<lambda>_. True) (client q)"
  shows "runs P (\<lambda>_. True) (apply_all en client docs options)"
proof -
  have "runs P (\<lambda>_. True) (io_bind (apply_one en client d options)
      (\<lambda>r. io_return \<lparr>dr_index = pr_index d, dr_label = prepared_label d, dr_outcome = r\<rparr>))" if "d \<in> set docs" for d
    by (rule runs_bind [OF apply_one_runs [OF _ assms(2) [OF that]]]) (use that assms(1) in \<open>auto intro: runs_return simp: list_all_iff\<close>)
  from runs_map [of docs P "\<lambda>_ _. True", OF this] show ?thesis
    unfolding apply_all_def by (rule runs_weaken) simp_all
qed

end
