(* ===== verification/ChangeTools.thy ===== *)
theory ChangeTools
  imports YamlApply LogMerge
begin

text \<open>
  The change tools an agent may call (\<open>crates/kubyl_mcp_core/src/changes.rs\<close>, with the arguments and
  helpers of \<open>tools.rs\<close> and the types of \<open>approval.rs\<close>).  A tool checks the change against the cluster,
  asks the user, and acts only when the user approved.  What the cluster, the user and the last check
  answer is the record \<open>world\<close>, each of them as a function of everything that happened before; what
  happened is the list of events.
\<close>

section \<open>Proposals\<close>

record change_doc =
  cd_label :: str
  cd_old :: "str option"
  cd_new :: str

record proposal =
  pl_cluster :: cluster_id
  pl_cluster_name :: str
  pl_production :: bool
  pl_title :: str
  pl_docs :: "change_doc list"
  pl_warnings :: "str list"

datatype decision = Approved | Rejected

datatype change_event = Api api_request api_answer | Asked proposal decision | Rechecked "str + unit"

section \<open>Contexts and arguments\<close>

record tool_context =
  tc_cluster :: "cluster_id option"
  tc_cluster_name :: str
  tc_client :: bool
  tc_discovery :: "discovery option"
  tc_read_only :: bool
  tc_production :: bool
  tc_openshift :: bool
  tc_namespace :: "str option"
  tc_max_output :: nat
  tc_log_lines :: nat
  tc_active :: bool
  tc_status :: str

record tool_output =
  to_text :: str
  to_error :: bool

text \<open>The libraries and services: the cluster, the user, the check right before acting, the parsers, the
  printer of YAML, the rules that scrub output, and the clock.\<close>

record world =
  wo_kube :: "change_event list \<Rightarrow> api_request \<Rightarrow> api_answer"
  wo_user :: "change_event list \<Rightarrow> proposal \<Rightarrow> decision"
  wo_recheck :: "change_event list \<Rightarrow> unit \<Rightarrow> str + unit"
  wo_env :: env
  wo_parse_yaml :: "str \<Rightarrow> parsed"
  wo_parse_json :: "str \<Rightarrow> str + json"
  wo_patch_error :: "json \<Rightarrow> str option"
  wo_to_yaml :: "json \<Rightarrow> str"
  wo_scrub :: "str \<Rightarrow> str"
  wo_now :: str

definition client :: "world \<Rightarrow> change_event client" where
  "client w = io_ask (wo_kube w) Api"

definition approve :: "world \<Rightarrow> proposal \<Rightarrow> (change_event, decision) io" where
  "approve w = io_ask (wo_user w) Asked"

definition recheck :: "world \<Rightarrow> (change_event, str + unit) io" where
  "recheck w = io_ask (wo_recheck w) (\<lambda>_. Rechecked) ()"

definition str_arg :: "json \<Rightarrow> str \<Rightarrow> str option" where
  "str_arg args key = non_empty (map_option trim (Option.bind (jget args key) as_str))"

definition required :: "json \<Rightarrow> str \<Rightarrow> str + str" where
  "required args key = ok_or (str_arg args key) (''`'' @ key @ ''` is required.'')"

text \<open>\<open>str::parse\<close> to \<open>i64\<close>, and the argument as such a number.\<close>

definition i64_min :: int where "i64_min = - (2 ^ 63)"
definition i64_max :: int where "i64_max = 2 ^ 63 - 1"

definition parse_i64 :: "str \<Rightarrow> int option" where
  "parse_i64 s =
     (let (negative, digits) = (case s of c # r \<Rightarrow> if c = CHR ''-'' then (True, r) else if c = CHR ''+'' then (False, r)
                                  else (False, s) | [] \<Rightarrow> (False, []));
          n = (if negative then - int (digits_value digits) else int (digits_value digits))
      in if digits \<noteq> [] \<and> list_all is_ascii_digit digits \<and> i64_min \<le> n \<and> n \<le> i64_max then Some n else None)"

definition as_i64 :: "json \<Rightarrow> int option" where
  "as_i64 v =
     (case v of JNum q \<Rightarrow> if q = of_int \<lfloor>q\<rfloor> \<and> i64_min \<le> \<lfloor>q\<rfloor> \<and> \<lfloor>q\<rfloor> \<le> i64_max then Some \<lfloor>q\<rfloor> else None | _ \<Rightarrow> None)"

definition int_arg :: "json \<Rightarrow> str \<Rightarrow> int option" where
  "int_arg args key =
     Option.bind (jget args key) (\<lambda>v. or_else (as_i64 v) (Option.bind (as_str v) (\<lambda>s. parse_i64 (trim s))))"

definition connected_client :: "tool_context \<Rightarrow> str + unit" where
  "connected_client ctx =
     (if tc_client ctx then Inr ()
      else Inl (tc_cluster_name ctx @ '' isn't connected in Kubyl. Ask the user to connect it.''))"

definition not_connected :: "tool_context \<Rightarrow> str" where
  "not_connected ctx = tc_cluster_name ctx @ '' isn't connected in Kubyl.''"

definition resolve_kind :: "tool_context \<Rightarrow> str \<Rightarrow> str + api_resource_info" where
  "resolve_kind ctx kind =
     and_then (ok_or (tc_discovery ctx) (not_connected ctx)) (\<lambda>d.
       ok_or (resolve d kind)
         (''The cluster doesn't serve `'' @ kind @ ''`. Call api_resources to see what it serves.''))"

definition api_for :: "api_resource_info \<Rightarrow> str option \<Rightarrow> api" where
  "api_for info namespace = (api_resource_of info, if ar_namespaced info then namespace else None)"

definition error_display :: "kube_error \<Rightarrow> str" where
  "error_display err =
     (case err of
        OtherError message \<Rightarrow> message
      | ApiError s \<Rightarrow>
          if sa_code s = 403 then ''Forbidden: the user's account may not do this ('' @ sa_message s @ '').''
          else if sa_code s = 404 then ''Not found: '' @ sa_message s else sa_message s)"

definition object_json :: "json \<Rightarrow> json" where
  "object_json v = jadjust ''metadata'' (jremove ''managedFields'') v"

definition typed_json :: "api_resource_info \<Rightarrow> json \<Rightarrow> json" where
  "typed_json info v =
     jinsert ''kind'' (JStr (gk_kind (ar_gvk info)))
       (jinsert ''apiVersion'' (JStr (gvk_api_version (ar_gvk info))) (object_json v))"

definition refuse_helm_release :: "api_resource_info \<Rightarrow> json \<Rightarrow> str + unit" where
  "refuse_helm_release info v =
     (if gk_group (ar_gvk info) = [] \<and> is_helm_release v
      then Inl (unwrap_or (meta_text ''name'' v) [] @
        '' holds a Helm release (its values and manifest), which Kubyl doesn't give to agents. Use list_resources on the release's objects instead.'')
      else Inr ())"

section \<open>Output\<close>

text \<open>\<open>cap\<close>: the start of a long text, or its end, cut at a boundary of characters.\<close>

fun cut_front :: "nat \<Rightarrow> str \<Rightarrow> str" where
  "cut_front 0 s = s"
| "cut_front (Suc n) [] = []"
| "cut_front (Suc n) (c # s) = cut_front (Suc n - length (utf8 c)) s"

definition cap :: "nat \<Rightarrow> bool \<Rightarrow> str \<Rightarrow> str" where
  "cap limit tail s =
     (if byte_len s \<le> limit then s
      else (let dropped = byte_len s - limit
            in if tail
               then ''['' @ show_nat dropped @ '' earlier bytes not shown; use tail_lines, since_seconds or grep]'' @ [CHR 0x0A]
                    @ cut_front dropped s
               else cut_back limit s @ [CHR 0x0A] @ ''['' @ show_nat dropped
                    @ '' more bytes not shown; narrow it with namespace, label_selector or limit]''))"

definition finish_output :: "world \<Rightarrow> tool_context \<Rightarrow> bool \<Rightarrow> tool_output \<Rightarrow> tool_output" where
  "finish_output w ctx tail out =
     \<lparr>to_text = cap (max (tc_max_output ctx) 1024) tail (wo_scrub w (to_text out)), to_error = to_error out\<rparr>"

section \<open>What a change is\<close>

datatype change_action =
    ActApply "(prepared \<times> bool) list"
  | ActPatch api str str json "str option"
  | ActDelete api str "str option"
  | ActScale api str nat "str option"
  | ActRestart api str "str option"

datatype checked = NothingToDo str | Change proposal change_action

definition max_docs :: nat where "max_docs = 20"
definition step_timeout :: nat where "step_timeout = 60"

definition new_proposal :: "tool_context \<Rightarrow> str \<Rightarrow> str + proposal" where
  "new_proposal ctx title =
     and_then (ok_or (tc_cluster ctx) (not_connected ctx)) (\<lambda>cluster.
       Inr \<lparr>pl_cluster = cluster, pl_cluster_name = tc_cluster_name ctx, pl_production = tc_production ctx,
            pl_title = title, pl_docs = [], pl_warnings = []\<rparr>)"

definition object_label :: "str \<Rightarrow> str option \<Rightarrow> str \<Rightarrow> str" where
  "object_label kind namespace name =
     to_lowercase kind @ '' '' @ (case namespace of Some ns \<Rightarrow> ns @ ''/'' @ name | None \<Rightarrow> name)"

definition change_target :: "tool_context \<Rightarrow> json \<Rightarrow> str + api_resource_info \<times> str option \<times> str" where
  "change_target ctx args =
     and_then (required args ''kind'') (\<lambda>kind.
     and_then (resolve_kind ctx kind) (\<lambda>info.
     and_then (required args ''name'') (\<lambda>name.
       if ar_namespaced info then
         and_then (ok_or (or_else (str_arg args ''namespace'') (tc_namespace ctx))
                     (''`namespace` is required for '' @ show_gvr (ar_gvr info) @ ''.'')) (\<lambda>ns.
           Inr (info, Some ns, name))
       else Inr (info, None, name))))"

definition core_secret :: "gvk \<Rightarrow> bool" where
  "core_secret g \<longleftrightarrow> gk_group g = [] \<and> gk_kind g = ''Secret''"

definition refuse_secret :: "api_resource_info \<Rightarrow> str \<Rightarrow> str + unit" where
  "refuse_secret info what =
     (if core_secret (ar_gvk info)
      then Inl (''Kubyl doesn't '' @ what @ '' Secrets for agents: values would have to pass through the agent. Ask the user to do it in Kubyl or with kubectl.'')
      else Inr ())"

text \<open>\<open>comparable\<close> and \<open>masked_yaml\<close>; the objects are those the client read, so they are JSON objects.\<close>

definition comparable :: "str \<Rightarrow> str \<Rightarrow> json \<Rightarrow> json" where
  "comparable version kind v =
     (let v = (if jget v ''kind'' = None then jinsert ''kind'' (JStr kind) v else v);
          v = (if jget v ''apiVersion'' = None then jinsert ''apiVersion'' (JStr version) v else v)
      in strip_server_fields v)"

definition json_or_none :: "str + json \<Rightarrow> json option" where
  "json_or_none r = (case r of Inr v \<Rightarrow> Some v | Inl _ \<Rightarrow> None)"

definition masked_yaml :: "world \<Rightarrow> json \<Rightarrow> str" where
  "masked_yaml w v = wo_to_yaml w (snd (mask_object (\<lambda>t. json_or_none (wo_parse_json w t)) v))"

definition kind_warning :: "str \<Rightarrow> str \<Rightarrow> str option" where
  "kind_warning kind verb =
     (if kind = ''Namespace'' \<and> verb = ''delete'' then Some ''Deleting a namespace deletes every object in it.''
      else if kind = ''CustomResourceDefinition'' \<and> verb = ''delete''
      then Some ''Deleting a CRD deletes every custom resource of that kind.''
      else if kind \<in> {''PersistentVolumeClaim'', ''PersistentVolume''} \<and> verb = ''delete''
      then Some ''Deleting a volume can delete its data, depending on the reclaim policy.''
      else if kind = ''Node'' \<and> verb = ''delete''
      then Some ''Deleting a node object doesn't drain it; its pods are orphaned.''
      else if kind \<in> {''Namespace'', ''CustomResourceDefinition'', ''ClusterRole'', ''ClusterRoleBinding'',
                      ''ValidatingWebhookConfiguration'', ''MutatingWebhookConfiguration''} \<and> verb \<in> {''apply'', ''patch''}
      then Some ''This changes something cluster-wide.''
      else None)"

definition warn :: "str option \<Rightarrow> proposal \<Rightarrow> proposal" where
  "warn text p = (case text of Some t \<Rightarrow> p\<lparr>pl_warnings := pl_warnings p @ [t]\<rparr> | None \<Rightarrow> p)"

definition add_doc :: "change_doc \<Rightarrow> proposal \<Rightarrow> proposal" where
  "add_doc d p = p\<lparr>pl_docs := pl_docs p @ [d]\<rparr>"

section \<open>Checking a manifest\<close>

definition doc_name :: "prepared \<Rightarrow> str" where
  "doc_name d = (case pr_namespace d of Some ns \<Rightarrow> ns @ ''/'' @ pr_name d | None \<Rightarrow> pr_name d)"

definition refuse_doc :: "prepared \<Rightarrow> str + unit" where
  "refuse_doc d =
     (if core_secret (pr_gvk d)
      then Inl (prepared_label d @ '' is a Secret. Kubyl doesn't write Secrets for agents: values would have to pass through the agent.'')
      else if is_helm_release (pr_object d)
      then Inl (prepared_label d @ '' is Helm's release storage; use Helm to change a release.'')
      else Inr ())"

definition dry_run_result :: "prepared \<Rightarrow> doc_result \<Rightarrow> str + json" where
  "dry_run_result d r =
     (case dr_outcome r of
        Applied v \<Rightarrow> Inr v
      | Conflicts conflicts \<Rightarrow>
          Inl (prepared_label d @ '' conflicts with fields other tools manage (''
            @ join '', '' (map (\<lambda>c. co_manager c @ '' owns '' @ co_field c) conflicts)
            @ ''). Kubyl never forces over them; change the manifest or ask the user to do it in Kubyl's YAML editor.'')
      | Failed message causes \<Rightarrow>
          Inl (''The server rejected '' @ prepared_label d @ '': '' @ message
            @ concat (map (\<lambda>c. [CHR 0x0A] @ ''- '' @ (if cu_field c = [] then [] else cu_field c @ '': '') @ cu_message c)
                        (take 10 causes))))"

definition check_doc ::
  "world \<Rightarrow> proposal \<times> (prepared \<times> bool) list \<Rightarrow> prepared \<times> doc_result
    \<Rightarrow> (change_event, str + proposal \<times> (prepared \<times> bool) list) io" where
  "check_doc w acc dr =
     (let (p, changed) = acc; (d, result) = dr; version = gvk_api_version (pr_gvk d); kind = gk_kind (pr_gvk d)
      in io_check (dry_run_result d result) (\<lambda>applied.
           let new = comparable version kind applied
           in io_try (io_map_err error_display (get_opt (client w) (doc_api d) (pr_name d))) (\<lambda>live.
             if (case live of Some v \<Rightarrow> is_helm_release (object_json v) | None \<Rightarrow> False)
             then io_return (Inl (prepared_label d @ '' is Helm's release storage; use Helm to change a release.''))
             else (let old = map_option (\<lambda>v. comparable version kind (object_json v)) live
                   in if old = Some new then io_return (Inr (p, changed))
                      else (let p = warn (kind_warning kind (if old \<noteq> None then ''patch'' else ''apply'')) p;
                                old_text = map_option (masked_yaml w) old;
                                new_text = masked_yaml w new;
                                p = (if old_text = Some new_text
                                     then warn (Some (''A credential-like value of '' @ doc_name d
                                            @ '' changes; it is masked here, so the diff looks the same.'')) p
                                     else p);
                                p = add_doc \<lparr>cd_label = object_label kind (pr_namespace d) (pr_name d),
                                             cd_old = old_text, cd_new = new_text\<rparr> p
                            in io_return (Inr (p, changed @ [(d, old \<noteq> None)])))))))"

text \<open>\<open>Vec::dedup\<close>.\<close>

fun dedup :: "'a list \<Rightarrow> 'a list" where
  "dedup [] = []"
| "dedup [x] = [x]"
| "dedup (x # y # zs) = (if x = y then dedup (y # zs) else x # dedup (y # zs))"

definition check_apply :: "world \<Rightarrow> tool_context \<Rightarrow> json \<Rightarrow> (change_event, str + checked) io" where
  "check_apply w ctx args =
     io_check (required args ''yaml'') (\<lambda>text.
     io_check (ok_or (tc_discovery ctx) (not_connected ctx)) (\<lambda>d.
     io_check (connected_client ctx) (\<lambda>_.
     io_check (case prepare (wo_env w) (wo_parse_yaml w text) d (or_else (str_arg args ''namespace'') (tc_namespace ctx)) None of
                 Inr docs \<Rightarrow> Inr docs
               | Inl problems \<Rightarrow> Inl (''The YAML can't be applied: '' @ join ''; '' problems)) (\<lambda>docs.
     io_check (if max_docs < length docs
               then Inl (''At most '' @ show_nat max_docs @ '' objects per call; this has '' @ show_nat (length docs) @ ''.'')
               else Inr ()) (\<lambda>_.
     io_check (collect_results (map refuse_doc docs)) (\<lambda>_.
     io_bind (apply_all (wo_env w) (client w) docs \<lparr>ao_dry_run = True, ao_force = False\<rparr>) (\<lambda>dry.
     io_check (new_proposal ctx (case docs of
                 [one] \<Rightarrow> ''Apply '' @ to_lowercase (gk_kind (pr_gvk one)) @ '' '' @ doc_name one
               | many \<Rightarrow> ''Apply '' @ show_nat (length many) @ '' objects'')) (\<lambda>p.
     io_try (io_fold (check_doc w) (p, []) (zip docs dry)) (\<lambda>(p, changed).
       io_return (Inr
         (if changed = [] then NothingToDo ''Nothing would change: the cluster already matches this YAML.''
          else Change (p\<lparr>pl_warnings := dedup (pl_warnings p)\<rparr>) (ActApply changed))))))))))))"

section \<open>Checking a patch\<close>

definition patch_value :: "world \<Rightarrow> json \<Rightarrow> str + json" where
  "patch_value w args =
     (case jget args ''patch'' of
        Some (JStr text) \<Rightarrow>
          (case wo_parse_json w text of
             Inr v \<Rightarrow> Inr v | Inl err \<Rightarrow> Inl (''`patch` isn't valid JSON: '' @ err))
      | Some (JObj kvs) \<Rightarrow> Inr (JObj kvs)
      | Some (JArr items) \<Rightarrow> Inr (JArr items)
      | _ \<Rightarrow> Inl ''`patch` is required (JSON).'')"

definition is_object :: "json \<Rightarrow> bool" where
  "is_object v = (case v of JObj _ \<Rightarrow> True | _ \<Rightarrow> False)"

definition reject_unversionable :: "json \<Rightarrow> str + unit" where
  "reject_unversionable v =
     (case jget v ''metadata'' of
        Some metadata \<Rightarrow>
          if \<not> is_object metadata
          then Inl ''`patch` sets `metadata` to a non-object value, so the reviewed version can't be applied. Leave `metadata` out or make it an object.''
          else Inr ()
      | None \<Rightarrow> Inr ())"

definition version_test :: "str \<Rightarrow> json" where
  "version_test version =
     JObj [(''op'', JStr ''test''), (''path'', JStr ''/metadata/resourceVersion''), (''value'', JStr version)]"

definition with_precondition :: "str \<Rightarrow> json \<Rightarrow> str option \<Rightarrow> json" where
  "with_precondition patch_type v resource_version =
     (case resource_version of
        None \<Rightarrow> v
      | Some version \<Rightarrow>
          (case v of
             JArr ops \<Rightarrow> if patch_type = ''json'' then JArr (version_test version # ops) else v
           | JObj kvs \<Rightarrow>
               (let v = (if jget v ''metadata'' = None then jinsert ''metadata'' (JObj []) v else v)
                in jadjust ''metadata'' (jinsert ''resourceVersion'' (JStr version)) v)
           | _ \<Rightarrow> v))"

definition build_patch :: "world \<Rightarrow> str \<Rightarrow> json \<Rightarrow> str + patch" where
  "build_patch w patch_type v =
     (if patch_type = ''merge'' then Inr (MergePatch v)
      else if patch_type = ''strategic'' then Inr (StrategicPatch v)
      else if patch_type = ''json''
      then (case wo_patch_error w v of
              None \<Rightarrow> Inr (JsonPatch v) | Some err \<Rightarrow> Inl (''`patch` isn't a JSON patch (RFC 6902): '' @ err))
      else Inl (''Unknown patch_type `'' @ patch_type @ ''`; use merge, strategic or json.''))"

definition write_params :: patch_params where
  "write_params = \<lparr>pp_manager = field_manager, pp_force = False, pp_dry_run = False, pp_strict = False\<rparr>"

definition get_object :: "world \<Rightarrow> api \<Rightarrow> str \<Rightarrow> (change_event, str + json) io" where
  "get_object w a name = io_map_err error_display (client w (GetObject a name))"

definition check_patch :: "world \<Rightarrow> tool_context \<Rightarrow> json \<Rightarrow> (change_event, str + checked) io" where
  "check_patch w ctx args =
     io_check (change_target ctx args) (\<lambda>(info, namespace, name).
     io_check (refuse_secret info ''patch'') (\<lambda>_.
     io_check (patch_value w args) (\<lambda>value.
     io_check (reject_unversionable value) (\<lambda>_.
     (let patch_type = unwrap_or (str_arg args ''patch_type'') ''merge''; a = api_for info namespace
      in io_check (build_patch w patch_type value) (\<lambda>built.
         io_check (connected_client ctx) (\<lambda>_.
         io_try (get_object w a name) (\<lambda>live.
         io_check (refuse_helm_release info (typed_json info live)) (\<lambda>_.
         io_try (io_map_err (\<lambda>e. ''The server rejected the patch: '' @ error_display e)
                   (client w (PatchObject a name (write_params\<lparr>pp_dry_run := True\<rparr>) built))) (\<lambda>result.
         (let version = gvk_api_version (ar_gvk info); kind = gk_kind (ar_gvk info);
              old = comparable version kind (object_json live); new = comparable version kind (object_json result)
          in if old = new
             then io_return (Inr (NothingToDo ''Nothing would change: the object already has these values.''))
             else (let what = object_label kind namespace name
                   in io_check (new_proposal ctx (''Patch '' @ what)) (\<lambda>p.
                      (let p = warn (kind_warning kind ''patch'') p;
                           old_text = masked_yaml w old; new_text = masked_yaml w new;
                           p = (if old_text = new_text
                                then warn (Some ''A credential-like value changes; it is masked here, so the diff looks the same.'') p
                                else p);
                           p = add_doc \<lparr>cd_label = what, cd_old = Some old_text, cd_new = new_text\<rparr> p
                       in io_return (Inr (Change p
                            (ActPatch a name patch_type value (meta_text ''resourceVersion'' live))))))))))))))))))"

section \<open>Checking a delete, a scale and a restart\<close>

definition check_delete :: "world \<Rightarrow> tool_context \<Rightarrow> json \<Rightarrow> (change_event, str + checked) io" where
  "check_delete w ctx args =
     io_check (change_target ctx args) (\<lambda>(info, namespace, name).
     io_check (if \<not> supports info ''delete'' then Inl (''`'' @ show_gvr (ar_gvr info) @ ''` can't be deleted.'') else Inr ()) (\<lambda>_.
     io_check (connected_client ctx) (\<lambda>_.
     (let a = api_for info namespace; kind = gk_kind (ar_gvk info)
      in io_try (get_object w a name) (\<lambda>live.
         io_check (refuse_helm_release info (typed_json info live)) (\<lambda>_.
         (let old = masked_yaml w (comparable (gvk_api_version (ar_gvk info)) kind (object_json live));
              what = object_label kind namespace name
          in io_check (new_proposal ctx (''Delete '' @ what)) (\<lambda>p.
             io_return (Inr (Change
               (add_doc \<lparr>cd_label = what, cd_old = Some old, cd_new = []\<rparr> (warn (kind_warning kind ''delete'') p))
               (ActDelete a name (meta_text ''uid'' live))))))))))))"

definition scale_text :: "int \<Rightarrow> str" where
  "scale_text n = ''spec:'' @ [CHR 0x0A] @ ''  replicas: '' @ show_nat (nat n) @ [CHR 0x0A]"

text \<open>The replicas a scale subresource reports: one without a number, never below zero.\<close>

definition scale_replicas :: "json \<Rightarrow> int" where
  "scale_replicas v = max 0 (unwrap_or (Option.bind (jpath [''spec'', ''replicas''] v) as_i64) 1)"

definition check_scale :: "world \<Rightarrow> tool_context \<Rightarrow> json \<Rightarrow> (change_event, str + checked) io" where
  "check_scale w ctx args =
     io_check (change_target ctx args) (\<lambda>(info, namespace, name).
     io_check (if ''scale'' \<notin> set (ar_subresources info)
               then Inl (''`'' @ show_gvr (ar_gvr info) @ ''` has no scale subresource, so it can't be scaled.'') else Inr ()) (\<lambda>_.
     io_check (case int_arg args ''replicas'' of
                 Some n \<Rightarrow> if 0 \<le> n \<and> n \<le> 10000 then Inr n else Inl ''`replicas` must be a number from 0 to 10000.''
               | None \<Rightarrow> Inl ''`replicas` must be a number from 0 to 10000.'') (\<lambda>replicas.
     io_check (connected_client ctx) (\<lambda>_.
     (let a = api_for info namespace
      in io_try (io_map_err error_display (client w (GetScale a name))) (\<lambda>scale.
         (let current = scale_replicas scale; what = object_label (gk_kind (ar_gvk info)) namespace name
          in if current = replicas
             then io_return (Inr (NothingToDo
                    (''Nothing would change: '' @ what @ '' already has '' @ show_nat (nat replicas) @ '' replicas.'')))
             else io_check (new_proposal ctx
                      (''Scale '' @ what @ '' from '' @ show_nat (nat current) @ '' to '' @ show_nat (nat replicas))) (\<lambda>p.
                  (let p = (if replicas = 0 then warn (Some ''Scaling to 0 stops every pod of this workload.'') p else p);
                       p = add_doc \<lparr>cd_label = what, cd_old = Some (scale_text current), cd_new = scale_text replicas\<rparr> p
                   in io_return (Inr (Change p
                        (ActScale a name (nat replicas) (meta_text ''resourceVersion'' scale)))))))))))))"

definition restarted_at_path :: "str list" where
  "restarted_at_path =
     [''spec'', ''template'', ''metadata'', ''annotations'', ''kubectl.kubernetes.io/restartedAt'']"

definition annotation_text :: "str \<Rightarrow> str" where
  "annotation_text value =
     ''spec:'' @ [CHR 0x0A] @ ''  template:'' @ [CHR 0x0A] @ ''    metadata:'' @ [CHR 0x0A] @ ''      annotations:'' @ [CHR 0x0A]
     @ ''        kubectl.kubernetes.io/restartedAt: '' @ value @ [CHR 0x0A]"

definition no_annotation_text :: str where
  "no_annotation_text =
     ''spec:'' @ [CHR 0x0A] @ ''  template:'' @ [CHR 0x0A] @ ''    metadata:'' @ [CHR 0x0A] @ ''      annotations: {}'' @ [CHR 0x0A]"

definition check_restart :: "world \<Rightarrow> tool_context \<Rightarrow> json \<Rightarrow> (change_event, str + checked) io" where
  "check_restart w ctx args =
     io_check (change_target ctx args) (\<lambda>(info, namespace, name).
     io_check (if gk_group (ar_gvk info) = ''apps'' \<and> gk_kind (ar_gvk info) \<in> {''Deployment'', ''StatefulSet'', ''DaemonSet''}
               then Inr () else Inl ''Only Deployments, StatefulSets and DaemonSets can be restarted.'') (\<lambda>_.
     io_check (connected_client ctx) (\<lambda>_.
     (let a = api_for info namespace; what = object_label (gk_kind (ar_gvk info)) namespace name
      in io_try (get_object w a name) (\<lambda>live.
         io_check (new_proposal ctx (''Restart '' @ what)) (\<lambda>p.
           (let p = add_doc \<lparr>cd_label = what,
                             cd_old = Some (case jstr_at restarted_at_path live of
                                Some value \<Rightarrow> annotation_text value | None \<Rightarrow> no_annotation_text),
                             cd_new = annotation_text ''<time of approval>''\<rparr> p;
                p = warn (Some ''Its pods are replaced one by one (a rolling restart); the workload may be briefly degraded.'') p
            in io_return (Inr (Change p (ActRestart a name (meta_text ''resourceVersion'' live)))))))))))"

section \<open>Acting\<close>

definition error_code :: "kube_error \<Rightarrow> nat option" where
  "error_code err = (case err of ApiError s \<Rightarrow> Some (sa_code s) | OtherError _ \<Rightarrow> None)"

definition create_absent :: "world \<Rightarrow> prepared \<Rightarrow> (change_event, str + unit) io" where
  "create_absent w d =
     (case en_object_error (wo_env w) (pr_object d) of
        Some err \<Rightarrow> io_return (Inl (''failed: the object can't be created: '' @ err))
      | None \<Rightarrow>
          io_bind (client w (CreateObject (doc_api d) \<lparr>po_manager = field_manager, po_dry_run = False\<rparr> (pr_object d)))
            (\<lambda>r. io_return (case r of
                Inr _ \<Rightarrow> Inr ()
              | Inl err \<Rightarrow>
                  if error_code err = Some 409
                  then Inl ''it was created by someone else after the user reviewed this, so nothing was applied. Look at it again and propose the change again.''
                  else Inl (''failed: '' @ error_display err))))"

definition changed_since_review :: "str \<Rightarrow> kube_error \<Rightarrow> str" where
  "changed_since_review name err =
     (if error_code err = Some 409
      then name @ '' changed after the user reviewed it, so nothing was changed. Look at it again and propose the change again.''
      else error_display err)"

text \<open>One document of an approved apply: whether it failed, and the line about it.\<close>

definition result_line :: "doc_result \<Rightarrow> bool \<times> str" where
  "result_line r =
     (case dr_outcome r of
        Applied _ \<Rightarrow> (False, ''applied '' @ dr_label r)
      | Conflicts _ \<Rightarrow> (True, dr_label r @ '': another tool manages fields of it; not forced'')
      | Failed message _ \<Rightarrow> (True, dr_label r @ '': failed: '' @ message))"

definition execute_doc :: "world \<Rightarrow> prepared \<times> bool \<Rightarrow> (change_event, (bool \<times> str) list) io" where
  "execute_doc w de =
     (let (d, existed) = de
      in if existed then
           io_bind (apply_all (wo_env w) (client w) [d] \<lparr>ao_dry_run = False, ao_force = False\<rparr>)
             (\<lambda>results. io_return (map result_line results))
         else
           io_bind (create_absent w d)
             (\<lambda>r. io_return (case r of
                  Inr _ \<Rightarrow> [(False, ''created '' @ prepared_label d)]
                | Inl message \<Rightarrow> [(True, prepared_label d @ '': '' @ message)])))"

definition merge_with_version :: "json \<Rightarrow> str option \<Rightarrow> json" where
  "merge_with_version v resource_version =
     (case resource_version of Some version \<Rightarrow> jinsert ''metadata'' (JObj [(''resourceVersion'', JStr version)]) v | None \<Rightarrow> v)"

definition restart_patch :: "str \<Rightarrow> json" where
  "restart_patch now =
     JObj [(''spec'', JObj [(''template'', JObj [(''metadata'', JObj [(''annotations'',
       JObj [(''kubectl.kubernetes.io/restartedAt'', JStr now)])])])])]"

definition execute :: "world \<Rightarrow> change_action \<Rightarrow> (change_event, str + str) io" where
  "execute w act =
     (case act of
        ActApply docs \<Rightarrow>
          io_bind (io_map (execute_doc w) docs)
            (\<lambda>lines. let text = join [CHR 0x0A] (map snd (concat lines))
                     in io_return (if list_ex fst (concat lines) then Inl text else Inr text))
      | ActPatch a name patch_type v version \<Rightarrow>
          io_check (build_patch w patch_type (with_precondition patch_type v version)) (\<lambda>built.
            io_try (io_map_err (\<lambda>e. ''The patch failed: '' @ error_display e) (client w (PatchObject a name write_params built)))
              (\<lambda>_. io_return (Inr (''Patched '' @ name @ ''.''))))
      | ActDelete a name uid \<Rightarrow>
          io_bind (client w (DeleteObject a name uid))
            (\<lambda>r. io_return (case r of
                Inr _ \<Rightarrow> Inr (''Deleted '' @ name @ ''.'')
              | Inl err \<Rightarrow>
                  if error_code err = Some 404 then Inr (name @ '' was already gone.'')
                  else if error_code err = Some 409
                  then Inl (name @ '' was replaced after the user reviewed it, so it was not deleted.'')
                  else Inl (error_display err)))
      | ActScale a name replicas version \<Rightarrow>
          io_try (io_map_err (changed_since_review name) (client w (PatchScale a name write_params
              (MergePatch (merge_with_version (JObj [(''spec'', JObj [(''replicas'', JNum (of_nat replicas))])]) version)))))
            (\<lambda>_. io_return (Inr (''Scaled '' @ name @ '' to '' @ show_nat replicas @ '' replicas.'')))
      | ActRestart a name version \<Rightarrow>
          io_try (io_map_err (changed_since_review name) (client w (PatchObject a name write_params
              (MergePatch (merge_with_version (restart_patch (wo_now w)) version)))))
            (\<lambda>_. io_return (Inr (''Restarting '' @ name @ '': its pods are replaced one by one.''))))"

section \<open>A change from start to end\<close>

definition change_tools :: "str list" where
  "change_tools = [''apply_manifest'', ''patch_resource'', ''delete_resource'', ''scale_resource'', ''restart_resource'']"

definition is_change_tool :: "str \<Rightarrow> bool" where
  "is_change_tool name \<longleftrightarrow> name \<in> set change_tools"

definition check_change :: "world \<Rightarrow> tool_context \<Rightarrow> str \<Rightarrow> json \<Rightarrow> (change_event, str + checked) io" where
  "check_change w ctx name args =
     (if name = ''apply_manifest'' then check_apply w ctx args
      else if name = ''patch_resource'' then check_patch w ctx args
      else if name = ''delete_resource'' then check_delete w ctx args
      else if name = ''scale_resource'' then check_scale w ctx args
      else if name = ''restart_resource'' then check_restart w ctx args
      else io_return (Inl (''Kubyl has no change tool named `'' @ name @ ''`.'')))"

text \<open>The timeouts: how far the check and the action got, when they took too long.\<close>

type_synonym limits = "nat option \<times> nat option"

definition make_change :: "world \<Rightarrow> limits \<Rightarrow> tool_context \<Rightarrow> str \<Rightarrow> json \<Rightarrow> (change_event, str + str) io" where
  "make_change w limits ctx name args =
     io_try (io_timeout (fst limits) (''Checking '' @ name @ '' took longer than '' @ show_nat step_timeout @ ''s.'')
               (check_change w ctx name args)) (\<lambda>checked.
       case checked of
         NothingToDo text \<Rightarrow> io_return (Inr text)
       | Change p act \<Rightarrow>
           io_bind (approve w p) (\<lambda>d.
             case d of
               Rejected \<Rightarrow> io_return (Inl (''The user did not approve this change in Kubyl, so nothing was changed (''
                 @ pl_title p @ ''). Don't repeat it; ask them what they would prefer.''))
             | Approved \<Rightarrow>
                 io_try (recheck w) (\<lambda>_.
                 io_check (connected_client ctx) (\<lambda>_.
                 io_timeout (snd limits)
                   (pl_title p @ '' took longer than '' @ show_nat step_timeout @ ''s; check the cluster for its state.'')
                   (execute w act)))))"

definition run_change :: "world \<Rightarrow> limits \<Rightarrow> tool_context \<Rightarrow> str \<Rightarrow> json \<Rightarrow> (change_event, tool_output) io" where
  "run_change w limits ctx name args =
     io_bind (make_change w limits ctx name args)
       (\<lambda>r. io_return (finish_output w ctx False
          (case r of Inr text \<Rightarrow> \<lparr>to_text = text, to_error = False\<rparr> | Inl message \<Rightarrow> \<lparr>to_text = message, to_error = True\<rparr>)))"

end
