(* ===== verification/ChangeSafety.thy ===== *)
theory ChangeSafety
  imports ChangeTools
begin

text \<open>
  What the change tools keep to: before the user answered they only look and try out; what they do after
  an approval is what the proposal showed, on the version the user reviewed, never forced, and never with
  the content of a Secret.
\<close>

section \<open>Requests and proposals\<close>

definition change_label :: "api \<times> str \<Rightarrow> str" where
  "change_label t = object_label (as_kind (fst (fst t))) (snd (fst t)) (snd t)"

text \<open>A request that sends the content of a core Secret, and one that takes fields from other managers.\<close>

definition sends_secret :: "api_request \<Rightarrow> bool" where
  "sends_secret q \<longleftrightarrow>
     (case q of
        PatchObject a _ _ _ \<Rightarrow> as_group (fst a) = [] \<and> as_kind (fst a) = ''Secret''
      | CreateObject a _ _ \<Rightarrow> as_group (fst a) = [] \<and> as_kind (fst a) = ''Secret''
      | ReplaceObject a _ _ _ \<Rightarrow> as_group (fst a) = [] \<and> as_kind (fst a) = ''Secret''
      | _ \<Rightarrow> False)"

definition forces :: "api_request \<Rightarrow> bool" where
  "forces q \<longleftrightarrow>
     (case q of PatchObject _ _ params _ \<Rightarrow> pp_force params | PatchScale _ _ params _ \<Rightarrow> pp_force params | _ \<Rightarrow> False)"

definition looks :: "change_event \<Rightarrow> bool" where
  "looks e \<longleftrightarrow> (case e of Api q _ \<Rightarrow> \<not> writes q \<and> \<not> sends_secret q \<and> \<not> forces q | _ \<Rightarrow> False)"

text \<open>The patch makes the server refuse it when the object is no longer at the version.  A merge patch that is
  no object, which the server refuses anyway, carries none.\<close>

definition carries :: "str option \<Rightarrow> patch \<Rightarrow> bool" where
  "carries version p \<longleftrightarrow>
     (case version of
        None \<Rightarrow> True
      | Some t \<Rightarrow>
          (case p of
             MergePatch (JObj kvs) \<Rightarrow> meta_text ''resourceVersion'' (JObj kvs) = Some t
           | StrategicPatch (JObj kvs) \<Rightarrow> meta_text ''resourceVersion'' (JObj kvs) = Some t
           | JsonPatch (JArr ops) \<Rightarrow> ops \<noteq> [] \<and> hd ops = version_test t
           | _ \<Rightarrow> True))"

definition read :: "change_event list \<Rightarrow> api_request \<Rightarrow> (json \<Rightarrow> bool) \<Rightarrow> bool" where
  "read es q P \<longleftrightarrow> (\<exists>v. Api q (Inr v) \<in> set es \<and> P v)"

definition missing :: "change_event list \<Rightarrow> api_request \<Rightarrow> bool" where
  "missing es q \<longleftrightarrow> (\<exists>r. Api q r \<in> set es \<and> absent r)"

text \<open>The request is bound to what the events show the review read.\<close>

definition reviewed :: "change_event list \<Rightarrow> api_request \<Rightarrow> bool" where
  "reviewed es q \<longleftrightarrow>
     (case q of
        DeleteObject a n uid \<Rightarrow> read es (GetObject a n) (\<lambda>v. uid = meta_text ''uid'' v)
      | PatchScale a n _ p \<Rightarrow> read es (GetScale a n) (\<lambda>v. carries (meta_text ''resourceVersion'' v) p)
      | PatchObject a n _ (ApplyPatch _) \<Rightarrow> read es (GetObject a n) (\<lambda>_. True)
      | PatchObject a n _ p \<Rightarrow> read es (GetObject a n) (\<lambda>v. carries (meta_text ''resourceVersion'' v) p)
      | ReplaceObject a n _ _ \<Rightarrow> read es (GetObject a n) (\<lambda>_. True)
      | CreateObject a _ v \<Rightarrow>
          read es (GetObject a (unwrap_or (meta_text ''name'' v) [])) (\<lambda>_. True) \<or>
          missing es (GetObject a (unwrap_or (meta_text ''name'' v) []))
      | _ \<Rightarrow> True)"

definition shown :: "proposal \<Rightarrow> api_request \<Rightarrow> bool" where
  "shown p q \<longleftrightarrow> change_label (request_target q) \<in> cd_label ` set (pl_docs p)"

text \<open>What may follow the checks \<open>es\<close>: the question, and after an approval the last check and the change.\<close>

definition carried_out :: "change_event list \<Rightarrow> proposal \<Rightarrow> change_event \<Rightarrow> bool" where
  "carried_out es p e \<longleftrightarrow>
     (case e of Api q _ \<Rightarrow> shown p q \<and> reviewed es q \<and> \<not> sends_secret q \<and> \<not> forces q | _ \<Rightarrow> False)"

fun disciplined :: "(proposal \<Rightarrow> change_event \<Rightarrow> bool) \<Rightarrow> change_event list \<Rightarrow> bool" where
  "disciplined may [] = True"
| "disciplined may (Asked p Approved # Rechecked (Inr u) # es) = list_all (may p) es"
| "disciplined may [Asked p Approved, Rechecked (Inl err)] = True"
| "disciplined may [Asked p Rejected] = True"
| "disciplined may _ = False"

section \<open>Actions that fit their proposal\<close>

fun doc_fits :: "change_event list \<Rightarrow> prepared \<times> bool \<Rightarrow> bool" where
  "doc_fits es (d, existed) \<longleftrightarrow>
     named d \<and> \<not> (as_group (pr_resource d) = [] \<and> as_kind (pr_resource d) = ''Secret'') \<and>
     (if existed then read es (GetObject (doc_api d) (pr_name d)) (\<lambda>_. True)
      else missing es (GetObject (doc_api d) (pr_name d)))"

definition action_targets :: "change_action \<Rightarrow> (api \<times> str) list" where
  "action_targets act =
     (case act of
        ActApply docs \<Rightarrow> map (\<lambda>de. (doc_api (fst de), pr_name (fst de))) docs
      | ActPatch a n _ _ _ \<Rightarrow> [(a, n)] | ActDelete a n _ \<Rightarrow> [(a, n)] | ActScale a n _ _ \<Rightarrow> [(a, n)]
      | ActRestart a n _ \<Rightarrow> [(a, n)])"

definition action_fits :: "change_event list \<Rightarrow> change_action \<Rightarrow> bool" where
  "action_fits es act \<longleftrightarrow>
     (case act of
        ActApply docs \<Rightarrow> list_all (doc_fits es) docs
      | ActPatch a n t v version \<Rightarrow>
          read es (GetObject a n) (\<lambda>live. version = meta_text ''resourceVersion'' live) \<and>
          \<not> (as_group (fst a) = [] \<and> as_kind (fst a) = ''Secret'') \<and> reject_unversionable v = Inr ()
      | ActDelete a n uid \<Rightarrow> read es (GetObject a n) (\<lambda>live. uid = meta_text ''uid'' live)
      | ActScale a n _ version \<Rightarrow> read es (GetScale a n) (\<lambda>live. version = meta_text ''resourceVersion'' live)
      | ActRestart a n version \<Rightarrow>
          read es (GetObject a n) (\<lambda>live. version = meta_text ''resourceVersion'' live) \<and>
          \<not> (as_group (fst a) = [] \<and> as_kind (fst a) = ''Secret''))"

definition fits :: "change_event list \<Rightarrow> str + checked \<Rightarrow> bool" where
  "fits es r \<longleftrightarrow>
     (case r of
        Inr (Change p act) \<Rightarrow>
          map cd_label (pl_docs p) = map change_label (action_targets act) \<and> action_fits es act
      | _ \<Rightarrow> True)"

lemma read_append [simp]: "read es q P \<Longrightarrow> read (es @ fs) q P" "read fs q P \<Longrightarrow> read (es @ fs) q P"
  by (auto simp: read_def)

lemma missing_append [simp]: "missing es q \<Longrightarrow> missing (es @ fs) q" "missing fs q \<Longrightarrow> missing (es @ fs) q"
  by (auto simp: missing_def)

lemma read_now [simp]: "read [Api q (Inr v)] q P \<longleftrightarrow> P v"
  by (simp add: read_def)

lemma read_first: "P v \<Longrightarrow> read (Api q (Inr v) # es) q P"
  by (auto simp: read_def)

lemma doc_fits_append: "doc_fits es de \<Longrightarrow> doc_fits (es @ fs) de"
  by (cases de) (simp split: if_splits)

section \<open>The checks\<close>

text \<open>\<open>checks es m\<close>: after the events \<open>es\<close>, \<open>m\<close> only looks, and the change it answers fits what was read.\<close>

definition checks :: "change_event list \<Rightarrow> (change_event, str + checked) io \<Rightarrow> bool" where
  "checks es = does (\<lambda>r fs. list_all looks fs \<and> fits (es @ fs) r)"

named_theorems check_rules

lemma checks_return [check_rules]: "fits es r \<Longrightarrow> checks es (io_return r)"
  by (simp add: checks_def does_return)

lemma checks_check [check_rules]: "(\<And>x. r = Inr x \<Longrightarrow> checks es (f x)) \<Longrightarrow> checks es (io_check r f)"
  unfolding checks_def by (rule does_check) (simp_all add: fits_def)

lemma checks_after:
  assumes "does (\<lambda>r fs. list_all looks fs \<and> R r fs) m" "\<And>x fs. R x fs \<Longrightarrow> checks (es @ fs) (f x)"
  shows "checks es (io_bind m f)"
  unfolding checks_def
proof (rule does_bind [OF assms(1)])
  fix x fs
  assume "list_all looks fs \<and> R x fs"
  with assms(2) show "does (\<lambda>y gs. list_all looks (fs @ gs) \<and> fits (es @ fs @ gs) y) (f x)"
    unfolding checks_def by (auto elim: does_weaken)
qed

lemma checks_ask [check_rules]:
  assumes "\<And>a. looks (Api q a)" "\<And>v. checks (es @ [Api q (Inr v)]) (f v)"
  shows "checks es (io_try (io_map_err g (client w q)) f)"
  unfolding io_try_def
proof (rule checks_after)
  show "does (\<lambda>r fs. list_all looks fs \<and> (\<exists>a. fs = [Api q a] \<and> r = (case a of Inl err \<Rightarrow> Inl (g err) | Inr v \<Rightarrow> Inr v)))
     (io_map_err g (client w q))"
    unfolding client_def by (rule does_map_err, rule does_ask) (auto simp: assms(1))
next
  fix r fs
  assume "\<exists>a. fs = [Api q a] \<and> r = (case a of Inl err \<Rightarrow> Inl (g err) | Inr v \<Rightarrow> Inr v)"
  then obtain a where "fs = [Api q a]" "r = (case a of Inl err \<Rightarrow> Inl (g err) | Inr v \<Rightarrow> Inr v)" by blast
  with assms(2) show "checks (es @ fs) (case r of Inl err \<Rightarrow> io_return (Inl err) | Inr x \<Rightarrow> f x)"
    by (cases a) (simp_all add: checks_return fits_def)
qed

text \<open>The target of a tool is an object of the kind and namespace asked for.\<close>

lemma target_labelled:
  assumes "change_target ctx args = Inr (info, namespace, name)"
  shows "change_label (api_for info namespace, name) = object_label (gk_kind (ar_gvk info)) namespace name"
  using assms
  by (auto simp: change_target_def and_then_eq_Inr change_label_def api_for_def api_resource_of_def split: if_splits)

lemma target_api: "fst (api_for info namespace) = api_resource_of info"
  by (simp add: api_for_def)

lemma looks_get [simp]: "looks (Api (GetObject a n) r)" "looks (Api (GetScale a n) r)"
  by (simp_all add: looks_def writes_def sends_secret_def forces_def)

lemmas check_simps = fits_def action_fits_def action_targets_def target_labelled warn_def add_doc_def
  new_proposal_def and_then_eq_Inr

lemma pl_docs_warn [simp]: "pl_docs (warn t p) = pl_docs p"
  by (simp add: warn_def split: option.split)

lemma pl_docs_add [simp]: "pl_docs (add_doc d p) = pl_docs p @ [d]"
  by (simp add: add_doc_def)

lemma new_proposal_docs: "new_proposal ctx title = Inr p \<Longrightarrow> pl_docs p = []"
  by (auto simp: new_proposal_def and_then_eq_Inr)

lemma check_delete_checks: "checks [] (check_delete w ctx args)"
  unfolding check_delete_def Let_def
  by (intro check_rules)
    (auto simp: fits_def action_fits_def action_targets_def target_labelled new_proposal_docs get_object_def
      intro!: check_rules)

lemma check_scale_checks: "checks [] (check_scale w ctx args)"
  unfolding check_scale_def Let_def
  by (intro check_rules)
    (auto simp: fits_def action_fits_def action_targets_def target_labelled new_proposal_docs
      intro!: check_rules split: option.splits if_splits)

text \<open>Workloads that can be restarted are no Secrets.\<close>

lemma check_restart_checks: "checks [] (check_restart w ctx args)"
  unfolding check_restart_def Let_def
  by (intro check_rules)
    (auto simp: fits_def action_fits_def action_targets_def target_labelled new_proposal_docs get_object_def
      target_api api_resource_of_def intro!: check_rules split: if_splits)

lemma check_patch_checks: "checks [] (check_patch w ctx args)"
proof -
  have dry: "looks (Api (PatchObject (api_for info namespace) name (write_params\<lparr>pp_dry_run := True\<rparr>) built) r)"
    if "refuse_secret info what = Inr u" for info namespace name built r what and u :: unit
    using that
    by (auto simp: looks_def writes_def sends_secret_def forces_def write_params_def refuse_secret_def core_secret_def
        target_api api_resource_of_def split: if_splits)
  show ?thesis
    unfolding check_patch_def Let_def
    by (intro check_rules)
      (auto simp: fits_def action_fits_def action_targets_def target_labelled new_proposal_docs get_object_def
        target_api api_resource_of_def refuse_secret_def core_secret_def
        intro!: check_rules dry read_first split: if_splits)
qed

section \<open>Checking a manifest\<close>

text \<open>A document that may be applied: discovery serves it, and it is no Secret.\<close>

definition doc_ok :: "prepared \<Rightarrow> bool" where
  "doc_ok d \<longleftrightarrow>
     named d \<and> as_kind (pr_resource d) = gk_kind (pr_gvk d) \<and>
     \<not> (as_group (pr_resource d) = [] \<and> as_kind (pr_resource d) = ''Secret'')"

lemma accepted_doc: "refuse_doc d = Inr u \<Longrightarrow> \<not> core_secret (pr_gvk d)"
  by (simp add: refuse_doc_def split: if_splits)

lemma docs_ok:
  assumes "prepare en parsed disc ns secrets = Inr docs" "collect_results (map refuse_doc docs) = Inr us"
  shows "list_all doc_ok docs"
proof -
  from assms(2) have us: "map refuse_doc docs = map Inr us" by (simp add: collect_results_Inr)
  have "\<exists>u. refuse_doc d = Inr u" if "d \<in> set docs" for d
  proof -
    from that have "refuse_doc d \<in> set (map refuse_doc docs)" by simp
    with us show ?thesis by auto
  qed
  then have "\<not> core_secret (pr_gvk d)" if "d \<in> set docs" for d
    using that by (blast dest: accepted_doc)
  moreover have "doc_ok d" if "serves disc d" "\<not> core_secret (pr_gvk d)" for d
    using that by (auto simp: serves_def doc_ok_def named_def core_secret_def api_resource_of_def)
  ultimately show ?thesis
    using prepare_serves [OF assms(1)] by (simp add: list_all_iff)
qed

definition so_far :: "change_event list \<Rightarrow> proposal \<times> (prepared \<times> bool) list \<Rightarrow> bool" where
  "so_far es acc \<longleftrightarrow>
     list_all looks es \<and> map cd_label (pl_docs (fst acc)) = map change_label (action_targets (ActApply (snd acc))) \<and>
     list_all (doc_fits es) (snd acc)"

lemma does_get_opt:
  "does (\<lambda>r fs. list_all looks fs \<and>
      (case r of Inl _ \<Rightarrow> True | Inr None \<Rightarrow> missing fs (GetObject a n) | Inr (Some v) \<Rightarrow> read fs (GetObject a n) (\<lambda>_. True)))
     (io_map_err error_display (get_opt (client w) a n))"
proof -
  let ?R = "\<lambda>r fs. fs = [Api (GetObject a n) r]"
  have ask: "does ?R (client w (GetObject a n))"
    unfolding client_def by (rule does_ask) simp
  show ?thesis
    unfolding get_opt_def
    by (rule does_map_err, rule does_bind [OF ask], rule does_return)
      (auto simp: missing_def read_def split: sum.splits)
qed

lemma so_far_append: "so_far es acc \<Longrightarrow> list_all looks fs \<Longrightarrow> so_far (es @ fs) acc"
  by (auto simp: so_far_def list_all_iff dest: doc_fits_append)

lemma so_far_step:
  assumes "so_far (es @ fs) (p, changed)" "doc_ok d" "doc_fits (es @ fs) (d, existed)"
    "pl_docs p' = pl_docs p @ [\<lparr>cd_label = object_label (gk_kind (pr_gvk d)) (pr_namespace d) (pr_name d),
       cd_old = old, cd_new = new\<rparr>]"
  shows "so_far (es @ fs) (p', changed @ [(d, existed)])"
proof -
  have "change_label (doc_api d, pr_name d) = object_label (gk_kind (pr_gvk d)) (pr_namespace d) (pr_name d)"
    using assms(2) by (simp add: change_label_def doc_api_def doc_ok_def)
  with assms(1,3,4) show ?thesis by (simp add: so_far_def action_targets_def)
qed

lemma check_doc_checks:
  assumes "so_far es acc" "doc_ok d"
  shows "does (\<lambda>r fs. case r of Inl err \<Rightarrow> list_all looks (es @ fs) | Inr acc \<Rightarrow> so_far (es @ fs) acc)
     (check_doc w acc (d, result))"
proof -
  obtain p changed where acc: "acc = (p, changed)" by fastforce
  have looks: "list_all looks es" using assms(1) by (simp add: so_far_def)
  show ?thesis
    unfolding check_doc_def acc Let_def prod.case
  proof (rule does_check, goal_cases)
    case 1
    show ?case using looks by simp
  next
    case (2 applied)
    let ?get = "GetObject (doc_api d) (pr_name d)"
    let ?read = "\<lambda>(live :: json option) fs. case live of None \<Rightarrow> missing fs ?get | Some v \<Rightarrow> read fs ?get (\<lambda>_. True)"
    have get: "does (\<lambda>r fs. case r of Inl err \<Rightarrow> list_all looks (es @ fs)
        | Inr live \<Rightarrow> so_far (es @ fs) (p, changed) \<and> ?read live fs)
      (io_map_err error_display (get_opt (client w) (doc_api d) (pr_name d)))"
      by (rule does_weaken [OF does_get_opt])
        (use looks assms(1) in \<open>auto simp: acc so_far_append split: sum.splits\<close>)
    have fits: "doc_fits (es @ fs) (d, map_option f live \<noteq> None)" if "?read live fs" for live fs and f :: "json \<Rightarrow> json"
      using that assms(2) by (auto simp: doc_ok_def split: option.splits)
    show ?case
    proof (rule does_try [where R = "\<lambda>live fs. so_far (es @ fs) (p, changed) \<and> ?read live fs"], goal_cases)
      case 1
      show ?case by (rule does_weaken [OF get]) (simp split: sum.splits)
    next
      case (2 live fs)
      then have far: "so_far (es @ fs) (p, changed)" and live: "?read live fs" by simp_all
      from far have seen: "list_all looks (es @ fs)" by (simp add: so_far_def)
      show ?case
        by (intro does_if does_return, simp_all only: append_Nil2 sum.case seen far,
            rule so_far_step [OF far assms(2) fits [OF live]],
            unfold pl_docs_add pl_docs_warn if_distrib [of pl_docs] if_cancel, rule refl)
    qed
  qed
qed

lemma dry_run_looks:
  assumes "list_all doc_ok docs"
  shows "runs looks (\<lambda>_. True) (apply_all en (client w) docs \<lparr>ao_dry_run = True, ao_force = False\<rparr>)"
proof (rule apply_all_runs)
  show "list_all named docs" using assms by (simp add: list_all_iff doc_ok_def)
next
  fix d q
  assume "d \<in> set docs" "about_doc d q" "obeys \<lparr>ao_dry_run = True, ao_force = False\<rparr> q"
  moreover from this(1) assms have "doc_ok d" by (simp add: list_all_iff)
  ultimately have "looks (Api q r)" for r
    by (cases q)
      (auto simp: looks_def about_doc_def obeys_def writes_def sends_secret_def forces_def doc_ok_def doc_api_def
        request_target_def split: patch.splits)
  then show "runs looks (\<lambda>_. True) (client w q)"
    unfolding client_def by (intro runs_ask) simp_all
qed

lemma checks_result: "does (\<lambda>r fs. case r of Inl err \<Rightarrow> list_all looks (es @ fs) | Inr acc \<Rightarrow> so_far (es @ fs) acc)
    (io_fold (check_doc w) acc (zip docs dry))"
  if "so_far es acc" "list_all doc_ok docs"
proof (rule does_fold [where I = "\<lambda>acc es. so_far es acc"
      and Q = "\<lambda>r fs. case r of Inl err \<Rightarrow> list_all looks fs | Inr acc \<Rightarrow> so_far fs acc"])
  fix acc x es
  assume far: "so_far es acc" and x: "x \<in> set (zip docs dry)"
  obtain d result where dr: "x = (d, result)" by fastforce
  with x that(2) have "doc_ok d" by (auto simp: list_all_iff dest: set_zip_leftD)
  from check_doc_checks [OF far this, of w result]
  show "does (\<lambda>r fs. case r of Inl err \<Rightarrow> case Inl err of Inl err \<Rightarrow> list_all looks (es @ fs) | Inr acc \<Rightarrow> so_far (es @ fs) acc
      | Inr acc \<Rightarrow> so_far (es @ fs) acc) (check_doc w acc x)"
    unfolding dr by (rule does_weaken) (auto split: sum.splits)
qed (use that in simp_all)

lemma checks_fold:
  assumes "list_all looks es" "list_all doc_ok docs" "pl_docs p = []"
    "\<And>p changed fs. so_far (es @ fs) (p, changed) \<Longrightarrow> checks (es @ fs) (f (p, changed))"
  shows "checks es (io_try (io_fold (check_doc w) (p, []) (zip docs dry)) f)"
  unfolding io_try_def
proof (rule checks_after)
  have "so_far es (p, [])" using assms(1,3) by (simp add: so_far_def action_targets_def)
  from checks_result [OF this assms(2), of w dry]
  show "does (\<lambda>r fs. list_all looks fs \<and> (case r of Inl _ \<Rightarrow> True | Inr acc \<Rightarrow> so_far (es @ fs) acc))
     (io_fold (check_doc w) (p, []) (zip docs dry))"
    by (rule does_weaken) (auto simp: so_far_def split: sum.splits)
next
  fix r :: "str + proposal \<times> (prepared \<times> bool) list" and fs
  assume "case r of Inl _ \<Rightarrow> True | Inr acc \<Rightarrow> so_far (es @ fs) acc"
  then show "checks (es @ fs) (case r of Inl err \<Rightarrow> io_return (Inl err) | Inr x \<Rightarrow> f x)"
    using assms(4) by (auto intro!: checks_return simp: fits_def split: sum.splits)
qed

lemma checks_dry_run:
  assumes "list_all doc_ok docs" "\<And>dry fs. list_all looks fs \<Longrightarrow> checks (es @ fs) (f dry)"
  shows "checks es (io_bind (apply_all en (client w) docs \<lparr>ao_dry_run = True, ao_force = False\<rparr>) f)"
  by (rule checks_after [where R = "\<lambda>_ fs. list_all looks fs"])
    (use dry_run_looks [OF assms(1)] assms(2) in \<open>auto simp: runs_does\<close>)

lemma check_apply_checks: "checks [] (check_apply w ctx args)"
proof -
  have concluded: "checks es (case (p, changed) of (p, changed) \<Rightarrow> io_return (Inr
       (if changed = [] then NothingToDo what else Change (p\<lparr>pl_warnings := dedup (pl_warnings p)\<rparr>) (ActApply changed))))"
    if "so_far es (p, changed)" for es p changed what
    using that by (auto intro!: checks_return simp: fits_def so_far_def action_fits_def)
  show ?thesis
    unfolding check_apply_def
    by (intro check_rules checks_dry_run checks_fold concluded)
      (auto simp: new_proposal_docs split: sum.splits dest: docs_ok)
qed

section \<open>Acting\<close>

lemma shown_target:
  assumes "map cd_label (pl_docs p) = map change_label (action_targets act)" "request_target q \<in> set (action_targets act)"
  shows "shown p q"
proof -
  from assms(1) have "cd_label ` set (pl_docs p) = change_label ` set (action_targets act)"
    by (metis list.set_map)
  with assms(2) show ?thesis by (auto simp: shown_def)
qed

lemma versioned_object:
  assumes "reject_unversionable (JObj kvs) = Inr ()"
  shows "\<exists>kvs'. with_precondition t (JObj kvs) (Some version) = JObj kvs' \<and>
      meta_text ''resourceVersion'' (JObj kvs') = Some version"
proof -
  let ?v = "if jget (JObj kvs) ''metadata'' = None then jinsert ''metadata'' (JObj []) (JObj kvs) else JObj kvs"
  obtain ms where ms: "jget ?v ''metadata'' = Some (JObj ms)"
    using assms by (auto simp: reject_unversionable_def is_object_def update_conv' split: if_splits option.splits json.splits)
  obtain ks where ks: "?v = JObj ks" by (cases "map_of kvs ''metadata''") auto
  have "meta_text ''resourceVersion'' (jadjust ''metadata'' (jinsert ''resourceVersion'' (JStr version)) ?v) = Some version"
    using ms by (simp add: meta_text_eq update_conv')
  moreover have "\<exists>kvs'. jadjust ''metadata'' f (JObj ks) = JObj kvs'" for f by simp
  ultimately show ?thesis
    unfolding with_precondition_def option.case json.case Let_def ks by metis
qed

lemma precondition_carried:
  assumes "reject_unversionable v = Inr ()" "build_patch w t (with_precondition t v version) = Inr built"
  shows "carries version built"
proof (cases version)
  case None
  then show ?thesis by (simp add: carries_def)
next
  case (Some ver)
  show ?thesis
  proof (cases v)
    case (JObj kvs)
    with assms(1) versioned_object [of kvs t ver] assms(2) Some show ?thesis
      by (auto simp: build_patch_def carries_def split: if_splits option.splits)
  next
    case (JArr ops)
    with assms(2) Some show ?thesis
      by (auto simp: build_patch_def carries_def with_precondition_def split: if_splits option.splits)
  qed (use assms(2) Some in \<open>auto simp: build_patch_def carries_def with_precondition_def split: if_splits option.splits\<close>)
qed

lemma merge_carried: "carries version (MergePatch (merge_with_version (JObj kvs) version))"
  by (auto simp: carries_def merge_with_version_def meta_text_eq update_conv' split: option.split)

lemma runs_client: "(\<And>r. P (Api q r)) \<Longrightarrow> runs P (\<lambda>_. True) (client w q)"
  unfolding client_def by (rule runs_ask) simp_all

lemma runs_client_try:
  "(\<And>r. P (Api q r)) \<Longrightarrow> (\<And>v. runs P (\<lambda>_. True) (f v)) \<Longrightarrow>
   runs P (\<lambda>_. True) (io_try (io_map_err g (client w q)) f)"
  by (rule runs_try [where R = "\<lambda>_. True"], rule runs_map_err)
    (auto intro: runs_weaken [OF runs_client] split: sum.split)

text \<open>Every request of an approved action is one the proposal showed and the review read.\<close>

lemma execute_doc_runs:
  assumes "doc_fits es (d, existed)" "change_label (doc_api d, pr_name d) \<in> cd_label ` set (pl_docs p)"
  shows "runs (carried_out es p) (\<lambda>_. True) (execute_doc w (d, existed))"
proof -
  let ?plain = "\<lparr>ao_dry_run = False, ao_force = False\<rparr>"
  have n: "named d" and label: "\<And>q. about_doc d q \<Longrightarrow> shown p q"
    using assms by (auto simp: about_doc_def shown_def)
  have read: "read es (GetObject (doc_api d) (pr_name d)) (\<lambda>_. True) \<or> missing es (GetObject (doc_api d) (pr_name d))"
    using assms(1) by (simp split: if_splits)
  show ?thesis
  proof (cases existed)
    case True
    have "carried_out es p (Api q r)" if "about_doc d q" "obeys ?plain q" for q r
    proof (cases q)
      case (PatchObject a m params body)
      with that assms(1) True label show ?thesis
        by (cases body) (auto simp: carried_out_def about_doc_def reviewed_def request_target_def sends_secret_def forces_def
            obeys_def doc_api_def)
    qed (use that assms(1) True label in \<open>auto simp: carried_out_def about_doc_def reviewed_def request_target_def
         sends_secret_def forces_def obeys_def doc_api_def\<close>)
    then have "runs (carried_out es p) (\<lambda>_. True) (apply_all en (client w) [d] ?plain)" for en
      by (intro apply_all_runs runs_client) (use n in auto)
    with True show ?thesis
      unfolding execute_doc_def Let_def
      by (auto intro!: runs_bind [where R = "\<lambda>_. True"] runs_return)
  next
    case False
    have "carried_out es p (Api (CreateObject (doc_api d) params (pr_object d)) r)" for params r
      using assms label read False
      by (auto simp: carried_out_def reviewed_def sends_secret_def forces_def shown_def request_target_def unwrap_or_def
          named_def doc_api_def)
    then have "runs (carried_out es p) (\<lambda>_. True) (create_absent w d)"
      unfolding create_absent_def
      by (auto intro!: runs_bind [where R = "\<lambda>_. True"] runs_return runs_client split: option.split)
    with False show ?thesis
      unfolding execute_doc_def Let_def
      by (auto intro!: runs_bind [where R = "\<lambda>_. True"] runs_return)
  qed
qed

lemma execute_runs:
  assumes "action_fits es act" "map cd_label (pl_docs p) = map change_label (action_targets act)"
  shows "runs (carried_out es p) (\<lambda>_. True) (execute w act)"
proof -
  note shown = shown_target [OF assms(2)]
  show ?thesis
  proof (cases act)
    case (ActApply docs)
    have "runs (carried_out es p) (\<lambda>_. True) (execute_doc w x)" if "x \<in> set docs" for x
    proof (cases x)
      case (Pair d existed)
      with that ActApply assms(1) have "doc_fits es (d, existed)" by (auto simp: action_fits_def list_all_iff)
      moreover have "shown p (GetObject (doc_api d) (pr_name d))"
        by (rule shown) (use that ActApply Pair in \<open>force simp: action_targets_def request_target_def\<close>)
      ultimately show ?thesis
        using execute_doc_runs [of es d existed p w] Pair by (simp add: shown_def request_target_def)
    qed
    from runs_map [of docs _ "\<lambda>_ _. True", OF this] have "runs (carried_out es p) (\<lambda>_. True) (io_map (execute_doc w) docs)"
      by (rule runs_weaken) simp_all
    then show ?thesis
      unfolding execute_def ActApply change_action.case Let_def
      by (rule runs_bind) (simp add: runs_return)
  next
    case (ActPatch a n t v version)
    have "carried_out es p (Api (PatchObject a n write_params built) r)"
      if "build_patch w t (with_precondition t v version) = Inr built" for built r
      using assms(1) precondition_carried [OF _ that] shown [of "PatchObject a n write_params built"] ActPatch that
      by (auto simp: carried_out_def reviewed_def sends_secret_def forces_def write_params_def action_fits_def read_def
          action_targets_def request_target_def build_patch_def split: patch.split if_splits option.splits)
    then show ?thesis
      unfolding execute_def ActPatch change_action.case
      by (intro runs_check runs_client_try runs_return) simp_all
  next
    case (ActDelete a n uid)
    have "carried_out es p (Api (DeleteObject a n uid) r)" for r
      using assms(1) shown [of "DeleteObject a n uid"] ActDelete
      by (auto simp: carried_out_def reviewed_def sends_secret_def forces_def action_fits_def
          action_targets_def request_target_def)
    then show ?thesis
      unfolding execute_def ActDelete change_action.case
      by (intro runs_bind [OF runs_client] runs_return) simp_all
  next
    case (ActScale a n k version)
    have "carried_out es p (Api (PatchScale a n write_params (MergePatch (merge_with_version (JObj kvs) version))) r)" for kvs r
      using assms(1) shown [of "PatchScale a n write_params (MergePatch (merge_with_version (JObj kvs) version))"] ActScale
        merge_carried [of version kvs]
      by (auto simp: carried_out_def reviewed_def sends_secret_def forces_def action_fits_def read_def write_params_def
          action_targets_def request_target_def)
    then show ?thesis
      unfolding execute_def ActScale change_action.case
      by (intro runs_client_try runs_return) simp_all
  next
    case (ActRestart a n version)
    have "carried_out es p (Api (PatchObject a n write_params (MergePatch (merge_with_version (JObj kvs) version))) r)" for kvs r
      using assms(1) shown [of "PatchObject a n write_params (MergePatch (merge_with_version (JObj kvs) version))"] ActRestart
        merge_carried [of version kvs]
      by (auto simp: carried_out_def reviewed_def sends_secret_def forces_def action_fits_def read_def write_params_def
          action_targets_def request_target_def)
    then show ?thesis
      unfolding execute_def ActRestart change_action.case restart_patch_def
      by (intro runs_client_try runs_return) simp_all
  qed
qed

section \<open>A change from start to end\<close>

lemma check_change_checks: "checks [] (check_change w ctx name args)"
  by (simp add: check_change_def check_apply_checks check_patch_checks check_delete_checks check_scale_checks
      check_restart_checks checks_return fits_def)

lemma disciplined_mono:
  "disciplined may es \<Longrightarrow> (\<And>p e. may p e \<Longrightarrow> may' p e) \<Longrightarrow> disciplined may' es"
  by (induction may es rule: disciplined.induct) (auto simp: list_all_iff)

text \<open>After the checks: the question, and what its answer allows.\<close>

lemma decided_runs:
  assumes "fits es (Inr (Change p act))"
  shows "does (\<lambda>r fs. disciplined (carried_out es) fs)
     (io_bind (approve w p) (\<lambda>d. case d of
          Rejected \<Rightarrow> io_return (Inl no)
        | Approved \<Rightarrow> io_try (recheck w) (\<lambda>_. io_check (connected_client ctx) (\<lambda>_. io_timeout limit late (execute w act)))))"
proof (rule does_bind [where R = "\<lambda>d fs. fs = [Asked p d]"])
  show "does (\<lambda>d fs. fs = [Asked p d]) (approve w p)"
    unfolding approve_def by (rule does_ask) simp
  fix d fs
  assume fs: "fs = [Asked p d]"
  have acts: "does (\<lambda>r gs. list_all (carried_out es p) gs) (io_timeout limit late (execute w act))"
    using runs_timeout [where limit = limit and late = late, OF execute_runs [of es act p w]] assms
    by (simp add: fits_def runs_does)
  show "does (\<lambda>r gs. disciplined (carried_out es) (fs @ gs))
     (case d of Rejected \<Rightarrow> io_return (Inl no)
      | Approved \<Rightarrow> io_try (recheck w) (\<lambda>_. io_check (connected_client ctx) (\<lambda>_. io_timeout limit late (execute w act))))"
  proof (cases d)
    case Rejected
    with fs show ?thesis by (simp add: does_return)
  next
    case Approved
    have asked: "does (\<lambda>r gs. gs = [Rechecked r]) (recheck w)"
      unfolding recheck_def by (rule does_ask) simp
    have "does (\<lambda>r gs. disciplined (carried_out es) (fs @ gs))
       (io_try (recheck w) (\<lambda>_. io_check (connected_client ctx) (\<lambda>_. io_timeout limit late (execute w act))))"
      by (rule does_try [where R = "\<lambda>_ gs. gs = [Rechecked (Inr ())]"], rule does_weaken [OF asked])
        (auto simp: fs Approved split: sum.splits intro!: does_check does_weaken [OF acts])
    with Approved show ?thesis by simp
  qed
qed

lemma change_steps:
  "does (\<lambda>r es. \<exists>looked rest. es = looked @ rest \<and> list_all looks looked \<and> disciplined (carried_out looked) rest)
     (make_change w limits ctx name args)"
proof -
  have checked: "does (\<lambda>r es. list_all looks es \<and> fits es r)
      (io_timeout (fst limits) late (check_change w ctx name args))" for late
    by (rule does_timeout) (use check_change_checks [of w ctx name args] in
        \<open>auto simp: checks_def fits_def list_all_iff dest: in_set_takeD\<close>)
  show ?thesis
    unfolding make_change_def
  proof (rule does_try [where R = "\<lambda>c es. list_all looks es \<and> fits es (Inr c)"], goal_cases)
    case 1
    show ?case
      by (rule does_weaken [OF checked]) (force split: sum.splits)
  next
    case (2 c es)
    show ?case
    proof (cases c)
      case (NothingToDo message)
      have "\<exists>looked rest. es @ [] = looked @ rest \<and> list_all looks looked \<and> disciplined (carried_out looked) rest"
        by (rule exI [where x = es], rule exI [where x = "[]"]) (use 2 in simp)
      then show ?thesis unfolding NothingToDo checked.case by (rule does_return)
    next
      case (Change p act)
      with 2 have "fits es (Inr (Change p act))" "list_all looks es" by simp_all
      then show ?thesis
        unfolding Change checked.case
        by (intro does_weaken [OF decided_runs]) auto
    qed
  qed
qed


lemma change_result:
  obtains r looked rest where "make_change w limits ctx name args past = (r, past @ looked @ rest)"
    "list_all looks looked" "disciplined (carried_out looked) rest"
  using does_apply [OF change_steps, of w limits ctx name args past] by blast

definition only_shown :: "proposal \<Rightarrow> change_event \<Rightarrow> bool" where
  "only_shown p e \<longleftrightarrow> (case e of Api q _ \<Rightarrow> shown p q | _ \<Rightarrow> False)"

definition on_reviewed :: "change_event list \<Rightarrow> proposal \<Rightarrow> change_event \<Rightarrow> bool" where
  "on_reviewed es p e \<longleftrightarrow> (case e of Api q _ \<Rightarrow> reviewed es q | _ \<Rightarrow> False)"

definition sends_no_secret :: "change_event \<Rightarrow> bool" where
  "sends_no_secret e \<longleftrightarrow> (case e of Api q _ \<Rightarrow> \<not> sends_secret q \<and> \<not> forces q | _ \<Rightarrow> True)"

text \<open>C1: a change tool changes nothing before the user has approved it: until the question its requests only
  read or dry-run, a rejection or a failed last check is the end, and after an approval every request is for
  an object the approved proposal lists.\<close>

theorem change_needs_approval:
  "case make_change w limits ctx name args past of (r, full) \<Rightarrow>
     \<exists>looked rest. full = past @ looked @ rest \<and> list_all looks looked \<and> disciplined only_shown rest"
proof (rule change_result [of w limits ctx name args past])
  fix r looked rest
  assume "make_change w limits ctx name args past = (r, past @ looked @ rest)"
    and looked: "list_all looks looked" and "disciplined (carried_out looked) rest"
  moreover from this(3) have "disciplined only_shown rest"
    by (rule disciplined_mono) (simp add: carried_out_def only_shown_def split: change_event.splits)
  ultimately show ?thesis by auto
qed

text \<open>The question is the first event that is one: what was read before it is what the user reviewed.\<close>

definition is_question :: "change_event \<Rightarrow> bool" where
  "is_question e \<longleftrightarrow> (case e of Asked _ _ \<Rightarrow> True | _ \<Rightarrow> False)"

lemma at_question:
  assumes "list_all looks looked" "disciplined may rest"
  shows "takeWhile (\<lambda>e. \<not> is_question e) (looked @ rest) = looked"
    and "dropWhile (\<lambda>e. \<not> is_question e) (looked @ rest) = rest"
proof -
  have "\<not> is_question e" if "e \<in> set looked" for e
    using assms(1) that by (auto simp: list_all_iff looks_def is_question_def split: change_event.splits)
  moreover have "rest = [] \<or> is_question (hd rest)"
    using assms(2) by (cases "(may, rest)" rule: disciplined.cases) (auto simp: is_question_def)
  ultimately show "takeWhile (\<lambda>e. \<not> is_question e) (looked @ rest) = looked"
    "dropWhile (\<lambda>e. \<not> is_question e) (looked @ rest) = rest"
    by (cases rest; simp)+
qed

text \<open>C2: what an approved change does is bound to what the review read.  Of the events it adds, those before the
  question only look; everything after the approval carries what they read: a delete the reviewed uid, a patch or
  a scale the reviewed resource version (a JSON patch tests it first); an apply goes to an object that was found
  before the question, and a create to one that was looked for.\<close>

theorem change_on_reviewed_version:
  "case make_change w limits ctx name args past of (r, full) \<Rightarrow>
     take (length past) full = past \<and>
     (let added = drop (length past) full;
          looked = takeWhile (\<lambda>e. \<not> is_question e) added
      in list_all looks looked \<and> disciplined (on_reviewed looked) (dropWhile (\<lambda>e. \<not> is_question e) added))"
proof (rule change_result [of w limits ctx name args past])
  fix r looked rest
  assume run: "make_change w limits ctx name args past = (r, past @ looked @ rest)"
    and looked: "list_all looks looked" and rest: "disciplined (carried_out looked) rest"
  have "disciplined (on_reviewed looked) rest"
    using rest by (rule disciplined_mono) (simp add: carried_out_def on_reviewed_def split: change_event.splits)
  with looked show ?thesis
    unfolding run by (simp add: Let_def at_question [OF looked rest])
qed

text \<open>C3: no change tool sends the content of a core Secret to the cluster, not even as a dry run, and none takes
  fields over from other managers by force.\<close>

theorem change_sends_no_secret:
  "case make_change w limits ctx name args past of (r, full) \<Rightarrow>
     \<exists>added. full = past @ added \<and> list_all sends_no_secret added"
proof -
  have "list_all sends_no_secret es" if "list_all looks es" for es
    using that by (auto simp: looks_def sends_no_secret_def list_all_iff split: change_event.splits)
  moreover have "list_all sends_no_secret es" if "disciplined (carried_out looked) es" for looked es
    using that by (induction "carried_out looked" es rule: disciplined.induct)
      (auto simp: sends_no_secret_def list_all_iff carried_out_def split: change_event.splits)
  ultimately have "list_all sends_no_secret (looked @ rest)"
    if "list_all looks looked" "disciplined (carried_out looked) rest" for looked rest
    using that by simp
  then show ?thesis
    by (rule_tac change_result [of w limits ctx name args past]) auto
qed

end
