(* ===== verification/McpHub.thy ===== *)
theory McpHub
  imports ChangeSafety "HOL-Library.Multiset"
begin

text \<open>
  Kubyl's MCP server for outside clients: the hub (\<open>crates/kubyl_mcp_core/src/hub.rs\<close>) with its settings
  (\<open>settings.rs\<close>), the changes waiting for the user and the server's own state.  A change waits with a
  one-shot reply, named by a number; what became of each reply is recorded in \<open>hb_fates\<close>.  A started task
  is recorded as \<open>hb_starting\<close> until its end, which the operation \<open>Started\<close> brings.
\<close>

section \<open>Settings\<close>

datatype external_writes = WritesOff | WritesAsk

record mcp_settings =
  ms_enabled :: bool
  ms_port :: nat
  ms_writes :: external_writes
  ms_max_tool_output_kib :: nat

definition default_mcp_settings :: mcp_settings where
  "default_mcp_settings =
     \<lparr>ms_enabled = True, ms_port = 7421, ms_writes = WritesOff, ms_max_tool_output_kib = 64\<rparr>"

definition mcp_port :: "mcp_settings \<Rightarrow> nat" where
  "mcp_port s = max (ms_port s) 1024"

definition max_tool_output :: "mcp_settings \<Rightarrow> nat" where
  "max_tool_output s = max 8 (min 1024 (ms_max_tool_output_kib s)) * 1024"

section \<open>The state\<close>

datatype server_state = ServerOff | Starting | Running nat | Standby nat | ServerFailed str

type_synonym reply = nat

datatype fate = Answered decision | Dropped

record external_approval =
  xa_id :: nat
  xa_proposal :: proposal
  xa_reply :: "reply option"

record start_task =
  sk_takeover :: bool
  sk_port :: nat
  sk_replace :: bool
  sk_generation :: nat

record mcp_hub =
  hb_settings :: mcp_settings
  hb_state :: server_state
  hb_server :: "nat option"
  hb_token :: "str option"
  hb_clusters :: "tool_context list"
  hb_writes :: bool
  hb_pending :: "external_approval list"
  hb_next_id :: nat
  hb_starting :: "start_task option"
  hb_standby :: bool
  hb_replace_token :: bool
  hb_generation :: nat
  hb_fates :: "(reply \<times> fate) list"
  hb_notified :: nat

definition hub_new :: "mcp_settings \<Rightarrow> mcp_hub" where
  "hub_new settings =
     \<lparr>hb_settings = settings, hb_state = ServerOff, hb_server = None, hb_token = None, hb_clusters = [],
      hb_writes = (ms_writes settings = WritesAsk), hb_pending = [], hb_next_id = 0, hb_starting = None,
      hb_standby = False, hb_replace_token = False, hb_generation = 0, hb_fates = [], hb_notified = 0\<rparr>"

definition hub_url :: "mcp_hub \<Rightarrow> str option" where
  "hub_url h =
     (let url = \<lambda>port. Some (''http://127.0.0.1:'' @ show_nat port @ ''/mcp'')
      in case hb_state h of Running port \<Rightarrow> url port | Standby port \<Rightarrow> url port | _ \<Rightarrow> None)"

definition claude_code_command :: "mcp_hub \<Rightarrow> str option" where
  "claude_code_command h =
     Option.bind (hub_url h) (\<lambda>url. Option.bind (hb_token h) (\<lambda>token.
       Some (''claude mcp add --transport http kubyl '' @ url @ '' --header '' @ [CHR 0x22] @ ''Authorization: Bearer ''
         @ token @ [CHR 0x22])))"

definition notify :: "mcp_hub \<Rightarrow> mcp_hub" where
  "notify h = h\<lparr>hb_notified := Suc (hb_notified h)\<rparr>"

section \<open>Changes waiting for the user\<close>

text \<open>Senders that go away unanswered: their receivers see the channel closed.\<close>

definition settle_all :: "fate \<Rightarrow> external_approval list \<Rightarrow> mcp_hub \<Rightarrow> mcp_hub" where
  "settle_all f items h = h\<lparr>hb_fates := hb_fates h @ map (\<lambda>r. (r, f)) (List.map_filter xa_reply items)\<rparr>"

definition requested :: "(reply \<Rightarrow> bool) \<Rightarrow> proposal \<Rightarrow> reply \<Rightarrow> mcp_hub \<Rightarrow> mcp_hub" where
  "requested gone p r h =
     (if \<not> hb_writes h then h\<lparr>hb_fates := hb_fates h @ [(r, Answered Rejected)]\<rparr>
      else if gone r then h\<lparr>hb_fates := hb_fates h @ [(r, Dropped)]\<rparr>
      else notify (h\<lparr>hb_next_id := Suc (hb_next_id h),
                     hb_pending := hb_pending h @ [\<lparr>xa_id = Suc (hb_next_id h), xa_proposal = p, xa_reply = Some r\<rparr>]\<rparr>))"

definition hub_answer :: "nat \<Rightarrow> decision \<Rightarrow> mcp_hub \<Rightarrow> mcp_hub" where
  "hub_answer i d h =
     (case find (\<lambda>p. xa_id p = i) (hb_pending h) of
        None \<Rightarrow> h
      | Some item \<Rightarrow> notify (settle_all (Answered d) [item] (h\<lparr>hb_pending := remove1 item (hb_pending h)\<rparr>)))"

definition still_waits :: "(reply \<Rightarrow> bool) \<Rightarrow> external_approval \<Rightarrow> bool" where
  "still_waits gone p \<longleftrightarrow> (case xa_reply p of Some r \<Rightarrow> \<not> gone r | None \<Rightarrow> False)"

definition prune :: "(reply \<Rightarrow> bool) \<Rightarrow> mcp_hub \<Rightarrow> mcp_hub" where
  "prune gone h =
     (let kept = filter (still_waits gone) (hb_pending h);
          h' = settle_all Dropped (filter (\<lambda>p. \<not> still_waits gone p) (hb_pending h)) (h\<lparr>hb_pending := kept\<rparr>)
      in if length kept \<noteq> length (hb_pending h) then notify h' else h')"

section \<open>Starting the server\<close>

definition start_server :: "bool \<Rightarrow> mcp_hub \<Rightarrow> mcp_hub" where
  "start_server takeover h =
     (let h = h\<lparr>hb_server := None, hb_starting := None, hb_standby := False,
                hb_token := (if takeover then hb_token h else None)\<rparr>
      in if \<not> ms_enabled (hb_settings h) then notify (h\<lparr>hb_state := ServerOff, hb_token := None\<rparr>)
         else (let h = (if takeover then h else notify (h\<lparr>hb_state := Starting\<rparr>));
                   mine = Suc (hb_generation h)
               in h\<lparr>hb_generation := mine,
                    hb_starting := Some \<lparr>sk_takeover = takeover, sk_port = mcp_port (hb_settings h),
                                         sk_replace = hb_replace_token h, sk_generation = mine\<rparr>\<rparr>))"

definition restart :: "mcp_hub \<Rightarrow> mcp_hub" where
  "restart h = start_server False h"

definition regenerate_token :: "mcp_hub \<Rightarrow> mcp_hub" where
  "regenerate_token h =
     (case hb_state h of Standby _ \<Rightarrow> h | _ \<Rightarrow> restart (h\<lparr>hb_replace_token := True\<rparr>))"

datatype start_outcome = Serving nat str | OnStandby str

text \<open>The end of a start; \<open>hb_standby\<close> is the timer of the next attempt.\<close>

definition started :: "start_task \<Rightarrow> str + start_outcome \<Rightarrow> mcp_hub \<Rightarrow> mcp_hub" where
  "started task result h =
     (let before_state = hb_state h; h = h\<lparr>hb_starting := None\<rparr>;
          h = (case result of
                 Inr (Serving port token) \<Rightarrow>
                   h\<lparr>hb_state := Running port, hb_server := Some port, hb_token := Some token, hb_replace_token := False\<rparr>
               | Inr (OnStandby token) \<Rightarrow>
                   h\<lparr>hb_state := Standby (sk_port task), hb_token := Some token, hb_standby := True\<rparr>
               | Inl message \<Rightarrow> h\<lparr>hb_state := ServerFailed message, hb_token := None\<rparr>)
      in if hb_state h \<noteq> before_state \<or> \<not> sk_takeover task then notify h else h)"

definition standby_retry :: "mcp_hub \<Rightarrow> mcp_hub" where
  "standby_retry h =
     (let h = h\<lparr>hb_standby := False\<rparr>
      in case hb_state h of Standby _ \<Rightarrow> start_server True h | _ \<Rightarrow> h)"

text \<open>The credentials as the store keeps them, with the errors it may answer.\<close>

record credentials =
  cr_token :: "str option"
  cr_get_error :: "str option"
  cr_set_error :: "str option"
  cr_delete_error :: "str option"

definition stored_token :: "credentials \<Rightarrow> str + str \<Rightarrow> (str + str) \<times> credentials" where
  "stored_token cr fresh =
     (case cr_get_error cr of
        Some err \<Rightarrow> (Inl (''Kubyl's credential store isn't available: '' @ err), cr)
      | None \<Rightarrow>
          (case cr_token cr of
             Some (c # t) \<Rightarrow> (Inr (c # t), cr)
           | _ \<Rightarrow>
               (case fresh of
                  Inl err \<Rightarrow> (Inl err, cr)
                | Inr t \<Rightarrow>
                    (case cr_set_error cr of
                       Some err \<Rightarrow> (Inl (''The MCP token couldn't be saved: '' @ err), cr)
                     | None \<Rightarrow> (Inr t, cr\<lparr>cr_token := Some t\<rparr>)))))"

definition credential_step :: "nat \<Rightarrow> start_task \<Rightarrow> credentials \<Rightarrow> str + str \<Rightarrow> (str + str) \<times> credentials" where
  "credential_step latest task cr fresh =
     (if latest \<noteq> sk_generation task then (Inl ''superseded by a newer start'', cr)
      else if \<not> sk_replace task then stored_token cr fresh
      else (case cr_delete_error cr of
              Some err \<Rightarrow>
                (Inl (''The old MCP token couldn't be removed from the credential store ('' @ err
                   @ ''), so it was not replaced. The server is stopped.''), cr)
            | None \<Rightarrow> stored_token (cr\<lparr>cr_token := None\<rparr>) fresh))"

section \<open>Settings and clusters\<close>

definition set_clusters :: "tool_context list \<Rightarrow> mcp_hub \<Rightarrow> mcp_hub" where
  "set_clusters clusters h =
     h\<lparr>hb_clusters := map (\<lambda>c. c\<lparr>tc_max_output := max_tool_output (hb_settings h), tc_log_lines := 500\<rparr>) clusters\<rparr>"

definition settings_changed :: "mcp_settings \<Rightarrow> mcp_hub \<Rightarrow> mcp_hub" where
  "settings_changed settings h =
     (if settings = hb_settings h then h
      else (let again = (ms_enabled settings \<noteq> ms_enabled (hb_settings h) \<or> mcp_port settings \<noteq> mcp_port (hb_settings h)
                         \<or> max_tool_output settings \<noteq> max_tool_output (hb_settings h));
                h = h\<lparr>hb_writes := (ms_writes settings = WritesAsk)\<rparr>;
                h = (if ms_writes settings = WritesOff then settle_all Dropped (hb_pending h) (h\<lparr>hb_pending := []\<rparr>) else h);
                h = h\<lparr>hb_settings := settings\<rparr>
            in notify (if again then restart h else h)))"

section \<open>Runs\<close>

datatype hub_op =
    Start
  | Requested "reply \<Rightarrow> bool" proposal reply
  | Answer nat decision
  | Prune "reply \<Rightarrow> bool"
  | SetClusters "tool_context list"
  | SettingsChanged mcp_settings
  | RegenerateToken
  | Started "str + start_outcome"
  | StandbyRetry

definition hub_do :: "hub_op \<Rightarrow> mcp_hub \<Rightarrow> mcp_hub" where
  "hub_do x h =
     (case x of
        Start \<Rightarrow> restart h
      | Requested gone p r \<Rightarrow> requested gone p r h
      | Answer i d \<Rightarrow> hub_answer i d h
      | Prune gone \<Rightarrow> prune gone h
      | SetClusters clusters \<Rightarrow> set_clusters clusters h
      | SettingsChanged settings \<Rightarrow> settings_changed settings h
      | RegenerateToken \<Rightarrow> regenerate_token h
      | Started result \<Rightarrow> (case hb_starting h of Some task \<Rightarrow> started task result h | None \<Rightarrow> h)
      | StandbyRetry \<Rightarrow> if hb_standby h then standby_retry h else h)"

definition waiting_replies :: "mcp_hub \<Rightarrow> reply list" where
  "waiting_replies h = List.map_filter xa_reply (hb_pending h)"

definition seen_replies :: "mcp_hub \<Rightarrow> reply list" where
  "seen_replies h = map fst (hb_fates h) @ waiting_replies h"

text \<open>The runs of a hub: every tool call makes a reply of its own.\<close>

inductive hub_runs :: "mcp_settings \<Rightarrow> hub_op list \<Rightarrow> mcp_hub \<Rightarrow> bool" for s0 where
  fresh_hub: "hub_runs s0 [] (hub_new s0)"
| hub_step: "hub_runs s0 ops h \<Longrightarrow> (case x of Requested _ _ r \<Rightarrow> r \<notin> set (seen_replies h) | _ \<Rightarrow> True) \<Longrightarrow>
    hub_runs s0 (ops @ [x]) (hub_do x h)"

inductive_cases hub_runs_snocE: "hub_runs s0 (ops @ [x]) h"

section \<open>Every change is answered once\<close>

declare map_filter_append [simp]

lemma map_filter_Cons [simp]:
  "List.map_filter f (x # xs) = (case f x of Some y \<Rightarrow> y # List.map_filter f xs | None \<Rightarrow> List.map_filter f xs)"
  by (simp add: List.map_filter_def split: option.split)

lemma map_filter_Nil [simp]: "List.map_filter f [] = []"
  by (simp add: List.map_filter_def)

lemma map_filter_partition:
  "mset (List.map_filter f (filter P xs)) + mset (List.map_filter f (filter (\<lambda>x. \<not> P x) xs)) = mset (List.map_filter f xs)"
  by (induction xs) (auto split: option.split)

lemma map_filter_remove1:
  "x \<in> set xs \<Longrightarrow> mset (List.map_filter f xs) = mset (List.map_filter f (remove1 x xs)) + mset (List.map_filter f [x])"
  by (induction xs) (auto split: option.split)

definition answers_ok :: "mcp_hub \<Rightarrow> bool" where
  "answers_ok h \<longleftrightarrow>
     distinct (seen_replies h) \<and> list_all (\<lambda>p. xa_reply p \<noteq> None \<and> xa_id p \<le> hb_next_id h) (hb_pending h) \<and>
     distinct (map xa_id (hb_pending h)) \<and> (hb_writes h \<longleftrightarrow> ms_writes (hb_settings h) = WritesAsk) \<and>
     (if hb_writes h then True else hb_pending h = [])"

text \<open>What starting the server leaves alone.\<close>

definition same_answers :: "mcp_hub \<Rightarrow> mcp_hub \<Rightarrow> bool" where
  "same_answers h' h \<longleftrightarrow>
     hb_pending h' = hb_pending h \<and> hb_fates h' = hb_fates h \<and> hb_next_id h' = hb_next_id h \<and>
     hb_writes h' = hb_writes h \<and> hb_settings h' = hb_settings h"

lemma server_same_answers:
  "same_answers (restart h) h" "same_answers (regenerate_token h) h" "same_answers (started task result h) h"
  "same_answers (standby_retry h) h" "same_answers (set_clusters clusters h) h" "same_answers (notify h) h"
  by (simp_all add: same_answers_def restart_def regenerate_token_def started_def standby_retry_def set_clusters_def
      notify_def start_server_def Let_def split: server_state.split sum.split start_outcome.split)

lemma same_answers_ok: "same_answers h' h \<Longrightarrow> answers_ok h' = answers_ok h"
  by (simp add: same_answers_def answers_ok_def seen_replies_def waiting_replies_def)

lemma same_answers_seen: "same_answers h' h \<Longrightarrow> seen_replies h' = seen_replies h"
  by (simp add: same_answers_def seen_replies_def waiting_replies_def)

lemma notify_simps [simp]:
  "hb_pending (notify h) = hb_pending h" "hb_fates (notify h) = hb_fates h" "hb_writes (notify h) = hb_writes h"
  "seen_replies (notify h) = seen_replies h" "answers_ok (notify h) = answers_ok h"
  by (simp_all add: notify_def seen_replies_def waiting_replies_def answers_ok_def)

lemma seen_settle:
  "seen_replies (settle_all f items h) = map fst (hb_fates h) @ List.map_filter xa_reply items @ waiting_replies h"
  by (simp add: seen_replies_def waiting_replies_def settle_all_def comp_def)

lemma seen_answer: "mset (seen_replies (hub_answer i d h)) = mset (seen_replies h)"
proof (cases "find (\<lambda>p. xa_id p = i) (hb_pending h)")
  case (Some item)
  then have "item \<in> set (hb_pending h)" by (simp add: find_SomeD)
  from map_filter_remove1 [OF this, of xa_reply] Some show ?thesis
    by (simp add: hub_answer_def seen_settle) (simp add: seen_replies_def waiting_replies_def)
qed (simp add: hub_answer_def)

lemma seen_prune: "mset (seen_replies (prune gone h)) = mset (seen_replies h)"
  using map_filter_partition [of xa_reply "still_waits gone" "hb_pending h"]
  by (simp add: prune_def Let_def seen_settle) (simp add: seen_replies_def waiting_replies_def add.commute)

lemma distinct_map_remove1: "distinct (map f xs) \<Longrightarrow> distinct (map f (remove1 x xs))"
proof (induction xs)
  case (Cons y ys)
  moreover from set_remove1_subset have "f ` set (remove1 x ys) \<subseteq> f ` set ys" by (rule image_mono)
  ultimately show ?case by auto
qed simp

lemma set_remove1D: "y \<in> set (remove1 x xs) \<Longrightarrow> y \<in> set xs"
  using set_remove1_subset by (rule subsetD)

text \<open>An operation that only takes waiting changes off the list.\<close>

lemma answers_ok_less:
  assumes "answers_ok h" "mset (seen_replies h') = mset (seen_replies h)" "set (hb_pending h') \<subseteq> set (hb_pending h)"
    "distinct (map xa_id (hb_pending h'))" "hb_next_id h' = hb_next_id h"
    "hb_writes h' = (ms_writes (hb_settings h') = WritesAsk)" "if hb_writes h' then True else hb_pending h' = []"
  shows "answers_ok h'"
  using assms mset_eq_imp_distinct_iff [OF assms(2)] by (auto simp: answers_ok_def list_all_iff)

lemma hub_answer_fields:
  "hb_next_id (hub_answer i d h) = hb_next_id h" "hb_settings (hub_answer i d h) = hb_settings h"
  "hb_writes (hub_answer i d h) = hb_writes h"
  "hb_pending (hub_answer i d h) =
     (case find (\<lambda>p. xa_id p = i) (hb_pending h) of None \<Rightarrow> hb_pending h | Some item \<Rightarrow> remove1 item (hb_pending h))"
  by (simp_all add: hub_answer_def settle_all_def notify_def split: option.split)

lemma prune_fields:
  "hb_next_id (prune gone h) = hb_next_id h" "hb_settings (prune gone h) = hb_settings h"
  "hb_writes (prune gone h) = hb_writes h" "hb_pending (prune gone h) = filter (still_waits gone) (hb_pending h)"
  by (simp_all add: prune_def Let_def settle_all_def notify_def)

lemma answers_ok_answer: "answers_ok h \<Longrightarrow> answers_ok (hub_answer i d h)"
  by (rule answers_ok_less [OF _ seen_answer])
    (auto simp: hub_answer_fields answers_ok_def distinct_map_remove1 dest: set_remove1D split: option.splits)

lemma answers_ok_prune: "answers_ok h \<Longrightarrow> answers_ok (prune gone h)"
  by (rule answers_ok_less [OF _ seen_prune]) (auto simp: prune_fields answers_ok_def distinct_map_filter)

lemma answers_ok_requested:
  assumes "answers_ok h" "r \<notin> set (seen_replies h)"
  shows "answers_ok (requested gone p r h)"
  using assms by (auto simp: requested_def answers_ok_def seen_replies_def waiting_replies_def list_all_iff notify_def)

definition switch_writes :: "mcp_settings \<Rightarrow> mcp_hub \<Rightarrow> mcp_hub" where
  "switch_writes settings h =
     (let h = h\<lparr>hb_writes := (ms_writes settings = WritesAsk)\<rparr>;
          h = (if ms_writes settings = WritesOff then settle_all Dropped (hb_pending h) (h\<lparr>hb_pending := []\<rparr>) else h)
      in h\<lparr>hb_settings := settings\<rparr>)"

lemma settings_changed_same:
  "settings = hb_settings h \<or> same_answers (settings_changed settings h) (switch_writes settings h)"
  using server_same_answers(1) [of "switch_writes settings h"]
  by (auto simp: settings_changed_def switch_writes_def Let_def same_answers_def notify_def)

lemma seen_switch: "mset (seen_replies (switch_writes settings h)) = mset (seen_replies h)"
proof -
  have other: "seen_replies (h\<lparr>hb_settings := s\<rparr>) = seen_replies h" "seen_replies (h\<lparr>hb_writes := b\<rparr>) = seen_replies h" for h s b
    by (simp_all add: seen_replies_def waiting_replies_def)
  show ?thesis
    by (simp add: switch_writes_def Let_def other seen_settle) (simp add: seen_replies_def waiting_replies_def)
qed

lemma answers_ok_switch: "answers_ok h \<Longrightarrow> answers_ok (switch_writes settings h)"
  by (rule answers_ok_less [OF _ seen_switch])
    (auto simp: switch_writes_def Let_def settle_all_def answers_ok_def
      intro: external_writes.exhaust [of "ms_writes settings"])

lemma answers_ok_settings: "answers_ok h \<Longrightarrow> answers_ok (settings_changed settings h)"
  using settings_changed_same [of settings h] same_answers_ok answers_ok_switch
  by (auto simp: settings_changed_def)

lemma answers_ok_do:
  assumes "answers_ok h" "case x of Requested _ _ r \<Rightarrow> r \<notin> set (seen_replies h) | _ \<Rightarrow> True"
  shows "answers_ok (hub_do x h)"
  using assms
  by (cases x)
    (simp_all add: hub_do_def answers_ok_answer answers_ok_prune answers_ok_requested answers_ok_settings
      same_answers_ok [OF server_same_answers(1)] same_answers_ok [OF server_same_answers(2)]
      same_answers_ok [OF server_same_answers(3)] same_answers_ok [OF server_same_answers(4)]
      same_answers_ok [OF server_same_answers(5)] split: option.split)

lemma hub_runs_answers: "hub_runs s0 ops h \<Longrightarrow> answers_ok h"
proof (induction rule: hub_runs.induct)
  case fresh_hub
  show ?case by (simp add: answers_ok_def hub_new_def seen_replies_def waiting_replies_def)
next
  case (hub_step ops h x)
  then show ?case by (blast intro: answers_ok_do)
qed

text \<open>C6: however settings, answers, timeouts and restarts interleave, every change of an outside client gets one
  answer at most: no reply is settled twice, none that still waits is settled, the waiting ones can be told
  apart by their numbers, and none waits while changes are off.\<close>

theorem changes_answered_once:
  assumes "hub_runs s0 ops h"
  shows "distinct (map fst (hb_fates h) @ waiting_replies h) \<and> distinct (map xa_id (hb_pending h)) \<and>
    (if ms_writes (hb_settings h) = WritesOff then hb_pending h = [] else True)"
  using hub_runs_answers [OF assms] by (auto simp: answers_ok_def seen_replies_def)

text \<open>Where an approval comes from.\<close>

lemma fates_same: "same_answers h' h \<Longrightarrow> hb_fates h' = hb_fates h"
  by (simp add: same_answers_def)

lemma approvals_of_others:
  assumes "case x of Answer _ _ \<Rightarrow> False | _ \<Rightarrow> True" "(r, Answered Approved) \<in> set (hb_fates (hub_do x h))"
  shows "(r, Answered Approved) \<in> set (hb_fates h)"
proof (cases x)
  case (Requested gone p r')
  with assms show ?thesis by (auto simp: hub_do_def requested_def notify_def split: if_splits)
next
  case (Prune gone)
  with assms show ?thesis by (auto simp: hub_do_def prune_def Let_def settle_all_def notify_def split: if_splits)
next
  case (SettingsChanged settings)
  have "hb_fates (switch_writes settings h) = hb_fates h \<or>
      hb_fates (switch_writes settings h) = hb_fates h @ map (\<lambda>r. (r, Dropped)) (List.map_filter xa_reply (hb_pending h))"
    by (simp add: switch_writes_def Let_def settle_all_def)
  with SettingsChanged assms settings_changed_same [of settings h] show ?thesis
    by (auto simp: hub_do_def fates_same settings_changed_def split: if_splits)
next
  case (Started result)
  with assms show ?thesis
    by (auto simp: hub_do_def fates_same [OF server_same_answers(3)] split: option.splits)
qed (use assms in \<open>auto simp: hub_do_def fates_same [OF server_same_answers(1)] fates_same [OF server_same_answers(2)]
     fates_same [OF server_same_answers(4)] fates_same [OF server_same_answers(5)] split: if_splits\<close>)

lemma approval_by_answer:
  assumes "(r, Answered Approved) \<in> set (hb_fates (hub_answer i d h))" "(r, Answered Approved) \<notin> set (hb_fates h)"
  shows "d = Approved \<and> (\<exists>item \<in> set (hb_pending h). xa_id item = i \<and> xa_reply item = Some r)"
  using assms by (auto simp: hub_answer_def settle_all_def notify_def split: option.splits dest: find_SomeD)

text \<open>A waiting change is one a tool asked for.\<close>

definition asked_for :: "hub_op list \<Rightarrow> external_approval \<Rightarrow> bool" where
  "asked_for ops item \<longleftrightarrow> (\<exists>gone r. xa_reply item = Some r \<and> Requested gone (xa_proposal item) r \<in> set ops)"

lemma pending_grows:
  assumes "item \<in> set (hb_pending (hub_do x h))"
  shows "item \<in> set (hb_pending h) \<or> asked_for [x] item"
proof (cases x)
  case (Requested gone p r')
  with assms show ?thesis by (auto simp: hub_do_def requested_def notify_def asked_for_def split: if_splits)
next
  case (SettingsChanged settings)
  have "set (hb_pending (switch_writes settings h)) \<subseteq> set (hb_pending h)"
    by (simp add: switch_writes_def Let_def settle_all_def)
  with SettingsChanged assms settings_changed_same [of settings h] show ?thesis
    by (auto simp: hub_do_def same_answers_def settings_changed_def split: if_splits)
next
  case (Started result)
  with assms server_same_answers(3) show ?thesis
    by (auto simp: hub_do_def same_answers_def split: option.splits)
next
  case (Answer i d)
  with assms show ?thesis by (auto simp: hub_do_def hub_answer_fields dest: set_remove1D split: option.splits)
next
  case (Prune gone)
  with assms show ?thesis by (auto simp: hub_do_def prune_fields)
qed (use assms server_same_answers in \<open>auto simp: hub_do_def same_answers_def split: if_splits\<close>)

lemma asked_for_grows: "asked_for ops item \<or> asked_for [x] item \<Longrightarrow> asked_for (ops @ [x]) item"
  by (auto simp: asked_for_def)

lemma pending_asked: "hub_runs s0 ops h \<Longrightarrow> list_all (asked_for ops) (hb_pending h)"
proof (induction rule: hub_runs.induct)
  case fresh_hub
  show ?case by (simp add: hub_new_def)
next
  case (hub_step ops h x)
  have "asked_for (ops @ [x]) item" if "item \<in> set (hb_pending (hub_do x h))" for item
    using pending_grows [OF that] hub_step.IH by (intro asked_for_grows) (auto simp: list_all_iff)
  then show ?case by (simp add: list_all_iff)
qed

definition user_approved :: "mcp_settings \<Rightarrow> hub_op list \<Rightarrow> reply \<Rightarrow> bool" where
  "user_approved s0 ops r \<longleftrightarrow>
     (\<exists>earlier i later h item. ops = earlier @ Answer i Approved # later \<and> hub_runs s0 earlier h \<and>
        item \<in> set (hb_pending h) \<and> xa_id item = i \<and> xa_reply item = Some r \<and> asked_for earlier item \<and>
        ms_writes (hb_settings h) = WritesAsk)"

lemma user_approved_later: "user_approved s0 ops r \<Longrightarrow> user_approved s0 (ops @ [x]) r"
  unfolding user_approved_def by fastforce

text \<open>C5: a change of an outside client is approved by the user only: an approval comes from an answer the user gave
  to that very change, which a tool had asked for, was still waiting, and was shown while changes were on.\<close>

theorem approval_is_the_users:
  assumes "hub_runs s0 ops h" "(r, Answered Approved) \<in> set (hb_fates h)"
  shows "user_approved s0 ops r"
  using assms
proof (induction rule: hub_runs.induct)
  case fresh_hub
  then show ?case by (simp add: hub_new_def)
next
  case (hub_step ops h x)
  show ?case
  proof (cases "(r, Answered Approved) \<in> set (hb_fates h)")
    case True
    then show ?thesis by (intro user_approved_later hub_step.IH)
  next
    case False
    with approvals_of_others [of x r h] hub_step.prems obtain i d where x: "x = Answer i d"
      by (cases x) auto
    with approval_by_answer [of r i d h] hub_step.prems False
    obtain item where item: "d = Approved" "item \<in> set (hb_pending h)" "xa_id item = i" "xa_reply item = Some r"
      by (auto simp: hub_do_def)
    moreover from item(2) hub_runs_answers [OF hub_step.hyps(1)] have "ms_writes (hb_settings h) = WritesAsk"
      by (auto simp: answers_ok_def split: if_splits)
    moreover from item(2) pending_asked [OF hub_step.hyps(1)] have "asked_for ops item" by (simp add: list_all_iff)
    ultimately show ?thesis using hub_step.hyps(1) x unfolding user_approved_def by blast
  qed
qed


section \<open>The server's state\<close>

text \<open>What is shown as running runs, a token is shown only with a server that knows it, and a state that is not
  final has the task or the timer that ends it.\<close>

definition server_ok :: "mcp_hub \<Rightarrow> bool" where
  "server_ok h \<longleftrightarrow>
     (case hb_state h of
        Running port \<Rightarrow> hb_server h = Some port \<and> hb_token h \<noteq> None \<and> hb_starting h = None \<and> \<not> hb_standby h
      | Standby _ \<Rightarrow> hb_server h = None \<and> hb_token h \<noteq> None \<and> hb_standby h = (hb_starting h = None)
      | Starting \<Rightarrow> hb_server h = None \<and> hb_token h = None \<and> hb_starting h \<noteq> None \<and> \<not> hb_standby h
      | _ \<Rightarrow> hb_server h = None \<and> hb_token h = None \<and> hb_starting h = None \<and> \<not> hb_standby h) \<and>
     (if ms_enabled (hb_settings h) then True else hb_state h = ServerOff)"

lemma server_ok_start:
  assumes "ms_enabled (hb_settings h) \<Longrightarrow> takeover \<Longrightarrow> hb_token h \<noteq> None \<and> (\<exists>port. hb_state h = Standby port)"
  shows "server_ok (start_server takeover h)"
  using assms by (auto simp: start_server_def server_ok_def Let_def notify_def split: server_state.split)

lemma server_ok_retry: "server_ok h \<Longrightarrow> hb_standby h \<Longrightarrow> server_ok (standby_retry h)"
  by (auto simp: standby_retry_def server_ok_def [of h] Let_def intro!: server_ok_start split: server_state.splits if_splits)

lemma server_ok_started: "server_ok h \<Longrightarrow> hb_starting h = Some task \<Longrightarrow> server_ok (started task result h)"
  by (auto simp: started_def server_ok_def Let_def notify_def split: server_state.splits sum.split start_outcome.split if_splits)

definition same_server :: "mcp_hub \<Rightarrow> mcp_hub \<Rightarrow> bool" where
  "same_server h' h \<longleftrightarrow>
     hb_state h' = hb_state h \<and> hb_server h' = hb_server h \<and> hb_token h' = hb_token h \<and> hb_starting h' = hb_starting h \<and>
     hb_standby h' = hb_standby h \<and> hb_settings h' = hb_settings h"

lemma server_ok_same: "same_server h' h \<Longrightarrow> server_ok h' = server_ok h"
  by (cases "hb_state h") (simp_all add: same_server_def server_ok_def)

lemma answers_same_server:
  "same_server (requested gone p r h) h" "same_server (hub_answer i d h) h" "same_server (prune gone h) h"
  "same_server (set_clusters clusters h) h"
  by (simp_all add: same_server_def requested_def hub_answer_def prune_def set_clusters_def settle_all_def notify_def Let_def
      split: option.split)

lemma server_ok_notify [simp]: "server_ok (notify h) = server_ok h"
  by (rule server_ok_same) (simp add: same_server_def notify_def)

lemma server_ok_settings:
  assumes "server_ok h"
  shows "server_ok (settings_changed settings h)"
proof (cases "ms_enabled settings = ms_enabled (hb_settings h) \<and> mcp_port settings = mcp_port (hb_settings h) \<and>
    max_tool_output settings = max_tool_output (hb_settings h)")
  case True
  with assms show ?thesis
    by (auto simp: settings_changed_def Let_def) (auto simp: server_ok_def settle_all_def split: server_state.splits)
next
  case False
  have "server_ok (notify (restart h'))" for h'
    using server_ok_start [of h' False] by (simp add: restart_def)
  with False assms show ?thesis by (auto simp: settings_changed_def Let_def)
qed

lemma server_ok_do: "server_ok h \<Longrightarrow> server_ok (hub_do x h)"
  by (cases x)
    (auto simp: hub_do_def server_ok_retry server_ok_started server_ok_settings restart_def regenerate_token_def
      server_ok_same [OF answers_same_server(1)] server_ok_same [OF answers_same_server(2)]
      server_ok_same [OF answers_same_server(3)] server_ok_same [OF answers_same_server(4)]
      intro: server_ok_start split: option.split server_state.split)

interpretation hubbing: machine hub_do server_ok
  by unfold_locales (rule server_ok_do)

text \<open>C7: whatever the user and other programs do, the server's state is true and never stuck: \<open>Running\<close> has the
  listener of that port, no token is shown unless this Kubyl or another one serves it, \<open>Starting\<close> has a start
  under way, \<open>Standby\<close> has its next attempt due or under way, and a disabled server is off.\<close>

theorem hub_state_true: "server_ok (fold hub_do ops (hub_new settings))"
proof (rule hubbing.run_keeps)
  show "server_ok (hub_new settings)" by (simp add: server_ok_def hub_new_def)
qed

text \<open>A start gives its server a token that the credential store holds; a start that replaces the token never
  gives the stored one again unless the random source does, and a start overtaken by a newer one touches
  nothing.\<close>

lemma credential_step_token:
  "case credential_step latest task cr fresh of
     (Inr token, cr') \<Rightarrow>
        latest = sk_generation task \<and> cr_token cr' = Some token \<and>
        (if sk_replace task then fresh = Inr token
         else if cr_token cr = None \<or> cr_token cr = Some [] then fresh = Inr token else cr_token cr = Some token)
   | (Inl _, cr') \<Rightarrow> cr' = cr \<or> latest = sk_generation task \<and> sk_replace task \<and> cr' = cr\<lparr>cr_token := None\<rparr>"
  by (auto simp: credential_step_def stored_token_def split: option.splits list.splits sum.splits)

section \<open>A run\<close>

definition sample_proposal :: proposal where
  "sample_proposal =
     \<lparr>pl_cluster = ''c1'', pl_cluster_name = ''dev'', pl_production = False, pl_title = ''Delete pod a/b'',
      pl_docs = [\<lparr>cd_label = ''pod a/b'', cd_old = Some ''x'', cd_new = []\<rparr>], pl_warnings = []\<rparr>"

definition asking :: mcp_settings where
  "asking = default_mcp_settings\<lparr>ms_writes := WritesAsk\<rparr>"

definition sample_ops :: "hub_op list" where
  "sample_ops = [Requested (\<lambda>_. False) sample_proposal 7, Answer 1 Approved]"

lemma sample_run:
  "hub_runs asking sample_ops (fold hub_do sample_ops (hub_new asking))"
  "(7, Answered Approved) \<in> set (hb_fates (fold hub_do sample_ops (hub_new asking)))"
proof -
  let ?ask = "Requested (\<lambda>_. False) sample_proposal 7"
  have "hub_runs asking ([] @ [?ask]) (hub_do ?ask (hub_new asking))"
    by (rule hub_step [OF fresh_hub]) (simp add: seen_replies_def waiting_replies_def hub_new_def)
  from hub_step [OF this, of "Answer 1 Approved"]
  show "hub_runs asking sample_ops (fold hub_do sample_ops (hub_new asking))" by (simp add: sample_ops_def)
  show "(7, Answered Approved) \<in> set (hb_fates (fold hub_do sample_ops (hub_new asking)))"
    by (simp add: sample_ops_def hub_do_def requested_def hub_new_def asking_def default_mcp_settings_def notify_def
        hub_answer_def settle_all_def)
qed

theorem changes_answered_once_witness:
  "distinct (map fst (hb_fates (fold hub_do sample_ops (hub_new asking))) @
     waiting_replies (fold hub_do sample_ops (hub_new asking)))"
  using changes_answered_once [OF sample_run(1)] by simp

theorem approval_is_the_users_witness: "user_approved asking sample_ops 7"
  using approval_is_the_users [OF sample_run] .

end
