(* ===== verification/McpHandler.thy ===== *)
theory McpHandler
  imports ChangeSafety
begin

text \<open>
  The tools behind an MCP server (\<open>crates/kubyl_mcp_core/src/handler.rs\<close>): which cluster a call is about,
  and when it may change it.  The watched values (the clusters, the switch of the changes) are functions of
  the events so far.  The read tools are the parameter \<open>read_tool\<close>.
\<close>

section \<open>The handler\<close>

datatype scope =
    OneCluster "change_event list \<Rightarrow> tool_context"
  | AllClusters "change_event list \<Rightarrow> tool_context list"

record write_access =
  wr_enabled :: "change_event list \<Rightarrow> bool"
  wr_off_message :: str

record tools_handler =
  th_scope :: scope
  th_writes :: "write_access option"

definition still_allowed :: "tools_handler \<Rightarrow> cluster_id option \<Rightarrow> str \<Rightarrow> write_access \<Rightarrow> change_event list \<Rightarrow> str + unit" where
  "still_allowed th cluster name access past =
     (if \<not> wr_enabled access past then Inl (wr_off_message access)
      else and_then (case th_scope th of
               OneCluster context \<Rightarrow> Inr (tc_read_only (context past))
             | AllClusters clusters \<Rightarrow>
                 (case find (\<lambda>c. tc_cluster c = cluster) (clusters past) of
                    Some found \<Rightarrow> Inr (tc_read_only found)
                  | None \<Rightarrow> Inl (name @ '' is no longer in Kubyl's list of clusters, so nothing was changed.'')))
        (\<lambda>read_only.
           if read_only then Inl (name @ '' became read-only in Kubyl while the change waited, so nothing was changed.'')
           else Inr ()))"

definition error_output :: "str \<Rightarrow> tool_output" where
  "error_output message = \<lparr>to_text = message, to_error = True\<rparr>"

definition handler_change ::
  "tools_handler \<Rightarrow> world \<Rightarrow> limits \<Rightarrow> tool_context \<Rightarrow> str \<Rightarrow> json \<Rightarrow> (change_event, tool_output) io" where
  "handler_change th w limits ctx name args =
     (\<lambda>past.
        case th_writes th of
          None \<Rightarrow> (error_output ''Changes through Kubyl aren't available here.'', past)
        | Some access \<Rightarrow>
            if \<not> wr_enabled access past then (error_output (wr_off_message access), past)
            else if tc_read_only ctx
            then (error_output (tc_cluster_name ctx @ '' is read-only in Kubyl, so no change can be made to it from here.''), past)
            else run_change (w\<lparr>wo_recheck := \<lambda>past _. still_allowed th (tc_cluster ctx) (tc_cluster_name ctx) access past\<rparr>)
                   limits ctx name args past)"

definition cluster_flags :: "tool_context \<Rightarrow> str list" where
  "cluster_flags c =
     (if tc_production c then [''production''] else []) @ (if tc_read_only c then [''read-only''] else [])
     @ (if tc_openshift c then [''OpenShift''] else []) @ (if tc_active c then [''open in Kubyl''] else [])"

definition cluster_line :: "tool_context \<Rightarrow> str" where
  "cluster_line c =
     ''- '' @ tc_cluster_name c @ '': ''
     @ (if tc_status c = [] then (if tc_client c then ''connected'' else ''not connected'') else tc_status c)
     @ (if cluster_flags c = [] then [] else '' ('' @ join '', '' (cluster_flags c) @ '')'') @ [CHR 0x0A]"

definition list_clusters :: "tool_context list \<Rightarrow> str" where
  "list_clusters clusters =
     (if clusters = [] then ''Kubyl knows no clusters. The user adds kubeconfigs in Kubyl.''
      else ''Clusters in Kubyl (pass the name as `cluster`):'' @ [CHR 0x0A] @ concat (map cluster_line clusters))"

definition cluster_names :: "tool_context list \<Rightarrow> str" where
  "cluster_names cs = join '', '' (map tc_cluster_name cs)"

definition is_named :: "str \<Rightarrow> tool_context \<Rightarrow> bool" where
  "is_named wanted c \<longleftrightarrow> eq_ignore_ascii_case (tc_cluster_name c) wanted \<or> tc_cluster c = Some wanted"

definition pick_cluster :: "tool_context list \<Rightarrow> str option \<Rightarrow> str + tool_context" where
  "pick_cluster clusters wanted =
     (let connected = filter tc_client clusters
      in case wanted of
           Some wanted \<Rightarrow>
             (let exact = filter (is_named wanted) clusters;
                  found = (if exact = []
                           then filter (\<lambda>c. contains (to_lowercase wanted) (to_lowercase (tc_cluster_name c))) clusters
                           else exact)
              in case found of
                   [one] \<Rightarrow> Inr one
                 | [] \<Rightarrow> Inl (''No cluster named `'' @ wanted @ ''`. Known: '' @ cluster_names clusters @ ''.'')
                 | many \<Rightarrow> Inl (''`'' @ wanted @ ''` matches several clusters ('' @ cluster_names many @ ''); use the full name.''))
         | None \<Rightarrow>
             (case connected of
                [one] \<Rightarrow> Inr one
              | [] \<Rightarrow> Inl ''No cluster is connected in Kubyl. Ask the user to connect one.''
              | many \<Rightarrow>
                  (case find tc_active many of
                     Some active \<Rightarrow> Inr active
                   | None \<Rightarrow> Inl (''Several clusters are connected ('' @ cluster_names many @ ''); pass `cluster`.''))))"

type_synonym read_tools = "tool_context \<Rightarrow> str \<Rightarrow> json \<Rightarrow> (change_event, tool_output) io"

definition handler_call ::
  "tools_handler \<Rightarrow> world \<Rightarrow> read_tools \<Rightarrow> limits \<Rightarrow> str \<Rightarrow> json \<Rightarrow> (change_event, tool_output) io" where
  "handler_call th w read_tool limits name args =
     (\<lambda>past.
        let run = (\<lambda>ctx. if is_change_tool name then handler_change th w limits ctx name args else read_tool ctx name args)
        in case th_scope th of
             OneCluster context \<Rightarrow> run (context past) past
           | AllClusters clusters \<Rightarrow>
               if name = ''list_clusters'' then (\<lparr>to_text = list_clusters (clusters past), to_error = False\<rparr>, past)
               else (case pick_cluster (clusters past) (str_arg args ''cluster'') of
                       Inr ctx \<Rightarrow> run ctx past
                     | Inl message \<Rightarrow> (error_output message, past)))"

section \<open>Which cluster\<close>

definition picks :: "tool_context list \<Rightarrow> str option \<Rightarrow> tool_context \<Rightarrow> bool" where
  "picks clusters wanted c \<longleftrightarrow>
     (case wanted of
        Some name \<Rightarrow>
          filter (is_named name) clusters = [c] \<or>
          filter (is_named name) clusters = [] \<and>
          filter (\<lambda>c. contains (to_lowercase name) (to_lowercase (tc_cluster_name c))) clusters = [c]
      | None \<Rightarrow> filter tc_client clusters = [c] \<or> tc_client c \<and> tc_active c \<and> c \<in> set clusters)"

definition unclear :: "tool_context list \<Rightarrow> str option \<Rightarrow> bool" where
  "unclear clusters wanted \<longleftrightarrow>
     (case wanted of
        Some name \<Rightarrow>
          length (filter (is_named name) clusters) \<noteq> 1 \<and>
          (if filter (is_named name) clusters = []
           then length (filter (\<lambda>c. contains (to_lowercase name) (to_lowercase (tc_cluster_name c))) clusters) \<noteq> 1 else True)
      | None \<Rightarrow> length (filter tc_client clusters) \<noteq> 1 \<and> list_all (\<lambda>c. \<not> (tc_client c \<and> tc_active c)) clusters)"

text \<open>A call reaches the one cluster it names (by name, by id, or by a part of the name only when no name or id
  matches), else the only connected one or the connected one that is open; when that leaves none or several,
  the call fails, and it fails only then.\<close>

lemma pick_cluster_exact:
  "case pick_cluster clusters wanted of
     Inr c \<Rightarrow> picks clusters wanted c \<and> \<not> unclear clusters wanted
   | Inl _ \<Rightarrow> unclear clusters wanted"
proof (cases wanted)
  case (Some name)
  then show ?thesis
    by (auto simp: pick_cluster_def picks_def unclear_def Let_def split: list.splits)
next
  case None
  have open_one: "tc_client c \<and> tc_active c \<and> c \<in> set clusters" if "find tc_active (filter tc_client clusters) = Some c" for c
    using find_SomeD [OF that] by simp
  have open_none: "list_all (\<lambda>c. \<not> (tc_client c \<and> tc_active c)) clusters"
    if "find tc_active (filter tc_client clusters) = None"
    using that by (auto simp: find_None_iff list_all_iff)
  show ?thesis
  proof (cases "filter tc_client clusters" rule: remdups_adj.cases)
    case 1
    then have "\<not> (\<exists>c \<in> set clusters. tc_client c)" by (simp add: filter_empty_conv)
    with 1 None show ?thesis by (auto simp: pick_cluster_def unclear_def list_all_iff)
  next
    case (2 one)
    with None show ?thesis by (simp add: pick_cluster_def picks_def unclear_def)
  next
    case (3 one another rest)
    with None open_one open_none show ?thesis
      by (auto simp: pick_cluster_def picks_def unclear_def list_all_iff simp del: find.simps split: option.split)
  qed
qed

section \<open>When a change may happen\<close>

text \<open>The events of a change tool as the cluster, the user and the last check make them.\<close>

definition made :: "world \<Rightarrow> change_event list \<Rightarrow> change_event \<Rightarrow> bool" where
  "made w past e \<longleftrightarrow>
     (case e of
        Api q a \<Rightarrow> a = wo_kube w past q | Asked p d \<Rightarrow> d = wo_user w past p | Rechecked r \<Rightarrow> r = wo_recheck w past ())"

lemma honest_client [honest_rules]: "honest (made w) (client w q)"
  unfolding client_def by (rule honest_ask) (simp add: made_def)

lemma honest_approve [honest_rules]: "honest (made w) (approve w p)"
  unfolding approve_def by (rule honest_ask) (simp add: made_def)

lemma honest_recheck [honest_rules]: "honest (made w) (recheck w)"
  unfolding recheck_def by (rule honest_ask) (simp add: made_def)

lemma honest_outcomes [honest_rules]:
  "honest T m \<Longrightarrow> (\<And>s. honest T (f s)) \<Longrightarrow> honest T (case err of ApiError s \<Rightarrow> f s | OtherError t \<Rightarrow> m)"
  by (cases err) simp_all

lemma honest_get_opt [honest_rules]: "honest (made w) (get_opt (client w) a name)"
  unfolding get_opt_def by (intro honest_rules)

lemma honest_get_object [honest_rules]: "honest (made w) (get_object w a name)"
  unfolding get_object_def by (intro honest_rules)

lemma honest_apply [honest_rules]: "honest (made w) (apply_all en (client w) docs options)"
  unfolding apply_all_def apply_one_def replace_or_create_def Let_def by (intro honest_rules)

lemma honest_check_doc [honest_rules]: "honest (made w) (check_doc w acc dr)"
  unfolding check_doc_def Let_def by (intro honest_rules)

lemma honest_checks [honest_rules]: "honest (made w) (check_change w ctx name args)"
  unfolding check_change_def check_apply_def check_patch_def check_delete_def check_scale_def check_restart_def Let_def
  by (intro honest_rules)

lemma honest_execute_doc [honest_rules]: "honest (made w) (execute_doc w de)"
  unfolding execute_doc_def create_absent_def Let_def by (intro honest_rules)

lemma honest_execute [honest_rules]: "honest (made w) (execute w act)"
  unfolding execute_def Let_def by (cases act) (simp, intro honest_rules)+

lemma honest_decided [honest_rules]:
  "honest T m \<Longrightarrow> honest T n \<Longrightarrow> honest T (case d of Approved \<Rightarrow> m | Rejected \<Rightarrow> n)"
  by (cases d) simp_all

lemma honest_checked [honest_rules]:
  "(\<And>x. honest T (f x)) \<Longrightarrow> (\<And>p act. honest T (g p act)) \<Longrightarrow>
   honest T (case c of NothingToDo x \<Rightarrow> f x | Change p act \<Rightarrow> g p act)"
  by (cases c) simp_all

lemma honest_change: "honest (made w) (make_change w limits ctx name args)"
  unfolding make_change_def by (intro honest_rules)

text \<open>At a moment: changes are on, and the cluster is known and not read-only.\<close>

definition allowed_now :: "tools_handler \<Rightarrow> cluster_id option \<Rightarrow> change_event list \<Rightarrow> bool" where
  "allowed_now th cluster past \<longleftrightarrow>
     (case th_writes th of None \<Rightarrow> False | Some access \<Rightarrow> wr_enabled access past) \<and>
     (case th_scope th of
        OneCluster context \<Rightarrow> \<not> tc_read_only (context past)
      | AllClusters clusters \<Rightarrow>
          (case find (\<lambda>c. tc_cluster c = cluster) (clusters past) of Some c \<Rightarrow> \<not> tc_read_only c | None \<Rightarrow> False))"

text \<open>Every write among the events comes after a moment of this call at which it was allowed.\<close>

definition writes_allowed :: "tools_handler \<Rightarrow> cluster_id option \<Rightarrow> change_event list \<Rightarrow> change_event list \<Rightarrow> bool" where
  "writes_allowed th cluster past added \<longleftrightarrow>
     (\<forall>es q a fs. added = es @ Api q a # fs \<longrightarrow> writes q \<longrightarrow>
        (\<exists>bs p cs. es = bs @ Asked p Approved # Rechecked (Inr ()) # cs \<and> allowed_now th cluster (past @ bs @ [Asked p Approved])))"

lemma still_allowed_now:
  "th_writes th = Some access \<Longrightarrow> still_allowed th cluster name access past = Inr () \<Longrightarrow> allowed_now th cluster past"
  by (auto simp: still_allowed_def allowed_now_def and_then_eq_Inr split: scope.splits option.splits if_splits)

lemma writes_allowed_disciplined:
  assumes "list_all looks looked" "disciplined (carried_out looked) rest" "traced (made w) past (looked @ rest)"
    "\<And>past. wo_recheck w past () = Inr () \<Longrightarrow> allowed_now th cluster past"
  shows "writes_allowed th cluster past (looked @ rest)"
  unfolding writes_allowed_def
proof (intro allI impI)
  fix es q a fs
  assume at_q: "looked @ rest = es @ Api q a # fs" and w: "writes q"
  have "Api q a \<notin> set looked" using assms(1) w by (auto simp: list_all_iff looks_def)
  with at_q obtain es' where es': "es = looked @ es'" "rest = es' @ Api q a # fs"
    by (auto simp: append_eq_append_conv2 append_eq_Cons_conv)
  then obtain p u cs where es: "es' = Asked p Approved # Rechecked (Inr u) # cs"
    using assms(2) by (cases "(carried_out looked, rest)" rule: disciplined.cases)
      (auto simp: append_eq_Cons_conv)
  from assms(3) es es' have "made w (past @ looked @ [Asked p Approved]) (Rechecked (Inr u))" by simp
  then have "allowed_now th cluster (past @ looked @ [Asked p Approved])" by (intro assms(4)) (simp add: made_def)
  with es es' show "\<exists>bs p cs. es = bs @ Asked p Approved # Rechecked (Inr ()) # cs \<and>
      allowed_now th cluster (past @ bs @ [Asked p Approved])"
    by (intro exI [of _ looked]) auto
qed

text \<open>C4: nothing is written to a cluster unless, after the user's approval, changes were still switched on and the
  cluster was still in Kubyl's list and not read-only; a handler without change tools writes nothing.\<close>

theorem writes_only_when_allowed:
  "case handler_change th w limits ctx name args past of (out, full) \<Rightarrow>
     \<exists>added. full = past @ added \<and> writes_allowed th (tc_cluster ctx) past added"
proof (cases "th_writes th")
  case None
  then show ?thesis by (simp add: handler_change_def writes_allowed_def)
next
  case (Some access)
  define w' where "w' = w\<lparr>wo_recheck := \<lambda>past _. still_allowed th (tc_cluster ctx) (tc_cluster_name ctx) access past\<rparr>"
  obtain r looked rest where run: "make_change w' limits ctx name args past = (r, past @ looked @ rest)"
    "list_all looks looked" "disciplined (carried_out looked) rest"
    by (rule change_result)
  have "traced (made w') past (looked @ rest)"
    using honestD [OF honest_change run(1)] by simp
  then have "writes_allowed th (tc_cluster ctx) past (looked @ rest)"
    by (rule writes_allowed_disciplined [OF run(2,3)]) (simp add: w'_def still_allowed_now [OF Some])
  moreover have "snd (run_change w' limits ctx name args past) = past @ looked @ rest"
    by (simp add: run_change_def io_bind_def run(1) io_return_def)
  moreover have "writes_allowed th (tc_cluster ctx) past []" by (simp add: writes_allowed_def)
  ultimately show ?thesis
    by (auto simp: handler_change_def Some w'_def [symmetric] split: prod.split intro: exI [of _ "looked @ rest"])
qed

end
