(* ===== verification/KubeSettings.thy ===== *)
theory KubeSettings
  imports TextLaws
begin

text \<open>
  The user's settings of kubeconfigs and contexts (\<open>crates/kubyl_kube_core/src/settings.rs\<close>).
  A cluster id is a text; the stored overrides are a map from ids to settings.
\<close>

datatype color_tag = Red | Orange | Yellow | Green | Cyan | Blue | Purple | Gray

record context_settings =
  cs_display_name :: "str option"
  cs_color :: "color_tag option"
  cs_default_namespace :: "str option"
  cs_production :: bool
  cs_read_only :: bool
  cs_hidden :: bool
  cs_namespaces :: "str list"

definition context_settings_default :: context_settings where
  "context_settings_default =
     \<lparr>cs_display_name = None, cs_color = None, cs_default_namespace = None, cs_production = False,
      cs_read_only = False, cs_hidden = False, cs_namespaces = []\<rparr>"

record kube_settings =
  ks_load_default_kubeconfig :: bool
  ks_load_kubeconfig_env :: bool
  ks_kubeconfigs :: "str list"
  ks_contexts :: "str \<rightharpoonup> context_settings"
  ks_health_check_interval :: nat
  ks_group_contexts :: bool
  ks_separate_groups :: "str list"

definition kube_settings_default :: kube_settings where
  "kube_settings_default =
     \<lparr>ks_load_default_kubeconfig = True, ks_load_kubeconfig_env = True, ks_kubeconfigs = [],
      ks_contexts = Map.empty, ks_health_check_interval = 30, ks_group_contexts = True, ks_separate_groups = []\<rparr>"

definition context_of :: "kube_settings \<Rightarrow> str \<Rightarrow> context_settings" where
  "context_of s key = unwrap_or (ks_contexts s key) context_settings_default"

text \<open>\<open>Iterator::find_map\<close>.\<close>

definition find_map :: "('a \<Rightarrow> 'b option) \<Rightarrow> 'a list \<Rightarrow> 'b option" where
  "find_map f xs = (case List.map_filter f xs of [] \<Rightarrow> None | y # _ \<Rightarrow> Some y)"

definition push_absent :: "'a \<Rightarrow> 'a list \<Rightarrow> 'a list" where
  "push_absent x xs = (if x \<in> set xs then xs else xs @ [x])"

definition key_hidden :: "kube_settings \<Rightarrow> str \<Rightarrow> bool" where
  "key_hidden s k = (case ks_contexts s k of Some c \<Rightarrow> cs_hidden c | None \<Rightarrow> False)"

definition merged :: "kube_settings \<Rightarrow> str list \<Rightarrow> context_settings" where
  "merged s keys =
     (let found = List.map_filter (ks_contexts s) keys;
          members = tl keys
      in \<lparr>cs_display_name = find_map cs_display_name found, cs_color = find_map cs_color found,
          cs_default_namespace = find_map cs_default_namespace found,
          cs_production = list_ex cs_production found, cs_read_only = list_ex cs_read_only found,
          cs_hidden = ((case keys of k # _ \<Rightarrow> key_hidden s k | [] \<Rightarrow> False)
                       \<or> members \<noteq> [] \<and> list_all (key_hidden s) members),
          cs_namespaces = fold push_absent (concat (map cs_namespaces found)) []\<rparr>)"

section \<open>Colors\<close>

definition color_palette :: "color_tag list" where
  "color_palette = [Blue, Green, Cyan, Purple, Orange]"

text \<open>FNV-1a over the bytes of the id, with the wrap-around of \<open>u64\<close>.\<close>

definition fnv64_step :: "char \<Rightarrow> 64 word \<Rightarrow> 64 word" where
  "fnv64_step b h = (xor h (of_nat (code_of b))) * 0x100000001b3"

definition default_color :: "str \<Rightarrow> bool \<Rightarrow> color_tag" where
  "default_color key production =
     (if production then Red
      else (let hash = fold fnv64_step (as_bytes key) (0xcbf29ce484222325 :: 64 word)
            in color_palette ! (unat hash mod length color_palette)))"

definition context_color_tag :: "str \<Rightarrow> context_settings \<Rightarrow> color_tag" where
  "context_color_tag key s = unwrap_or (cs_color s) (default_color key (cs_production s))"

section \<open>Safety flags\<close>

text \<open>Whether a flag is on in the stored settings of a key; a flag of the merged settings is on exactly
  when one of the stored ones has it on.\<close>

definition flag_at :: "(context_settings \<Rightarrow> bool) \<Rightarrow> (str \<rightharpoonup> context_settings) \<Rightarrow> str \<Rightarrow> bool" where
  "flag_at flag ctxs k = (case ctxs k of Some c \<Rightarrow> flag c | None \<Rightarrow> False)"

lemma map_filter_ex: "list_ex P (List.map_filter f xs) \<longleftrightarrow> (\<exists>x \<in> set xs. case f x of Some y \<Rightarrow> P y | None \<Rightarrow> False)"
  by (induction xs) (auto simp: List.map_filter_def split: option.splits)

lemma merged_flags:
  "cs_production (merged s keys) = list_ex (flag_at cs_production (ks_contexts s)) keys"
  "cs_read_only (merged s keys) = list_ex (flag_at cs_read_only (ks_contexts s)) keys"
  by (simp_all add: merged_def Let_def map_filter_ex) (simp_all add: list_ex_iff flag_at_def)

lemma key_hidden_flag: "key_hidden s = flag_at cs_hidden (ks_contexts s)"
  by (rule ext) (simp add: key_hidden_def flag_at_def)

lemma merged_hidden:
  "cs_hidden (merged s (k # ks)) =
     (flag_at cs_hidden (ks_contexts s) k \<or> ks \<noteq> [] \<and> list_all (flag_at cs_hidden (ks_contexts s)) ks)"
  by (simp add: merged_def Let_def key_hidden_flag)

end
