(* ===== verification/ContextGroups.thy ===== *)
theory ContextGroups
  imports Redact KubeSettings
begin

text \<open>
  The cluster entries of the sidebar (\<open>crates/kubyl_kube_core/src/groups.rs\<close>, with the contexts of
  \<open>kubeconfig.rs\<close>): contexts of one file that differ only in their namespace are one entry.  Parsed
  kubeconfigs hold the contents of their entries as JSON; \<open>text\<close> is \<open>serde_json::to_string\<close>, and \<open>host\<close>
  what the URL parser answers of a server: its host and its port unless that is the scheme's default.
\<close>

section \<open>Kubeconfigs and contexts\<close>

record kubeconfig =
  kc_clusters :: "(str \<times> json option) list"
  kc_auth_infos :: "(str \<times> json option) list"
  kc_contexts :: "(str \<times> json option) list"
  kc_current_context :: "str option"

datatype auth_method =
    NoAuth | ClientCertificate | Token | TokenFile | Basic | Exec str "str list" "str option" bool | Oidc json
  | OpenShift | Provider str

definition supports_sign_in :: "auth_method \<Rightarrow> bool" where
  "supports_sign_in a = (case a of Oidc _ \<Rightarrow> True | OpenShift \<Rightarrow> True | _ \<Rightarrow> False)"

record ctx_member =
  cm_id :: str
  cm_context :: str
  cm_namespace :: "str option"

record context_info =
  ci_id :: str
  ci_name :: str
  ci_context :: str
  ci_file :: str
  ci_cluster :: str
  ci_user :: "str option"
  ci_server :: "str option"
  ci_namespace :: "str option"
  ci_auth :: auth_method
  ci_error :: "str option"
  ci_members :: "ctx_member list"
  ci_group :: "str option"

definition is_group :: "context_info \<Rightarrow> bool" where
  "is_group c = (1 < length (ci_members c))"

definition make_id :: "str \<Rightarrow> str \<Rightarrow> str" where
  "make_id name file = name @ ''@'' @ file"

definition stable_key :: "context_info \<Rightarrow> str" where
  "stable_key c = (if is_group c then ci_cluster c @ ''/'' @ unwrap_or (ci_user c) [] else ci_context c)"

section \<open>Group ids\<close>

text \<open>\<open>str::replace\<close> of a text that is not empty.\<close>

function replace_all :: "str \<Rightarrow> str \<Rightarrow> str \<Rightarrow> str" where
  "replace_all p r [] = []"
| "replace_all p r (c # s) =
     (case strip_prefix p (c # s) of
        Some rest \<Rightarrow> if p = [] then c # s else r @ replace_all p r rest
      | None \<Rightarrow> c # replace_all p r s)"
  by pat_completeness auto

termination
proof (relation "measure (\<lambda>(p, r, s). length s)", goal_cases)
  case (3 p r c s rest)
  then have "c # s = p @ rest" by (simp add: strip_prefix_eq)
  with 3 have "length rest < length (c # s)" by (cases p) auto
  then show ?case by simp
qed simp_all

definition escape :: "str \<Rightarrow> str" where
  "escape name =
     replace_all ''#'' ''%23'' (replace_all ''@'' ''%40'' (replace_all '','' ''%2C'' (replace_all ''%'' ''%25'' name)))"

definition unescape :: "str \<Rightarrow> str" where
  "unescape name =
     replace_all ''%25'' ''%'' (replace_all ''%2C'' '','' (replace_all ''%40'' ''@'' (replace_all ''%23'' ''#'' name)))"

definition group_prefix :: str where "group_prefix = ''group:''"

definition group_id :: "str \<Rightarrow> str \<Rightarrow> str \<Rightarrow> nat \<Rightarrow> str" where
  "group_id file cluster user n =
     group_prefix @ escape cluster @ '','' @ escape user @ (if 1 < n then ''#'' @ show_nat n else []) @ ''@'' @ file @ ''/''"

definition strip_suffix :: "'a list \<Rightarrow> 'a list \<Rightarrow> 'a list option" where
  "strip_suffix p s = map_option rev (strip_prefix (rev p) (rev s))"

definition parse_group_id :: "str \<Rightarrow> (str \<times> str \<times> str) option" where
  "parse_group_id key =
     Option.bind (strip_prefix group_prefix key) (\<lambda>rest.
     Option.bind (strip_suffix ''/'' rest) (\<lambda>rest.
     Option.bind (split_once (CHR ''@'') rest) (\<lambda>(names, file).
       let names = (case split_once (CHR ''#'') names of Some (names, _) \<Rightarrow> names | None \<Rightarrow> names)
       in Option.bind (split_once (CHR '','') names) (\<lambda>(cluster, user).
            Some (unescape cluster, unescape user, file)))))"

section \<open>Identities and labels\<close>

record identity =
  id_file :: str
  id_cluster :: str
  id_user :: str
  id_context :: str

text \<open>The contents of a named entry: \<open>None\<close> when there is no such entry or it is empty.\<close>

definition contents :: "(str \<times> json option) list \<Rightarrow> str \<Rightarrow> json option" where
  "contents entries name = Option.bind (find (\<lambda>e. fst e = name) entries) snd"

definition context_rest :: "json \<Rightarrow> json" where
  "context_rest v = jremove ''user'' (jremove ''cluster'' (jremove ''namespace'' v))"

definition or_null :: "json option \<Rightarrow> json" where
  "or_null v = (case v of Some x \<Rightarrow> x | None \<Rightarrow> JNull)"

definition identity_of :: "(json \<Rightarrow> str) \<Rightarrow> context_info \<Rightarrow> kubeconfig \<Rightarrow> identity option" where
  "identity_of text info config =
     (if ci_error info \<noteq> None then None
      else Option.bind (contents (kc_clusters config) (ci_cluster info)) (\<lambda>cluster.
           Option.bind (contents (kc_contexts config) (ci_context info)) (\<lambda>context.
             Some \<lparr>id_file = ci_file info, id_cluster = text cluster,
                   id_user = text (or_null (Option.bind (ci_user info) (contents (kc_auth_infos config)))),
                   id_context = text (context_rest context)\<rparr>)))"

definition short_host :: "(str \<Rightarrow> (str \<times> nat option) option) \<Rightarrow> str \<Rightarrow> str option" where
  "short_host host server =
     map_option (\<lambda>(name, port).
         let name = unwrap_or (strip_prefix ''api.'' name) name
         in case port of None \<Rightarrow> name | Some p \<Rightarrow> if p \<in> {443, 6443} then name else name @ '':'' @ show_nat p)
       (host server)"

definition middle_dot :: str where
  "middle_dot = [CHR '' '', CHR 0xB7, CHR '' '']"

definition oc_label :: "(str \<Rightarrow> (str \<times> nat option) option) \<Rightarrow> str \<Rightarrow> str \<Rightarrow> str option \<Rightarrow> str option \<Rightarrow> str option" where
  "oc_label host context cluster user server =
     Option.bind user (\<lambda>user.
     Option.bind (strip_suffix (''/'' @ cluster) user) (\<lambda>bare.
     Option.bind (strip_suffix (''/'' @ cluster @ ''/'' @ bare) context) (\<lambda>namespace.
       if namespace = [] \<or> CHR ''/'' \<in> set namespace \<or> bare = [] then None
       else Some (unwrap_or (Option.bind server (short_host host)) cluster @ middle_dot @ bare))))"

definition info_oc_label :: "(str \<Rightarrow> (str \<times> nat option) option) \<Rightarrow> context_info \<Rightarrow> str option" where
  "info_oc_label host c = oc_label host (ci_context c) (ci_cluster c) (ci_user c) (ci_server c)"

definition entry_label :: "(str \<Rightarrow> (str \<times> nat option) option) \<Rightarrow> context_info \<Rightarrow> str" where
  "entry_label host c =
     (case info_oc_label host c of
        Some l \<Rightarrow> l
      | None \<Rightarrow>
          if is_group c then (case ci_user c of Some user \<Rightarrow> ci_cluster c @ middle_dot @ user | None \<Rightarrow> ci_cluster c)
          else ci_name c)"

section \<open>Entries\<close>

text \<open>Contexts in buckets of the same identity, in the order of their first members; a context without an
  identity stands alone.\<close>

datatype slot = Single nat | Bucket nat

record slotting =
  sl_index :: "(identity \<times> nat) list"
  sl_slots :: "slot list"
  sl_buckets :: "nat list list"

definition slot_context :: "(context_info \<Rightarrow> identity option) \<Rightarrow> nat \<times> context_info \<Rightarrow> slotting \<Rightarrow> slotting" where
  "slot_context ident ic sl =
     (let (ix, info) = ic
      in case ident info of
           Some key \<Rightarrow>
             (case map_of (sl_index sl) key of
                Some b \<Rightarrow> sl\<lparr>sl_buckets := (sl_buckets sl)[b := sl_buckets sl ! b @ [ix]]\<rparr>
              | None \<Rightarrow> sl\<lparr>sl_index := (key, length (sl_buckets sl)) # sl_index sl,
                          sl_slots := sl_slots sl @ [Bucket (length (sl_buckets sl))],
                          sl_buckets := sl_buckets sl @ [[ix]]\<rparr>)
         | None \<Rightarrow> sl\<lparr>sl_slots := sl_slots sl @ [Single ix]\<rparr>)"

definition slot_all :: "(context_info \<Rightarrow> identity option) \<Rightarrow> context_info list \<Rightarrow> slotting" where
  "slot_all ident contexts =
     fold (slot_context ident) (enumerate 0 contexts) \<lparr>sl_index = [], sl_slots = [], sl_buckets = []\<rparr>"

definition single_entry :: "(str \<Rightarrow> (str \<times> nat option) option) \<Rightarrow> context_info \<Rightarrow> str option \<Rightarrow> context_info" where
  "single_entry host info grp = info\<lparr>ci_name := entry_label host info, ci_group := grp\<rparr>"

definition as_member :: "context_info \<Rightarrow> ctx_member" where
  "as_member m = \<lparr>cm_id = ci_id m, cm_context = ci_context m, cm_namespace = ci_namespace m\<rparr>"

definition group_entry ::
  "(str \<Rightarrow> (str \<times> nat option) option) \<Rightarrow> context_info list \<Rightarrow> str \<Rightarrow> str option \<Rightarrow> context_info" where
  "group_entry host infos key current =
     (let by_name = sort_key ci_context infos;
          current_member = Option.bind current (\<lambda>c. find (\<lambda>m. ci_context m = c) by_name);
          ordered = (case current_member of Some m \<Rightarrow> [m] | None \<Rightarrow> [])
                    @ filter (\<lambda>m. Some (ci_context m) \<noteq> current) by_name;
          entry = (hd by_name)\<lparr>ci_id := key, ci_group := Some key,
                    ci_namespace := (case current_member of Some m \<Rightarrow> ci_namespace m | None \<Rightarrow> ci_namespace (hd by_name)),
                    ci_members := map as_member ordered\<rparr>
      in entry\<lparr>ci_name := unwrap_or (find_map (info_oc_label host) by_name) (entry_label host entry)\<rparr>)"

text \<open>The first of the numbered names that is not taken; the names differ, so there is one.\<close>

lemma finite_taken: "inj f \<Longrightarrow> finite {k. n \<le> k \<and> f k \<in> set taken}"
  by (rule finite_subset [of _ "f -` set taken"]) (auto intro: finite_vimageI)

lemma taken_decreases:
  assumes "inj f" "f n \<in> set taken"
  shows "card {k. Suc n \<le> k \<and> f k \<in> set taken} < card {k. n \<le> k \<and> f k \<in> set taken}"
proof (rule psubset_card_mono [OF finite_taken [OF assms(1)]], rule psubsetI)
  show "{k. Suc n \<le> k \<and> f k \<in> set taken} \<subseteq> {k. n \<le> k \<and> f k \<in> set taken}" by auto
  from assms(2) have "n \<in> {k. n \<le> k \<and> f k \<in> set taken}" by simp
  moreover have "n \<notin> {k. Suc n \<le> k \<and> f k \<in> set taken}" by simp
  ultimately show "{k. Suc n \<le> k \<and> f k \<in> set taken} \<noteq> {k. n \<le> k \<and> f k \<in> set taken}" by blast
qed

lemma group_id_inj: "inj (\<lambda>k. group_id file cluster user (Suc k))"
  by (rule injI) (auto simp: group_id_def dest: show_nat_inj split: if_splits)

function first_group_id :: "str \<Rightarrow> str \<Rightarrow> str \<Rightarrow> str list \<Rightarrow> nat \<Rightarrow> str" where
  "first_group_id file cluster user taken k =
     (if group_id file cluster user (Suc k) \<in> set taken then first_group_id file cluster user taken (Suc k)
      else group_id file cluster user (Suc k))"
  by pat_completeness auto

termination
  by (relation "measure (\<lambda>(file, cluster, user, taken, k). card {j. k \<le> j \<and> group_id file cluster user (Suc j) \<in> set taken})")
    (simp_all add: taken_decreases [OF group_id_inj])

declare first_group_id.simps [simp del]

text \<open>\<open>Path::file_stem\<close> of a Unix path.\<close>

definition file_name :: "str \<Rightarrow> str option" where
  "file_name path =
     (let parts = filter (\<lambda>w. w \<noteq> [] \<and> w \<noteq> ''.'') (split_on (\<lambda>c. c = CHR ''/'') path)
      in if parts = [] \<or> last parts = ''..'' then None else Some (last parts))"

definition file_stem :: "str \<Rightarrow> str" where
  "file_stem path =
     (case file_name path of
        None \<Rightarrow> []
      | Some name \<Rightarrow> (case rsplit_once (CHR ''.'') name of Some (c # stem, _) \<Rightarrow> c # stem | _ \<Rightarrow> name))"

text \<open>The label \<open>base\<close>, then \<open>base-2\<close>, \<open>base-3\<close>, ...\<close>

definition numbered_label :: "str \<Rightarrow> nat \<Rightarrow> str" where
  "numbered_label base k = (if k = 0 then base else base @ ''-'' @ show_nat (Suc k))"

lemma numbered_inj: "inj (numbered_label base)"
  by (rule injI) (auto simp: numbered_label_def dest: show_nat_inj split: if_splits)

function first_label :: "str \<Rightarrow> str list \<Rightarrow> nat \<Rightarrow> str" where
  "first_label base taken k =
     (if numbered_label base k \<in> set taken then first_label base taken (Suc k) else numbered_label base k)"
  by pat_completeness auto

termination
  by (relation "measure (\<lambda>(base, taken, k). card {j. k \<le> j \<and> numbered_label base j \<in> set taken})")
    (simp_all add: taken_decreases [OF numbered_inj])

declare first_label.simps [simp del]

fun unique_labels :: "str list \<Rightarrow> context_info list \<Rightarrow> context_info list" where
  "unique_labels taken [] = []"
| "unique_labels taken (e # es) =
     (if ci_name e \<notin> set taken then e # unique_labels (ci_name e # taken) es
      else (let name = first_label (ci_name e @ ''@'' @ file_stem (ci_file e)) taken 0
            in e\<lparr>ci_name := name\<rparr> # unique_labels (name # taken) es))"

record group_options =
  go_enabled :: bool
  go_separate :: "str list"

record entry_env =
  ee_text :: "json \<Rightarrow> str"
  ee_host :: "str \<Rightarrow> (str \<times> nat option) option"

type_synonym configs = "str \<rightharpoonup> kubeconfig"

text \<open>The entries of one slot, with the group ids given out so far.\<close>

definition bucket_entries ::
  "entry_env \<Rightarrow> configs \<Rightarrow> group_options \<Rightarrow> context_info list \<Rightarrow> str list \<Rightarrow> context_info list \<times> str list" where
  "bucket_entries en configs options infos ids =
     (let first = hd infos;
          key = first_group_id (ci_file first) (Min (set (map ci_cluster infos)))
                  (Min (set (map (\<lambda>c. unwrap_or (ci_user c) []) infos))) ids 0
      in (if \<not> go_enabled options \<or> key \<in> set (go_separate options)
          then map (\<lambda>c. single_entry (ee_host en) c (Some key)) infos
          else [group_entry (ee_host en) infos key (Option.bind (configs (ci_file first)) kc_current_context)],
          key # ids))"

fun slot_entries ::
  "entry_env \<Rightarrow> configs \<Rightarrow> group_options \<Rightarrow> context_info list \<Rightarrow> nat list list \<Rightarrow> slot list \<Rightarrow> str list \<Rightarrow> context_info list" where
  "slot_entries en configs options contexts buckets [] ids = []"
| "slot_entries en configs options contexts buckets (Single ix # slots) ids =
     single_entry (ee_host en) (contexts ! ix) None # slot_entries en configs options contexts buckets slots ids"
| "slot_entries en configs options contexts buckets (Bucket b # slots) ids =
     (case buckets ! b of
        [ix] \<Rightarrow> single_entry (ee_host en) (contexts ! ix) None # slot_entries en configs options contexts buckets slots ids
      | members \<Rightarrow>
          (let (out, ids) = bucket_entries en configs options (map ((!) contexts) members) ids
           in out @ slot_entries en configs options contexts buckets slots ids))"

definition context_identity :: "entry_env \<Rightarrow> configs \<Rightarrow> context_info \<Rightarrow> identity option" where
  "context_identity en configs info = Option.bind (configs (ci_file info)) (identity_of (ee_text en) info)"

definition entries :: "entry_env \<Rightarrow> context_info list \<Rightarrow> configs \<Rightarrow> group_options \<Rightarrow> context_info list" where
  "entries en contexts configs options =
     (let sl = slot_all (context_identity en configs) contexts
      in unique_labels [] (slot_entries en configs options contexts (sl_buckets sl) (sl_slots sl) []))"

section \<open>Group ids read back\<close>

text \<open>Replacing a three-character mark that starts with a percent sign, in a text made of such marks and
  other characters.\<close>

definition mark :: "char \<Rightarrow> char \<Rightarrow> str" where
  "mark a b = [CHR ''%'', a, b]"

lemma replace_mark:
  assumes "\<And>c. c \<in> set s \<Longrightarrow> g c = mark a b \<or> (\<exists>x y. g c = mark x y \<and> (x, y) \<noteq> (a, b) \<and> x \<noteq> CHR ''%'' \<and> y \<noteq> CHR ''%'')
      \<or> (\<exists>d. g c = [d] \<and> d \<noteq> CHR ''%'')"
    "a \<noteq> CHR ''%''" "b \<noteq> CHR ''%''"
  shows "replace_all (mark a b) r (concat (map g s)) = concat (map (\<lambda>c. if g c = mark a b then r else g c) s)"
  using assms(1)
proof (induction s)
  case (Cons c s)
  then have IH: "replace_all (mark a b) r (concat (map g s)) = concat (map (\<lambda>c. if g c = mark a b then r else g c) s)"
    by simp
  from Cons.prems [of c] consider "g c = mark a b"
    | x y where "g c = mark x y" "(x, y) \<noteq> (a, b)" "x \<noteq> CHR ''%''" "y \<noteq> CHR ''%''"
    | d where "g c = [d]" "d \<noteq> CHR ''%''" by auto
  then show ?case
    by cases (use IH assms(2,3) in \<open>auto simp: mark_def\<close>)
qed simp

definition escaped :: "char \<Rightarrow> str" where
  "escaped c =
     (if c = CHR ''%'' then ''%25'' else if c = CHR '','' then ''%2C'' else if c = CHR ''@'' then ''%40''
      else if c = CHR ''#'' then ''%23'' else [c])"

lemma replace_char: "replace_all [a] r s = concat (map (\<lambda>c. if c = a then r else [c]) s)"
  by (induction s) auto

lemma escape_eq: "escape s = concat (map escaped s)"
  by (induction s) (auto simp: escape_def replace_char escaped_def)

lemma unescape_escape: "unescape (escape s) = s"
proof -
  let ?g1 = "\<lambda>c. if c = CHR ''#'' then ''#'' else escaped c"
  let ?g2 = "\<lambda>c. if c = CHR ''@'' then ''@'' else ?g1 c"
  let ?g3 = "\<lambda>c. if c = CHR '','' then '','' else ?g2 c"
  have 1: "replace_all (mark (CHR ''2'') (CHR ''3'')) ''#'' (concat (map escaped s)) = concat (map ?g1 s)"
    by (subst replace_mark) (auto simp: escaped_def mark_def intro!: arg_cong [where f = concat])
  have 2: "replace_all (mark (CHR ''4'') (CHR ''0'')) ''@'' (concat (map ?g1 s)) = concat (map ?g2 s)"
    by (subst replace_mark) (auto simp: escaped_def mark_def intro!: arg_cong [where f = concat])
  have 3: "replace_all (mark (CHR ''2'') (CHR ''C'')) '','' (concat (map ?g2 s)) = concat (map ?g3 s)"
    by (subst replace_mark) (auto simp: escaped_def mark_def intro!: arg_cong [where f = concat])
  have "concat (map (\<lambda>c. if ?g3 c = mark (CHR ''2'') (CHR ''5'') then ''%'' else ?g3 c) s) = s"
    by (induction s) (auto simp: escaped_def mark_def)
  then have 4: "replace_all (mark (CHR ''2'') (CHR ''5'')) ''%'' (concat (map ?g3 s)) = s"
    by (subst replace_mark) (auto simp: escaped_def mark_def)
  show ?thesis
    using 1 2 3 4 by (simp add: unescape_def escape_eq mark_def)
qed

lemma escape_chars: "CHR ''@'' \<notin> set (escape s)" "CHR ''#'' \<notin> set (escape s)" "CHR '','' \<notin> set (escape s)"
  by (auto simp: escape_eq escaped_def split: if_splits)

text \<open>A group's id reads back as its cluster entry, its user entry and its file, whatever characters the
  names hold and whichever of the groups with these names it is.\<close>

lemma group_id_reads_back:
  "parse_group_id (group_id file cluster user n) = Some (cluster, user, file)"
proof -
  define counter where "counter = (if 1 < n then ''#'' @ show_nat n else [])"
  define plain where "plain = escape cluster @ '','' @ escape user"
  define names where "names = plain @ counter"
  have no_hash: "CHR ''#'' \<notin> set plain" using escape_chars by (auto simp: plain_def)
  have no_at: "CHR ''@'' \<notin> set names"
    using escape_chars show_nat_digits [of n]
    by (auto simp: names_def plain_def counter_def list_all_iff is_ascii_digit_def)
  have tail: "strip_suffix ''/'' (names @ ''@'' @ file @ ''/'') = Some (names @ ''@'' @ file)"
    by (simp add: strip_suffix_def)
  have at_file: "split_once (CHR ''@'') (names @ ''@'' @ file) = Some (names, file)"
    using split_once_append [OF no_at, of "file"] by simp
  have number: "(case split_once (CHR ''#'') names of Some (names, _) \<Rightarrow> names | None \<Rightarrow> names) = plain"
    using split_once_append [OF no_hash, of "show_nat n"] split_once_NoneI [OF no_hash]
    by (simp add: names_def counter_def)
  have parts: "split_once (CHR '','') plain = Some (escape cluster, escape user)"
    using split_once_append [OF escape_chars(3), of cluster "escape user"] by (simp add: plain_def)
  have "strip_prefix group_prefix (group_id file cluster user n) = Some (names @ ''@'' @ file @ ''/'')"
    by (simp add: group_id_def strip_prefix_eq names_def plain_def counter_def)
  then show ?thesis
    unfolding parse_group_id_def by (simp add: tail at_file number parts unescape_escape del: append_assoc append.simps)
qed

section \<open>Labels tell entries apart\<close>

lemma first_label_free: "first_label base taken k \<notin> set taken"
  by (induction base taken k rule: first_label.induct) (subst first_label.simps, simp)

lemma first_group_id_free: "first_group_id file cluster user taken k \<notin> set taken"
  by (induction "file" cluster user taken k rule: first_group_id.induct) (subst first_group_id.simps, simp)

lemma unique_labels_distinct:
  "distinct (map ci_name (unique_labels taken es)) \<and> set (map ci_name (unique_labels taken es)) \<inter> set taken = {}"
proof (induction taken es rule: unique_labels.induct)
  case (2 taken e es)
  then show ?case
    using first_label_free [of "ci_name e @ ''@'' @ file_stem (ci_file e)" taken 0] by (auto simp: Let_def)
qed simp

lemma entry_labels_distinct: "distinct (map ci_name (entries en contexts configs options))"
  using unique_labels_distinct [of "[]"] by (simp add: entries_def Let_def)

section \<open>Every context is in one entry\<close>

definition singles :: "slot list \<Rightarrow> nat list" where
  "singles slots = List.map_filter (\<lambda>s. case s of Single ix \<Rightarrow> Some ix | Bucket _ \<Rightarrow> None) slots"

definition bucket_refs :: "slot list \<Rightarrow> nat list" where
  "bucket_refs slots = List.map_filter (\<lambda>s. case s of Single _ \<Rightarrow> None | Bucket b \<Rightarrow> Some b) slots"

text \<open>After \<open>k\<close> contexts: each is in one slot or bucket, and a bucket's contexts have its identity.\<close>

definition slotted :: "(context_info \<Rightarrow> identity option) \<Rightarrow> context_info list \<Rightarrow> nat \<Rightarrow> slotting \<Rightarrow> bool" where
  "slotted ident contexts k sl \<longleftrightarrow>
     mset (singles (sl_slots sl)) + mset (concat (sl_buckets sl)) = mset [0..<k] \<and>
     bucket_refs (sl_slots sl) = [0..<length (sl_buckets sl)] \<and>
     (\<forall>key b. map_of (sl_index sl) key = Some b \<longrightarrow> b < length (sl_buckets sl)) \<and>
     (\<forall>b < length (sl_buckets sl). \<exists>key. map_of (sl_index sl) key = Some b \<and>
        (\<forall>ix \<in> set (sl_buckets sl ! b). ident (contexts ! ix) = Some key)) \<and>
     (\<forall>key key' b. map_of (sl_index sl) key = Some b \<longrightarrow> map_of (sl_index sl) key' = Some b \<longrightarrow> key = key')"

lemma concat_update:
  "b < length xss \<Longrightarrow> mset (concat (xss[b := xss ! b @ ys])) = mset (concat xss) + mset ys"
  by (induction xss arbitrary: b) (auto split: nat.split)

lemma slotted_step:
  assumes "slotted ident contexts k sl" "k < length contexts"
  shows "slotted ident contexts (Suc k) (slot_context ident (k, contexts ! k) sl)"
proof (cases "ident (contexts ! k)")
  case None
  with assms show ?thesis
    by (auto simp: slotted_def slot_context_def singles_def bucket_refs_def List.map_filter_def)
next
  case (Some key)
  note old = assms(1) [unfolded slotted_def]
  show ?thesis
  proof (cases "map_of (sl_index sl) key")
    case None
    have other: "\<exists>key'. key' \<noteq> key \<and> map_of (sl_index sl) key' = Some b \<and> (\<forall>ix \<in> set (sl_buckets sl ! b). ident (contexts ! ix) = Some key')"
      if "b < length (sl_buckets sl)" for b
    proof -
      from old that obtain key' where "map_of (sl_index sl) key' = Some b"
        "\<forall>ix \<in> set (sl_buckets sl ! b). ident (contexts ! ix) = Some key'" by blast
      with None show ?thesis by (intro exI [of _ key']) auto
    qed
    with Some None old show ?thesis
      by (auto simp: slotted_def slot_context_def singles_def bucket_refs_def List.map_filter_def nth_append less_Suc_eq)
        (metis other)
  next
    case (Some b)
    then have b: "b < length (sl_buckets sl)" using old by blast
    from old b obtain key' where key': "map_of (sl_index sl) key' = Some b"
      "\<forall>ix \<in> set (sl_buckets sl ! b). ident (contexts ! ix) = Some key'" by blast
    with Some old have "key' = key" by blast
    with b key' Some \<open>ident (contexts ! k) = Some key\<close> old show ?thesis
      by (auto simp: slotted_def slot_context_def concat_update nth_list_update)
  qed
qed

lemma slotted_all: "slotted ident contexts (length contexts) (slot_all ident contexts)"
proof -
  have "slotted ident contexts k
     (fold (slot_context ident) (enumerate 0 (take k contexts)) \<lparr>sl_index = [], sl_slots = [], sl_buckets = []\<rparr>)"
    if "k \<le> length contexts" for k
    using that
  proof (induction k)
    case 0
    show ?case by (simp add: slotted_def singles_def bucket_refs_def List.map_filter_def)
  next
    case (Suc k)
    then have "take (Suc k) contexts = take k contexts @ [contexts ! k]" by (simp add: take_Suc_conv_app_nth)
    with Suc show ?case by (simp add: enumerate_append_eq slotted_step)
  qed
  from this [of "length contexts"] show ?thesis by (simp add: slot_all_def)
qed

lemma unique_labels_members [simp]: "map ci_members (unique_labels taken es) = map ci_members es"
  by (induction taken es rule: unique_labels.induct) (auto simp: Let_def)

lemma single_members [simp]: "ci_members (single_entry host c grp) = ci_members c"
  by (simp add: single_entry_def)

lemma filter_find:
  "distinct (map f xs) \<Longrightarrow> filter (\<lambda>m. f m = c) xs = (case find (\<lambda>m. f m = c) xs of Some m \<Rightarrow> [m] | None \<Rightarrow> [])"
proof (induction xs)
  case (Cons x xs)
  have "f y \<noteq> f x" if "y \<in> set xs" for y using Cons.prems that by (metis distinct.simps(2) image_eqI list.set_map list.simps(9))
  then have "find (\<lambda>m. f m = f x) xs = None" by (auto simp: find_None_iff)
  with Cons show ?case by (cases "c = f x") auto
qed simp

lemma mset_split: "mset (filter P xs) + mset (filter (\<lambda>x. \<not> P x) xs) = mset xs"
  by (induction xs) auto

lemma group_members:
  assumes "distinct (map ci_context infos)"
  shows "mset (ci_members (group_entry host infos key current)) = mset (map as_member infos)"
proof -
  let ?by_name = "sort_key ci_context infos"
  let ?now = "Option.bind current (\<lambda>c. find (\<lambda>m. ci_context m = c) ?by_name)"
  have dist: "distinct (map ci_context ?by_name)"
    using assms by (simp add: distinct_map)
  have "mset ((case ?now of Some m \<Rightarrow> [m] | None \<Rightarrow> []) @ filter (\<lambda>m. Some (ci_context m) \<noteq> current) ?by_name) = mset infos"
  proof (cases current)
    case (Some c)
    then have "(case ?now of Some m \<Rightarrow> [m] | None \<Rightarrow> []) = filter (\<lambda>m. ci_context m = c) ?by_name"
      by (simp add: filter_find [OF dist])
    then show ?thesis using Some mset_split [of "\<lambda>m. ci_context m = c" ?by_name] by simp
  qed simp
  then have "image_mset as_member (mset ((case ?now of Some m \<Rightarrow> [m] | None \<Rightarrow> [])
      @ filter (\<lambda>m. Some (ci_context m) \<noteq> current) ?by_name)) = image_mset as_member (mset infos)"
    by (rule arg_cong)
  then show ?thesis by (simp add: group_entry_def Let_def)
qed

fun slot_refs :: "nat list list \<Rightarrow> slot \<Rightarrow> nat list" where
  "slot_refs buckets (Single ix) = [ix]"
| "slot_refs buckets (Bucket b) = buckets ! b"

lemma bucket_members:
  assumes "\<And>c. c \<in> set infos \<Longrightarrow> ci_members c = [as_member c]" "distinct (map ci_context infos)"
  shows "mset (concat (map ci_members (fst (bucket_entries en configs options infos ids)))) = mset (map as_member infos)"
proof -
  have "map ci_members infos = map (\<lambda>c. [as_member c]) infos" using assms(1) by simp
  then have "concat (map ci_members infos) = map as_member infos" by (metis concat_map_singleton)
  then show ?thesis
    using group_members [OF assms(2)] by (auto simp: bucket_entries_def Let_def o_def)
qed

lemma slot_members:
  assumes "\<And>c. c \<in> set contexts \<Longrightarrow> ci_members c = [as_member c]"
    and "\<And>s ix. s \<in> set slots \<Longrightarrow> ix \<in> set (slot_refs buckets s) \<Longrightarrow> ix < length contexts"
    and "\<And>b. Bucket b \<in> set slots \<Longrightarrow> distinct (map (\<lambda>ix. ci_context (contexts ! ix)) (buckets ! b))"
  shows "mset (concat (map ci_members (slot_entries en configs options contexts buckets slots ids)))
       = mset (map (\<lambda>ix. as_member (contexts ! ix)) (concat (map (slot_refs buckets) slots)))"
  using assms(2,3)
proof (induction slots arbitrary: ids)
  case (Cons s slots)
  have rest: "mset (concat (map ci_members (slot_entries en configs options contexts buckets slots ids)))
       = mset (map (\<lambda>ix. as_member (contexts ! ix)) (concat (map (slot_refs buckets) slots)))" for ids
    using Cons by (intro Cons.IH) auto
  have one: "ci_members (contexts ! ix) = [as_member (contexts ! ix)]" if "ix \<in> set (slot_refs buckets s)" for ix
    using Cons.prems(1) [of s ix] that by (intro assms(1)) simp
  show ?case
  proof (cases s)
    case (Single ix)
    with one [of ix] rest show ?thesis by simp
  next
    case (Bucket b)
    let ?infos = "map ((!) contexts) (buckets ! b)"
    have bucket: "mset (concat (map ci_members (fst (bucket_entries en configs options ?infos ids))))
        = mset (map as_member ?infos)"
      using Bucket one Cons.prems(2) [of b] by (intro bucket_members) (auto simp: o_def)
    show ?thesis
    proof (cases "\<exists>ix. buckets ! b = [ix]")
      case True
      with Bucket one rest show ?thesis by auto
    next
      case False
      then have "slot_entries en configs options contexts buckets (s # slots) ids =
          fst (bucket_entries en configs options ?infos ids)
          @ slot_entries en configs options contexts buckets slots (snd (bucket_entries en configs options ?infos ids))"
        using Bucket by (auto simp: Let_def case_prod_beta split: list.split)
      then show ?thesis using Bucket bucket rest by (simp add: o_def)
    qed
  qed
qed simp

lemma slot_refs_count:
  assumes "bucket_refs slots = [0..<length buckets]"
  shows "mset (concat (map (slot_refs buckets) slots)) = mset (singles slots) + mset (concat buckets)"
proof -
  have "mset (concat (map (slot_refs buckets) slots)) = mset (singles slots) + mset (concat (map ((!) buckets) (bucket_refs slots)))" for slots
    by (induction slots) (auto simp: singles_def bucket_refs_def List.map_filter_def split: slot.splits)
  with assms show ?thesis by (simp add: map_nth)
qed

text \<open>Contexts of the same file have different names.\<close>

definition contexts_ok :: "context_info list \<Rightarrow> bool" where
  "contexts_ok contexts \<longleftrightarrow>
     (\<forall>c \<in> set contexts. ci_members c = [as_member c]) \<and>
     distinct (map (\<lambda>c. (ci_file c, ci_context c)) contexts)"

lemma identity_file: "context_identity en configs c = Some key \<Longrightarrow> id_file key = ci_file c"
  by (auto simp: context_identity_def identity_of_def split: if_splits bind_splits)

lemma bucket_distinct:
  assumes ok: "contexts_ok contexts" and sl: "slotted (context_identity en configs) contexts (length contexts) sl"
    and b: "b < length (sl_buckets sl)"
  shows "distinct (map (\<lambda>ix. ci_context (contexts ! ix)) (sl_buckets sl ! b))"
proof -
  note parts = sl [unfolded slotted_def]
  from parts b obtain key where key: "\<forall>ix \<in> set (sl_buckets sl ! b). context_identity en configs (contexts ! ix) = Some key"
    by blast
  have all: "distinct (singles (sl_slots sl) @ concat (sl_buckets sl))"
    "set (singles (sl_slots sl) @ concat (sl_buckets sl)) = {0..<length contexts}"
    using parts by (metis distinct_upt mset_append mset_eq_imp_distinct_iff, metis mset_append mset_eq_setD set_upt)
  have "distinct (sl_buckets sl ! b)" "set (sl_buckets sl ! b) \<subseteq> {0..<length contexts}"
    using all b nth_mem [OF b] by (auto simp: distinct_concat_iff)
  moreover have "ix = iy" if "ix \<in> set (sl_buckets sl ! b)" "iy \<in> set (sl_buckets sl ! b)"
    "ci_context (contexts ! ix) = ci_context (contexts ! iy)" for ix iy
  proof -
    from key that(1,2) have "ci_file (contexts ! ix) = ci_file (contexts ! iy)" by (metis identity_file)
    with that calculation(2) ok show ?thesis
      by (auto simp: contexts_ok_def distinct_map inj_on_def subset_iff distinct_conv_nth)
  qed
  ultimately show ?thesis by (simp add: distinct_map inj_on_def)
qed

text \<open>C27: grouping loses no context and shows none twice: the contexts the entries stand for, taken
  together, are the contexts of the kubeconfigs, however they are grouped or split; and no two entries have
  the same label.\<close>

theorem entries_hold_contexts:
  assumes "contexts_ok contexts"
  shows "mset (concat (map ci_members (entries en contexts configs options))) = mset (map as_member contexts) \<and>
    distinct (map ci_name (entries en contexts configs options))"
proof -
  let ?sl = "slot_all (context_identity en configs) contexts"
  have sl: "slotted (context_identity en configs) contexts (length contexts) ?sl" by (rule slotted_all)
  note parts = sl [unfolded slotted_def]
  let ?refs = "concat (map (slot_refs (sl_buckets ?sl)) (sl_slots ?sl))"
  have refs: "mset ?refs = mset [0..<length contexts]"
    using parts slot_refs_count by metis
  have within: "ix < length contexts" if "s \<in> set (sl_slots ?sl)" "ix \<in> set (slot_refs (sl_buckets ?sl) s)" for s ix
  proof -
    from that have "ix \<in> set ?refs" by auto
    with refs have "ix \<in> set [0..<length contexts]" by (metis mset_eq_setD)
    then show ?thesis by simp
  qed
  have buckets: "distinct (map (\<lambda>ix. ci_context (contexts ! ix)) (sl_buckets ?sl ! b))" if "Bucket b \<in> set (sl_slots ?sl)" for b
  proof -
    from that have "b \<in> set (bucket_refs (sl_slots ?sl))" by (force simp: bucket_refs_def List.map_filter_def)
    with parts have "b < length (sl_buckets ?sl)" by simp
    then show ?thesis by (rule bucket_distinct [OF assms sl])
  qed
  have "mset (concat (map ci_members (entries en contexts configs options)))
      = mset (map (\<lambda>ix. as_member (contexts ! ix)) ?refs)"
    using slot_members [OF _ within buckets, where en = en and configs = configs and options = options and ids = "[]"] assms
    by (simp add: entries_def Let_def contexts_ok_def)
  also have "\<dots> = image_mset (\<lambda>ix. as_member (contexts ! ix)) (mset [0..<length contexts])" by (simp only: mset_map refs)
  also have "\<dots> = mset (map as_member (map ((!) contexts) [0..<length contexts]))"
    by (simp only: mset_map image_mset.compositionality o_def)
  finally show ?thesis by (simp only: map_nth entry_labels_distinct simp_thms)
qed

definition dev_context :: "str \<Rightarrow> context_info" where
  "dev_context ns =
     \<lparr>ci_id = ''dev/'' @ ns, ci_name = ''dev/'' @ ns, ci_context = ''dev/'' @ ns, ci_file = ''/kube/config'',
      ci_cluster = ''dev'', ci_user = Some ''me'', ci_server = None, ci_namespace = Some ns, ci_auth = Token,
      ci_error = None, ci_members = [\<lparr>cm_id = ''dev/'' @ ns, cm_context = ''dev/'' @ ns, cm_namespace = Some ns\<rparr>],
      ci_group = None\<rparr>"

definition dev_config :: configs where
  "dev_config file =
     (if file = ''/kube/config''
      then Some \<lparr>kc_clusters = [(''dev'', Some JNull)], kc_auth_infos = [(''me'', Some JNull)],
                 kc_contexts = [(''dev/a'', Some JNull), (''dev/b'', Some JNull)], kc_current_context = Some ''dev/b''\<rparr>
      else None)"

definition dev_env :: entry_env where
  "dev_env = \<lparr>ee_text = (\<lambda>_. ''null''), ee_host = (\<lambda>_. None)\<rparr>"

theorem entries_hold_contexts_witness:
  "contexts_ok [dev_context ''a'', dev_context ''b''] \<and>
   mset (concat (map ci_members (entries dev_env [dev_context ''a'', dev_context ''b''] dev_config \<lparr>go_enabled = True, go_separate = []\<rparr>)))
     = mset (map as_member [dev_context ''a'', dev_context ''b''])"
proof -
  have "contexts_ok [dev_context ''a'', dev_context ''b'']"
    by (simp add: contexts_ok_def dev_context_def as_member_def)
  then show ?thesis using entries_hold_contexts by blast
qed

end
