(* ===== verification/ClusterInfo.thy ===== *)
theory ClusterInfo
  imports Discovery ContextGroups
begin

text \<open>
  What kind of cluster a connection reaches (\<open>crates/kubyl_kube_core/src/cluster_info.rs\<close>, the
  capabilities of \<open>crates/kubyl_base/src/types.rs\<close>): the guess at the distribution and what action
  predicates ask, from discovery and the user's safety settings.
\<close>

section \<open>Capabilities\<close>

record trivy_caps =
  tr_vulnerabilities :: bool
  tr_config_audit :: bool
  tr_exposed_secrets :: bool
  tr_rbac :: bool
  tr_cluster_rbac :: bool

record flux_caps =
  fx_kustomizations :: bool
  fx_helm_releases :: bool
  fx_sources :: bool
  fx_image_automation :: bool
  fx_notifications :: bool

record argocd_caps =
  ac_applications :: bool
  ac_application_sets :: bool
  ac_projects :: bool

record cluster_caps =
  cc_read_only :: bool
  cc_production :: bool
  cc_openshift :: bool
  cc_metrics_server :: bool
  cc_prometheus :: bool
  cc_olm :: bool
  cc_argocd :: argocd_caps
  cc_flux :: flux_caps
  cc_trivy :: trivy_caps

definition trivy_any :: "trivy_caps \<Rightarrow> bool" where
  "trivy_any t = (tr_vulnerabilities t \<or> tr_config_audit t \<or> tr_exposed_secrets t \<or> tr_rbac t \<or> tr_cluster_rbac t)"

definition flux_any :: "flux_caps \<Rightarrow> bool" where
  "flux_any f =
     (fx_kustomizations f \<or> fx_helm_releases f \<or> fx_sources f \<or> fx_image_automation f \<or> fx_notifications f)"

definition argocd_any :: "argocd_caps \<Rightarrow> bool" where
  "argocd_any a = (ac_applications a \<or> ac_application_sets a \<or> ac_projects a)"

section \<open>Distribution\<close>

datatype distribution =
    Eks | Gke | Aks | OpenShiftCluster | K3s | Rke2 | Kind | Minikube | DockerDesktop | Kubernetes

definition distribution_label :: "distribution \<Rightarrow> str" where
  "distribution_label d =
     (case d of
        Eks \<Rightarrow> ''EKS'' | Gke \<Rightarrow> ''GKE'' | Aks \<Rightarrow> ''AKS'' | OpenShiftCluster \<Rightarrow> ''OpenShift'' | K3s \<Rightarrow> ''k3s''
      | Rke2 \<Rightarrow> ''RKE2'' | Kind \<Rightarrow> ''kind'' | Minikube \<Rightarrow> ''minikube'' | DockerDesktop \<Rightarrow> ''Docker Desktop''
      | Kubernetes \<Rightarrow> ''Kubernetes'')"

record version_info =
  vi_git_version :: str
  vi_platform :: str

definition serves_group :: "discovery option \<Rightarrow> str \<Rightarrow> bool" where
  "serves_group d grp = (case d of Some d \<Rightarrow> has_group d grp | None \<Rightarrow> False)"

definition guess_distribution :: "version_info \<Rightarrow> context_info \<Rightarrow> discovery option \<Rightarrow> distribution" where
  "guess_distribution version c d =
     (let git = to_lowercase (vi_git_version version);
          server = to_lowercase (unwrap_or (ci_server c) []);
          names = to_lowercase (ci_context c @ '' '' @ ci_cluster c)
      in if serves_group d ''config.openshift.io'' \<or> serves_group d ''route.openshift.io'' then OpenShiftCluster
         else if contains ''-eks-'' git \<or> contains ''.eks.amazonaws.com'' server then Eks
         else if contains ''-gke.'' git \<or> starts_with ''gke_'' names then Gke
         else if contains ''.azmk8s.io'' server then Aks
         else if contains ''+k3s'' git then K3s
         else if contains ''+rke2'' git then Rke2
         else if starts_with ''kind-'' names then Kind
         else if contains ''minikube'' names then Minikube
         else if contains ''docker-desktop'' names then DockerDesktop
         else Kubernetes)"

section \<open>Facts about a connected cluster\<close>

record cluster_info =
  in_version :: str
  in_distribution :: distribution
  in_platform :: str
  in_gateway_api :: bool
  in_prometheus_candidates :: "str list"
  in_user :: "str option"

definition cluster_info_new :: "version_info \<Rightarrow> context_info \<Rightarrow> str option \<Rightarrow> cluster_info" where
  "cluster_info_new version c user =
     \<lparr>in_version = vi_git_version version, in_distribution = guess_distribution version c None,
      in_platform = vi_platform version, in_gateway_api = False, in_prometheus_candidates = [], in_user = user\<rparr>"

definition apply_discovery :: "version_info \<Rightarrow> context_info \<Rightarrow> discovery \<Rightarrow> cluster_info \<Rightarrow> cluster_info" where
  "apply_discovery version c d info =
     (let dist = guess_distribution version c (Some d)
      in info\<lparr>in_distribution := dist, in_gateway_api := has_group d ''gateway.networking.k8s.io'',
              in_prometheus_candidates :=
                (if has_group d ''monitoring.coreos.com'' then [''prometheus-operator (monitoring.coreos.com)''] else [])
                @ (if dist = OpenShiftCluster then [''openshift-monitoring/thanos-querier''] else [])\<rparr>)"

definition cluster_summary :: "cluster_info \<Rightarrow> str" where
  "cluster_summary info =
     distribution_label (in_distribution info) @ middle_dot
     @ hd (split_on (\<lambda>c. c \<in> {CHR ''-'', CHR ''+''}) (in_version info))"

section \<open>From discovery and settings\<close>

definition served :: "discovery option \<Rightarrow> str \<Rightarrow> (str \<Rightarrow> bool) \<Rightarrow> bool" where
  "served d grp resource =
     (case d of
        Some d \<Rightarrow> list_ex (\<lambda>r. gvr_group (ar_gvr r) = grp \<and> resource (gvr_resource (ar_gvr r)) \<and> is_listable r) (di_resources d)
      | None \<Rightarrow> False)"

definition trivy_caps_of :: "discovery option \<Rightarrow> trivy_caps" where
  "trivy_caps_of d =
     (let served = (\<lambda>resource. served d ''aquasecurity.github.io'' (\<lambda>r. r = resource))
      in \<lparr>tr_vulnerabilities = served ''vulnerabilityreports'', tr_config_audit = served ''configauditreports'',
          tr_exposed_secrets = served ''exposedsecretreports'', tr_rbac = served ''rbacassessmentreports'',
          tr_cluster_rbac = served ''clusterrbacassessmentreports''\<rparr>)"

definition flux_caps_of :: "discovery option \<Rightarrow> flux_caps" where
  "flux_caps_of d =
     \<lparr>fx_kustomizations = served d ''kustomize.toolkit.fluxcd.io'' (\<lambda>r. r = ''kustomizations''),
      fx_helm_releases = served d ''helm.toolkit.fluxcd.io'' (\<lambda>r. r = ''helmreleases''),
      fx_sources = served d ''source.toolkit.fluxcd.io'' (\<lambda>_. True),
      fx_image_automation = served d ''image.toolkit.fluxcd.io'' (\<lambda>_. True),
      fx_notifications = served d ''notification.toolkit.fluxcd.io'' (\<lambda>_. True)\<rparr>"

definition argocd_caps_of :: "discovery option \<Rightarrow> argocd_caps" where
  "argocd_caps_of d =
     (let served = (\<lambda>resource. served d ''argoproj.io'' (\<lambda>r. r = resource))
      in \<lparr>ac_applications = served ''applications'', ac_application_sets = served ''applicationsets'',
          ac_projects = served ''appprojects''\<rparr>)"

definition caps_of :: "discovery option \<Rightarrow> cluster_info option \<Rightarrow> context_settings \<Rightarrow> cluster_caps" where
  "caps_of d info settings =
     \<lparr>cc_read_only = cs_read_only settings, cc_production = cs_production settings,
      cc_openshift = (case info of Some i \<Rightarrow> in_distribution i = OpenShiftCluster | None \<Rightarrow> False),
      cc_metrics_server = serves_group d ''metrics.k8s.io'',
      cc_prometheus = (case info of Some i \<Rightarrow> in_prometheus_candidates i \<noteq> [] | None \<Rightarrow> False),
      cc_olm = (serves_group d ''operators.coreos.com'' \<or> serves_group d ''olm.operatorframework.io''),
      cc_argocd = argocd_caps_of d, cc_flux = flux_caps_of d, cc_trivy = trivy_caps_of d\<rparr>"

lemma caps_of_flags [simp]:
  "cc_read_only (caps_of d info settings) = cs_read_only settings"
  "cc_production (caps_of d info settings) = cs_production settings"
  by (simp_all add: caps_of_def)

end
