(* ===== verification/ConnState.thy ===== *)
theory ConnState
  imports ClusterInfo "HOL-Library.Product_Lexorder"
begin

text \<open>
  The state of the connection manager (\<open>crates/kubyl_kube_core/src/manager.rs\<close>) and what only reads it:
  which entry an id belongs to, the settings of an entry, its namespaces.  A hash map is a function; the
  order in which it gives out its keys is an argument of what goes through them.  A task the host runs is
  named by what its callback was given; it may report as long as its handle is kept.  The client is \<open>'c\<close>,
  instants and delays are in seconds, latencies in milliseconds.
\<close>

section \<open>Connections\<close>

datatype connect_error =
    SignInRequired | AuthError str "str option" | ForbiddenError str | UnreachableError str | ConfigError str

definition connect_error_text :: "connect_error \<Rightarrow> str" where
  "connect_error_text e =
     (case e of
        SignInRequired \<Rightarrow> ''sign-in required''
      | AuthError message _ \<Rightarrow> ''authentication failed: '' @ message
      | ForbiddenError message \<Rightarrow> ''forbidden: '' @ message
      | UnreachableError message \<Rightarrow> message
      | ConfigError message \<Rightarrow> ''invalid kubeconfig: '' @ message)"

datatype connection_state =
    Disconnected
  | Connecting
  | Connected nat str
  | AuthRequired str "str option" (needs_sign_in: bool) bool
  | Unreachable str "nat option"
  | Forbidden str

definition is_connected :: "connection_state \<Rightarrow> bool" where
  "is_connected s = (case s of Connected _ _ \<Rightarrow> True | _ \<Rightarrow> False)"

definition state_label :: "connection_state \<Rightarrow> str" where
  "state_label s =
     (case s of
        Disconnected \<Rightarrow> ''Not connected''
      | Connecting \<Rightarrow> ''Connecting'' @ ellipsis
      | Connected latency _ \<Rightarrow> ''Connected'' @ middle_dot @ show_nat (max latency 1) @ ''ms''
      | AuthRequired _ _ sign_in rejected \<Rightarrow> if sign_in \<and> \<not> rejected then ''Sign-in required'' else ''Auth failed''
      | Unreachable _ _ \<Rightarrow> ''Unreachable''
      | Forbidden _ \<Rightarrow> ''Forbidden'')"

definition state_error :: "connection_state \<Rightarrow> str option" where
  "state_error s =
     (case s of
        AuthRequired message _ _ _ \<Rightarrow> Some message
      | Unreachable message _ \<Rightarrow> Some message
      | Forbidden message \<Rightarrow> Some message
      | _ \<Rightarrow> None)"

record namespaces =
  ns_names :: "str list"
  ns_listed :: bool
  ns_kubeconfig :: "str list"

definition namespaces_default :: namespaces where
  "namespaces_default = \<lparr>ns_names = [], ns_listed = False, ns_kubeconfig = []\<rparr>"

datatype credential_source = ExecSource nat | OidcSource nat | OpenShiftSource nat

record 'c built_client =
  bc_client :: 'c
  bc_credentials :: "credential_source option"
  bc_bearer :: "str option"
  bc_default_namespace :: str
  bc_proxy :: "str option"
  bc_rebuild_at :: "nat option"

record access_query =
  aq_verb :: str
  aq_group :: str
  aq_resource :: str
  aq_subresource :: "str option"
  aq_namespace :: "str option"
  aq_name :: "str option"

text \<open>Answers with the instant they came at.\<close>

type_synonym access_cache = "access_query \<rightharpoonup> bool \<times> nat"

definition access_ttl :: nat where "access_ttl = 300"

definition access_get :: "nat \<Rightarrow> access_query \<Rightarrow> access_cache \<Rightarrow> bool option" where
  "access_get now query cache =
     (case cache query of Some (allowed, when) \<Rightarrow> if now - when < access_ttl then Some allowed else None | None \<Rightarrow> None)"

definition access_insert :: "nat \<Rightarrow> access_query \<Rightarrow> bool \<Rightarrow> access_cache \<Rightarrow> access_cache" where
  "access_insert now query allowed cache = cache(query \<mapsto> (allowed, now))"

text \<open>What a task's callback was given: the id and generation of its connection.\<close>

datatype conn_task =
    ConnectTask str nat
  | RetryTimer str nat nat
  | NamespaceWatch str nat
  | NamespaceBatches str nat
  | CrdWatch str nat
  | CrdBatches str nat
  | DiscoverTask str nat
  | UnservedTimer str nat nat
  | HealthTimer str nat nat nat
  | PingTask str nat nat

text \<open>\<open>cl_crd_first\<close> is the \<open>first\<close> the callback of the CRD batches keeps.\<close>

record 'c cluster =
  cl_state :: connection_state
  cl_info :: "cluster_info option"
  cl_caps :: cluster_caps
  cl_discovery :: "discovery option"
  cl_crd_count :: "nat option"
  cl_crds :: "str list"
  cl_unserved_retries :: nat
  cl_namespaces :: namespaces
  cl_proxy :: "str option"
  cl_expires_at :: "nat option"
  cl_client :: "'c built_client option"
  cl_version :: "version_info option"
  cl_access :: access_cache
  cl_generation :: nat
  cl_tasks :: "conn_task list"
  cl_health :: "conn_task option"
  cl_failures :: nat
  cl_crd_first :: bool

definition no_caps :: cluster_caps where
  "no_caps =
     \<lparr>cc_read_only = False, cc_production = False, cc_openshift = False, cc_metrics_server = False,
      cc_prometheus = False, cc_olm = False,
      cc_argocd = \<lparr>ac_applications = False, ac_application_sets = False, ac_projects = False\<rparr>,
      cc_flux = \<lparr>fx_kustomizations = False, fx_helm_releases = False, fx_sources = False,
                 fx_image_automation = False, fx_notifications = False\<rparr>,
      cc_trivy = \<lparr>tr_vulnerabilities = False, tr_config_audit = False, tr_exposed_secrets = False,
                  tr_rbac = False, tr_cluster_rbac = False\<rparr>\<rparr>"

definition cluster_default :: "'c cluster" where
  "cluster_default =
     \<lparr>cl_state = Disconnected, cl_info = None, cl_caps = no_caps, cl_discovery = None, cl_crd_count = None,
      cl_crds = [], cl_unserved_retries = 0, cl_namespaces = namespaces_default, cl_proxy = None,
      cl_expires_at = None, cl_client = None, cl_version = None, cl_access = Map.empty, cl_generation = 0,
      cl_tasks = [], cl_health = None, cl_failures = 0, cl_crd_first = True\<rparr>"

definition cluster_default_namespace :: "'c cluster \<Rightarrow> str option" where
  "cluster_default_namespace c = map_option bc_default_namespace (cl_client c)"

text \<open>The delay before the next attempt after \<open>failures\<close> failures: 5 s doubling up to 60 s.\<close>

definition backoff :: "nat \<Rightarrow> nat" where
  "backoff failures = min (5 * 2 ^ min (failures - 1) 8) 60"

definition truncate_detail :: "str \<Rightarrow> nat \<Rightarrow> str" where
  "truncate_detail s n = (if length s \<le> n then s else take n s @ ellipsis)"

section \<open>The manager\<close>

datatype connection_event =
    ContextsChanged
  | StateChanged str
  | NamespacesChanged str
  | DiscoveryChanged str
  | ActiveChanged "str option"
  | SignInRequested str
  | Rekeyed str str

record kube_state =
  ka_active :: "str option"
  ka_namespaces :: "str \<rightharpoonup> str"

datatype kube_effect =
    SaveState kube_state
  | UpdateSettings "kube_settings \<Rightarrow> kube_settings"
  | SyncActive
  | Activated str "str option" bool
  | ClearActive
  | ClusterIdsChanged

datatype kube_action =
    Emitted connection_event | Caused kube_effect | Notified | Toasted "str option" str

record source_spec =
  so_path :: str
  so_files :: "str list"

record loaded =
  ld_sources :: "source_spec list"
  ld_contexts :: "context_info list"
  ld_configs :: configs

definition loaded_default :: loaded where
  "loaded_default = \<lparr>ld_sources = [], ld_contexts = [], ld_configs = Map.empty\<rparr>"

text \<open>The manager's own tasks: the file events, the load of a generation, the watcher planned for it.\<close>

datatype manager_task = FileEvents | LoadTask nat | WatcherTask nat

record 'c manager =
  mg_pasted_dir :: str
  mg_loaded :: loaded
  mg_entries :: "context_info list"
  mg_entry_index :: "str \<rightharpoonup> nat"
  mg_member_index :: "str \<rightharpoonup> nat"
  mg_aliases :: "str \<rightharpoonup> str"
  mg_fingerprints :: "str \<rightharpoonup> 64 word"
  mg_clusters :: "str \<rightharpoonup> 'c cluster"
  mg_active :: "str option"
  mg_restored :: bool
  mg_loading :: bool
  mg_reload_generation :: nat
  mg_watch_files :: bool
  mg_file_events :: bool
  mg_settings :: kube_settings
  mg_state :: kube_state
  mg_interactive :: "str set"
  mg_tasks :: "manager_task list"
  mg_out :: "kube_action list"

definition manager_new :: "str \<Rightarrow> bool \<Rightarrow> kube_settings \<Rightarrow> kube_state \<Rightarrow> 'c manager" where
  "manager_new pasted_dir watch_files settings state =
     \<lparr>mg_pasted_dir = pasted_dir, mg_loaded = loaded_default, mg_entries = [], mg_entry_index = Map.empty,
      mg_member_index = Map.empty, mg_aliases = Map.empty, mg_fingerprints = Map.empty, mg_clusters = Map.empty,
      mg_active = None, mg_restored = False, mg_loading = False, mg_reload_generation = 0,
      mg_watch_files = watch_files, mg_file_events = False, mg_settings = settings, mg_state = state,
      mg_interactive = {}, mg_tasks = [], mg_out = []\<rparr>"

section \<open>Entries by id\<close>

definition index_entry :: "nat \<times> context_info \<Rightarrow> (str \<rightharpoonup> nat) \<times> (str \<rightharpoonup> nat) \<Rightarrow> (str \<rightharpoonup> nat) \<times> (str \<rightharpoonup> nat)" where
  "index_entry ie maps =
     (let (ix, e) = ie; (by_id, by_member) = maps
      in (by_id(ci_id e \<mapsto> ix), fold (\<lambda>m by_member. by_member(cm_id m \<mapsto> ix)) (ci_members e) by_member))"

definition index_entries :: "context_info list \<Rightarrow> (str \<rightharpoonup> nat) \<times> (str \<rightharpoonup> nat)" where
  "index_entries es = fold index_entry (enumerate 0 es) (Map.empty, Map.empty)"

text \<open>\<open>Iterator::min_by_key\<close>.\<close>

fun min_by_key :: "('a \<Rightarrow> 'b::linorder) \<Rightarrow> 'a list \<Rightarrow> 'a option" where
  "min_by_key k [] = None"
| "min_by_key k (x # xs) =
     (case min_by_key k xs of Some y \<Rightarrow> if k y < k x then Some y else Some x | None \<Rightarrow> Some x)"

text \<open>At most \<open>n\<close> steps along the aliases: \<open>Inl\<close> an entry that was found, \<open>Inr\<close> where it stopped.\<close>

fun follow_aliases ::
  "nat \<Rightarrow> context_info list \<Rightarrow> (str \<rightharpoonup> nat) \<Rightarrow> (str \<rightharpoonup> nat) \<Rightarrow> (str \<rightharpoonup> str) \<Rightarrow> str \<Rightarrow> str + str" where
  "follow_aliases 0 es by_id by_member aliases i = Inr i"
| "follow_aliases (Suc n) es by_id by_member aliases i =
     (if by_id i \<noteq> None then Inl i
      else case by_member i of
             Some ix \<Rightarrow> Inl (ci_id (es ! ix))
           | None \<Rightarrow> (case aliases i of
                       Some j \<Rightarrow> follow_aliases n es by_id by_member aliases j
                     | None \<Rightarrow> Inr i))"

definition split_group_member :: "loaded \<Rightarrow> str \<times> str \<times> str \<Rightarrow> context_info option" where
  "split_group_member ld parts =
     (let (cluster, user, path) = parts;
          current = Option.bind (ld_configs ld path) kc_current_context
      in min_by_key (\<lambda>c. (Some (ci_context c) \<noteq> current, ci_context c))
           (filter (\<lambda>c. ci_file c = path \<and> ci_cluster c = cluster \<and> unwrap_or (ci_user c) [] = user) (ld_contexts ld)))"

definition resolve_in ::
  "context_info list \<Rightarrow> (str \<rightharpoonup> nat) \<Rightarrow> (str \<rightharpoonup> nat) \<Rightarrow> (str \<rightharpoonup> str) \<Rightarrow> loaded \<Rightarrow> str \<Rightarrow> str" where
  "resolve_in es by_id by_member aliases ld i =
     (case follow_aliases 4 es by_id by_member aliases i of
        Inl e \<Rightarrow> e
      | Inr i \<Rightarrow>
          (case Option.bind (parse_group_id i) (\<lambda>parts.
                  Option.bind (split_group_member ld parts) (\<lambda>c. by_member (ci_id c))) of
             Some ix \<Rightarrow> ci_id (es ! ix)
           | None \<Rightarrow> i))"

definition resolve_id :: "'c manager \<Rightarrow> str \<Rightarrow> str" where
  "resolve_id m = resolve_in (mg_entries m) (mg_entry_index m) (mg_member_index m) (mg_aliases m) (mg_loaded m)"

definition entry_of :: "'c manager \<Rightarrow> str \<Rightarrow> context_info option" where
  "entry_of m i =
     (case or_else (mg_entry_index m i) (mg_entry_index m (resolve_id m i)) of
        Some ix \<Rightarrow> if ix < length (mg_entries m) then Some (mg_entries m ! ix) else None
      | None \<Rightarrow> None)"

definition loaded_context :: "'c manager \<Rightarrow> str \<Rightarrow> context_info option" where
  "loaded_context m i = find (\<lambda>c. ci_id c = i) (ld_contexts (mg_loaded m))"

text \<open>\<open>retain\<close> of the keys not seen before.\<close>

definition keep_first :: "'a list \<Rightarrow> 'a list" where
  "keep_first xs = rev (remdups (rev xs))"

definition settings_keys :: "'c manager \<Rightarrow> str \<Rightarrow> str list" where
  "settings_keys m i =
     (case entry_of m i of
        None \<Rightarrow> [i]
      | Some e \<Rightarrow> keep_first (remdups_adj (ci_id e # map cm_id (ci_members e) @ map cm_context (ci_members e))))"

section \<open>Settings of an entry\<close>

definition separated_group :: "context_info \<Rightarrow> str option" where
  "separated_group e =
     (case ci_group e of Some g \<Rightarrow> if \<not> is_group e \<and> g \<noteq> ci_id e then Some g else None | None \<Rightarrow> None)"

definition entry_settings :: "kube_settings \<Rightarrow> context_info \<Rightarrow> context_settings" where
  "entry_settings s e =
     (let keys = ci_id e # (if is_group e then map cm_id (ci_members e) else []);
          own = merged s keys
      in case separated_group e of
           Some g \<Rightarrow>
             (let grp = context_of s g
              in own\<lparr>cs_production := cs_production own \<or> cs_production grp,
                     cs_read_only := cs_read_only own \<or> cs_read_only grp\<rparr>)
         | None \<Rightarrow> own)"

definition settings_for :: "'c manager \<Rightarrow> str \<Rightarrow> context_settings" where
  "settings_for m i =
     (case entry_of m i of Some e \<Rightarrow> entry_settings (mg_settings m) e | None \<Rightarrow> context_of (mg_settings m) i)"

definition display_name :: "'c manager \<Rightarrow> str \<Rightarrow> str" where
  "display_name m i =
     unwrap_or (or_else (cs_display_name (settings_for m i)) (map_option ci_name (entry_of m i))) i"

definition color_tag_of :: "'c manager \<Rightarrow> str \<Rightarrow> color_tag" where
  "color_tag_of m i = (let i = resolve_id m i in context_color_tag i (settings_for m i))"

definition is_loading :: "'c manager \<Rightarrow> bool" where
  "is_loading m = (mg_loading m \<and> ld_sources (mg_loaded m) = [])"

definition visible_entries :: "'c manager \<Rightarrow> context_info list" where
  "visible_entries m = filter (\<lambda>e. \<not> cs_hidden (settings_for m (ci_id e))) (mg_entries m)"

section \<open>Namespaces without a list\<close>

definition kubeconfig_namespaces :: "context_info option \<Rightarrow> str list" where
  "kubeconfig_namespaces info =
     remdups_adj (sort (case info of
        Some i \<Rightarrow> List.map_filter cm_namespace (ci_members i) @ (case ci_namespace i of Some n \<Rightarrow> [n] | None \<Rightarrow> [])
      | None \<Rightarrow> []))"

definition opt_list :: "'a option \<Rightarrow> 'a list" where
  "opt_list x = (case x of Some y \<Rightarrow> [y] | None \<Rightarrow> [])"

definition fallback_namespaces :: "context_info option \<Rightarrow> context_settings \<Rightarrow> str option \<Rightarrow> namespaces" where
  "fallback_namespaces info settings client_default =
     (let kubeconfig = kubeconfig_namespaces info
      in \<lparr>ns_names = remdups_adj (sort (opt_list (cs_default_namespace settings) @ kubeconfig
                                       @ opt_list client_default @ cs_namespaces settings)),
          ns_listed = False, ns_kubeconfig = kubeconfig\<rparr>)"

definition initial_namespace :: "'c manager \<Rightarrow> str \<Rightarrow> str option" where
  "initial_namespace m i =
     (case cs_default_namespace (settings_for m i) of
        Some n \<Rightarrow> Some n
      | None \<Rightarrow>
          Option.bind (entry_of m i) (\<lambda>e.
            if \<not> is_group e then ci_namespace e
            else
              (let current = Option.bind (ld_configs (mg_loaded m) (ci_file e)) kc_current_context
               in case find (\<lambda>mem. Some (cm_context mem) = current) (ci_members e) of
                    Some mem \<Rightarrow> cm_namespace mem
                  | None \<Rightarrow>
                      (case ka_namespaces (mg_state m) (ci_id e) of
                         Some n \<Rightarrow> Some n
                       | None \<Rightarrow> Option.bind (find (\<lambda>mem. cm_context mem = ci_context e) (ci_members e)) cm_namespace))))"

section \<open>Connections by id\<close>

definition conn_key :: "'c manager \<Rightarrow> str \<Rightarrow> str" where
  "conn_key m i = (if mg_clusters m i \<noteq> None then i else resolve_id m i)"

definition cluster_of :: "'c manager \<Rightarrow> str \<Rightarrow> 'c cluster option" where
  "cluster_of m i = mg_clusters m (conn_key m i)"

definition current_conn :: "'c manager \<Rightarrow> str \<Rightarrow> nat \<Rightarrow> 'c cluster option" where
  "current_conn m i gen =
     (case mg_clusters m (conn_key m i) of Some c \<Rightarrow> if cl_generation c = gen then Some c else None | None \<Rightarrow> None)"

definition state_of :: "'c manager \<Rightarrow> str \<Rightarrow> connection_state" where
  "state_of m i = (case cluster_of m i of Some c \<Rightarrow> cl_state c | None \<Rightarrow> Disconnected)"

definition client_of :: "'c manager \<Rightarrow> str \<Rightarrow> 'c option" where
  "client_of m i =
     (case cluster_of m i of
        Some c \<Rightarrow> if is_connected (cl_state c) then map_option bc_client (cl_client c) else None
      | None \<Rightarrow> None)"

definition discovery_of :: "'c manager \<Rightarrow> str \<Rightarrow> discovery option" where
  "discovery_of m i = Option.bind (cluster_of m i) cl_discovery"

definition namespaces_of :: "'c manager \<Rightarrow> str \<Rightarrow> namespaces" where
  "namespaces_of m i = (case cluster_of m i of Some c \<Rightarrow> cl_namespaces c | None \<Rightarrow> namespaces_default)"

definition cluster_caps_of :: "'c manager \<Rightarrow> str \<Rightarrow> cluster_caps" where
  "cluster_caps_of m i =
     (let settings = settings_for m i
      in case cluster_of m i of
           Some c \<Rightarrow> (cl_caps c)\<lparr>cc_read_only := cs_read_only settings, cc_production := cs_production settings\<rparr>
         | None \<Rightarrow> caps_of None None settings)"

definition keys_in :: "str list \<Rightarrow> (str \<rightharpoonup> 'a) \<Rightarrow> str list" where
  "keys_in order m = filter (\<lambda>k. m k \<noteq> None) order"

definition connected_count :: "str list \<Rightarrow> 'c manager \<Rightarrow> nat" where
  "connected_count order m =
     length (filter (\<lambda>k. case mg_clusters m k of Some c \<Rightarrow> is_connected (cl_state c) | None \<Rightarrow> False) (keys_in order (mg_clusters m)))"

definition cached_can_i :: "nat \<Rightarrow> 'c manager \<Rightarrow> str \<Rightarrow> access_query \<Rightarrow> bool option" where
  "cached_can_i now m i query = Option.bind (cluster_of m i) (\<lambda>c. access_get now query (cl_access c))"

definition access_check :: "'c manager \<Rightarrow> str \<Rightarrow> ('c \<times> nat option) option" where
  "access_check m i = map_option (\<lambda>client. (client, map_option cl_generation (cluster_of m i))) (client_of m i)"

definition credentials_of :: "'c manager \<Rightarrow> str \<Rightarrow> credential_source option" where
  "credentials_of m i = Option.bind (Option.bind (cluster_of m i) cl_client) bc_credentials"

definition bearer_token :: "'c manager \<Rightarrow> str \<Rightarrow> str option" where
  "bearer_token m i =
     (case cluster_of m i of
        Some c \<Rightarrow> if is_connected (cl_state c) then Option.bind (cl_client c) bc_bearer else None
      | None \<Rightarrow> None)"

record badge_info =
  bi_id :: str
  bi_name :: str
  bi_color :: color_tag
  bi_production :: bool
  bi_meta :: "str option"
  bi_connected :: bool

definition badge_of :: "'c manager \<Rightarrow> str \<Rightarrow> badge_info" where
  "badge_of m i =
     (let settings = settings_for m i; state = state_of m i;
          meta = (case Option.bind (cluster_of m i) cl_info of
                    Some info \<Rightarrow> if is_connected state then Some (cluster_summary info) else Some (state_label state)
                  | None \<Rightarrow> Some (state_label state))
      in \<lparr>bi_id = i, bi_name = display_name m i, bi_color = color_tag_of m i,
          bi_production = cs_production settings, bi_meta = meta, bi_connected = is_connected state\<rparr>)"

section \<open>Fingerprints\<close>

text \<open>What a connection is made of; \<open>hash\<close> answers the hash of what was written, if anything was.\<close>

definition fingerprint :: "(json \<Rightarrow> str) \<Rightarrow> (str option \<Rightarrow> 64 word) \<Rightarrow> context_info \<Rightarrow> kubeconfig option \<Rightarrow> 64 word" where
  "fingerprint text hash info config =
     hash (map_option (\<lambda>config.
         text (JArr [or_null (map_option context_rest (contents (kc_contexts config) (ci_context info))),
                     or_null (contents (kc_clusters config) (ci_cluster info)),
                     or_null (Option.bind (ci_user info) (contents (kc_auth_infos config)))]))
       config)"

end
