(* ===== verification/ConnSettings.thy ===== *)
theory ConnSettings
  imports ConnState
begin

text \<open>
  Changing the settings of an entry (\<open>update_context_settings\<close> and its neighbours in
  \<open>crates/kubyl_kube_core/src/manager.rs\<close>).  The closure handed to the host is a function on the stored
  settings.  The safety flags an entry shows are the ones the user set, although they are stored under the
  entry, its members and, for a context shown separately, its group.
\<close>

section \<open>The change\<close>

definition put_settings :: "str \<Rightarrow> context_settings \<Rightarrow> (str \<rightharpoonup> context_settings) \<Rightarrow> (str \<rightharpoonup> context_settings)" where
  "put_settings k c ctxs = (if c = context_settings_default then ctxs(k := None) else ctxs(k \<mapsto> c))"

definition sibling_keeps :: "context_settings \<Rightarrow> str \<Rightarrow> (str \<rightharpoonup> context_settings) \<Rightarrow> (str \<rightharpoonup> context_settings)" where
  "sibling_keeps grp sibling ctxs =
     (let own = unwrap_or (ctxs sibling) context_settings_default
      in put_settings sibling
           (own\<lparr>cs_production := cs_production own \<or> cs_production grp,
                cs_read_only := cs_read_only own \<or> cs_read_only grp\<rparr>) ctxs)"

definition member_follows :: "context_settings \<Rightarrow> str \<Rightarrow> (str \<rightharpoonup> context_settings) \<Rightarrow> (str \<rightharpoonup> context_settings)" where
  "member_follows settings k ctxs =
     (case ctxs k of
        None \<Rightarrow> ctxs
      | Some own \<Rightarrow>
          put_settings k
            (own\<lparr>cs_production := cs_production own \<and> cs_production settings,
                 cs_read_only := cs_read_only own \<and> cs_read_only settings,
                 cs_hidden := cs_hidden own \<and> cs_hidden settings\<rparr>) ctxs)"

definition settings_change ::
  "str option \<Rightarrow> str list \<Rightarrow> str list \<Rightarrow> str \<Rightarrow> context_settings \<Rightarrow> kube_settings \<Rightarrow> kube_settings" where
  "settings_change grp siblings members k settings stored =
     stored\<lparr>ks_contexts :=
       put_settings k settings
         (fold (member_follows settings) members
           (case Option.bind grp (ks_contexts stored) of
              Some g \<Rightarrow> fold (sibling_keeps g) siblings (ks_contexts stored)
            | None \<Rightarrow> ks_contexts stored))\<rparr>"

definition group_siblings :: "'c manager \<Rightarrow> context_info \<Rightarrow> str list" where
  "group_siblings m e =
     (case separated_group e of
        Some g \<Rightarrow> map ci_id (filter (\<lambda>x. ci_group x = Some g \<and> ci_id x \<noteq> ci_id e) (mg_entries m))
      | None \<Rightarrow> [])"

definition context_settings_change ::
  "'c manager \<Rightarrow> str \<Rightarrow> (context_settings \<Rightarrow> context_settings) \<Rightarrow> kube_settings \<Rightarrow> kube_settings" where
  "context_settings_change m i f =
     (case entry_of m i of
        Some e \<Rightarrow>
          (let grp = separated_group e;
               members = (if is_group e then map cm_id (ci_members e) else []) @ opt_list grp
           in settings_change grp (group_siblings m e) members (ci_id e) (f (settings_for m (ci_id e))))
      | None \<Rightarrow> settings_change None [] [] i (f (context_of (mg_settings m) i)))"

definition cause :: "kube_effect \<Rightarrow> 'c manager \<Rightarrow> 'c manager" where
  "cause e m = m\<lparr>mg_out := mg_out m @ [Caused e]\<rparr>"

definition update_context_settings :: "str \<Rightarrow> (context_settings \<Rightarrow> context_settings) \<Rightarrow> 'c manager \<Rightarrow> 'c manager" where
  "update_context_settings i f m = cause (UpdateSettings (context_settings_change m i f)) m"

definition set_group_contexts :: "bool \<Rightarrow> 'c manager \<Rightarrow> 'c manager" where
  "set_group_contexts grouped m = cause (UpdateSettings (\<lambda>s. s\<lparr>ks_group_contexts := grouped\<rparr>)) m"

definition set_group_separate :: "str \<Rightarrow> bool \<Rightarrow> 'c manager \<Rightarrow> 'c manager" where
  "set_group_separate g separate m =
     cause (UpdateSettings (\<lambda>s. s\<lparr>ks_separate_groups :=
       filter (\<lambda>x. x \<noteq> g) (ks_separate_groups s) @ (if separate then [g] else [])\<rparr>)) m"

definition move_context_settings :: "str \<Rightarrow> str \<Rightarrow> 'c manager \<Rightarrow> 'c manager" where
  "move_context_settings i j m =
     (if i = j then m
      else cause (UpdateSettings (\<lambda>s.
        case ks_contexts s i of
          Some c \<Rightarrow> s\<lparr>ks_contexts := (ks_contexts s)(i := None, j \<mapsto> c)\<rparr>
        | None \<Rightarrow> s)) m)"

definition set_load_default_kubeconfig :: "bool \<Rightarrow> 'c manager \<Rightarrow> 'c manager" where
  "set_load_default_kubeconfig load m = cause (UpdateSettings (\<lambda>s. s\<lparr>ks_load_default_kubeconfig := load\<rparr>)) m"

definition set_load_kubeconfig_env :: "bool \<Rightarrow> 'c manager \<Rightarrow> 'c manager" where
  "set_load_kubeconfig_env load m = cause (UpdateSettings (\<lambda>s. s\<lparr>ks_load_kubeconfig_env := load\<rparr>)) m"

definition add_sources :: "str list \<Rightarrow> 'c manager \<Rightarrow> 'c manager" where
  "add_sources paths m =
     (let existing = concat (map (\<lambda>s. so_path s # so_files s) (ld_sources (mg_loaded m)));
          new = filter (\<lambda>p. p \<notin> set existing) paths
      in if new = [] then m\<lparr>mg_out := mg_out m @ [Toasted None ''Those kubeconfigs are already loaded.'']\<rparr>
         else cause (UpdateSettings (\<lambda>s. s\<lparr>ks_kubeconfigs := fold push_absent new (ks_kubeconfigs s)\<rparr>)) m)"

section \<open>What is stored\<close>

definition safety_flags :: "(context_settings \<Rightarrow> bool) set" where
  "safety_flags = {cs_production, cs_read_only}"

lemma off_by_default:
  "flag \<in> safety_flags \<Longrightarrow> \<not> flag context_settings_default" "\<not> cs_hidden context_settings_default"
  by (auto simp: safety_flags_def context_settings_default_def)

lemma flag_put:
  assumes "flag \<in> safety_flags \<or> flag = cs_hidden"
  shows "flag_at flag (put_settings k c ctxs) k' = (if k' = k then flag c else flag_at flag ctxs k')"
  using assms off_by_default by (auto simp: put_settings_def flag_at_def)

lemma flag_default:
  "flag \<in> safety_flags \<or> flag = cs_hidden \<Longrightarrow> flag (unwrap_or (ctxs k) context_settings_default) = flag_at flag ctxs k"
  using off_by_default by (auto simp: unwrap_or_def flag_at_def split: option.splits)

lemma flag_sibling:
  assumes "flag \<in> safety_flags"
  shows "flag_at flag (sibling_keeps grp k ctxs) k' = (flag_at flag ctxs k' \<or> k' = k \<and> flag grp)"
  using assms flag_default [of flag ctxs k]
  by (auto simp: sibling_keeps_def Let_def flag_put safety_flags_def)

lemma hidden_sibling: "flag_at cs_hidden (sibling_keeps grp k ctxs) k' = flag_at cs_hidden ctxs k'"
  using flag_default [of cs_hidden ctxs k] by (auto simp: sibling_keeps_def Let_def flag_put)

lemma flag_member:
  assumes "flag \<in> safety_flags \<or> flag = cs_hidden"
  shows "flag_at flag (member_follows settings k ctxs) k' = (flag_at flag ctxs k' \<and> (k' = k \<longrightarrow> flag settings))"
  using assms
  by (auto simp: member_follows_def flag_put safety_flags_def split: option.splits)
    (auto simp: flag_at_def split: option.splits)

lemma flag_siblings:
  "flag \<in> safety_flags \<Longrightarrow>
   flag_at flag (fold (sibling_keeps grp) ks ctxs) k' = (flag_at flag ctxs k' \<or> k' \<in> set ks \<and> flag grp)"
  by (induction ks arbitrary: ctxs) (auto simp: flag_sibling)

lemma hidden_siblings: "flag_at cs_hidden (fold (sibling_keeps grp) ks ctxs) k' = flag_at cs_hidden ctxs k'"
  by (induction ks arbitrary: ctxs) (auto simp: hidden_sibling)

lemma flag_members:
  "flag \<in> safety_flags \<or> flag = cs_hidden \<Longrightarrow>
   flag_at flag (fold (member_follows settings) ks ctxs) k' = (flag_at flag ctxs k' \<and> (k' \<in> set ks \<longrightarrow> flag settings))"
  by (induction ks arbitrary: ctxs) (auto simp: flag_member)

lemma flag_changed:
  assumes "flag \<in> safety_flags"
  shows "flag_at flag (ks_contexts (settings_change grp siblings members k settings stored)) k' =
    (if k' = k then flag settings
     else (flag_at flag (ks_contexts stored) k'
           \<or> (k' \<in> set siblings \<and> (case grp of Some g \<Rightarrow> flag_at flag (ks_contexts stored) g | None \<Rightarrow> False)))
       \<and> (k' \<in> set members \<longrightarrow> flag settings))"
proof (cases "Option.bind grp (ks_contexts stored)")
  case None
  then have "(case grp of Some g \<Rightarrow> flag_at flag (ks_contexts stored) g | None \<Rightarrow> False) = False"
    by (cases grp) (simp_all add: flag_at_def)
  with None assms show ?thesis by (simp add: settings_change_def flag_put flag_members)
next
  case (Some c)
  then have "(case grp of Some g \<Rightarrow> flag_at flag (ks_contexts stored) g | None \<Rightarrow> False) = flag c"
    by (cases grp) (simp_all add: flag_at_def)
  with Some assms show ?thesis by (simp add: settings_change_def flag_put flag_members flag_siblings)
qed

lemma hidden_changed:
  "flag_at cs_hidden (ks_contexts (settings_change grp siblings members k settings stored)) k' =
    (if k' = k then cs_hidden settings else flag_at cs_hidden (ks_contexts stored) k' \<and> (k' \<in> set members \<longrightarrow> cs_hidden settings))"
  by (cases "Option.bind grp (ks_contexts stored)")
    (simp_all add: settings_change_def flag_put flag_members hidden_siblings)

section \<open>Entries that are apart\<close>

definition entry_keys :: "context_info \<Rightarrow> str list" where
  "entry_keys e = ci_id e # (if is_group e then map cm_id (ci_members e) else [])"

text \<open>No key belongs to two entries, a group is its own, and the group of a context shown separately is
  not an entry.\<close>

definition entries_apart :: "context_info list \<Rightarrow> bool" where
  "entries_apart es \<longleftrightarrow>
     distinct (concat (map entry_keys es)) \<and>
     (\<forall>e \<in> set es. is_group e \<longrightarrow> ci_group e = Some (ci_id e)) \<and>
     (\<forall>e \<in> set es. case separated_group e of Some g \<Rightarrow> g \<notin> set (concat (map entry_keys es)) | None \<Rightarrow> True)"

definition indexed :: "'c manager \<Rightarrow> bool" where
  "indexed m \<longleftrightarrow> (mg_entry_index m, mg_member_index m) = index_entries (mg_entries m)"

lemma index_ids:
  "(if k \<in> ci_id ` set es
    then \<exists>i < length es. ci_id (es ! i) = k \<and> fst (fold index_entry (enumerate n es) maps) k = Some (n + i)
    else fst (fold index_entry (enumerate n es) maps) k = fst maps k)"
proof (induction es arbitrary: n maps)
  case (Cons e es)
  show ?case
    using Cons.IH [of "Suc n" "index_entry (n, e) maps"]
    by (auto simp: index_entry_def case_prod_beta split: if_splits)
qed simp

lemma index_members:
  "(if k \<in> cm_id ` set (concat (map ci_members es))
    then \<exists>i < length es. k \<in> cm_id ` set (ci_members (es ! i)) \<and> snd (fold index_entry (enumerate n es) maps) k = Some (n + i)
    else snd (fold index_entry (enumerate n es) maps) k = snd maps k)"
proof (induction es arbitrary: n maps)
  case (Cons e es)
  have one: "fold (\<lambda>mem by_member. by_member(cm_id mem \<mapsto> n)) ms by_member k =
      (if k \<in> cm_id ` set ms then Some n else by_member k)" for ms :: "ctx_member list" and by_member
    by (induction ms arbitrary: by_member) auto
  show ?case
    using Cons.IH [of "Suc n" "index_entry (n, e) maps"]
    by (auto simp: index_entry_def case_prod_beta one split: if_splits)
qed simp

lemma entry_of_entry:
  assumes "indexed m" "distinct (map ci_id (mg_entries m))" "e \<in> set (mg_entries m)"
  shows "entry_of m (ci_id e) = Some e"
proof -
  from assms(3) index_ids [of "ci_id e" "mg_entries m" 0 "(Map.empty, Map.empty)"]
  obtain i where i: "i < length (mg_entries m)" "ci_id (mg_entries m ! i) = ci_id e"
    "fst (index_entries (mg_entries m)) (ci_id e) = Some i"
    by (auto simp: index_entries_def)
  from assms(2,3) i(1,2) have "mg_entries m ! i = e"
    by (auto simp: distinct_map inj_on_def)
  moreover from assms(1) i(3) have "mg_entry_index m (ci_id e) = Some i" by (metis indexed_def fst_conv)
  ultimately show ?thesis using i(1) by (simp add: entry_of_def)
qed

lemma entries_apart_ids: "entries_apart es \<Longrightarrow> distinct (map ci_id es)"
proof -
  assume "entries_apart es"
  then have "distinct (concat (map entry_keys es))" by (simp add: entries_apart_def)
  then show ?thesis
    by (induction es) (auto simp: entry_keys_def)
qed

section \<open>Flags are as the user set them\<close>

lemma context_flag: "flag \<in> safety_flags \<Longrightarrow> flag (context_of s k) = flag_at flag (ks_contexts s) k"
  by (simp add: context_of_def flag_default)

lemma shown_flag:
  assumes "flag \<in> safety_flags"
  shows "flag (entry_settings s e) =
     (list_ex (flag_at flag (ks_contexts s)) (entry_keys e) \<or>
      (case separated_group e of Some g \<Rightarrow> flag_at flag (ks_contexts s) g | None \<Rightarrow> False))"
proof -
  have "cs_production \<in> safety_flags" "cs_read_only \<in> safety_flags" by (simp_all add: safety_flags_def)
  note ctx = this [THEN context_flag]
  from assms consider "flag = cs_production" | "flag = cs_read_only" by (auto simp: safety_flags_def)
  then show ?thesis
    by cases (simp_all only: entry_settings_def Let_def entry_keys_def, simp_all add: merged_flags ctx split: option.split)
qed

lemma shown_hidden:
  "cs_hidden (entry_settings s e) =
     (flag_at cs_hidden (ks_contexts s) (ci_id e) \<or>
      is_group e \<and> ci_members e \<noteq> [] \<and> list_all (flag_at cs_hidden (ks_contexts s)) (map cm_id (ci_members e)))"
  by (simp add: entry_settings_def Let_def merged_hidden split: option.split)

text \<open>The manager once the host has carried out the change of an entry's settings.\<close>

definition after_change :: "'c manager \<Rightarrow> context_info \<Rightarrow> (context_settings \<Rightarrow> context_settings) \<Rightarrow> 'c manager" where
  "after_change m e f = m\<lparr>mg_settings := context_settings_change m (ci_id e) f (mg_settings m)\<rparr>"

lemma after_change_lookup [simp]:
  "entry_of (after_change m e f) = entry_of m"
  "mg_settings (after_change m e f) = context_settings_change m (ci_id e) f (mg_settings m)"
  by (rule ext) (simp_all add: after_change_def entry_of_def resolve_id_def split: option.split)

lemma group_apart:
  "entries_apart es \<Longrightarrow> e \<in> set es \<Longrightarrow> separated_group e = Some g \<Longrightarrow> x \<in> set es \<Longrightarrow> g \<notin> set (entry_keys x)"
  by (auto simp: entries_apart_def split: option.splits)

lemma keys_apart:
  assumes "entries_apart es" "e \<in> set es" "x \<in> set es" "k \<in> set (entry_keys e)" "k \<in> set (entry_keys x)"
  shows "x = e"
proof -
  from assms(1) have "distinct (concat (map entry_keys es))" by (simp add: entries_apart_def)
  then show ?thesis using assms(2-5)
    by (induction es) auto
qed

lemma flags_after:
  assumes m: "indexed m" "entries_apart (mg_entries m)" and e: "e \<in> set (mg_entries m)" "x \<in> set (mg_entries m)"
    and flag: "flag \<in> safety_flags"
  shows "flag (settings_for (after_change m e f) (ci_id x)) =
    (if x = e then flag (f (settings_for m (ci_id e))) else flag (settings_for m (ci_id x)))"
proof -
  note look = entry_of_entry [OF m(1) entries_apart_ids [OF m(2)]]
  let ?shown = "f (settings_for m (ci_id e))" and ?at = "flag_at flag (ks_contexts (mg_settings m))"
  let ?grp = "separated_group e" and ?sib = "group_siblings m e"
  let ?mem = "(if is_group e then map cm_id (ci_members e) else []) @ opt_list ?grp"
  let ?in_group = "case ?grp of Some g \<Rightarrow> ?at g | None \<Rightarrow> False"
  have after: "settings_for (after_change m e f) (ci_id x) =
      entry_settings (settings_change ?grp ?sib ?mem (ci_id e) ?shown (mg_settings m)) x"
    by (simp add: settings_for_def look [OF e(1)] look [OF e(2)] context_settings_change_def Let_def)
  have before: "settings_for m (ci_id x) = entry_settings (mg_settings m) x"
    by (simp add: settings_for_def look [OF e(2)])
  have new: "flag_at flag (ks_contexts (settings_change ?grp ?sib ?mem (ci_id e) ?shown (mg_settings m))) k =
      (if k = ci_id e then flag ?shown else (?at k \<or> (k \<in> set ?sib \<and> ?in_group)) \<and> (k \<in> set ?mem \<longrightarrow> flag ?shown))" for k
    using flag by (rule flag_changed)
  show ?thesis
  proof (cases "x = e")
    case True
    have "flag_at flag (ks_contexts (settings_change ?grp ?sib ?mem (ci_id e) ?shown (mg_settings m))) k = False"
      if "\<not> flag ?shown" "k \<in> set (entry_keys e) \<or> ?grp = Some k" for k
      using that unfolding new by (auto simp: entry_keys_def opt_list_def split: if_splits)
    moreover have "flag_at flag (ks_contexts (settings_change ?grp ?sib ?mem (ci_id e) ?shown (mg_settings m))) (ci_id e) = flag ?shown"
      unfolding new by simp
    ultimately show ?thesis
      using True unfolding after shown_flag [OF flag] list_ex_iff
      by (cases "flag ?shown") (auto simp: entry_keys_def split: option.splits)
  next
    case False
    note apart = keys_apart [OF m(2)] and grp_apart = group_apart [OF m(2)]
    have sep: "separated_group y = Some g \<longleftrightarrow> \<not> is_group y \<and> ci_group y = Some g \<and> g \<noteq> ci_id y" for y g
      by (auto simp: separated_group_def split: option.splits)
    have own: "ci_id y \<in> set (entry_keys y)" for y by (simp add: entry_keys_def)
    have ne: "k \<noteq> ci_id e" if "k \<in> set (entry_keys x)" for k
      using apart [OF e(1) e(2) own] that False by auto
    have sib: "k \<in> set ?sib \<longleftrightarrow> ?grp \<noteq> None \<and> separated_group x = ?grp" if k: "k \<in> set (entry_keys x)" for k
    proof
      assume "k \<in> set ?sib"
      then obtain g y where y: "?grp = Some g" "y \<in> set (mg_entries m)" "ci_group y = Some g" "k = ci_id y"
        by (cases ?grp) (auto simp: group_siblings_def)
      with apart [OF y(2) e(2) own] k have "y = x" by auto
      have "g \<notin> set (entry_keys x)" using grp_apart [OF e(1) y(1) e(2)] .
      with own have "g \<noteq> ci_id x" by metis
      moreover have "\<not> is_group x"
        using m(2) e(2) y(3) \<open>y = x\<close> \<open>g \<noteq> ci_id x\<close> by (auto simp: entries_apart_def)
      ultimately have "separated_group x = Some g" unfolding sep using y(3) \<open>y = x\<close> by simp
      with y(1) show "?grp \<noteq> None \<and> separated_group x = ?grp" by simp
    next
      assume "?grp \<noteq> None \<and> separated_group x = ?grp"
      then obtain g where g: "?grp = Some g" "separated_group x = Some g" by auto
      from g(2) have x: "\<not> is_group x" "ci_group x = Some g" unfolding sep by simp_all
      with k have "k = ci_id x" by (simp add: entry_keys_def)
      with x g(1) e(2) ne [OF k] show "k \<in> set ?sib" by (auto simp: group_siblings_def)
    qed
    have mem: "k \<notin> set ?mem" if k: "k \<in> set (entry_keys x)" for k
      using apart [OF e(1) e(2) _ k] grp_apart [OF e(1) _ e(2)] False k
      by (cases ?grp) (auto simp: entry_keys_def opt_list_def split: if_splits)
    have grp_other: "g \<noteq> ci_id e" "g \<notin> set ?sib" "g \<in> set ?mem \<longleftrightarrow> ?grp = Some g" if g: "separated_group x = Some g" for g
    proof -
      have none: "g \<notin> set (entry_keys y)" if "y \<in> set (mg_entries m)" for y using grp_apart [OF e(2) g that] .
      show "g \<noteq> ci_id e" using none [OF e(1)] own by metis
      show "g \<notin> set ?sib" using none own by (cases ?grp) (auto simp: group_siblings_def)
      show "g \<in> set ?mem \<longleftrightarrow> ?grp = Some g"
        using none [OF e(1)] by (cases ?grp) (auto simp: entry_keys_def opt_list_def split: if_splits)
    qed
    show ?thesis
    proof (cases "?grp \<noteq> None \<and> separated_group x = ?grp")
      case True
      then obtain g where g: "?grp = Some g" "separated_group x = Some g" by auto
      from g(2) have keys: "entry_keys x = [ci_id x]" unfolding sep by (simp add: entry_keys_def)
      show ?thesis
        unfolding after before shown_flag [OF flag] new
        using sib [OF own] mem [OF own] ne [OF own] grp_other(1) [OF g(2)] True False g keys by (auto simp: opt_list_def)
    next
      case no: False
      have "list_ex (flag_at flag (ks_contexts (settings_change ?grp ?sib ?mem (ci_id e) ?shown (mg_settings m)))) (entry_keys x)
          = list_ex ?at (entry_keys x)"
        unfolding list_ex_iff new using ne mem sib no by auto
      then show ?thesis
        unfolding after before shown_flag [OF flag]
        using grp_other no False unfolding new by (auto split: option.splits)
    qed
  qed
qed

lemma hidden_after:
  assumes m: "indexed m" "entries_apart (mg_entries m)" and e: "e \<in> set (mg_entries m)"
  shows "cs_hidden (settings_for (after_change m e f) (ci_id e)) = cs_hidden (f (settings_for m (ci_id e)))"
proof -
  note look = entry_of_entry [OF m(1) entries_apart_ids [OF m(2)] e]
  have "settings_for (after_change m e f) (ci_id e) = entry_settings (mg_settings (after_change m e f)) e"
    by (simp add: settings_for_def look)
  then show ?thesis
    by (cases "ci_members e") (auto simp: shown_hidden context_settings_change_def look Let_def hidden_changed list_all_iff)
qed

text \<open>C26: the production and read-only flags and the hidden flag of an entry are afterwards exactly what the
  user set, whether it is a context, a group, or a context of a group shown separately; the safety flags of
  every other entry stay what they were.\<close>

theorem flags_as_set:
  assumes "indexed m" "entries_apart (mg_entries m)" "e \<in> set (mg_entries m)"
  shows "let shown = f (settings_for m (ci_id e)); now = settings_for (after_change m e f)
    in cs_production (now (ci_id e)) = cs_production shown \<and>
       cs_read_only (now (ci_id e)) = cs_read_only shown \<and>
       cs_hidden (now (ci_id e)) = cs_hidden shown \<and>
       (\<forall>x \<in> set (mg_entries m). x \<noteq> e \<longrightarrow>
          cs_production (now (ci_id x)) = cs_production (settings_for m (ci_id x)) \<and>
          cs_read_only (now (ci_id x)) = cs_read_only (settings_for m (ci_id x)))"
proof -
  have "cs_production \<in> safety_flags" "cs_read_only \<in> safety_flags" by (simp_all add: safety_flags_def)
  note flags = this [THEN flags_after [OF assms, rotated]]
  show ?thesis
    by (simp add: Let_def flags hidden_after [OF assms] assms(3))
qed

text \<open>Two contexts of a production group shown separately: one is marked as not production.\<close>

definition apart_entries :: "context_info list" where
  "apart_entries =
     [(dev_context ''a'')\<lparr>ci_group := Some ''dev''\<rparr>, (dev_context ''b'')\<lparr>ci_group := Some ''dev''\<rparr>]"

definition apart_manager :: "unit manager" where
  "apart_manager =
     (manager_new [] False
        (kube_settings_default\<lparr>ks_contexts := [''dev'' \<mapsto> context_settings_default\<lparr>cs_production := True\<rparr>]\<rparr>)
        \<lparr>ka_active = None, ka_namespaces = Map.empty\<rparr>)
     \<lparr>mg_entries := apart_entries, mg_entry_index := fst (index_entries apart_entries),
      mg_member_index := snd (index_entries apart_entries)\<rparr>"

theorem flags_as_set_witness:
  "cs_production (settings_for (after_change apart_manager (hd apart_entries) (cs_production_update (\<lambda>_. False)))
     (ci_id (hd apart_entries))) = False \<and>
   cs_production (settings_for (after_change apart_manager (hd apart_entries) (cs_production_update (\<lambda>_. False)))
     (ci_id (apart_entries ! 1)))
     = cs_production (settings_for apart_manager (ci_id (apart_entries ! 1)))"
proof -
  have "indexed apart_manager" by (simp add: indexed_def apart_manager_def)
  moreover have "entries_apart (mg_entries apart_manager)"
    by (simp add: entries_apart_def apart_manager_def apart_entries_def dev_context_def entry_keys_def
        is_group_def separated_group_def)
  moreover have "hd apart_entries \<in> set (mg_entries apart_manager)" "apart_entries ! 1 \<in> set (mg_entries apart_manager)"
    "apart_entries ! 1 \<noteq> hd apart_entries"
    by (simp_all add: apart_manager_def apart_entries_def dev_context_def)
  ultimately show ?thesis
    using flags_as_set [of apart_manager "hd apart_entries" "cs_production_update (\<lambda>_. False)"] by (simp add: Let_def)
qed

end
