(* ===== verification/Connections.thy ===== *)
theory Connections
  imports ConnSettings
begin

text \<open>
  The operations of the connection manager (\<open>crates/kubyl_kube_core/src/manager.rs\<close>): loading
  kubeconfigs, connecting, what the tasks of a connection report, the health loop, discovery, the active
  cluster.  Each handler is the whole handler; what it asks of the host goes to \<open>mg_out\<close> in order.
\<close>

section \<open>Telling the host\<close>

definition emit_conn :: "connection_event \<Rightarrow> 'c manager \<Rightarrow> 'c manager" where
  "emit_conn e m = m\<lparr>mg_out := mg_out m @ [Emitted e]\<rparr>"

definition notify_views :: "'c manager \<Rightarrow> 'c manager" where
  "notify_views m = m\<lparr>mg_out := mg_out m @ [Notified]\<rparr>"

definition toast :: "str option \<Rightarrow> str \<Rightarrow> 'c manager \<Rightarrow> 'c manager" where
  "toast title message m = m\<lparr>mg_out := mg_out m @ [Toasted title message]\<rparr>"

definition state_changed :: "str \<Rightarrow> 'c manager \<Rightarrow> 'c manager" where
  "state_changed i m = notify_views (cause SyncActive (emit_conn (StateChanged i) m))"

text \<open>\<open>get_mut\<close> of the connection of an id, and of the one that is still current.\<close>

definition update_conn :: "str \<Rightarrow> ('c cluster \<Rightarrow> 'c cluster) \<Rightarrow> 'c manager \<Rightarrow> 'c manager" where
  "update_conn k f m =
     (case mg_clusters m k of Some c \<Rightarrow> m\<lparr>mg_clusters := (mg_clusters m)(k \<mapsto> f c)\<rparr> | None \<Rightarrow> m)"

definition update_current :: "str \<Rightarrow> nat \<Rightarrow> ('c cluster \<Rightarrow> 'c cluster) \<Rightarrow> 'c manager \<Rightarrow> 'c manager" where
  "update_current i gen f m =
     (case current_conn m i gen of Some _ \<Rightarrow> update_conn (conn_key m i) f m | None \<Rightarrow> m)"

definition push_task :: "str \<Rightarrow> nat \<Rightarrow> conn_task \<Rightarrow> 'c manager \<Rightarrow> 'c manager" where
  "push_task i gen t = update_current i gen (\<lambda>c. c\<lparr>cl_tasks := cl_tasks c @ [t]\<rparr>)"

section \<open>Connecting\<close>

definition fresh_attempt :: "'c cluster \<Rightarrow> 'c cluster" where
  "fresh_attempt c =
     c\<lparr>cl_generation := Suc (cl_generation c), cl_tasks := [], cl_health := None, cl_client := None,
       cl_discovery := None, cl_crd_count := None, cl_crds := [], cl_unserved_retries := 0, cl_access := Map.empty\<rparr>"

definition connect_cluster :: "str \<Rightarrow> 'c manager \<Rightarrow> 'c manager" where
  "connect_cluster i m =
     (let i = resolve_id m i
      in case entry_of m i of
           None \<Rightarrow> m
         | Some info \<Rightarrow>
             (let c = fresh_attempt (unwrap_or (mg_clusters m i) cluster_default);
                  c = (if ld_configs (mg_loaded m) (ci_file info) \<noteq> None \<and> ci_error info = None
                       then c\<lparr>cl_state := Connecting, cl_tasks := [ConnectTask i (cl_generation c)]\<rparr>
                       else c\<lparr>cl_state := Unreachable (unwrap_or (ci_error info) ''kubeconfig not loaded'') None\<rparr>)
              in state_changed i (m\<lparr>mg_clusters := (mg_clusters m)(i \<mapsto> c)\<rparr>)))"

definition ensure_connected :: "str \<Rightarrow> 'c manager \<Rightarrow> 'c manager" where
  "ensure_connected i m =
     (let i = resolve_id m i
      in case state_of m i of
           Disconnected \<Rightarrow> connect_cluster i m
         | Unreachable _ _ \<Rightarrow> connect_cluster i m
         | Forbidden _ \<Rightarrow> connect_cluster i m
         | AuthRequired _ _ sign_in _ \<Rightarrow> if sign_in then m else connect_cluster i m
         | _ \<Rightarrow> m)"

definition disconnect :: "str \<Rightarrow> 'c manager \<Rightarrow> 'c manager" where
  "disconnect i m =
     (let i = conn_key m i; k = conn_key m i
      in case mg_clusters m k of
           Some c \<Rightarrow>
             state_changed i (m\<lparr>mg_clusters :=
               (mg_clusters m)(k \<mapsto> cluster_default\<lparr>cl_generation := Suc (cl_generation c)\<rparr>)\<rparr>)
         | None \<Rightarrow> m)"

section \<open>The connect_cluster conn_task\<close>

record probe =
  pr_latency :: nat
  pr_version :: version_info
  pr_user :: "str option"

text \<open>What the task finds out: the probes it makes one after the other, and whether there is another token
  each time one is invalidated.\<close>

definition is_auth :: "connect_error + probe \<Rightarrow> bool" where
  "is_auth r = (case r of Inl (AuthError _ _) \<Rightarrow> True | _ \<Rightarrow> False)"

fun open_shift_probe :: "nat \<Rightarrow> (nat \<Rightarrow> connect_error + probe) \<Rightarrow> (nat \<Rightarrow> bool) \<Rightarrow> nat \<Rightarrow> connect_error + probe \<Rightarrow> connect_error + probe" where
  "open_shift_probe 0 probes another k r = r"
| "open_shift_probe (Suc n) probes another k r =
     (if \<not> is_auth r then r
      else open_shift_probe n probes another (Suc k) (if another k then probes (Suc k) else Inl SignInRequired))"

definition connect_task ::
  "connect_error + 'c built_client \<Rightarrow> (nat \<Rightarrow> connect_error + probe) \<Rightarrow> (nat \<Rightarrow> bool) \<Rightarrow> nat option \<Rightarrow>
   connect_error + 'c built_client \<times> (connect_error + probe) \<times> nat option" where
  "connect_task build probes another expires =
     and_then build (\<lambda>built.
       let r = (case bc_credentials built of
                  Some (ExecSource _) \<Rightarrow> if is_auth (probes 0) then probes 1 else probes 0
                | Some (OpenShiftSource _) \<Rightarrow> open_shift_probe 2 probes another 0 (probes 0)
                | _ \<Rightarrow> probes 0)
       in Inr (built, r, case bc_credentials built of Some _ \<Rightarrow> expires | None \<Rightarrow> bc_rebuild_at built))"

section \<open>Failures\<close>

definition failed_state :: "str \<Rightarrow> bool \<Rightarrow> nat option \<Rightarrow> connect_error \<Rightarrow> connection_state" where
  "failed_state sign_in_message sign_in retry err =
     (case err of
        SignInRequired \<Rightarrow> AuthRequired sign_in_message None True False
      | AuthError message detail \<Rightarrow> AuthRequired message detail sign_in True
      | ForbiddenError message \<Rightarrow> Forbidden message
      | UnreachableError message \<Rightarrow> Unreachable message retry
      | ConfigError message \<Rightarrow> Unreachable message retry)"

definition can_sign_in :: "'c manager \<Rightarrow> str \<Rightarrow> bool" where
  "can_sign_in m i = (case entry_of m i of Some e \<Rightarrow> supports_sign_in (ci_auth e) | None \<Rightarrow> False)"

definition failure_toast :: "str \<Rightarrow> bool \<Rightarrow> connect_error \<Rightarrow> 'c manager \<Rightarrow> 'c manager" where
  "failure_toast name was_connected err =
     toast (Some (if was_connected then ''Connection lost'' else ''Couldn't connect''))
       (name @ '': '' @ connect_error_text err
        @ (case err of AuthError _ (Some detail) \<Rightarrow> [CHR 10] @ truncate_detail detail 400 | _ \<Rightarrow> []))"

definition fail :: "str \<Rightarrow> nat \<Rightarrow> connect_error \<Rightarrow> 'c manager \<Rightarrow> 'c manager" where
  "fail i gen err m =
     (let i = conn_key m i; sign_in = can_sign_in m i; name = display_name m i
      in case current_conn m i gen of
           None \<Rightarrow> m
         | Some c \<Rightarrow>
             (let failures = Suc (cl_failures c);
                  retry = (case err of UnreachableError _ \<Rightarrow> Some (backoff failures) | _ \<Rightarrow> None);
                  state = failed_state ''Sign in to continue.'' sign_in retry err;
                  m = update_conn (conn_key m i) (\<lambda>c. c\<lparr>cl_failures := failures, cl_state := state\<rparr>) m;
                  m = (if err = SignInRequired \<and> i \<in> mg_interactive m
                       then emit_conn (SignInRequested i) (m\<lparr>mg_interactive := mg_interactive m - {i}\<rparr>)
                       else m);
                  m = (if failures = 1 \<and> err \<noteq> SignInRequired
                       then failure_toast name (is_connected (cl_state c)) err m else m);
                  m = (case retry of
                         Some delay \<Rightarrow> update_conn (conn_key m i) (\<lambda>c. c\<lparr>cl_tasks := cl_tasks c @ [RetryTimer i gen delay]\<rparr>) m
                       | None \<Rightarrow> m)
              in state_changed i m))"

definition retry_fired :: "str \<Rightarrow> nat \<Rightarrow> 'c manager \<Rightarrow> 'c manager" where
  "retry_fired i gen m =
     (if map_option cl_generation (cluster_of m i) = Some gen then connect_cluster i m else m)"

section \<open>Watches and discovery\<close>

definition start_watches :: "str \<Rightarrow> nat \<Rightarrow> 'c manager \<Rightarrow> 'c manager" where
  "start_watches i gen m =
     fold (push_task i gen)
       [NamespaceWatch i gen, NamespaceBatches i gen, CrdWatch i gen, CrdBatches i gen]
       (update_current i gen (\<lambda>c. c\<lparr>cl_crd_first := True\<rparr>) m)"

definition run_discovery :: "str \<Rightarrow> nat \<Rightarrow> 'c manager \<Rightarrow> 'c manager" where
  "run_discovery i gen = push_task i gen (DiscoverTask i gen)"

definition unserved_retries_max :: nat where "unserved_retries_max = 5"

definition rediscover_unserved :: "str \<Rightarrow> nat \<Rightarrow> 'c manager \<Rightarrow> 'c manager" where
  "rediscover_unserved i gen m =
     (let i = conn_key m i
      in case current_conn m i gen of
           None \<Rightarrow> m
         | Some c \<Rightarrow>
             (case cl_discovery c of
                None \<Rightarrow> m
              | Some d \<Rightarrow>
                  if list_all (serves_crd d) (cl_crds c) \<or> unserved_retries_max \<le> cl_unserved_retries c then m
                  else push_task i gen (UnservedTimer i gen (2 ^ cl_unserved_retries c))
                         (update_conn (conn_key m i) (\<lambda>c. c\<lparr>cl_unserved_retries := Suc (cl_unserved_retries c)\<rparr>) m)))"

definition unserved_fired :: "str \<Rightarrow> nat \<Rightarrow> 'c manager \<Rightarrow> 'c manager" where
  "unserved_fired i gen m =
     (if map_option cl_generation (cluster_of m i) = Some gen then run_discovery i gen m else m)"

definition crds_came :: "str \<Rightarrow> nat \<Rightarrow> str list list \<Rightarrow> 'c manager \<Rightarrow> 'c manager" where
  "crds_came i gen batch m =
     (if batch = [] then m
      else
        (let i = conn_key m i
         in case current_conn m i gen of
              None \<Rightarrow> m
            | Some c \<Rightarrow>
                (let crds = last batch;
                     m = update_conn (conn_key m i)
                           (\<lambda>c. c\<lparr>cl_crd_first := False, cl_crd_count := Some (length crds), cl_crds := crds\<rparr>) m;
                     m = (if cl_crd_first c then rediscover_unserved i gen m
                          else run_discovery i gen (update_conn (conn_key m i) (\<lambda>c. c\<lparr>cl_unserved_retries := 0\<rparr>) m))
                 in notify_views (emit_conn (DiscoveryChanged i) m))))"

definition discovered :: "str \<Rightarrow> nat \<Rightarrow> str + discovery \<Rightarrow> 'c manager \<Rightarrow> 'c manager" where
  "discovered i gen result m =
     (let i = conn_key m i; settings = settings_for m i; info = entry_of m i
      in case current_conn m i gen of
           None \<Rightarrow> m
         | Some c \<Rightarrow>
             (case result of
                Inl _ \<Rightarrow> m
              | Inr d \<Rightarrow>
                  (let found = (case (cl_info c, cl_version c, info) of
                                  (Some ci, Some v, Some e) \<Rightarrow> Some (apply_discovery v e d ci)
                                | _ \<Rightarrow> cl_info c);
                       m = update_conn (conn_key m i)
                             (\<lambda>c. c\<lparr>cl_info := found, cl_caps := caps_of (Some d) found settings, cl_discovery := Some d\<rparr>) m
                   in notify_views (rediscover_unserved i gen
                        (cause SyncActive (emit_conn (DiscoveryChanged i) m))))))"

datatype namespace_update = Names "str list" | NamesForbidden

definition apply_namespaces :: "str \<Rightarrow> nat \<Rightarrow> namespace_update \<Rightarrow> 'c manager \<Rightarrow> 'c manager" where
  "apply_namespaces i gen u m =
     (let i = conn_key m i; settings = settings_for m i; info = entry_of m i
      in case current_conn m i gen of
           None \<Rightarrow> m
         | Some c \<Rightarrow>
             (let names = (case u of
                             Names ns \<Rightarrow> \<lparr>ns_names = ns, ns_listed = True, ns_kubeconfig = kubeconfig_namespaces info\<rparr>
                           | NamesForbidden \<Rightarrow> fallback_namespaces info settings (cluster_default_namespace c))
              in notify_views (emit_conn (NamespacesChanged i)
                   (update_conn (conn_key m i) (\<lambda>c. c\<lparr>cl_namespaces := names\<rparr>) m))))"

definition namespaces_came :: "str \<Rightarrow> nat \<Rightarrow> namespace_update list \<Rightarrow> 'c manager \<Rightarrow> 'c manager" where
  "namespaces_came i gen updates m = (if updates = [] then m else apply_namespaces i gen (last updates) m)"

section \<open>Health\<close>

definition schedule_health :: "str \<Rightarrow> nat \<Rightarrow> nat \<Rightarrow> nat \<Rightarrow> 'c manager \<Rightarrow> 'c manager" where
  "schedule_health i gen interval delay =
     update_current i gen (\<lambda>c. c\<lparr>cl_health := Some (HealthTimer i gen interval delay)\<rparr>)"

definition start_health :: "str \<Rightarrow> nat \<Rightarrow> 'c manager \<Rightarrow> 'c manager" where
  "start_health i gen m =
     (let interval = max (ks_health_check_interval (mg_settings m)) 5 in schedule_health i gen interval interval m)"

definition health_tick :: "nat \<Rightarrow> str \<Rightarrow> nat \<Rightarrow> nat \<Rightarrow> 'c manager \<Rightarrow> 'c manager" where
  "health_tick now i gen interval m =
     (case current_conn m i gen of
        None \<Rightarrow> m
      | Some c \<Rightarrow>
          (case cl_client c of
             None \<Rightarrow> m
           | Some built \<Rightarrow>
               if (case bc_rebuild_at built of Some when \<Rightarrow> when \<le> now + 60 | None \<Rightarrow> False) then connect_cluster i m
               else update_current i gen (\<lambda>c. c\<lparr>cl_health := Some (PingTask i gen interval)\<rparr>) m))"

definition finish_ping :: "str \<Rightarrow> nat \<Rightarrow> connect_error + nat \<Rightarrow> 'c manager \<Rightarrow> bool \<times> 'c manager" where
  "finish_ping i gen ping m =
     (let i = conn_key m i
      in case current_conn m i gen of
           None \<Rightarrow> (False, m)
         | Some c \<Rightarrow>
             (case ping of
                Inr latency \<Rightarrow>
                  (let version = (case cl_state c of
                                    Connected _ v \<Rightarrow> v
                                  | _ \<Rightarrow> (case cl_version c of Some v \<Rightarrow> vi_git_version v | None \<Rightarrow> []));
                       m = update_conn (conn_key m i) (\<lambda>c. c\<lparr>cl_failures := 0, cl_state := Connected latency version\<rparr>) m;
                       m = (if is_connected (cl_state c) then m else toast None (display_name m i @ '' is reachable again'') m)
                   in (True, state_changed i m))
              | Inl err \<Rightarrow>
                  (let failures = Suc (cl_failures c);
                       state = failed_state ''The session expired. Sign in again.'' (can_sign_in m i) (Some (backoff failures)) err;
                       name = display_name m i;
                       m = update_conn (conn_key m i) (\<lambda>c. c\<lparr>cl_failures := failures, cl_state := state\<rparr>) m;
                       m = (if failures = 1 then toast (Some ''Connection lost'') (name @ '': '' @ connect_error_text err) m else m)
                   in (False, state_changed i m))))"

definition ping_done :: "str \<Rightarrow> nat \<Rightarrow> nat \<Rightarrow> connect_error + nat \<Rightarrow> 'c manager \<Rightarrow> 'c manager" where
  "ping_done i gen interval ping m =
     (let (ok, m) = finish_ping i gen ping m
      in case current_conn m i gen of
           None \<Rightarrow> m
         | Some _ \<Rightarrow>
             (let delay = (if ok then interval
                           else backoff (case cluster_of m i of Some c \<Rightarrow> cl_failures c | None \<Rightarrow> 1))
              in schedule_health i gen interval delay m))"

section \<open>Connected\<close>

definition connected_cluster ::
  "context_info \<Rightarrow> context_settings \<Rightarrow> 'c built_client \<Rightarrow> probe \<Rightarrow> nat option \<Rightarrow> 'c cluster \<Rightarrow> 'c cluster" where
  "connected_cluster info settings built p expires c =
     (let ci = cluster_info_new (pr_version p) info (pr_user p)
      in c\<lparr>cl_failures := 0, cl_state := Connected (pr_latency p) (vi_git_version (pr_version p)),
           cl_info := Some ci, cl_version := Some (pr_version p), cl_proxy := bc_proxy built, cl_expires_at := expires,
           cl_namespaces := fallback_namespaces (Some info) settings (Some (bc_default_namespace built)),
           cl_client := Some built, cl_caps := caps_of None (Some ci) settings\<rparr>)"

definition finish_connect ::
  "str \<Rightarrow> nat \<Rightarrow> connect_error + 'c built_client \<times> (connect_error + probe) \<times> nat option \<Rightarrow> 'c manager \<Rightarrow> 'c manager" where
  "finish_connect i gen result m =
     (let i = conn_key m i
      in case entry_of m i of
           None \<Rightarrow> m
         | Some info \<Rightarrow>
             (let settings = settings_for m i
              in case current_conn m i gen of
                   None \<Rightarrow> m
                 | Some _ \<Rightarrow>
                     (case result of
                        Inl err \<Rightarrow> fail i gen err m
                      | Inr (built, Inl err, _) \<Rightarrow>
                          fail i gen err (update_conn (conn_key m i) (\<lambda>c. c\<lparr>cl_client := Some built\<rparr>) m)
                      | Inr (built, Inr p, expires) \<Rightarrow>
                          (let m = m\<lparr>mg_interactive := mg_interactive m - {i}\<rparr>;
                               m = update_conn (conn_key m i) (connected_cluster info settings built p expires) m;
                               m = start_health i gen (run_discovery i gen (start_watches i gen m))
                           in notify_views (cause SyncActive (emit_conn (NamespacesChanged i)
                                (emit_conn (StateChanged i) m)))))))"

section \<open>Settings and access\<close>

definition refresh_caps :: "str \<Rightarrow> 'c manager \<Rightarrow> 'c manager" where
  "refresh_caps i m =
     (let i = conn_key m i; settings = settings_for m i
      in update_conn (conn_key m i) (\<lambda>c. c\<lparr>cl_caps := caps_of (cl_discovery c) (cl_info c) settings\<rparr>) m)"

definition refresh_fallback_namespaces :: "str \<Rightarrow> 'c manager \<Rightarrow> 'c manager" where
  "refresh_fallback_namespaces i m =
     (let settings = settings_for m i; info = entry_of m i; k = conn_key m i
      in case mg_clusters m k of
           None \<Rightarrow> m
         | Some c \<Rightarrow>
             (let kubeconfig = kubeconfig_namespaces info;
                  names = (if ns_listed (cl_namespaces c) then (cl_namespaces c)\<lparr>ns_kubeconfig := kubeconfig\<rparr>
                           else fallback_namespaces info settings (cluster_default_namespace c))
              in if cl_namespaces c = names then m
                 else emit_conn (NamespacesChanged i) (update_conn k (\<lambda>c. c\<lparr>cl_namespaces := names\<rparr>) m)))"

definition record_access :: "nat \<Rightarrow> str \<Rightarrow> nat option \<Rightarrow> access_query \<Rightarrow> bool \<Rightarrow> 'c manager \<Rightarrow> 'c manager" where
  "record_access now i gen query allowed m =
     (let k = conn_key m i
      in case mg_clusters m k of
           Some c \<Rightarrow> if Some (cl_generation c) = gen
                     then update_conn k (\<lambda>c. c\<lparr>cl_access := access_insert now query allowed (cl_access c)\<rparr>) m else m
         | None \<Rightarrow> m)"

section \<open>The active cluster\<close>

definition connect_interactive :: "str \<Rightarrow> 'c manager \<Rightarrow> 'c manager" where
  "connect_interactive i m = connect_cluster i (m\<lparr>mg_interactive := insert i (mg_interactive m)\<rparr>)"

definition save_state :: "'c manager \<Rightarrow> 'c manager" where
  "save_state m = cause (SaveState (mg_state m)) m"

definition announce_active :: "str \<Rightarrow> str option \<Rightarrow> bool \<Rightarrow> 'c manager \<Rightarrow> 'c manager" where
  "announce_active i namespace from_tab m =
     (let changed = (mg_active m \<noteq> Some i);
          m = save_state (m\<lparr>mg_active := Some i, mg_state := (mg_state m)\<lparr>ka_active := Some i\<rparr>\<rparr>);
          m = cause (Activated i namespace from_tab) m;
          m = (if changed then emit_conn (ActiveChanged (Some i)) m else m)
      in case state_of m i of
           AuthRequired _ _ sign_in _ \<Rightarrow>
             if sign_in then emit_conn (SignInRequested i) (m\<lparr>mg_interactive := mg_interactive m - {i}\<rparr>)
             else m\<lparr>mg_interactive := insert i (mg_interactive m)\<rparr>
         | _ \<Rightarrow> m\<lparr>mg_interactive := insert i (mg_interactive m)\<rparr>)"

definition activate_in :: "str \<Rightarrow> str option \<Rightarrow> bool \<Rightarrow> 'c manager \<Rightarrow> 'c manager" where
  "activate_in i namespace from_tab m = notify_views (ensure_connected i (announce_active i namespace from_tab m))"

definition activate_cluster :: "str \<Rightarrow> 'c manager \<Rightarrow> 'c manager" where
  "activate_cluster i m =
     (let i = resolve_id m i
      in case entry_of m i of None \<Rightarrow> m | Some _ \<Rightarrow> activate_in i (initial_namespace m i) False m)"

datatype tab_namespace = KeepNamespace | AllNamespaces | OneNamespace str

definition follow_tab :: "str \<Rightarrow> tab_namespace \<Rightarrow> str option \<Rightarrow> str option \<Rightarrow> 'c manager \<Rightarrow> 'c manager" where
  "follow_tab i namespace shown_cluster shown_namespace m =
     (let i = resolve_id m i
      in case entry_of m i of
           None \<Rightarrow> m
         | Some _ \<Rightarrow>
             (let same = (shown_cluster = Some i)
              in if same \<and> namespace = KeepNamespace then m
                 else (let ns = (case namespace of OneNamespace n \<Rightarrow> Some n | AllNamespaces \<Rightarrow> None
                                 | KeepNamespace \<Rightarrow> initial_namespace m i)
                       in if same \<and> mg_active m = Some i \<and> shown_namespace = ns then m
                          else activate_in i ns True m)))"

definition remember_namespace :: "str \<Rightarrow> str \<Rightarrow> 'c manager \<Rightarrow> 'c manager" where
  "remember_namespace i namespace m =
     (if \<not> (case entry_of m i of Some e \<Rightarrow> is_group e | None \<Rightarrow> False) then m
      else if ka_namespaces (mg_state m) i = Some namespace then m
      else save_state (m\<lparr>mg_state := (mg_state m)\<lparr>ka_namespaces := (ka_namespaces (mg_state m))(i \<mapsto> namespace)\<rparr>\<rparr>))"

section \<open>Entries\<close>

record conn_env =
  ce_entry :: entry_env
  ce_hash :: "str option \<Rightarrow> 64 word"

text \<open>The connections of the ids that are no entries anymore: moved to the entry that takes their place, or
  dropped.\<close>

record 'c rekeying =
  rk_clusters :: "str \<rightharpoonup> 'c cluster"
  rk_rekeyed :: "(str \<times> str) list"
  rk_removed :: "str list"

definition rekey_one ::
  "(str \<Rightarrow> str) \<Rightarrow> (str \<rightharpoonup> nat) \<Rightarrow> (str \<rightharpoonup> 64 word) \<Rightarrow> (str \<rightharpoonup> 64 word) \<Rightarrow> str \<Rightarrow> 'c rekeying \<Rightarrow> 'c rekeying" where
  "rekey_one resolved by_id prints_before prints i rk =
     (let j = resolved i;
          same = (by_id j \<noteq> None \<and> rk_clusters rk j = None \<and> prints_before i \<noteq> None \<and> prints_before i = prints j)
      in case rk_clusters rk i of
           Some c \<Rightarrow>
             if same then rk\<lparr>rk_clusters := (rk_clusters rk)(i := None, j \<mapsto> c), rk_rekeyed := rk_rekeyed rk @ [(i, j)]\<rparr>
             else rk\<lparr>rk_clusters := (rk_clusters rk)(i := None), rk_removed := rk_removed rk @ [i]\<rparr>
         | None \<Rightarrow> rk\<lparr>rk_removed := rk_removed rk @ [i]\<rparr>)"

definition follow_rekey :: "str \<times> str \<Rightarrow> 'c manager \<Rightarrow> 'c manager" where
  "follow_rekey ij m =
     (let (i, j) = ij;
          m = m\<lparr>mg_aliases := (\<lambda>k. map_option (\<lambda>t. if t = i then j else t) (mg_aliases m k))(i \<mapsto> j)\<rparr>;
          m = (if i \<in> mg_interactive m then m\<lparr>mg_interactive := insert j (mg_interactive m - {i})\<rparr> else m);
          m = (if mg_active m = Some i
               then save_state (m\<lparr>mg_active := Some j, mg_state := (mg_state m)\<lparr>ka_active := Some j\<rparr>\<rparr>) else m)
      in emit_conn (StateChanged j) (emit_conn (Rekeyed i j) m))"

definition clear_active :: "'c manager \<Rightarrow> 'c manager" where
  "clear_active m =
     (case mg_active m of
        Some i \<Rightarrow>
          if entry_of m i = None
          then emit_conn (ActiveChanged None) (cause ClearActive (m\<lparr>mg_active := None\<rparr>)) else m
      | None \<Rightarrow> m)"

definition fingerprints_of :: "conn_env \<Rightarrow> loaded \<Rightarrow> context_info list \<Rightarrow> str \<rightharpoonup> 64 word" where
  "fingerprints_of en ld es =
     map_of (rev (map (\<lambda>e. (ci_id e, fingerprint (ee_text (ce_entry en)) (ce_hash en) e (ld_configs ld (ci_file e)))) es))"

definition new_entries :: "conn_env \<Rightarrow> 'c manager \<Rightarrow> context_info list" where
  "new_entries en m =
     entries (ce_entry en) (ld_contexts (mg_loaded m)) (ld_configs (mg_loaded m))
       \<lparr>go_enabled = ks_group_contexts (mg_settings m), go_separate = ks_separate_groups (mg_settings m)\<rparr>"

definition apply_entries :: "conn_env \<Rightarrow> str list \<Rightarrow> 'c manager \<Rightarrow> 'c manager" where
  "apply_entries en order m =
     (let ld = mg_loaded m; es = new_entries en m;
          (by_id, by_member) = index_entries es;
          prints = fingerprints_of en ld es;
          gone = filter (\<lambda>k. by_id k = None) (keys_in order (mg_clusters m));
          rk = fold (rekey_one (resolve_in es by_id by_member (mg_aliases m) ld) by_id (mg_fingerprints m) prints) gone
                 \<lparr>rk_clusters = mg_clusters m, rk_rekeyed = [], rk_removed = []\<rparr>;
          changed = filter (\<lambda>k. (case rk_clusters rk k of Some c \<Rightarrow> cl_state c \<noteq> Disconnected | None \<Rightarrow> False)
                              \<and> k \<notin> snd ` set (rk_rekeyed rk) \<and> mg_fingerprints m k \<noteq> prints k)
                      (keys_in order (rk_clusters rk));
          m = m\<lparr>mg_clusters := rk_clusters rk, mg_entries := es, mg_entry_index := by_id,
                mg_member_index := by_member, mg_fingerprints := prints\<rparr>;
          m = fold follow_rekey (rk_rekeyed rk) m;
          m = fold (\<lambda>i. emit_conn (StateChanged i)) (rk_removed rk) m;
          m = fold connect_cluster changed m;
          m = fold refresh_fallback_namespaces (keys_in order (mg_clusters m)) m
      in cause ClusterIdsChanged (clear_active m))"

section \<open>Loading\<close>

definition reload :: "'c manager \<Rightarrow> 'c manager" where
  "reload m =
     (let gen = Suc (mg_reload_generation m);
          tasks = mg_tasks m @ [LoadTask gen]
      in m\<lparr>mg_loading := True, mg_reload_generation := gen,
           mg_tasks := (if 8 < length tasks then drop (length tasks - 4) tasks else tasks)\<rparr>)"

definition start_file_events :: "'c manager \<Rightarrow> 'c manager" where
  "start_file_events m = m\<lparr>mg_file_events := True, mg_tasks := mg_tasks m @ [FileEvents]\<rparr>"

definition start_manager :: "'c manager \<Rightarrow> 'c manager" where
  "start_manager m = reload (if mg_watch_files m then start_file_events m else m)"

definition update_watcher :: "'c manager \<Rightarrow> 'c manager" where
  "update_watcher m =
     (if mg_file_events m then m\<lparr>mg_tasks := mg_tasks m @ [WatcherTask (mg_reload_generation m)]\<rparr> else m)"

definition restore_active :: "'c manager \<Rightarrow> 'c manager" where
  "restore_active m =
     (if mg_restored m then m
      else (let m = m\<lparr>mg_restored := True\<rparr>
            in case ka_active (mg_state m) of
                 None \<Rightarrow> m
               | Some i \<Rightarrow> (let i = resolve_id m i in if entry_of m i \<noteq> None then activate_cluster i m else m)))"

definition apply_loaded :: "conn_env \<Rightarrow> str list \<Rightarrow> loaded \<Rightarrow> 'c manager \<Rightarrow> 'c manager" where
  "apply_loaded en order ld m =
     (let m = apply_entries en order (m\<lparr>mg_loading := False, mg_loaded := ld\<rparr>);
          m = (if mg_watch_files m then update_watcher m else m);
          m = restore_active m
      in notify_views (emit_conn ContextsChanged (cause SyncActive m)))"

definition finish_reload :: "conn_env \<Rightarrow> str list \<Rightarrow> nat \<Rightarrow> loaded \<Rightarrow> 'c manager \<Rightarrow> 'c manager" where
  "finish_reload en order gen ld m = (if gen = mg_reload_generation m then apply_loaded en order ld m else m)"

definition kube_settings_changed :: "conn_env \<Rightarrow> str list \<Rightarrow> kube_settings \<Rightarrow> 'c manager \<Rightarrow> 'c manager" where
  "kube_settings_changed en order new m =
     (let old = mg_settings m; m = m\<lparr>mg_settings := new\<rparr>;
          m = (if ks_kubeconfigs old \<noteq> ks_kubeconfigs new
                  \<or> ks_load_default_kubeconfig old \<noteq> ks_load_default_kubeconfig new
                  \<or> ks_load_kubeconfig_env old \<noteq> ks_load_kubeconfig_env new then reload m else m);
          regroup = (ks_group_contexts old \<noteq> ks_group_contexts new \<or> ks_separate_groups old \<noteq> ks_separate_groups new);
          m = (if regroup then apply_entries en order m else m);
          m = (if ks_contexts old \<noteq> ks_contexts new \<or> regroup
               then emit_conn ContextsChanged (cause SyncActive
                      (fold (\<lambda>i m. refresh_fallback_namespaces i (refresh_caps i m)) (keys_in order (mg_clusters m)) m))
               else m)
      in notify_views m)"

end
