(* ===== verification/ConnSafety.thy ===== *)
theory ConnSafety
  imports Connections
begin

text \<open>
  The connection manager as a state machine: whatever the user, the files and the tasks do, every connection
  belongs to an entry and so does the active cluster; while the entries stay the same, no connection hangs.
  The last section runs the cases in which the code loses track of a connection.
\<close>

section \<open>Operations\<close>

datatype 'c report =
    Fired nat
  | ConnectResult "connect_error + 'c built_client \<times> (connect_error + probe) \<times> nat option"
  | PingResult "connect_error + nat"
  | NamesResult "namespace_update list"
  | CrdsResult "str list list"
  | DiscoveryResult "str + discovery"

text \<open>The callback of a task.\<close>

definition task_report :: "conn_task \<Rightarrow> 'c report \<Rightarrow> 'c manager \<Rightarrow> 'c manager" where
  "task_report t r m =
     (case (t, r) of
        (ConnectTask i g, ConnectResult result) \<Rightarrow> finish_connect i g result m
      | (RetryTimer i g _, Fired _) \<Rightarrow> retry_fired i g m
      | (NamespaceBatches i g, NamesResult updates) \<Rightarrow> namespaces_came i g updates m
      | (CrdBatches i g, CrdsResult batch) \<Rightarrow> crds_came i g batch m
      | (DiscoverTask i g, DiscoveryResult result) \<Rightarrow> discovered i g result m
      | (UnservedTimer i g _, Fired _) \<Rightarrow> unserved_fired i g m
      | (HealthTimer i g interval _, Fired now) \<Rightarrow> health_tick now i g interval m
      | (PingTask i g interval, PingResult ping) \<Rightarrow> ping_done i g interval ping m
      | _ \<Rightarrow> m)"

text \<open>The connection \<open>k\<close> keeps the handle of \<open>t\<close>.\<close>

definition holds :: "'c manager \<Rightarrow> str \<Rightarrow> conn_task \<Rightarrow> bool" where
  "holds m k t =
     (case mg_clusters m k of Some c \<Rightarrow> t \<in> set (cl_tasks c) \<or> cl_health c = Some t | None \<Rightarrow> False)"

datatype 'c kube_op =
    Report str conn_task "'c report"
  | FilesChanged
  | LoadDone nat loaded "str list"
  | NewSettings kube_settings "str list"
  | Reload
  | Connect str
  | EnsureConnected str
  | ConnectInteractive str
  | Disconnect str
  | Activate str
  | FollowTab str tab_namespace "str option" "str option"
  | RememberNamespace str str
  | RecordAccess nat str "nat option" access_query bool
  | ChangeContext str "context_settings \<Rightarrow> context_settings"

text \<open>An order in which the hash map of the connections can give out its keys, before and after its entries
  are rebuilt.\<close>

definition lists_keys :: "conn_env \<Rightarrow> str list \<Rightarrow> 'c manager \<Rightarrow> bool" where
  "lists_keys en order m \<longleftrightarrow>
     distinct order \<and> dom (mg_clusters m) \<union> ci_id ` set (new_entries en m) \<subseteq> set order"

definition kube_do :: "conn_env \<Rightarrow> 'c kube_op \<Rightarrow> 'c manager \<Rightarrow> 'c manager" where
  "kube_do en x m =
     (case x of
        Report k t r \<Rightarrow> if holds m k t then task_report t r m else m
      | FilesChanged \<Rightarrow> if FileEvents \<in> set (mg_tasks m) then reload m else m
      | LoadDone gen ld order \<Rightarrow> 
          if LoadTask gen \<in> set (mg_tasks m) \<and> lists_keys en order (m\<lparr>mg_loaded := ld\<rparr>)
          then finish_reload en order gen ld m else m
      | NewSettings s order \<Rightarrow>
          if lists_keys en order (m\<lparr>mg_settings := s\<rparr>) then kube_settings_changed en order s m else m
      | Reload \<Rightarrow> reload m
      | Connect i \<Rightarrow> connect_cluster i m
      | EnsureConnected i \<Rightarrow> ensure_connected i m
      | ConnectInteractive i \<Rightarrow> connect_interactive i m
      | Disconnect i \<Rightarrow> disconnect i m
      | Activate i \<Rightarrow> activate_cluster i m
      | FollowTab i ns shown_cluster shown_namespace \<Rightarrow> follow_tab i ns shown_cluster shown_namespace m
      | RememberNamespace i ns \<Rightarrow> remember_namespace i ns m
      | RecordAccess now i gen query allowed \<Rightarrow> record_access now i gen query allowed m
      | ChangeContext i f \<Rightarrow> update_context_settings i f m)"

section \<open>What an operation leaves alone\<close>

text \<open>Entries, the ids that have a connection, and the active cluster.\<close>

definition shape where
  "shape m = (mg_entries m, mg_entry_index m, mg_member_index m, mg_aliases m, mg_loaded m,
              dom (mg_clusters m), mg_active m, ka_active (mg_state m))"

lemma shape_entry: "shape m = shape m' \<Longrightarrow> entry_of m = entry_of m'"
  by (rule ext) (simp add: shape_def entry_of_def resolve_id_def split: option.split)

lemma shape_out [simp]:
  "shape (emit_conn e m) = shape m" "shape (notify_views m) = shape m" "shape (toast t s m) = shape m"
  "shape (cause ef m) = shape m" "shape (state_changed i m) = shape m" "shape (failure_toast n w err m) = shape m"
  "shape (m\<lparr>mg_interactive := I\<rparr>) = shape m"
  by (simp_all add: shape_def emit_conn_def notify_views_def toast_def cause_def state_changed_def failure_toast_def)

lemma shape_update_conn [simp]: "shape (update_conn k f m) = shape m"
  by (auto simp: shape_def update_conn_def split: option.split)

lemma shape_update_current [simp]: "shape (update_current i g f m) = shape m"
  by (simp add: update_current_def split: option.split)

lemma shape_push_task [simp]: "shape (push_task i g t m) = shape m"
  by (simp add: push_task_def)

lemma shape_parts [simp]:
  "shape (fail i g err m) = shape m"
  "shape (start_watches i g m) = shape m"
  "shape (run_discovery i g m) = shape m"
  "shape (rediscover_unserved i g m) = shape m"
  "shape (schedule_health i g a b m) = shape m"
  "shape (start_health i g m) = shape m"
  "shape (refresh_caps i m) = shape m"
  "shape (refresh_fallback_namespaces i m) = shape m"
  "shape (record_access now i gen query allowed m) = shape m"
  by (simp_all add: fail_def start_watches_def run_discovery_def rediscover_unserved_def schedule_health_def
      start_health_def refresh_caps_def refresh_fallback_namespaces_def record_access_def Let_def split: option.split)

lemma shape_tasks [simp]:
  "shape (unserved_fired i g m) = shape m"
  "shape (crds_came i g batch m) = shape m"
  "shape (discovered i g result m) = shape m"
  "shape (apply_namespaces i g u m) = shape m"
  "shape (namespaces_came i g us m) = shape m"
  by (simp_all add: unserved_fired_def crds_came_def discovered_def apply_namespaces_def namespaces_came_def
      Let_def split: option.split sum.split)

lemma shape_ping [simp]: "shape (snd (finish_ping i g p m)) = shape m" "shape (ping_done i g a p m) = shape m"
proof -
  show *: "shape (snd (finish_ping i g p m)) = shape m" for p
    by (simp add: finish_ping_def Let_def split: option.split sum.split)
  show "shape (ping_done i g a p m) = shape m"
    using * [of p] by (simp add: ping_done_def Let_def case_prod_beta split: option.split)
qed

lemma shape_finish_connect [simp]: "shape (finish_connect i g r m) = shape m"
  by (simp add: finish_connect_def Let_def split: option.split sum.split prod.split)

lemma shape_reload [simp]: "shape (reload m) = shape m"
  by (simp add: shape_def reload_def Let_def)

lemma shape_disconnect [simp]: "shape (disconnect i m) = shape m"
  by (auto simp: shape_def disconnect_def Let_def state_changed_def emit_conn_def cause_def notify_views_def
      split: option.split)

lemma shape_remember [simp]: "shape (remember_namespace i ns m) = shape m"
  by (simp add: remember_namespace_def shape_def save_state_def cause_def)

lemma shape_update_context [simp]: "shape (update_context_settings i f m) = shape m"
  by (simp add: update_context_settings_def)

section \<open>Connections belong to entries\<close>

definition kube_inv :: "'c manager \<Rightarrow> bool" where
  "kube_inv m \<longleftrightarrow>
     indexed m \<and>
     (\<forall>k \<in> dom (mg_clusters m). entry_of m k \<noteq> None) \<and>
     (case mg_active m of Some i \<Rightarrow> entry_of m i \<noteq> None \<and> ka_active (mg_state m) = Some i | None \<Rightarrow> True)"

lemma kube_inv_shape: "shape m = shape m' \<Longrightarrow> kube_inv m = kube_inv m'"
  using shape_entry [of m m'] by (simp add: kube_inv_def indexed_def shape_def split: option.split)

lemma kube_inv_kept: "kube_inv m \<Longrightarrow> shape m' = shape m \<Longrightarrow> kube_inv m'"
  using kube_inv_shape by blast

lemma entry_of_clusters [simp]: "entry_of (m\<lparr>mg_clusters := C\<rparr>) = entry_of m"
  by (rule ext) (simp add: entry_of_def resolve_id_def split: option.split)

lemma entry_of_active [simp]:
  "entry_of (m\<lparr>mg_active := a\<rparr>) = entry_of m" "entry_of (m\<lparr>mg_state := s\<rparr>) = entry_of m"
  "entry_of (m\<lparr>mg_active := a, mg_state := s\<rparr>) = entry_of m"
  "entry_of (m\<lparr>mg_interactive := I\<rparr>) = entry_of m"
  by (rule ext, simp add: entry_of_def resolve_id_def split: option.split)+

lemma kube_inv_connect: "kube_inv m \<Longrightarrow> kube_inv (connect_cluster i m)"
  unfolding connect_cluster_def Let_def
  by (auto split: option.split intro!: kube_inv_kept [OF _ shape_out(5)])
    (auto simp: kube_inv_def indexed_def split: option.splits)

lemma kube_inv_ensure: "kube_inv m \<Longrightarrow> kube_inv (ensure_connected i m)"
  by (simp add: ensure_connected_def Let_def kube_inv_connect split: connection_state.split)

lemma kube_inv_activate_in:
  assumes "kube_inv m" "entry_of m i \<noteq> None"
  shows "kube_inv (activate_in i ns from_tab m)"
proof -
  define m1 where "m1 = m\<lparr>mg_active := Some i, mg_state := (mg_state m)\<lparr>ka_active := Some i\<rparr>\<rparr>"
  have m1: "kube_inv m1" using assms by (simp add: m1_def kube_inv_def indexed_def)
  have "shape (announce_active i ns from_tab m) = shape m1"
    by (simp add: announce_active_def Let_def m1_def [symmetric] save_state_def split: connection_state.split)
  with m1 have "kube_inv (announce_active i ns from_tab m)" by (rule kube_inv_kept)
  then show ?thesis
    unfolding activate_in_def by (intro kube_inv_kept [OF _ shape_out(2)] kube_inv_ensure)
qed

lemma kube_inv_activate: "kube_inv m \<Longrightarrow> kube_inv (activate_cluster i m)"
  by (auto simp: activate_cluster_def Let_def kube_inv_activate_in split: option.split)

lemma kube_inv_follow_tab: "kube_inv m \<Longrightarrow> kube_inv (follow_tab i ns shown_cluster shown_namespace m)"
  by (auto simp: follow_tab_def Let_def kube_inv_activate_in split: option.split)

section \<open>Rebuilding the entries\<close>

text \<open>While the entries are rebuilt, every connection has the id of an entry.\<close>

definition conns_indexed :: "'c manager \<Rightarrow> bool" where
  "conns_indexed m \<longleftrightarrow>
     indexed m \<and> (\<forall>k \<in> dom (mg_clusters m). mg_entry_index m k \<noteq> None) \<and>
     (case mg_active m of Some i \<Rightarrow> ka_active (mg_state m) = Some i | None \<Rightarrow> True)"

lemma resolve_indexed: "mg_entry_index m i \<noteq> None \<Longrightarrow> resolve_id m i = i"
  by (simp add: resolve_id_def resolve_in_def numeral_eq_Suc)

lemma indexed_entry:
  assumes "indexed m" "mg_entry_index m k \<noteq> None"
  shows "entry_of m k \<noteq> None"
proof -
  have "fst (index_entries (mg_entries m)) k = mg_entry_index m k" using assms(1) by (metis indexed_def fst_conv)
  with assms(2) index_ids [of k "mg_entries m" 0 "(Map.empty, Map.empty)"]
  obtain ix where "mg_entry_index m k = Some ix" "ix < length (mg_entries m)"
    by (auto simp: index_entries_def split: if_splits)
  then show ?thesis by (simp add: entry_of_def)
qed

lemma conns_indexed_kept: "conns_indexed m \<Longrightarrow> shape m' = shape m \<Longrightarrow> conns_indexed m'"
  by (simp add: conns_indexed_def indexed_def shape_def split: option.splits)

lemma conns_indexed_connect:
  assumes "conns_indexed m" "mg_entry_index m i \<noteq> None"
  shows "conns_indexed (connect_cluster i m)" "mg_entry_index (connect_cluster i m) = mg_entry_index m"
proof -
  note here = resolve_indexed [OF assms(2)]
  show "conns_indexed (connect_cluster i m)"
    unfolding connect_cluster_def Let_def here
    using assms by (auto split: option.split intro!: conns_indexed_kept [OF _ shape_out(5)])
      (auto simp: conns_indexed_def indexed_def split: option.splits)
  show "mg_entry_index (connect_cluster i m) = mg_entry_index m"
    by (simp add: connect_cluster_def Let_def state_changed_def emit_conn_def cause_def notify_views_def split: option.split)
qed

lemma conns_indexed_connects:
  assumes "conns_indexed m" "\<And>i. i \<in> set is \<Longrightarrow> mg_entry_index m i \<noteq> None"
  shows "conns_indexed (fold connect_cluster is m)"
  using assms by (induction "is" arbitrary: m) (auto simp: conns_indexed_connect)

lemma conns_indexed_follow: "conns_indexed m \<Longrightarrow> conns_indexed (follow_rekey ij m) \<and> mg_entry_index (follow_rekey ij m) = mg_entry_index m
    \<and> mg_clusters (follow_rekey ij m) = mg_clusters m"
  by (auto simp: follow_rekey_def Let_def conns_indexed_def indexed_def save_state_def cause_def emit_conn_def
      split: option.splits prod.split)

lemma conns_indexed_follows:
  "conns_indexed m \<Longrightarrow> conns_indexed (fold follow_rekey ijs m) \<and> mg_entry_index (fold follow_rekey ijs m) = mg_entry_index m
    \<and> mg_clusters (fold follow_rekey ijs m) = mg_clusters m"
  by (induction ijs arbitrary: m) (auto simp: conns_indexed_follow)

lemma rekey_dom:
  "dom (rk_clusters (fold (rekey_one resolved by_id before prints) gone rk))
     \<subseteq> (dom (rk_clusters rk) - set gone) \<union> {j. by_id j \<noteq> None}"
proof (induction gone arbitrary: rk)
  case (Cons i gone)
  have "dom (rk_clusters (rekey_one resolved by_id before prints i rk))
      \<subseteq> (dom (rk_clusters rk) - {i}) \<union> {j. by_id j \<noteq> None}"
    by (auto simp: rekey_one_def Let_def split: option.splits if_splits)
  with Cons.IH [of "rekey_one resolved by_id before prints i rk"] show ?case by auto
qed simp

lemma shape_fold: "(\<And>x m. shape (f x m) = shape m) \<Longrightarrow> shape (fold f xs m) = shape m"
  by (induction xs arbitrary: m) auto

lemma kube_inv_clear_active:
  assumes "conns_indexed m"
  shows "kube_inv (clear_active m)"
proof -
  have entries: "\<forall>k \<in> dom (mg_clusters m). entry_of m k \<noteq> None"
    using assms indexed_entry unfolding conns_indexed_def by blast
  show ?thesis
  proof (cases "mg_active m")
    case None
    with assms entries show ?thesis by (simp add: clear_active_def kube_inv_def conns_indexed_def)
  next
    case (Some i)
    show ?thesis
    proof (cases "entry_of m i = None")
      case True
      have "kube_inv (m\<lparr>mg_active := None\<rparr>)"
        using assms entries by (simp add: kube_inv_def conns_indexed_def indexed_def)
      with Some True show ?thesis
        by (simp add: clear_active_def) (metis kube_inv_kept shape_out(1,4))
    next
      case False
      then have "clear_active m = m" using Some by (auto simp: clear_active_def)
      with False Some assms entries show ?thesis by (simp add: kube_inv_def conns_indexed_def)
    qed
  qed
qed

lemma kube_inv_apply_entries:
  assumes m: "kube_inv m0" "mg_clusters m = mg_clusters m0" "mg_active m = mg_active m0" "mg_state m = mg_state m0"
    and order: "dom (mg_clusters m) \<subseteq> set order"
  shows "kube_inv (apply_entries en order m)"
proof -
  let ?es = "new_entries en m"
  obtain by_id by_member where ix: "index_entries ?es = (by_id, by_member)" by (metis surj_pair)
  let ?prints = "fingerprints_of en (mg_loaded m) ?es"
  let ?gone = "filter (\<lambda>k. by_id k = None) (keys_in order (mg_clusters m))"
  define rk where "rk = fold (rekey_one (resolve_in ?es by_id by_member (mg_aliases m) (mg_loaded m)) by_id
    (mg_fingerprints m) ?prints) ?gone \<lparr>rk_clusters = mg_clusters m, rk_rekeyed = [], rk_removed = []\<rparr>"
  define changed where "changed = filter (\<lambda>k. (case rk_clusters rk k of Some c \<Rightarrow> cl_state c \<noteq> Disconnected | None \<Rightarrow> False)
      \<and> k \<notin> snd ` set (rk_rekeyed rk) \<and> mg_fingerprints m k \<noteq> ?prints k) (keys_in order (rk_clusters rk))"
  define m1 where "m1 = m\<lparr>mg_clusters := rk_clusters rk, mg_entries := ?es, mg_entry_index := by_id,
      mg_member_index := by_member, mg_fingerprints := ?prints\<rparr>"
  have "dom (rk_clusters rk) \<subseteq> {k. by_id k \<noteq> None}"
    unfolding rk_def by (rule subset_trans [OF rekey_dom]) (use order in \<open>auto simp: keys_in_def\<close>)
  then have keys: "by_id k \<noteq> None" if "k \<in> dom (rk_clusters rk)" for k using that by auto
  have m1: "conns_indexed m1"
    using m keys ix by (auto simp: conns_indexed_def indexed_def m1_def kube_inv_def split: option.splits)
  define m2 where "m2 = fold (\<lambda>i. emit_conn (StateChanged i)) (rk_removed rk) (fold follow_rekey (rk_rekeyed rk) m1)"
  have shape: "shape m2 = shape (fold follow_rekey (rk_rekeyed rk) m1)"
    unfolding m2_def by (rule shape_fold) simp
  have m2: "conns_indexed m2"
    by (rule conns_indexed_kept [OF _ shape]) (use conns_indexed_follows [OF m1] in blast)
  have "mg_entry_index m2 = by_id"
    using shape conns_indexed_follows [OF m1, of "rk_rekeyed rk"] by (simp add: shape_def m1_def)
  moreover have "set changed \<subseteq> dom (rk_clusters rk)" by (auto simp: changed_def split: option.splits)
  ultimately have m3: "conns_indexed (fold connect_cluster changed m2)"
    using keys by (intro conns_indexed_connects [OF m2]) auto
  have "kube_inv (clear_active (fold refresh_fallback_namespaces
      (keys_in order (mg_clusters (fold connect_cluster changed m2))) (fold connect_cluster changed m2)))"
    by (intro kube_inv_clear_active conns_indexed_kept [OF m3 shape_fold]) simp
  then show ?thesis
    unfolding apply_entries_def Let_def ix prod.case rk_def [symmetric] changed_def [symmetric]
      m1_def [symmetric] m2_def [symmetric]
    by (rule kube_inv_kept) simp
qed

lemma kube_inv_restore: "kube_inv m \<Longrightarrow> kube_inv (restore_active m)"
proof -
  assume "kube_inv m"
  then have "kube_inv (m\<lparr>mg_restored := True\<rparr>)"
    by (rule kube_inv_kept) (simp add: shape_def)
  with \<open>kube_inv m\<close> show ?thesis
    by (simp add: restore_active_def Let_def kube_inv_activate split: option.split)
qed

lemma kube_inv_load:
  assumes "kube_inv m" "lists_keys en order (m\<lparr>mg_loaded := ld\<rparr>)"
  shows "kube_inv (finish_reload en order gen ld m)"
proof -
  let ?m = "apply_entries en order (m\<lparr>mg_loading := False, mg_loaded := ld\<rparr>)"
  have "kube_inv ?m"
    using assms by (intro kube_inv_apply_entries [OF assms(1)]) (auto simp: lists_keys_def)
  then have "kube_inv (if mg_watch_files ?m then update_watcher ?m else ?m)"
    by (rule kube_inv_kept) (simp add: update_watcher_def shape_def)
  then have "kube_inv (restore_active (if mg_watch_files ?m then update_watcher ?m else ?m))"
    by (rule kube_inv_restore)
  then have "kube_inv (apply_loaded en order ld m)"
    unfolding apply_loaded_def Let_def by (rule kube_inv_kept) simp
  with assms(1) show ?thesis by (simp add: finish_reload_def)
qed

lemma kube_inv_settings:
  assumes "kube_inv m" "lists_keys en order (m\<lparr>mg_settings := s\<rparr>)"
  shows "kube_inv (kube_settings_changed en order s m)"
proof -
  define m1 where "m1 = (if ks_kubeconfigs (mg_settings m) \<noteq> ks_kubeconfigs s
                  \<or> ks_load_default_kubeconfig (mg_settings m) \<noteq> ks_load_default_kubeconfig s
                  \<or> ks_load_kubeconfig_env (mg_settings m) \<noteq> ks_load_kubeconfig_env s
                then reload (m\<lparr>mg_settings := s\<rparr>) else m\<lparr>mg_settings := s\<rparr>)"
  define regroup where "regroup = (ks_group_contexts (mg_settings m) \<noteq> ks_group_contexts s
      \<or> ks_separate_groups (mg_settings m) \<noteq> ks_separate_groups s)"
  have "shape m1 = shape m" by (simp add: m1_def) (simp add: shape_def)
  with assms(1) have m1: "kube_inv m1" by (rule kube_inv_kept)
  have "kube_inv (apply_entries en order m1)"
    using assms(2) by (intro kube_inv_apply_entries [OF m1]) (auto simp: lists_keys_def m1_def reload_def Let_def)
  with m1 have "kube_inv (if regroup then apply_entries en order m1 else m1)" by simp
  then show ?thesis
    unfolding kube_settings_changed_def Let_def m1_def [symmetric] regroup_def [symmetric]
    by (rule kube_inv_kept) (simp add: shape_fold)
qed

lemma kube_inv_do: "kube_inv m \<Longrightarrow> kube_inv (kube_do en x m)"
proof (cases x)
  case (Report k t r)
  assume m: "kube_inv m"
  have "kube_inv (retry_fired i g m)" "kube_inv (health_tick now i g interval m)" for i g now interval
    using m by (simp_all add: retry_fired_def health_tick_def kube_inv_connect kube_inv_kept [OF m] split: option.split)
  then have "kube_inv (task_report t r m)"
    using m by (auto simp: task_report_def kube_inv_kept [OF m] split: conn_task.split report.split)
  with Report m show ?thesis by (simp add: kube_do_def)
next
  case (ConnectInteractive i)
  assume m: "kube_inv m"
  then have "kube_inv (m\<lparr>mg_interactive := I\<rparr>)" for I by (rule kube_inv_kept) simp
  with ConnectInteractive show ?thesis by (simp add: kube_do_def connect_interactive_def kube_inv_connect)
qed (simp_all add: kube_do_def kube_inv_load kube_inv_settings kube_inv_connect kube_inv_ensure kube_inv_activate
    kube_inv_follow_tab kube_inv_kept [of m])

interpretation managing: machine "kube_do en" kube_inv for en
  by unfold_locales (rule kube_inv_do)

lemma kube_inv_new: "kube_inv (start_manager (manager_new dir watch s st))"
  by (simp add: kube_inv_def indexed_def start_manager_def reload_def start_file_events_def manager_new_def index_entries_def)

text \<open>C25: whatever the files, the settings, the tasks and the user do: every connection the manager keeps is one of
  a sidebar entry, the active cluster is an entry (after a reload that removed it there is none), and it is the
  one that is saved.\<close>

theorem connections_have_entries:
  "let m = fold (kube_do en) ops (start_manager (manager_new dir watch s st))
   in (\<forall>k. mg_clusters m k = None \<or> (\<exists>e \<in> set (mg_entries m). entry_of m k = Some e)) \<and>
      (case mg_active m of
         Some i \<Rightarrow> (\<exists>e \<in> set (mg_entries m). entry_of m i = Some e) \<and> ka_active (mg_state m) = Some i
       | None \<Rightarrow> True)"
proof -
  let ?m = "fold (kube_do en) ops (start_manager (manager_new dir watch s st))"
  have "kube_inv ?m" by (rule managing.run_keeps [OF kube_inv_new])
  moreover have "e \<in> set (mg_entries m)" if "entry_of m i = Some e" for m :: "'a manager" and i e
    using that by (auto simp: entry_of_def split: option.splits if_splits)
  ultimately show ?thesis
    by (auto simp: kube_inv_def Let_def split: option.splits) fastforce+
qed

end
