(* ===== verification/ConnLive.thy ===== *)
theory ConnLive
  imports ConnSafety
begin

text \<open>
  Connections while the entries stay the same (no reload, no new settings): every connection that is not at
  rest keeps the handle of a task of its own whose report moves it on.
\<close>

section \<open>What a handler does to one connection\<close>

named_theorems conns "the connections after an operation"

lemma conns_out [conns]:
  "mg_clusters (emit_conn e m) = mg_clusters m" "mg_clusters (notify_views m) = mg_clusters m"
  "mg_clusters (toast t s m) = mg_clusters m" "mg_clusters (cause ef m) = mg_clusters m"
  "mg_clusters (state_changed i m) = mg_clusters m" "mg_clusters (failure_toast n w err m) = mg_clusters m"
  by (simp_all add: emit_conn_def notify_views_def toast_def cause_def state_changed_def failure_toast_def)

lemma conns_update [conns]:
  "mg_clusters (update_conn k f m) = (case mg_clusters m k of Some c \<Rightarrow> (mg_clusters m)(k \<mapsto> f c) | None \<Rightarrow> mg_clusters m)"
  by (simp add: update_conn_def split: option.split)

lemma key_here: "mg_clusters m k = Some c \<Longrightarrow> conn_key m k = k"
  by (simp add: conn_key_def)

lemma current_here:
  "mg_clusters m k = Some c \<Longrightarrow> current_conn m k g = (if cl_generation c = g then Some c else None)"
  by (simp add: current_conn_def key_here)

lemma conns_current:
  "mg_clusters m k = Some c \<Longrightarrow>
   mg_clusters (update_current k g f m) = (if cl_generation c = g then (mg_clusters m)(k \<mapsto> f c) else mg_clusters m)"
  by (simp add: update_current_def current_here key_here conns)

lemma conns_push:
  "mg_clusters m k = Some c \<Longrightarrow> cl_generation c = g \<Longrightarrow>
   mg_clusters (push_task k g t m) = (mg_clusters m)(k \<mapsto> c\<lparr>cl_tasks := cl_tasks c @ [t]\<rparr>)"
  by (simp add: push_task_def conns_current)

lemma settings_kept:
  "mg_settings (update_conn k f m) = mg_settings m" "mg_settings (update_current i g f m) = mg_settings m"
  "mg_settings (push_task i g t m) = mg_settings m"
proof -
  show *: "mg_settings (update_conn k f m) = mg_settings m" for k f m
    by (simp add: update_conn_def split: option.split)
  show **: "mg_settings (update_current i g f m) = mg_settings m" for i g f m
    by (simp add: update_current_def * split: option.split)
  show "mg_settings (push_task i g t m) = mg_settings m" by (simp add: push_task_def **)
qed

definition failed_cluster :: "bool \<Rightarrow> str \<Rightarrow> connect_error \<Rightarrow> 'c cluster \<Rightarrow> 'c cluster" where
  "failed_cluster sign_in k err c =
     (let failures = Suc (cl_failures c);
          retry = (case err of UnreachableError _ \<Rightarrow> Some (backoff failures) | _ \<Rightarrow> None)
      in c\<lparr>cl_failures := failures, cl_state := failed_state ''Sign in to continue.'' sign_in retry err,
           cl_tasks := cl_tasks c @ opt_list (map_option (RetryTimer k (cl_generation c)) retry)\<rparr>)"

lemma conns_interactive [conns]: "mg_clusters (m\<lparr>mg_interactive := I\<rparr>) = mg_clusters m" by simp

lemma key_present: "mg_clusters m k \<noteq> None \<Longrightarrow> conn_key m k = k"
  by (auto simp: conn_key_def)

lemma conns_fail:
  assumes "mg_clusters m k = Some c"
  shows "mg_clusters (fail k (cl_generation c) err m) = (mg_clusters m)(k \<mapsto> failed_cluster (can_sign_in m k) k err c)"
  by (cases err) (simp_all add: fail_def Let_def current_here [OF assms] key_present assms conns failed_cluster_def opt_list_def)

lemma conns_start_watches:
  assumes "mg_clusters m k = Some c" "cl_generation c = g"
  shows "mg_clusters (start_watches k g m) = (mg_clusters m)(k \<mapsto> c\<lparr>cl_crd_first := True,
    cl_tasks := cl_tasks c @ [NamespaceWatch k g, NamespaceBatches k g, CrdWatch k g, CrdBatches k g]\<rparr>)"
proof -
  have now: "mg_clusters (update_current k g (\<lambda>c. c\<lparr>cl_crd_first := True\<rparr>) m) = (mg_clusters m)(k \<mapsto> c\<lparr>cl_crd_first := True\<rparr>)"
    using assms by (simp add: conns_current)
  have push: "mg_clusters m' = (mg_clusters m)(k \<mapsto> c') \<Longrightarrow> cl_generation c' = g \<Longrightarrow>
      mg_clusters (push_task k g t m') = (mg_clusters m)(k \<mapsto> c'\<lparr>cl_tasks := cl_tasks c' @ [t]\<rparr>)" for m' c' t
    using conns_push [of m' k c' g t] by simp
  show ?thesis
    unfolding start_watches_def fold_simps o_apply id_apply
    by (rule trans, rule push, rule push, rule push, rule push, rule now) (simp_all add: assms)
qed

definition started_cluster ::
  "str \<Rightarrow> nat \<Rightarrow> context_info \<Rightarrow> context_settings \<Rightarrow> 'c built_client \<Rightarrow> probe \<Rightarrow> nat option \<Rightarrow> 'c cluster \<Rightarrow> 'c cluster" where
  "started_cluster k interval info settings built p expires c =
     (let g = cl_generation c
      in (connected_cluster info settings built p expires c)
           \<lparr>cl_crd_first := True,
            cl_tasks := cl_tasks c @ [NamespaceWatch k g, NamespaceBatches k g, CrdWatch k g, CrdBatches k g, DiscoverTask k g],
            cl_health := Some (HealthTimer k g interval interval)\<rparr>)"

lemma conns_finish_connect:
  assumes c: "mg_clusters m k = Some c" and e: "entry_of m k = Some info"
  shows "mg_clusters (finish_connect k (cl_generation c) r m) = (mg_clusters m)(k \<mapsto>
    (case r of
       Inl err \<Rightarrow> failed_cluster (can_sign_in m k) k err c
     | Inr (built, Inl err, _) \<Rightarrow> failed_cluster (can_sign_in m k) k err (c\<lparr>cl_client := Some built\<rparr>)
     | Inr (built, Inr p, expires) \<Rightarrow>
         started_cluster k (max (ks_health_check_interval (mg_settings m)) 5) info (settings_for m k) built p expires c))"
proof (cases r)
  case (Inl err)
  then show ?thesis
    by (simp add: finish_connect_def Let_def key_here [OF c] current_here [OF c] e conns_fail [OF c])
next
  case (Inr x)
  then obtain built pr expires where r: "r = Inr (built, pr, expires)" by (cases x) auto
  show ?thesis
  proof (cases pr)
    case (Inl err)
    let ?m = "update_conn k (\<lambda>c. c\<lparr>cl_client := Some built\<rparr>) m"
    have c': "mg_clusters ?m k = Some (c\<lparr>cl_client := Some built\<rparr>)" by (simp add: conns c)
    have "can_sign_in ?m k = can_sign_in m k"
      using shape_entry [of ?m m] by (simp add: can_sign_in_def)
    with conns_fail [OF c', of err] r Inl show ?thesis
      by (simp add: finish_connect_def Let_def key_here [OF c] current_here [OF c] e conns c)
  next
    case (Inr p)
    define m1 where "m1 = update_conn k (connected_cluster info (settings_for m k) built p expires)
      (m\<lparr>mg_interactive := mg_interactive m - {k}\<rparr>)"
    let ?c1 = "connected_cluster info (settings_for m k) built p expires c"
    have gen: "cl_generation ?c1 = cl_generation c" "cl_tasks ?c1 = cl_tasks c"
      by (simp_all add: connected_cluster_def Let_def)
    have m1: "mg_clusters m1 = (mg_clusters m)(k \<mapsto> ?c1)" by (simp add: m1_def conns c)
    have m2: "mg_clusters (start_watches k (cl_generation c) m1) = (mg_clusters m)(k \<mapsto> ?c1\<lparr>cl_crd_first := True,
        cl_tasks := cl_tasks c @ [NamespaceWatch k (cl_generation c), NamespaceBatches k (cl_generation c),
          CrdWatch k (cl_generation c), CrdBatches k (cl_generation c)]\<rparr>)"
      using conns_start_watches [of m1 k ?c1 "cl_generation c"] by (simp add: m1 gen)
    have m3: "mg_clusters (run_discovery k (cl_generation c) (start_watches k (cl_generation c) m1)) =
        (mg_clusters m)(k \<mapsto> ?c1\<lparr>cl_crd_first := True,
          cl_tasks := cl_tasks c @ [NamespaceWatch k (cl_generation c), NamespaceBatches k (cl_generation c),
            CrdWatch k (cl_generation c), CrdBatches k (cl_generation c), DiscoverTask k (cl_generation c)]\<rparr>)"
      by (simp add: run_discovery_def conns_push m2 gen)
    have settings: "mg_settings (run_discovery k g (start_watches k g m1)) = mg_settings m" for g
      by (simp add: run_discovery_def start_watches_def settings_kept m1_def)
    show ?thesis
      using r Inr c
      by (simp add: finish_connect_def Let_def key_here [OF c] current_here [OF c] e key_present m1_def [symmetric]
          start_health_def schedule_health_def conns conns_current m3 settings gen started_cluster_def)
  qed
qed

definition pinged_cluster :: "bool \<Rightarrow> connect_error + nat \<Rightarrow> 'c cluster \<Rightarrow> 'c cluster" where
  "pinged_cluster sign_in ping c =
     (case ping of
        Inr latency \<Rightarrow>
          c\<lparr>cl_failures := 0,
            cl_state := Connected latency (case cl_state c of
                Connected _ v \<Rightarrow> v | _ \<Rightarrow> (case cl_version c of Some v \<Rightarrow> vi_git_version v | None \<Rightarrow> []))\<rparr>
      | Inl err \<Rightarrow>
          c\<lparr>cl_failures := Suc (cl_failures c),
            cl_state := failed_state ''The session expired. Sign in again.'' sign_in (Some (backoff (Suc (cl_failures c)))) err\<rparr>)"

lemma conns_finish_ping:
  assumes "mg_clusters m k = Some c"
  shows "mg_clusters (snd (finish_ping k (cl_generation c) ping m)) =
      (mg_clusters m)(k \<mapsto> pinged_cluster (can_sign_in m k) ping c)"
  using assms
  by (cases ping) (simp_all add: finish_ping_def Let_def key_here current_here conns pinged_cluster_def)

lemma conns_ping_done:
  assumes "mg_clusters m k = Some c"
  shows "\<exists>delay. mg_clusters (ping_done k (cl_generation c) interval ping m) =
      (mg_clusters m)(k \<mapsto> (pinged_cluster (can_sign_in m k) ping c)\<lparr>cl_health := Some (HealthTimer k (cl_generation c) interval delay)\<rparr>)"
proof -
  let ?c = "pinged_cluster (can_sign_in m k) ping c"
  obtain ok m1 where m1: "finish_ping k (cl_generation c) ping m = (ok, m1)" by (metis surj_pair)
  with conns_finish_ping [OF assms, of ping] have new: "mg_clusters m1 = (mg_clusters m)(k \<mapsto> ?c)" by simp
  then have here: "mg_clusters m1 k = Some ?c" by simp
  have gen: "cl_generation ?c = cl_generation c" by (simp add: pinged_cluster_def split: sum.split)
  show ?thesis
    by (simp add: ping_done_def m1 Let_def current_here [OF here] gen schedule_health_def conns_current [OF here] new) blast
qed

section \<open>What keeps an attempt as it is\<close>

primrec task_key :: "conn_task \<Rightarrow> str \<times> nat" where
  "task_key (ConnectTask i g) = (i, g)"
| "task_key (RetryTimer i g _) = (i, g)"
| "task_key (NamespaceWatch i g) = (i, g)"
| "task_key (NamespaceBatches i g) = (i, g)"
| "task_key (CrdWatch i g) = (i, g)"
| "task_key (CrdBatches i g) = (i, g)"
| "task_key (DiscoverTask i g) = (i, g)"
| "task_key (UnservedTimer i g _) = (i, g)"
| "task_key (HealthTimer i g _ _) = (i, g)"
| "task_key (PingTask i g _) = (i, g)"

definition health_task :: "str \<Rightarrow> nat \<Rightarrow> conn_task \<Rightarrow> bool" where
  "health_task k g t =
     (case t of HealthTimer i g' _ _ \<Rightarrow> (i, g') = (k, g) | PingTask i g' _ \<Rightarrow> (i, g') = (k, g) | _ \<Rightarrow> False)"

lemma health_task_key: "health_task k g t \<Longrightarrow> task_key t = (k, g)"
  by (cases t) (simp_all add: health_task_def)

definition own_task :: "str \<Rightarrow> nat \<Rightarrow> conn_task \<Rightarrow> bool" where
  "own_task k g t \<longleftrightarrow> task_key t = (k, g) \<and> \<not> health_task k g t"

lemma own_tasks [simp]:
  "own_task k g (ConnectTask k g)" "own_task k g (RetryTimer k g d)" "own_task k g (NamespaceWatch k g)"
  "own_task k g (NamespaceBatches k g)" "own_task k g (CrdWatch k g)" "own_task k g (CrdBatches k g)"
  "own_task k g (DiscoverTask k g)" "own_task k g (UnservedTimer k g d)"
  by (simp_all add: own_task_def health_task_def)

definition same_attempt :: "str \<Rightarrow> 'c cluster \<Rightarrow> 'c cluster \<Rightarrow> bool" where
  "same_attempt k c c' \<longleftrightarrow>
     cl_state c' = cl_state c \<and> cl_generation c' = cl_generation c \<and> cl_health c' = cl_health c \<and>
     cl_client c' = cl_client c \<and>
     (\<exists>ts. cl_tasks c' = cl_tasks c @ ts \<and> (\<forall>t \<in> set ts. own_task k (cl_generation c) t))"

text \<open>The connection \<open>k\<close> is still in the same attempt, with more tasks of its own; the others are as they were.\<close>

definition goes_on :: "str \<Rightarrow> 'c manager \<Rightarrow> 'c manager \<Rightarrow> bool" where
  "goes_on k m m' \<longleftrightarrow>
     (\<forall>j. j \<noteq> k \<longrightarrow> mg_clusters m' j = mg_clusters m j) \<and>
     (case (mg_clusters m k, mg_clusters m' k) of
        (Some c, Some c') \<Rightarrow> same_attempt k c c'
      | (None, None) \<Rightarrow> True
      | _ \<Rightarrow> False)"

lemma same_attempt_refl [simp]: "same_attempt k c c"
  by (simp add: same_attempt_def)

lemma same_attempt_trans: "same_attempt k c c' \<Longrightarrow> same_attempt k c' c'' \<Longrightarrow> same_attempt k c c''"
  unfolding same_attempt_def by auto

lemma goes_on_trans: "goes_on k m m' \<Longrightarrow> goes_on k m' m'' \<Longrightarrow> goes_on k m m''"
  by (auto simp: goes_on_def intro: same_attempt_trans split: option.splits)

lemma goes_on_same: "mg_clusters m' = mg_clusters m \<Longrightarrow> goes_on k m m'"
  by (auto simp: goes_on_def split: option.split)

lemma goes_on_update: "(\<And>c. same_attempt k c (f c)) \<Longrightarrow> goes_on k m (update_conn k f m)"
  by (auto simp: goes_on_def conns split: option.split)

lemma goes_on_present: "goes_on k m m' \<Longrightarrow> mg_clusters m k \<noteq> None \<Longrightarrow> mg_clusters m' k \<noteq> None"
  by (auto simp: goes_on_def split: option.splits)

lemma goes_on_push:
  assumes "mg_clusters m k \<noteq> None" "own_task k g t"
  shows "goes_on k m (push_task k g t m)"
proof -
  from assms(1) obtain c where c: "mg_clusters m k = Some c" by auto
  show ?thesis
    using assms(2) by (auto simp: push_task_def conns_current [OF c] goes_on_def c same_attempt_def)
qed

text \<open>The handlers of watches and discovery, given their own id, go on with the attempt.\<close>

lemma goes_on_rediscover:
  assumes "mg_clusters m k \<noteq> None"
  shows "goes_on k m (rediscover_unserved k g m)"
proof -
  from assms obtain c where c: "mg_clusters m k = Some c" by auto
  have "goes_on k m (push_task k g (UnservedTimer k g d) (update_conn k (\<lambda>c. c\<lparr>cl_unserved_retries := n c\<rparr>) m))" for d n
    by (rule goes_on_trans [OF goes_on_update goes_on_push]) (simp_all add: same_attempt_def conns c)
  then show ?thesis
    by (simp add: rediscover_unserved_def Let_def key_here [OF c] current_here [OF c] goes_on_same split: option.split)
qed

lemma goes_on_discovery: "mg_clusters m k \<noteq> None \<Longrightarrow> goes_on k m (run_discovery k g m)"
  by (simp add: run_discovery_def goes_on_push)

lemma goes_on_unserved: "mg_clusters m k \<noteq> None \<Longrightarrow> goes_on k m (unserved_fired k g m)"
  by (simp add: unserved_fired_def goes_on_discovery goes_on_same)

lemma goes_on_told: "goes_on k m m' \<Longrightarrow> mg_clusters m'' = mg_clusters m' \<Longrightarrow> goes_on k m m''"
  by (simp add: goes_on_def)

lemma goes_on_telling:
  "goes_on k m m' \<Longrightarrow> goes_on k m (emit_conn e m')" "goes_on k m m' \<Longrightarrow> goes_on k m (notify_views m')"
  "goes_on k m m' \<Longrightarrow> goes_on k m (cause ef m')"
  by (auto intro: goes_on_told simp: conns)

lemma goes_on_crds:
  assumes "mg_clusters m k \<noteq> None"
  shows "goes_on k m (crds_came k g batch m)"
proof -
  from assms obtain c where c: "mg_clusters m k = Some c" by auto
  define m1 where "m1 = update_conn k (\<lambda>c. c\<lparr>cl_crd_first := False, cl_crd_count := Some (length (last batch)), cl_crds := last batch\<rparr>) m"
  have m1: "goes_on k m m1" unfolding m1_def by (rule goes_on_update) (simp add: same_attempt_def)
  have here: "mg_clusters m1 k \<noteq> None" using goes_on_present [OF m1 assms] .
  have "goes_on k m (rediscover_unserved k g m1)"
    by (rule goes_on_trans [OF m1 goes_on_rediscover [OF here]])
  moreover have "goes_on k m (run_discovery k g (update_conn k (\<lambda>c. c\<lparr>cl_unserved_retries := 0\<rparr>) m1))"
    by (rule goes_on_trans [OF goes_on_trans [OF m1 goes_on_update] goes_on_discovery])
      (use here in \<open>auto simp: same_attempt_def conns\<close>)
  ultimately have "goes_on k m (if cl_crd_first c then rediscover_unserved k g m1
      else run_discovery k g (update_conn k (\<lambda>c. c\<lparr>cl_unserved_retries := 0\<rparr>) m1))"
    by simp
  then show ?thesis
    unfolding crds_came_def Let_def key_here [OF c] current_here [OF c] m1_def [symmetric]
    using here by (auto simp: key_present goes_on_same intro!: goes_on_telling)
qed

lemma goes_on_discovered:
  assumes "mg_clusters m k \<noteq> None"
  shows "goes_on k m (discovered k g result m)"
proof -
  from assms obtain c where c: "mg_clusters m k = Some c" by auto
  have upd: "goes_on k m (rediscover_unserved k g' (cause ef (emit_conn ev
      (update_conn k (\<lambda>c. c\<lparr>cl_info := x, cl_caps := y, cl_discovery := z\<rparr>) m))))" for g' ef ev x y z
    by (rule goes_on_trans [OF goes_on_told [OF goes_on_update] goes_on_rediscover])
      (simp_all add: same_attempt_def conns c)
  show ?thesis
    by (auto simp: discovered_def Let_def key_here [OF c] current_here [OF c] goes_on_same
        intro!: goes_on_telling upd split: sum.split)
qed

lemma goes_on_names:
  assumes "mg_clusters m k \<noteq> None"
  shows "goes_on k m (namespaces_came k g us m)"
proof -
  from assms obtain c where c: "mg_clusters m k = Some c" by auto
  have "goes_on k m (update_conn k (\<lambda>c. c\<lparr>cl_namespaces := x\<rparr>) m)" for x
    by (rule goes_on_update) (simp add: same_attempt_def)
  then show ?thesis
    by (auto simp: namespaces_came_def apply_namespaces_def Let_def key_here [OF c] current_here [OF c] goes_on_same
        intro!: goes_on_telling)
qed

section \<open>Attempts in order\<close>

definition health_due :: "str \<Rightarrow> nat \<Rightarrow> conn_task option \<Rightarrow> bool" where
  "health_due k g health = (case health of Some t \<Rightarrow> health_task k g t | None \<Rightarrow> False)"

text \<open>Of the state, the generation, the tasks, the health step of the connection \<open>k\<close>, and whether it has a
  client.\<close>

definition in_order :: "str \<Rightarrow> connection_state \<Rightarrow> nat \<Rightarrow> conn_task list \<Rightarrow> conn_task option \<Rightarrow> bool \<Rightarrow> bool" where
  "in_order k s g tasks health has_client \<longleftrightarrow>
     (\<forall>t \<in> set tasks. own_task k g t) \<and>
     (health = None \<or> health_due k g health \<and> has_client) \<and>
     (case s of
        Connecting \<Rightarrow> ConnectTask k g \<in> set tasks
      | Connected _ _ \<Rightarrow> health_due k g health
      | Unreachable _ retry \<Rightarrow> (case retry of Some d \<Rightarrow> health_due k g health \<or> RetryTimer k g d \<in> set tasks | None \<Rightarrow> True)
      | _ \<Rightarrow> True)"

definition attempt_ok :: "str \<Rightarrow> 'c cluster \<Rightarrow> bool" where
  "attempt_ok k c = in_order k (cl_state c) (cl_generation c) (cl_tasks c) (cl_health c) (cl_client c \<noteq> None)"

definition live_inv :: "'c manager \<Rightarrow> bool" where
  "live_inv m \<longleftrightarrow>
     indexed m \<and> mg_aliases m = Map.empty \<and>
     (\<forall>k c. mg_clusters m k = Some c \<longrightarrow> mg_entry_index m k \<noteq> None \<and> attempt_ok k c)"

lemma in_order_more:
  "in_order k s g tasks health b \<Longrightarrow> \<forall>t \<in> set ts. own_task k g t \<Longrightarrow> in_order k s g (tasks @ ts) health b"
  by (cases s) (auto simp: in_order_def split: option.splits)

lemma in_order_client: "in_order k s g tasks health b \<Longrightarrow> in_order k s g tasks health True"
  by (auto simp: in_order_def)

lemma in_order_failed:
  "in_order k s g tasks health b \<Longrightarrow>
   (case retry of Some d \<Rightarrow> health_due k g health \<or> RetryTimer k g d \<in> set tasks | None \<Rightarrow> True) \<Longrightarrow>
   in_order k (failed_state message sign_in retry err) g tasks health b"
  by (cases err) (simp_all add: in_order_def failed_state_def)

lemma attempt_ok_same: "attempt_ok k c \<Longrightarrow> same_attempt k c c' \<Longrightarrow> attempt_ok k c'"
  by (auto simp: attempt_ok_def same_attempt_def in_order_more)

lemma attempt_ok_failed: "attempt_ok k c \<Longrightarrow> attempt_ok k (failed_cluster sign_in k err c)"
proof -
  assume ok: "attempt_ok k c"
  define retry where "retry = (case err of UnreachableError _ \<Rightarrow> Some (backoff (Suc (cl_failures c))) | _ \<Rightarrow> None)"
  have "in_order k (cl_state c) (cl_generation c)
      (cl_tasks c @ opt_list (map_option (RetryTimer k (cl_generation c)) retry)) (cl_health c) (cl_client c \<noteq> None)"
    using ok by (intro in_order_more) (auto simp: attempt_ok_def opt_list_def split: option.splits)
  then have "in_order k (failed_state ''Sign in to continue.'' sign_in retry err) (cl_generation c)
      (cl_tasks c @ opt_list (map_option (RetryTimer k (cl_generation c)) retry)) (cl_health c) (cl_client c \<noteq> None)"
    by (rule in_order_failed) (simp add: opt_list_def split: option.split)
  then show ?thesis by (simp add: attempt_ok_def failed_cluster_def Let_def retry_def)
qed

lemma attempt_ok_client: "attempt_ok k c \<Longrightarrow> attempt_ok k (c\<lparr>cl_client := Some built\<rparr>)"
  by (simp add: attempt_ok_def in_order_client)

lemma attempt_ok_started: "attempt_ok k c \<Longrightarrow> attempt_ok k (started_cluster k interval info settings built p expires c)"
  by (auto simp: attempt_ok_def started_cluster_def connected_cluster_def in_order_def health_due_def health_task_def Let_def)

lemma attempt_ok_pinged:
  assumes "attempt_ok k c" "cl_health c \<noteq> None"
  shows "attempt_ok k ((pinged_cluster sign_in ping c)\<lparr>cl_health := Some (HealthTimer k (cl_generation c) interval delay)\<rparr>)"
proof -
  let ?h = "Some (HealthTimer k (cl_generation c) interval delay)"
  have "in_order k (cl_state c) (cl_generation c) (cl_tasks c) ?h (cl_client c \<noteq> None)"
    using assms by (auto simp: attempt_ok_def in_order_def health_due_def health_task_def
        split: connection_state.splits option.splits)
  moreover have "health_due k (cl_generation c) ?h" by (simp add: health_due_def health_task_def)
  ultimately show ?thesis
    by (cases ping) (auto simp: attempt_ok_def pinged_cluster_def in_order_failed, simp add: in_order_def)
qed

lemma attempt_ok_pinging:
  "attempt_ok k c \<Longrightarrow> cl_client c \<noteq> None \<Longrightarrow>
   attempt_ok k (c\<lparr>cl_health := Some (PingTask k (cl_generation c) interval)\<rparr>)"
  by (auto simp: attempt_ok_def in_order_def health_due_def health_task_def split: connection_state.splits option.splits)

lemma live_one:
  assumes "live_inv m" "shape m' = shape m" "mg_clusters m' = (mg_clusters m)(k \<mapsto> c')" "attempt_ok k c'"
  shows "live_inv m'"
proof -
  from assms(2) have "mg_entry_index m' = mg_entry_index m" "mg_aliases m' = mg_aliases m" "indexed m' = indexed m"
    "dom (mg_clusters m') = dom (mg_clusters m)"
    by (simp_all add: shape_def indexed_def)
  moreover from this(4) assms(3) have "mg_clusters m k \<noteq> None" by auto
  ultimately show ?thesis
    using assms(1,3,4) unfolding live_inv_def by (simp add: fun_upd_def split: if_split) metis
qed

lemma live_same: "live_inv m \<Longrightarrow> shape m' = shape m \<Longrightarrow> mg_clusters m' = mg_clusters m \<Longrightarrow> live_inv m'"
  by (simp add: live_inv_def shape_def indexed_def)

lemma live_goes_on:
  assumes "live_inv m" "shape m' = shape m" "goes_on k m m'"
  shows "live_inv m'"
proof (cases "mg_clusters m k")
  case None
  have "mg_clusters m' j = mg_clusters m j" for j
    using assms(3) None by (cases "j = k") (auto simp: goes_on_def split: option.splits)
  then show ?thesis by (intro live_same [OF assms(1,2)]) auto
next
  case (Some c)
  with assms(3) obtain c' where c': "mg_clusters m' k = Some c'" "same_attempt k c c'"
    by (auto simp: goes_on_def split: option.splits)
  with assms(3) have "mg_clusters m' = (mg_clusters m)(k \<mapsto> c')" by (auto simp: goes_on_def fun_eq_iff)
  moreover have "attempt_ok k c" using assms(1) Some by (simp add: live_inv_def)
  ultimately show ?thesis using live_one [OF assms(1,2)] attempt_ok_same c'(2) by blast
qed

lemma resolve_without_aliases:
  assumes "indexed m" "mg_aliases m = Map.empty" "entry_of m (resolve_id m i) \<noteq> None"
  shows "mg_entry_index m (resolve_id m i) \<noteq> None"
proof -
  have ids: "mg_entry_index m (ci_id (mg_entries m ! ix)) \<noteq> None" if "mg_member_index m k = Some ix" for k ix
  proof -
    have ix: "mg_entry_index m = fst (index_entries (mg_entries m))" "mg_member_index m = snd (index_entries (mg_entries m))"
      using assms(1) by (metis indexed_def fst_conv, metis indexed_def snd_conv)
    from that ix(2) index_members [of k "mg_entries m" 0 "(Map.empty, Map.empty)"] have "ix < length (mg_entries m)"
      by (auto simp: index_entries_def split: if_splits)
    then have "ci_id (mg_entries m ! ix) \<in> ci_id ` set (mg_entries m)" by simp
    with ix(1) index_ids [of "ci_id (mg_entries m ! ix)" "mg_entries m" 0 "(Map.empty, Map.empty)"] show ?thesis
      by (auto simp: index_entries_def)
  qed
  show ?thesis
  proof (rule ccontr)
    assume "\<not> ?thesis"
    then have none: "mg_entry_index m (resolve_id m i) = None" by simp
    have "resolve_id m i = i" "mg_entry_index m i = None"
      using none assms(2)
      by (auto simp: resolve_id_def resolve_in_def numeral_eq_Suc dest: ids split: option.splits if_splits bind_splits)
    with assms(3) show False by (simp add: entry_of_def)
  qed
qed

section \<open>Operations that keep the entries\<close>

text \<open>What \<open>live_inv\<close> reads.\<close>

definition conn_core where
  "conn_core m = (mg_entries m, mg_entry_index m, mg_member_index m, mg_aliases m, mg_clusters m)"

lemma live_core: "live_inv m \<Longrightarrow> conn_core m' = conn_core m \<Longrightarrow> live_inv m'"
  by (simp add: live_inv_def conn_core_def indexed_def)

lemma core_out [simp]:
  "conn_core (emit_conn e m) = conn_core m" "conn_core (notify_views m) = conn_core m"
  "conn_core (toast t s m) = conn_core m" "conn_core (cause ef m) = conn_core m"
  "conn_core (state_changed i m) = conn_core m" "conn_core (m\<lparr>mg_interactive := I\<rparr>) = conn_core m"
  by (simp_all add: conn_core_def emit_conn_def notify_views_def toast_def cause_def state_changed_def)

lemma core_announce [simp]: "conn_core (announce_active i ns from_tab m) = conn_core m"
  by (simp add: announce_active_def Let_def save_state_def split: connection_state.split)
    (simp add: conn_core_def)

lemma live_put:
  assumes "live_inv m" "mg_entry_index m k \<noteq> None" "attempt_ok k c"
  shows "live_inv (m\<lparr>mg_clusters := (mg_clusters m)(k \<mapsto> c)\<rparr>)"
  using assms by (auto simp: live_inv_def indexed_def)

lemma live_connect: "live_inv m \<Longrightarrow> live_inv (connect_cluster i m)"
proof -
  assume live: "live_inv m"
  define k where "k = resolve_id m i"
  show ?thesis
  proof (cases "entry_of m k")
    case None
    with live show ?thesis by (simp add: connect_cluster_def Let_def k_def)
  next
    case (Some info)
    have "mg_entry_index m k \<noteq> None"
      using live Some resolve_without_aliases [of m i] by (auto simp: live_inv_def k_def)
    then have put: "attempt_ok k c \<Longrightarrow> live_inv (m\<lparr>mg_clusters := (mg_clusters m)(k \<mapsto> c)\<rparr>)" for c
      by (rule live_put [OF live])
    show ?thesis
      unfolding connect_cluster_def Let_def k_def [symmetric] Some option.case
      by (rule live_core [OF put]) (simp_all add: attempt_ok_def in_order_def fresh_attempt_def)
  qed
qed

lemma live_ensure: "live_inv m \<Longrightarrow> live_inv (ensure_connected i m)"
  by (simp add: ensure_connected_def Let_def live_connect split: connection_state.split)

lemma live_activate_in: "live_inv m \<Longrightarrow> live_inv (activate_in i ns from_tab m)"
  unfolding activate_in_def
  by (rule live_core [OF live_ensure]) (auto intro: live_core)

lemma live_disconnect: "live_inv m \<Longrightarrow> live_inv (disconnect i m)"
proof -
  assume live: "live_inv m"
  let ?k = "conn_key m (conn_key m i)"
  have "live_inv (m\<lparr>mg_clusters := (mg_clusters m)(?k \<mapsto> cluster_default\<lparr>cl_generation := g\<rparr>)\<rparr>)"
    if "mg_clusters m ?k \<noteq> None" for g
    using live that by (intro live_put) (auto simp: live_inv_def attempt_ok_def in_order_def cluster_default_def)
  then show ?thesis
    using live by (auto simp: disconnect_def Let_def intro: live_core [OF _ core_out(5)] split: option.split)
qed

lemma live_record: "live_inv m \<Longrightarrow> live_inv (record_access now i gen query allowed m)"
proof -
  assume live: "live_inv m"
  let ?k = "conn_key m i"
  have "goes_on ?k m (update_conn ?k (\<lambda>c. c\<lparr>cl_access := access_insert now query allowed (cl_access c)\<rparr>) m)"
    by (rule goes_on_update) (simp add: same_attempt_def)
  then show ?thesis
    using live by (auto simp: record_access_def Let_def intro: live_goes_on split: option.split)
qed

lemma live_health_tick:
  assumes live: "live_inv m" and c: "mg_clusters m k = Some c"
  shows "live_inv (health_tick now k g interval m)"
proof (cases "cl_generation c = g \<and> cl_client c \<noteq> None")
  case True
  then obtain built where built: "cl_client c = Some built" by auto
  have "attempt_ok k c" using live c by (simp add: live_inv_def)
  with True have ok: "attempt_ok k (c\<lparr>cl_health := Some (PingTask k g interval)\<rparr>)"
    using attempt_ok_pinging by blast
  have "live_inv (update_current k g (\<lambda>c. c\<lparr>cl_health := Some (PingTask k g interval)\<rparr>) m)"
    using True c by (intro live_one [OF live _ _ ok]) (simp_all add: conns_current)
  with True built live c show ?thesis
    by (simp add: health_tick_def current_here [OF c] live_connect)
next
  case False
  with live c show ?thesis by (auto simp: health_tick_def current_here [OF c] split: option.split)
qed

lemma live_report:
  assumes live: "live_inv m" and holds: "holds m k t"
  shows "live_inv (task_report t r m)"
proof -
  from holds obtain c where c: "mg_clusters m k = Some c" and t: "t \<in> set (cl_tasks c) \<or> cl_health c = Some t"
    by (auto simp: holds_def split: option.splits)
  have ok: "attempt_ok k c" and entry: "entry_of m k \<noteq> None"
    using live c indexed_entry by (auto simp: live_inv_def) blast
  from t ok have "own_task k (cl_generation c) t \<or> health_task k (cl_generation c) t"
    by (auto simp: attempt_ok_def in_order_def health_due_def)
  then have key: "task_key t = (k, cl_generation c)"
    by (auto simp: own_task_def health_task_key)
  have present: "mg_clusters m k \<noteq> None" using c by simp
  note goes = live_goes_on [OF live _ goes_on_crds [OF present]] live_goes_on [OF live _ goes_on_discovered [OF present]]
    live_goes_on [OF live _ goes_on_names [OF present]] live_goes_on [OF live _ goes_on_unserved [OF present]]
  have "live_inv (finish_connect k (cl_generation c) result m)" for result
  proof -
    from entry obtain info where e: "entry_of m k = Some info" by auto
    show ?thesis
      by (rule live_one [OF live shape_finish_connect conns_finish_connect [OF c e]])
        (auto intro: attempt_ok_failed attempt_ok_client attempt_ok_started ok split: sum.split prod.split)
  qed
  moreover have "live_inv (retry_fired k g m)" for g
    using live by (simp add: retry_fired_def live_connect)
  moreover have "live_inv (ping_done k (cl_generation c) interval ping m)" if "t = PingTask k (cl_generation c) interval" for interval ping
  proof -
    from that t ok have "cl_health c \<noteq> None"
      by (auto simp: attempt_ok_def in_order_def own_task_def health_task_def)
    with ok obtain delay where "mg_clusters (ping_done k (cl_generation c) interval ping m) = (mg_clusters m)(k \<mapsto>
        (pinged_cluster (can_sign_in m k) ping c)\<lparr>cl_health := Some (HealthTimer k (cl_generation c) interval delay)\<rparr>)"
      using conns_ping_done [OF c] by blast
    then show ?thesis
      by (rule live_one [OF live shape_ping(2)]) (rule attempt_ok_pinged [OF ok \<open>cl_health c \<noteq> None\<close>])
  qed
  ultimately show ?thesis
    using key live live_health_tick [OF live c] goes
    by (cases t; cases r) (simp_all add: task_report_def)
qed

lemma live_activate: "live_inv m \<Longrightarrow> live_inv (activate_cluster i m)"
  by (simp add: activate_cluster_def Let_def live_activate_in split: option.split)

text \<open>The operations that leave the entries as they are: all but loads and new settings.\<close>

definition keeps_entries :: "'c kube_op \<Rightarrow> bool" where
  "keeps_entries x = (case x of LoadDone _ _ _ \<Rightarrow> False | NewSettings _ _ \<Rightarrow> False | _ \<Rightarrow> True)"

lemma live_do: "keeps_entries x \<Longrightarrow> live_inv m \<Longrightarrow> live_inv (kube_do en x m)"
proof (cases x)
  case FilesChanged
  assume "live_inv m"
  then show ?thesis using FilesChanged
    by (auto simp: kube_do_def reload_def Let_def conn_core_def intro: live_core)
next
  case Reload
  assume "live_inv m"
  then show ?thesis using Reload
    by (auto simp: kube_do_def reload_def Let_def conn_core_def intro: live_core)
next
  case (Activate i)
  assume "live_inv m"
  then show ?thesis using Activate
    by (auto simp: kube_do_def activate_cluster_def Let_def live_activate_in split: option.split)
next
  case (FollowTab i ns sc sn)
  assume "live_inv m"
  then show ?thesis using FollowTab
    by (auto simp: kube_do_def follow_tab_def Let_def live_activate_in split: option.split)
next
  case (RememberNamespace i ns)
  assume "live_inv m"
  then show ?thesis using RememberNamespace
    by (auto simp: kube_do_def remember_namespace_def save_state_def cause_def conn_core_def intro: live_core)
next
  case (ConnectInteractive i)
  assume "live_inv m"
  then have "live_inv (m\<lparr>mg_interactive := I\<rparr>)" for I by (rule live_core) simp
  then show ?thesis using ConnectInteractive by (simp add: kube_do_def connect_interactive_def live_connect)
next
  case (ChangeContext i f)
  assume "live_inv m"
  then show ?thesis using ChangeContext
    by (auto simp: kube_do_def update_context_settings_def intro: live_core)
qed (simp_all add: kube_do_def keeps_entries_def live_report live_connect live_ensure live_disconnect live_record)

interpretation living: guarded_machine "kube_do en" keeps_entries live_inv for en
  by unfold_locales (rule live_do)

section \<open>The first load\<close>

lemma shape_indexed: "shape m' = shape m \<Longrightarrow> indexed m' = indexed m"
  by (simp add: shape_def indexed_def)

lemma live_first_entries:
  assumes "mg_clusters m = Map.empty" "mg_aliases m = Map.empty"
  shows "live_inv (apply_entries en order m)"
proof -
  obtain by_id by_member where ix: "index_entries (new_entries en m) = (by_id, by_member)" by (metis surj_pair)
  have "keys_in order (Map.empty :: str \<rightharpoonup> 'a cluster) = []" by (simp add: keys_in_def)
  with assms ix show ?thesis
    by (auto simp: apply_entries_def Let_def live_inv_def indexed_def clear_active_def cause_def emit_conn_def
        split: option.split)
qed

lemma live_restore: "live_inv m \<Longrightarrow> live_inv (restore_active m)"
proof -
  assume live: "live_inv m"
  define m1 where "m1 = m\<lparr>mg_restored := True\<rparr>"
  from live have "live_inv m1" by (rule live_core) (simp add: conn_core_def m1_def)
  with live show ?thesis
    unfolding restore_active_def m1_def [symmetric] Let_def
    by (cases "ka_active (mg_state m1)") (simp_all add: live_activate)
qed

lemma live_first_load: "live_inv (finish_reload en order 1 ld (start_manager (manager_new dir watch s st) :: 'a manager))"
proof -
  let ?m = "apply_entries en order ((start_manager (manager_new dir watch s st) :: 'a manager)\<lparr>mg_loading := False, mg_loaded := ld\<rparr>)"
  have "live_inv ?m"
    by (rule live_first_entries) (simp_all add: start_manager_def start_file_events_def reload_def manager_new_def Let_def)
  then have "live_inv (if mg_watch_files ?m then update_watcher ?m else ?m)"
    by (rule live_core) (simp add: update_watcher_def conn_core_def)
  then have "live_inv (restore_active (if mg_watch_files ?m then update_watcher ?m else ?m))" by (rule live_restore)
  then have "live_inv (apply_loaded en order ld (start_manager (manager_new dir watch s st) :: 'a manager))"
    unfolding apply_loaded_def Let_def by (rule live_core) simp
  moreover have "mg_reload_generation (start_manager (manager_new dir watch s st) :: 'a manager) = 1"
    by (simp add: start_manager_def reload_def start_file_events_def manager_new_def Let_def)
  ultimately show ?thesis by (simp add: finish_reload_def)
qed

section \<open>No connection hangs\<close>

text \<open>What brings the connection \<open>k\<close> on: the report of its connect task leaves \<open>Connecting\<close>, a retry timer starts
  the next attempt, and a health step is due.\<close>

definition moves_on :: "conn_env \<Rightarrow> 'c manager \<Rightarrow> str \<Rightarrow> 'c cluster \<Rightarrow> bool" where
  "moves_on en m k c \<longleftrightarrow>
     (case cl_state c of
        Connecting \<Rightarrow>
          (\<forall>r. state_of (kube_do en (Report k (ConnectTask k (cl_generation c)) (ConnectResult r)) m) k \<noteq> Connecting)
      | Connected _ _ \<Rightarrow> health_due k (cl_generation c) (cl_health c)
      | Unreachable _ (Some d) \<Rightarrow>
          health_due k (cl_generation c) (cl_health c) \<or>
          (\<forall>now. map_option cl_generation
             (cluster_of (kube_do en (Report k (RetryTimer k (cl_generation c) d) (Fired now)) m) k)
             = Some (Suc (cl_generation c)))
      | _ \<Rightarrow> True)"

lemma state_here: "mg_clusters m k = Some c \<Longrightarrow> state_of m k = cl_state c"
  by (simp add: state_of_def cluster_of_def key_here)

lemma failed_not_connecting: "failed_state message sign_in retry err \<noteq> Connecting"
  by (simp add: failed_state_def split: connect_error.split)

lemma connect_answered:
  assumes c: "mg_clusters m k = Some c" and e: "entry_of m k = Some info"
  shows "state_of (finish_connect k (cl_generation c) r m) k \<noteq> Connecting"
proof -
  have "mg_clusters (finish_connect k (cl_generation c) r m) k = Some
    (case r of
       Inl err \<Rightarrow> failed_cluster (can_sign_in m k) k err c
     | Inr (built, Inl err, _) \<Rightarrow> failed_cluster (can_sign_in m k) k err (c\<lparr>cl_client := Some built\<rparr>)
     | Inr (built, Inr p, expires) \<Rightarrow>
         started_cluster k (max (ks_health_check_interval (mg_settings m)) 5) info (settings_for m k) built p expires c)"
    by (simp add: conns_finish_connect [OF c e])
  from state_here [OF this] show ?thesis
    by (auto simp: failed_cluster_def started_cluster_def connected_cluster_def Let_def failed_not_connecting
        split: sum.splits prod.splits)
qed

lemma live_moves_on:
  assumes live: "live_inv m" and c: "mg_clusters m k = Some c"
  shows "moves_on en m k c"
proof -
  have ok: "attempt_ok k c" and ix: "mg_entry_index m k \<noteq> None"
    using live c by (auto simp: live_inv_def)
  have entry: "entry_of m k \<noteq> None" using live ix indexed_entry by (auto simp: live_inv_def)
  then obtain info where e: "entry_of m k = Some info" by auto
  have here: "resolve_id m k = k" using ix by (rule resolve_indexed)
  have connecting: "state_of (kube_do en (Report k (ConnectTask k (cl_generation c)) (ConnectResult r)) m) k \<noteq> Connecting"
    if "cl_state c = Connecting" for r
    using that ok c connect_answered [OF c e]
    by (simp add: kube_do_def holds_def attempt_ok_def in_order_def task_report_def)
  have retry: "map_option cl_generation
      (cluster_of (kube_do en (Report k (RetryTimer k (cl_generation c) d) (Fired now)) m) k) = Some (Suc (cl_generation c))"
    if "RetryTimer k (cl_generation c) d \<in> set (cl_tasks c)" for d now
  proof -
    have "kube_do en (Report k (RetryTimer k (cl_generation c) d) (Fired now)) m = connect_cluster k m"
      using that c by (simp add: kube_do_def holds_def task_report_def retry_fired_def cluster_of_def key_here [OF c])
    moreover have "mg_clusters (connect_cluster k m) k \<noteq> None" "map_option cl_generation (mg_clusters (connect_cluster k m) k) = Some (Suc (cl_generation c))"
      using c e by (simp_all add: connect_cluster_def Let_def here conns unwrap_or_def fresh_attempt_def)
    ultimately show ?thesis by (simp add: cluster_of_def key_present)
  qed
  show ?thesis
    using connecting retry ok
    by (auto simp: moves_on_def attempt_ok_def in_order_def split: connection_state.split option.split)
qed

text \<open>C24: while the entries stay the same, no connection hangs: from the first load on, whatever is asked for and
  however the tasks answer, a connecting one holds the task whose answer ends the attempt, an unreachable
  one with a retry ahead holds its timer, which starts the next attempt, or is still pinged, and a connected
  one is pinged.\<close>

theorem no_connection_hangs:
  assumes "list_all keeps_entries ops"
  shows "let m = fold (kube_do en) ops (finish_reload en order 1 ld (start_manager (manager_new dir watch s st)))
    in case mg_clusters m k of Some c \<Rightarrow> moves_on en m k c | None \<Rightarrow> True"
  using live_moves_on [OF living.run_keeps [OF assms live_first_load]]
  by (simp add: Let_def split: option.split)

theorem no_connection_hangs_witness:
  "list_all keeps_entries [Connect ''dev/a'', Disconnect ''dev/a'', Connect ''dev/a''] \<and>
   (let m = fold (kube_do \<lparr>ce_entry = dev_env, ce_hash = (\<lambda>_. 0)\<rparr>)
              [Connect ''dev/a'', Disconnect ''dev/a'', Connect ''dev/a'']
              (finish_reload \<lparr>ce_entry = dev_env, ce_hash = (\<lambda>_. 0)\<rparr> [''dev/a''] 1
                 \<lparr>ld_sources = [], ld_contexts = [dev_context ''a''], ld_configs = dev_config\<rparr>
                 (start_manager (manager_new [] False kube_settings_default \<lparr>ka_active = None, ka_namespaces = Map.empty\<rparr>)))
    in case mg_clusters m ''dev/a'' of
         Some c \<Rightarrow> moves_on \<lparr>ce_entry = dev_env, ce_hash = (\<lambda>_. 0)\<rparr> (m :: unit manager) ''dev/a'' c
       | None \<Rightarrow> True)"
proof -
  have "list_all keeps_entries [Connect ''dev/a'', Disconnect ''dev/a'', Connect ''dev/a'' :: unit kube_op]"
    by (simp add: keeps_entries_def)
  from no_connection_hangs [OF this] this show ?thesis by (simp only: Let_def) (simp add: keeps_entries_def)
qed

end
