(* ===== verification/ConnGaps.thy ===== *)
theory ConnGaps
  imports ConnLive
begin

text \<open>
  Where the connection manager loses track: the watch of the kubeconfig files that stops after a few reloads,
  a connection whose tasks are left behind under an old id, and an answer that outlives its connection.
\<close>

section \<open>File events\<close>

text \<open>What of the manager loads and the file events are about.\<close>

definition loading_part where
  "loading_part m = (mg_tasks m, mg_reload_generation m, mg_watch_files m, mg_file_events m)"

lemma loading_out [simp]:
  "loading_part (emit_conn e m) = loading_part m" "loading_part (notify_views m) = loading_part m"
  "loading_part (cause ef m) = loading_part m" "loading_part (state_changed i m) = loading_part m"
  "loading_part (m\<lparr>mg_interactive := I\<rparr>) = loading_part m" "loading_part (m\<lparr>mg_clusters := C\<rparr>) = loading_part m"
  "loading_part (m\<lparr>mg_active := a\<rparr>) = loading_part m"
  by (simp_all add: loading_part_def emit_conn_def notify_views_def cause_def state_changed_def)

lemma loading_connect [simp]: "loading_part (connect_cluster i m) = loading_part m"
  by (simp add: connect_cluster_def Let_def split: option.split)

lemma loading_refresh [simp]: "loading_part (refresh_fallback_namespaces i m) = loading_part m"
  by (simp add: refresh_fallback_namespaces_def Let_def update_conn_def split: option.split)

lemma loading_follow [simp]: "loading_part (follow_rekey ij m) = loading_part m"
  by (simp add: follow_rekey_def Let_def save_state_def split: prod.split) (simp add: loading_part_def)

lemma loading_clear [simp]: "loading_part (clear_active m) = loading_part m"
  by (simp add: clear_active_def split: option.split)

lemma loading_fold: "(\<And>x m. loading_part (f x m) = loading_part m) \<Longrightarrow> loading_part (fold f xs m) = loading_part m"
  by (induction xs arbitrary: m) auto

lemma loading_apply_entries [simp]: "loading_part (apply_entries en order m) = loading_part m"
proof -
  obtain by_id by_member where ix: "index_entries (new_entries en m) = (by_id, by_member)" by (metis surj_pair)
  show ?thesis
    by (simp add: apply_entries_def Let_def ix loading_fold) (simp add: loading_part_def)
qed

lemma loading_activate [simp]: "loading_part (activate_cluster i m) = loading_part m"
proof -
  have announce: "loading_part (announce_active j ns f m) = loading_part m" for j ns f
    by (simp add: announce_active_def Let_def save_state_def split: connection_state.split) (simp add: loading_part_def)
  have ensure: "loading_part (ensure_connected j m) = loading_part m" for j m
    by (simp add: ensure_connected_def Let_def split: connection_state.split)
  show ?thesis
    by (simp add: activate_cluster_def Let_def activate_in_def announce ensure split: option.split)
qed

lemma loading_restore [simp]: "loading_part (restore_active m) = loading_part m"
proof -
  define m1 where "m1 = m\<lparr>mg_restored := True\<rparr>"
  have "loading_part m1 = loading_part m" by (simp add: m1_def loading_part_def)
  then show ?thesis
    unfolding restore_active_def m1_def [symmetric] Let_def
    by (cases "ka_active (mg_state m1)") simp_all
qed

text \<open>The load that is under way ends, with whatever it read.\<close>

definition load_ends :: "conn_env \<Rightarrow> str list \<times> loaded \<Rightarrow> 'c manager \<Rightarrow> 'c manager" where
  "load_ends en x m = finish_reload en (fst x) (mg_reload_generation m) (snd x) m"

lemma loading_ends:
  assumes "mg_watch_files m" "mg_file_events m"
  shows "mg_tasks (load_ends en x m) = mg_tasks m @ [WatcherTask (mg_reload_generation m)]"
    "mg_reload_generation (load_ends en x m) = mg_reload_generation m"
    "mg_watch_files (load_ends en x m)" "mg_file_events (load_ends en x m)"
proof -
  let ?m = "apply_entries en (fst x) (m\<lparr>mg_loading := False, mg_loaded := snd x\<rparr>)"
  have "loading_part ?m = loading_part m" by (simp) (simp add: loading_part_def)
  with assms have "loading_part (if mg_watch_files ?m then update_watcher ?m else ?m) =
      (mg_tasks m @ [WatcherTask (mg_reload_generation m)], mg_reload_generation m, True, True)"
    by (simp add: loading_part_def update_watcher_def)
  then have "loading_part (load_ends en x m) =
      (mg_tasks m @ [WatcherTask (mg_reload_generation m)], mg_reload_generation m, True, True)"
    by (simp add: load_ends_def finish_reload_def apply_loaded_def Let_def)
  then show "mg_tasks (load_ends en x m) = mg_tasks m @ [WatcherTask (mg_reload_generation m)]"
    "mg_reload_generation (load_ends en x m) = mg_reload_generation m"
    "mg_watch_files (load_ends en x m)" "mg_file_events (load_ends en x m)"
    by (simp_all add: loading_part_def)
qed

text \<open>A change of the files is seen, and the load it starts ends.\<close>

definition change_loaded :: "conn_env \<Rightarrow> str list \<times> loaded \<Rightarrow> 'c manager \<Rightarrow> 'c manager" where
  "change_loaded en x m = load_ends en x (kube_do en FilesChanged m)"

lemma seen_change:
  assumes "FileEvents \<in> set (mg_tasks m)"
  shows "kube_do en FilesChanged m = reload m"
  using assms by (simp add: kube_do_def)

lemma reload_loading:
  "mg_watch_files (reload m) = mg_watch_files m" "mg_file_events (reload m) = mg_file_events m"
  "mg_reload_generation (reload m) = Suc (mg_reload_generation m)"
  "mg_tasks (reload m) = (let tasks = mg_tasks m @ [LoadTask (Suc (mg_reload_generation m))]
     in if 8 < length tasks then drop (length tasks - 4) tasks else tasks)"
  by (simp_all add: reload_def Let_def)

text \<open>C28: the watch on the kubeconfig files ends after four changes. The list in which the manager keeps its loads is cut
  to its last four, and the task that hears of file changes is its first: the fourth change still starts a load,
  whose start drops that task. Whatever the files hold, later changes are not seen.\<close>

theorem file_watch_stops:
  "let m0 = load_ends en l0 (start_manager (manager_new dir True s st) :: 'c manager);
       m3 = change_loaded en l3 (change_loaded en l2 (change_loaded en l1 m0));
       m4 = change_loaded en l4 m3
   in FileEvents \<in> set (mg_tasks m3) \<and> FileEvents \<notin> set (mg_tasks m4) \<and> kube_do en FilesChanged m4 = m4"
proof -
  let ?start_manager = "start_manager (manager_new dir True s st) :: 'c manager"
  define watching where "watching n m \<longleftrightarrow> length (mg_tasks m) = n \<and> hd (mg_tasks m) = FileEvents \<and>
      FileEvents \<notin> set (tl (mg_tasks m)) \<and> mg_watch_files m \<and> mg_file_events m" for n and m :: "'c manager"
  have start_manager: "mg_tasks ?start_manager = [FileEvents, LoadTask 1]" "mg_watch_files ?start_manager" "mg_file_events ?start_manager"
    by (simp_all add: start_manager_def reload_def start_file_events_def manager_new_def Let_def)
  have m0: "watching 3 (load_ends en l0 ?start_manager)"
    using loading_ends [OF start_manager(2,3), of en l0] by (simp add: watching_def start_manager(1))
  have seen: "mg_tasks (change_loaded en l m) = mg_tasks (reload m) @ [WatcherTask (Suc (mg_reload_generation m))] \<and>
      mg_watch_files (change_loaded en l m) \<and> mg_file_events (change_loaded en l m)" if "0 < n" "watching n m" for l m n
  proof -
    from that have "FileEvents \<in> set (mg_tasks m)" by (cases "mg_tasks m") (auto simp: watching_def)
    then show ?thesis
      unfolding change_loaded_def seen_change [OF \<open>FileEvents \<in> set (mg_tasks m)\<close>]
      using loading_ends [of "reload m" en l] that by (simp add: reload_loading watching_def)
  qed
  have grow: "watching (n + 2) (change_loaded en l m)" if "0 < n" "n < 8" "watching n m" for n l m
    using seen [OF that(1,3), of l] that by (cases "mg_tasks m") (auto simp: watching_def reload_loading Let_def)
  let ?m3 = "change_loaded en l3 (change_loaded en l2 (change_loaded en l1 (load_ends en l0 ?start_manager)))"
  have "watching (3 + 2 + 2 + 2) ?m3" by (intro grow m0) simp_all
  then have m3: "watching 9 ?m3" by simp
  then obtain ts where ts: "mg_tasks ?m3 = FileEvents # ts" "length ts = 8" "FileEvents \<notin> set ts"
    by (cases "mg_tasks ?m3") (auto simp: watching_def)
  have "FileEvents \<notin> set (drop 5 ts)" using ts(3) by (meson in_set_dropD)
  moreover have "mg_tasks (change_loaded en l4 ?m3) = drop 5 ts
      @ [LoadTask (Suc (mg_reload_generation ?m3)), WatcherTask (Suc (mg_reload_generation ?m3))]"
    using seen [OF _ m3, of l4] ts by (simp add: reload_loading Let_def)
  ultimately have gone: "FileEvents \<notin> set (mg_tasks (change_loaded en l4 ?m3))" by simp
  then show ?thesis using ts(1) by (simp add: Let_def kube_do_def)
qed

section \<open>A connection under another id\<close>

text \<open>Two contexts of one cluster: first only \<open>a\<close> is in the file and gets connected, then \<open>b\<close> joins it in a group,
  then the user turns grouping off.  The current context of the file is \<open>b\<close>.\<close>

definition plain_context :: "str \<Rightarrow> context_info" where
  "plain_context n =
     \<lparr>ci_id = n, ci_name = n, ci_context = n, ci_file = ''f'', ci_cluster = ''c'', ci_user = None, ci_server = None,
      ci_namespace = None, ci_auth = Token, ci_error = None,
      ci_members = [\<lparr>cm_id = n, cm_context = n, cm_namespace = None\<rparr>], ci_group = None\<rparr>"

definition plain_config :: configs where
  "plain_config path =
     (if path = ''f''
      then Some \<lparr>kc_clusters = [(''c'', Some JNull)], kc_auth_infos = [],
                 kc_contexts = [(''a'', Some JNull), (''b'', Some JNull)], kc_current_context = Some ''b''\<rparr>
      else None)"

definition plain_loaded :: "str list \<Rightarrow> loaded" where
  "plain_loaded names = \<lparr>ld_sources = [], ld_contexts = map plain_context names, ld_configs = plain_config\<rparr>"

definition plain_env :: conn_env where
  "plain_env = \<lparr>ce_entry = \<lparr>ee_text = (\<lambda>_. []), ee_host = (\<lambda>_. None)\<rparr>, ce_hash = (\<lambda>_. 0)\<rparr>"

definition plain_order :: "str list" where
  "plain_order = [''a'', ''b'', ''group:c,@f/'']"

definition plain_built :: "unit built_client" where
  "plain_built = \<lparr>bc_client = (), bc_credentials = None, bc_bearer = None, bc_default_namespace = [], bc_proxy = None,
     bc_rebuild_at = None\<rparr>"

definition plain_probe :: probe where
  "plain_probe = \<lparr>pr_latency = 5, pr_version = \<lparr>vi_git_version = ''v'', vi_platform = []\<rparr>, pr_user = None\<rparr>"

definition connected_a :: "unit manager" where
  "connected_a =
     finish_connect ''a'' 1 (Inr (plain_built, Inr plain_probe, None))
       (connect_cluster ''a'' (load_ends plain_env (plain_order, plain_loaded [''a''])
         (start_manager (manager_new [] False kube_settings_default \<lparr>ka_active = None, ka_namespaces = Map.empty\<rparr>))))"

definition grouped_ab :: "unit manager" where
  "grouped_ab = load_ends plain_env (plain_order, plain_loaded [''a'', ''b'']) (reload connected_a)"

definition ungrouped :: kube_settings where
  "ungrouped = kube_settings_default\<lparr>ks_group_contexts := False\<rparr>"

text \<open>New settings that only regroup, without the comparison of the overrides.\<close>

definition regrouped :: "conn_env \<Rightarrow> str list \<Rightarrow> kube_settings \<Rightarrow> 'c manager \<Rightarrow> 'c manager" where
  "regrouped en order new m =
     (let m = apply_entries en order (m\<lparr>mg_settings := new\<rparr>)
      in notify_views (emit_conn ContextsChanged (cause SyncActive
           (fold (\<lambda>i m. refresh_fallback_namespaces i (refresh_caps i m)) (keys_in order (mg_clusters m)) m))))"

lemma settings_regroup:
  assumes "ks_kubeconfigs (mg_settings m) = ks_kubeconfigs new"
    "ks_load_default_kubeconfig (mg_settings m) = ks_load_default_kubeconfig new"
    "ks_load_kubeconfig_env (mg_settings m) = ks_load_kubeconfig_env new"
    "ks_group_contexts (mg_settings m) \<noteq> ks_group_contexts new"
  shows "kube_settings_changed en order new m = regrouped en order new m"
  using assms by (simp add: kube_settings_changed_def regrouped_def Let_def)

text \<open>What the run is about, read off once.\<close>

definition plain_settings :: "'c manager \<Rightarrow> str list \<times> bool \<times> bool \<times> bool" where
  "plain_settings m =
     (ks_kubeconfigs (mg_settings m), ks_load_default_kubeconfig (mg_settings m), ks_load_kubeconfig_env (mg_settings m),
      ks_group_contexts (mg_settings m))"

definition left_behind :: "'c manager \<Rightarrow> connection_state \<times> conn_task option option \<times> bool" where
  "left_behind m =
     (state_of m ''b'', map_option cl_health (mg_clusters m ''b''), Option.is_none (current_conn m ''a'' 1))"

lemma grouped_settings: "plain_settings grouped_ab = ([], True, True, True)"
  by code_simp

lemma ungrouped_run:
  "left_behind (regrouped plain_env plain_order ungrouped grouped_ab)
     = (Connected 5 ''v'', Some (Some (HealthTimer ''a'' 1 30 30)), True)"
  by code_simp

text \<open>Turning grouping off can leave a live connection unwatched. It moves to the entry of the current context, but its
  tasks still report under the id it was connected with, which is an entry of its own again: their reports
  are dropped, so the connection shows as connected and is never pinged again.\<close>

lemma ungrouped_connection_unwatched:
  "let m = kube_settings_changed plain_env plain_order ungrouped grouped_ab
   in state_of connected_a ''a'' = Connected 5 ''v'' \<and>
      state_of m ''b'' = Connected 5 ''v'' \<and>
      map_option cl_health (mg_clusters m ''b'') = Some (Some (HealthTimer ''a'' 1 30 30)) \<and>
      (\<forall>now. kube_do plain_env (Report ''b'' (HealthTimer ''a'' 1 30 30) (Fired now)) m = m)"
proof -
  have m: "kube_settings_changed plain_env plain_order ungrouped grouped_ab = regrouped plain_env plain_order ungrouped grouped_ab"
    using grouped_settings by (intro settings_regroup) (simp_all add: plain_settings_def ungrouped_def kube_settings_default_def)
  have "current_conn (regrouped plain_env plain_order ungrouped grouped_ab) ''a'' 1 = None"
    using ungrouped_run by (simp add: left_behind_def Option.is_none_def)
  then have "kube_do plain_env (Report ''b'' (HealthTimer ''a'' 1 30 30) (Fired now)) (regrouped plain_env plain_order ungrouped grouped_ab)
      = regrouped plain_env plain_order ungrouped grouped_ab" for now
    by (simp add: kube_do_def task_report_def health_tick_def)
  moreover have "state_of connected_a ''a'' = Connected 5 ''v''" by code_simp
  ultimately show ?thesis using ungrouped_run by (simp add: m Let_def left_behind_def)
qed

section \<open>An answer of another connection\<close>

text \<open>A connection that is dropped with its entry and made again starts over at the first generation: the answer
  of an access check of the old one is then kept for the new one.\<close>

definition reconnected_a :: "unit manager" where
  "reconnected_a =
     connect_cluster ''a'' (load_ends plain_env (plain_order, plain_loaded [''a''])
       (reload (load_ends plain_env (plain_order, plain_loaded []) (reload connected_a))))"

lemma old_answer_kept:
  "let asked = access_check connected_a ''a'';
       query = \<lparr>aq_verb = ''get'', aq_group = [], aq_resource = ''pods'', aq_subresource = None, aq_namespace = None, aq_name = None\<rparr>
   in cached_can_i 9 (record_access 8 ''a'' (Option.bind asked snd) query True reconnected_a) ''a'' query = Some True"
  by code_simp

end
