(* ===== verification/AgentTranscript.thy ===== *)
theory AgentTranscript
  imports TextLaws BaseTypes
begin

text \<open>
  The transcript of an agent's conversation (\<open>crates/kubyl_agent_core/src/thread.rs\<close>): entries that the
  updates of the agent are folded into, one definition per update.  The wire types of the protocol
  (\<open>content_block\<close>, \<open>session_update\<close>, \<open>wire_option\<close>, ...) have the cases the code tells apart and one for
  the rest.
\<close>

section \<open>Kubyl's own tools\<close>

definition kubyl_tools :: "str list" where
  "kubyl_tools =
     [''cluster_info'', ''list_resources'', ''get_resource'', ''describe'', ''events'', ''logs'', ''top'',
      ''query_prometheus'', ''alerts'', ''can_i'', ''api_resources'', ''apply_manifest'', ''patch_resource'',
      ''delete_resource'', ''scale_resource'', ''restart_resource'']"

definition is_kubyl_tool :: "str \<Rightarrow> bool" where
  "is_kubyl_tool name0 =
     (let n = trim name0;
          rest = or_else (strip_prefix ''mcp__kubyl__'' n)
                   (or_else (strip_prefix ''kubyl__'' n)
                     (or_else (strip_prefix ''kubyl.'' n)
                       (or_else (strip_prefix ''kubyl/'' n) (strip_prefix ''kubyl_'' n))))
      in case rest of Some tool \<Rightarrow> tool \<in> set kubyl_tools | None \<Rightarrow> False)"

section \<open>Session settings\<close>

datatype config_category = CatModel | CatModelConfig | CatThoughtLevel | CatMode | CatOther str

fun category_order :: "config_category \<Rightarrow> nat" where
  "category_order CatModel = 0"
| "category_order CatModelConfig = 1"
| "category_order CatThoughtLevel = 2"
| "category_order CatMode = 3"
| "category_order (CatOther _) = 4"

record config_choice =
  cc_value :: str
  cc_name :: str
  cc_description :: "str option"
  cc_group :: "str option"

datatype config_value = SelectOne str "config_choice list" | Switch bool

record config_option =
  co_id :: str
  co_name :: str
  co_description :: "str option"
  co_category :: config_category
  co_value :: config_value

text \<open>The settings as the agent sends them.\<close>

datatype wire_category = WireModel | WireModelConfig | WireThoughtLevel | WireMode | WireOther str | WireNew

record wire_choice =
  wc_value :: str
  wc_name :: str
  wc_description :: "str option"

datatype wire_choices = Ungrouped "wire_choice list" | Grouped "(str \<times> wire_choice list) list" | ChoicesNew

datatype wire_kind = WireSelect str wire_choices | WireBoolean bool | KindNew

record wire_option =
  wo_id :: str
  wo_name :: str
  wo_description :: "str option"
  wo_category :: "wire_category option"
  wo_kind :: wire_kind

definition current_label :: "config_option \<Rightarrow> str" where
  "current_label opt =
     (case co_value opt of
        SelectOne current choices \<Rightarrow>
          (case find (\<lambda>c. cc_value c = current) choices of Some c \<Rightarrow> cc_name c | None \<Rightarrow> current)
      | Switch on \<Rightarrow> if on then ''on'' else ''off'')"

definition category_of :: "wire_category option \<Rightarrow> config_category" where
  "category_of c =
     (case c of
        Some WireModel \<Rightarrow> CatModel
      | Some WireModelConfig \<Rightarrow> CatModelConfig
      | Some WireThoughtLevel \<Rightarrow> CatThoughtLevel
      | Some WireMode \<Rightarrow> CatMode
      | Some (WireOther other) \<Rightarrow> CatOther other
      | _ \<Rightarrow> CatOther [])"

definition choice_of :: "str option \<Rightarrow> wire_choice \<Rightarrow> config_choice" where
  "choice_of grp c =
     \<lparr>cc_value = wc_value c, cc_name = wc_name c, cc_description = wc_description c, cc_group = grp\<rparr>"

definition choices_of :: "wire_choices \<Rightarrow> config_choice list" where
  "choices_of cs =
     (case cs of
        Ungrouped options \<Rightarrow> map (choice_of None) options
      | Grouped groups \<Rightarrow> concat (map (\<lambda>(g, options). map (choice_of (Some g)) options) groups)
      | ChoicesNew \<Rightarrow> [])"

definition config_option_of :: "wire_option \<Rightarrow> config_option option" where
  "config_option_of w =
     (let whole = (\<lambda>v. Some \<lparr>co_id = wo_id w, co_name = wo_name w, co_description = wo_description w,
                            co_category = category_of (wo_category w), co_value = v\<rparr>)
      in case wo_kind w of
           WireSelect current cs \<Rightarrow> whole (SelectOne current (choices_of cs))
         | WireBoolean on \<Rightarrow> whole (Switch on)
         | KindNew \<Rightarrow> None)"

definition config_options :: "wire_option list \<Rightarrow> config_option list" where
  "config_options options =
     sort_key (\<lambda>opt. category_order (co_category opt)) (List.map_filter config_option_of options)"

section \<open>Entries\<close>

record context_chip =
  cx_label :: str
  cx_uri :: str
  cx_text :: str

datatype tool_status = ToolPending | ToolRunning | ToolDone | ToolFailed

datatype wire_status = CallPending | CallInProgress | CallCompleted | CallFailed | CallNew

fun tool_status_of :: "wire_status \<Rightarrow> tool_status" where
  "tool_status_of CallPending = ToolPending"
| "tool_status_of CallInProgress = ToolRunning"
| "tool_status_of CallCompleted = ToolDone"
| "tool_status_of CallFailed = ToolFailed"
| "tool_status_of CallNew = ToolRunning"

datatype tool_kind = ExecuteKind | OtherKind str

datatype tool_content = ShownText str | ShownDiff str "str option" str | ShownTerminal str

record kubyl_call =
  kc_tool :: str
  kc_arguments :: json

record tool_entry =
  te_id :: str
  te_title :: str
  te_kind :: "tool_kind option"
  te_status :: tool_status
  te_content :: "tool_content list"
  te_raw_input :: "json option"
  te_kubyl :: "kubyl_call option"

text \<open>\<open>ToolEntry::command\<close>, of a raw input.\<close>

definition input_command :: "json \<Rightarrow> str option" where
  "input_command input =
     or_else (as_str (jindex input ''command''))
       (or_else (map_option (\<lambda>parts. join '' '' (List.map_filter as_str parts)) (as_array (jindex input ''command'')))
         (as_str (jindex input ''cmd'')))"

definition entry_command :: "tool_entry \<Rightarrow> str option" where
  "entry_command t = Option.bind (te_raw_input t) input_command"

datatype chat_entry =
    UserEntry str "context_chip list"
  | AgentEntry str "str option"
  | ThoughtEntry str
  | ToolEntry tool_entry
  | NoticeEntry str bool

record plan_item =
  pi_text :: str
  pi_done :: bool
  pi_active :: bool

record transcript =
  tr_entries :: "chat_entry list"
  tr_plan :: "plan_item list"
  tr_commands :: "(str \<times> str) list"
  tr_mode :: "str option"
  tr_title :: "str option"
  tr_usage :: "(nat \<times> nat) option"
  tr_cost :: "(rat \<times> str) option"
  tr_config :: "config_option list"

definition transcript_new :: transcript where
  "transcript_new =
     \<lparr>tr_entries = [], tr_plan = [], tr_commands = [], tr_mode = None, tr_title = None, tr_usage = None,
      tr_cost = None, tr_config = []\<rparr>"

text \<open>The multiplication of \<open>usage_percent\<close> saturates at \<open>u64\<close>.\<close>

definition usage_percent :: "transcript \<Rightarrow> nat option" where
  "usage_percent t =
     (case tr_usage t of
        Some (used, sz) \<Rightarrow> if 0 < sz then Some (min (min (used * 100) (2 ^ 64 - 1) div sz) 100) else None
      | None \<Rightarrow> None)"

fun update_where :: "('a \<Rightarrow> bool) \<Rightarrow> ('a \<Rightarrow> 'a) \<Rightarrow> 'a list \<Rightarrow> 'a list" where
  "update_where p f [] = []"
| "update_where p f (x # xs) = (if p x then f x # xs else x # update_where p f xs)"

definition set_config :: "str \<Rightarrow> config_value \<Rightarrow> transcript \<Rightarrow> transcript" where
  "set_config i v t =
     t\<lparr>tr_config := update_where (\<lambda>opt. co_id opt = i)
        (\<lambda>opt. case (co_value opt, v) of
               (SelectOne _ choices, SelectOne new _) \<Rightarrow> opt\<lparr>co_value := SelectOne new choices\<rparr>
             | (Switch _, Switch new) \<Rightarrow> opt\<lparr>co_value := Switch new\<rparr>
             | _ \<Rightarrow> opt) (tr_config t)\<rparr>"

definition push_user :: "str \<Rightarrow> context_chip list \<Rightarrow> transcript \<Rightarrow> transcript" where
  "push_user s chips t = t\<lparr>tr_entries := tr_entries t @ [UserEntry s chips]\<rparr>"

definition add_notice :: "str \<Rightarrow> bool \<Rightarrow> transcript \<Rightarrow> transcript" where
  "add_notice s err t = t\<lparr>tr_entries := tr_entries t @ [NoticeEntry s err]\<rparr>"

fun is_tool :: "str \<Rightarrow> chat_entry \<Rightarrow> bool" where
  "is_tool i (ToolEntry e) = (te_id e = i)"
| "is_tool i _ = False"

definition find_tool :: "str \<Rightarrow> transcript \<Rightarrow> tool_entry option" where
  "find_tool i t =
     (case find (is_tool i) (rev (tr_entries t)) of Some (ToolEntry e) \<Rightarrow> Some e | _ \<Rightarrow> None)"

text \<open>The newest entry of the call \<open>i\<close>, changed (\<open>tool_mut\<close>).\<close>

definition on_tool :: "str \<Rightarrow> (tool_entry \<Rightarrow> tool_entry) \<Rightarrow> transcript \<Rightarrow> transcript" where
  "on_tool i f t =
     t\<lparr>tr_entries := rev (update_where (is_tool i)
        (\<lambda>e. case e of ToolEntry x \<Rightarrow> ToolEntry (f x) | _ \<Rightarrow> e) (rev (tr_entries t)))\<rparr>"

fun settle_entry :: "chat_entry \<Rightarrow> chat_entry" where
  "settle_entry (ToolEntry e) =
     ToolEntry (if te_status e = ToolPending \<or> te_status e = ToolRunning then e\<lparr>te_status := ToolFailed\<rparr> else e)"
| "settle_entry e = e"

definition settle_tools :: "transcript \<Rightarrow> transcript" where
  "settle_tools t = t\<lparr>tr_entries := map settle_entry (tr_entries t)\<rparr>"

section \<open>Updates of the agent\<close>

datatype content_block =
    TextBlock str
  | LinkBlock str str
  | ResourceText str
  | ResourceBinary
  | ImageBlock
  | AudioBlock
  | BlockNew

fun block_text :: "content_block \<Rightarrow> str" where
  "block_text (TextBlock s) = s"
| "block_text (LinkBlock n uri) = ''['' @ n @ '']('' @ uri @ '')''"
| "block_text (ResourceText s) = s"
| "block_text ResourceBinary = ''[binary resource]''"
| "block_text ImageBlock = ''[image]''"
| "block_text AudioBlock = ''[audio]''"
| "block_text BlockNew = []"

definition kubyl_call_of :: "str \<Rightarrow> str option \<Rightarrow> json option \<Rightarrow> kubyl_call option" where
  "kubyl_call_of title n raw =
     (let haystack = to_lowercase (unwrap_or n [] @ '' '' @ title)
      in if \<not> contains ''kubyl'' haystack then None
         else case filter (\<lambda>tool. contains tool haystack) kubyl_tools of
                [] \<Rightarrow> None
              | t # ts \<Rightarrow> Some \<lparr>kc_tool = foldl (\<lambda>best tool. if length best \<le> length tool then tool else best) t ts,
                              kc_arguments = unwrap_or raw JNull\<rparr>)"

datatype call_content = CallBlock content_block | CallDiff str "str option" str | CallTerminal str | ContentNew

definition content_shown :: "call_content \<Rightarrow> tool_content option" where
  "content_shown c =
     (case c of
        CallBlock b \<Rightarrow> if block_text b \<noteq> [] then Some (ShownText (block_text b)) else None
      | CallDiff path old new \<Rightarrow> Some (ShownDiff path old new)
      | CallTerminal i \<Rightarrow> Some (ShownTerminal i)
      | ContentNew \<Rightarrow> None)"

definition contents_shown :: "call_content list \<Rightarrow> tool_content list" where
  "contents_shown = List.map_filter content_shown"

record call_fields =
  cf_title :: "str option"
  cf_name :: "str option"
  cf_kind :: "tool_kind option"
  cf_status :: "wire_status option"
  cf_content :: "call_content list option"
  cf_raw_input :: "json option"

record wire_call =
  wl_id :: str
  wl_title :: str
  wl_name :: "str option"
  wl_kind :: tool_kind
  wl_status :: wire_status
  wl_content :: "call_content list"
  wl_raw_input :: "json option"

datatype entry_progress = StepWaiting | StepActive | StepDone

datatype session_update =
    UserChunk content_block
  | AgentChunk content_block "str option"
  | ThoughtChunk content_block
  | CallStarted wire_call
  | CallUpdated str call_fields
  | PlanUpdate "(str \<times> entry_progress) list"
  | CommandsUpdate "(str \<times> str) list"
  | ModeUpdate str
  | InfoUpdate "str option"
  | UsageUpdate nat nat "(rat \<times> str) option"
  | ConfigUpdate "wire_option list"
  | UpdateNew

definition with_field :: "'a option \<Rightarrow> ('a \<Rightarrow> 'b \<Rightarrow> 'b) \<Rightarrow> 'b \<Rightarrow> 'b" where
  "with_field x f r = (case x of Some v \<Rightarrow> f v r | None \<Rightarrow> r)"

definition apply_fields :: "call_fields \<Rightarrow> tool_entry \<Rightarrow> tool_entry" where
  "apply_fields fs tool =
     (let tool = with_field (cf_title fs) (\<lambda>v t. t\<lparr>te_title := v\<rparr>) tool;
          tool = with_field (cf_kind fs) (\<lambda>v t. t\<lparr>te_kind := Some v\<rparr>) tool;
          tool = with_field (cf_status fs) (\<lambda>v t. t\<lparr>te_status := tool_status_of v\<rparr>) tool;
          tool = with_field (cf_content fs) (\<lambda>v t. t\<lparr>te_content := contents_shown v\<rparr>) tool;
          tool = with_field (cf_raw_input fs) (\<lambda>v t. t\<lparr>te_raw_input := Some v\<rparr>) tool
      in case (te_kubyl tool, te_raw_input tool) of
           (None, _) \<Rightarrow> tool\<lparr>te_kubyl := kubyl_call_of (te_title tool) (cf_name fs) (te_raw_input tool)\<rparr>
         | (Some k, Some input) \<Rightarrow> tool\<lparr>te_kubyl := Some (k\<lparr>kc_arguments := input\<rparr>)\<rparr>
         | _ \<Rightarrow> tool)"

definition unseen_tool :: "str \<Rightarrow> tool_entry" where
  "unseen_tool i =
     \<lparr>te_id = i, te_title = [], te_kind = None, te_status = ToolRunning, te_content = [], te_raw_input = None,
      te_kubyl = None\<rparr>"

definition tool_call :: "wire_call \<Rightarrow> transcript \<Rightarrow> transcript" where
  "tool_call c t =
     (let entry = \<lparr>te_id = wl_id c, te_title = wl_title c, te_kind = Some (wl_kind c),
                   te_status = tool_status_of (wl_status c), te_content = contents_shown (wl_content c),
                   te_raw_input = wl_raw_input c,
                   te_kubyl = kubyl_call_of (wl_title c) (wl_name c) (wl_raw_input c)\<rparr>
      in case find_tool (wl_id c) t of
           Some _ \<Rightarrow> on_tool (wl_id c) (\<lambda>_. entry) t
         | None \<Rightarrow> t\<lparr>tr_entries := tr_entries t @ [ToolEntry entry]\<rparr>)"

text \<open>A chunk continues the last entry when that is of the same kind (for answers: of the same message, or
  without an id), and opens a new one otherwise.\<close>

definition grow_last :: "(chat_entry \<Rightarrow> chat_entry option) \<Rightarrow> chat_entry \<Rightarrow> transcript \<Rightarrow> transcript" where
  "grow_last f e t =
     (case (if tr_entries t = [] then None else f (last (tr_entries t))) of
        Some e' \<Rightarrow> t\<lparr>tr_entries := butlast (tr_entries t) @ [e']\<rparr>
      | None \<Rightarrow> t\<lparr>tr_entries := tr_entries t @ [e]\<rparr>)"

definition apply_update :: "session_update \<Rightarrow> transcript \<Rightarrow> transcript" where
  "apply_update u t =
     (case u of
        UserChunk b \<Rightarrow>
          grow_last (\<lambda>e. case e of UserEntry s chips \<Rightarrow> Some (UserEntry (s @ block_text b) chips) | _ \<Rightarrow> None)
            (UserEntry (block_text b) []) t
      | AgentChunk b i \<Rightarrow>
          grow_last (\<lambda>e. case e of
                           AgentEntry s m \<Rightarrow> if i = None \<or> m = i then Some (AgentEntry (s @ block_text b) m) else None
                         | _ \<Rightarrow> None)
            (AgentEntry (block_text b) i) t
      | ThoughtChunk b \<Rightarrow>
          grow_last (\<lambda>e. case e of ThoughtEntry s \<Rightarrow> Some (ThoughtEntry (s @ block_text b)) | _ \<Rightarrow> None)
            (ThoughtEntry (block_text b)) t
      | CallStarted c \<Rightarrow> tool_call c t
      | CallUpdated i fs \<Rightarrow>
          (case find_tool i t of
             Some _ \<Rightarrow> on_tool i (apply_fields fs) t
           | None \<Rightarrow> t\<lparr>tr_entries := tr_entries t @ [ToolEntry (apply_fields fs (unseen_tool i))]\<rparr>)
      | PlanUpdate entries \<Rightarrow>
          t\<lparr>tr_plan := map (\<lambda>(s, p). \<lparr>pi_text = s, pi_done = (p = StepDone), pi_active = (p = StepActive)\<rparr>) entries\<rparr>
      | CommandsUpdate cs \<Rightarrow> t\<lparr>tr_commands := cs\<rparr>
      | ModeUpdate m \<Rightarrow> t\<lparr>tr_mode := Some m\<rparr>
      | InfoUpdate title \<Rightarrow> with_field title (\<lambda>v t. t\<lparr>tr_title := Some v\<rparr>) t
      | UsageUpdate used sz cost \<Rightarrow> with_field cost (\<lambda>v t. t\<lparr>tr_cost := Some v\<rparr>) (t\<lparr>tr_usage := Some (used, sz)\<rparr>)
      | ConfigUpdate options \<Rightarrow> t\<lparr>tr_config := config_options options\<rparr>
      | UpdateNew \<Rightarrow> t)"

section \<open>What the transcript keeps\<close>

text \<open>The calls it shows, and the words of one kind of entry in order.\<close>

fun tool_id_of :: "chat_entry \<Rightarrow> str option" where
  "tool_id_of (ToolEntry e) = Some (te_id e)"
| "tool_id_of _ = None"

definition tool_ids :: "transcript \<Rightarrow> str list" where
  "tool_ids t = List.map_filter tool_id_of (tr_entries t)"

datatype voice = UserVoice | AgentVoice | ThoughtVoice

fun words_of :: "voice \<Rightarrow> chat_entry \<Rightarrow> str" where
  "words_of UserVoice (UserEntry s _) = s"
| "words_of AgentVoice (AgentEntry s _) = s"
| "words_of ThoughtVoice (ThoughtEntry s) = s"
| "words_of _ _ = []"

definition said :: "voice \<Rightarrow> transcript \<Rightarrow> str" where
  "said v t = concat (map (words_of v) (tr_entries t))"

text \<open>Everything that changes a transcript, and what each change adds to a voice.\<close>

datatype transcript_op =
    Updated session_update
  | Prompted str "context_chip list"
  | Noticed str bool
  | Settled
  | Configured str config_value

fun transcript_do :: "transcript_op \<Rightarrow> transcript \<Rightarrow> transcript" where
  "transcript_do (Updated u) t = apply_update u t"
| "transcript_do (Prompted s chips) t = push_user s chips t"
| "transcript_do (Noticed s err) t = add_notice s err t"
| "transcript_do Settled t = settle_tools t"
| "transcript_do (Configured i v) t = set_config i v t"

fun spoken :: "voice \<Rightarrow> transcript_op \<Rightarrow> str" where
  "spoken UserVoice (Updated (UserChunk b)) = block_text b"
| "spoken UserVoice (Prompted s _) = s"
| "spoken AgentVoice (Updated (AgentChunk b _)) = block_text b"
| "spoken ThoughtVoice (Updated (ThoughtChunk b)) = block_text b"
| "spoken _ _ = []"

lemma words_of_tool [simp]: "words_of v (ToolEntry e) = []"
  by (cases v) simp_all

lemma words_of_notice [simp]: "words_of v (NoticeEntry s err) = []"
  by (cases v) simp_all

lemma map_filter_same:
  "(\<And>x. x \<in> set xs \<Longrightarrow> g (f x) = g x) \<Longrightarrow> List.map_filter g (map f xs) = List.map_filter g xs"
  by (induction xs) (auto simp: List.map_filter_simps split: option.split)

lemma update_where_same:
  "(\<And>x. p x \<Longrightarrow> g (f x) = g x) \<Longrightarrow> map g (update_where p f xs) = map g xs"
  by (induction xs) auto

lemma map_filter_cong_map: "map g xs = map g ys \<Longrightarrow> List.map_filter g xs = List.map_filter g ys"
proof -
  have "List.map_filter g zs = map the (filter (\<lambda>y. y \<noteq> None) (map g zs))" for zs
    by (simp add: List.map_filter_def filter_map comp_def)
  then show "map g xs = map g ys \<Longrightarrow> ?thesis" by simp
qed

lemma map_filter_rev: "List.map_filter g (rev xs) = rev (List.map_filter g xs)"
  by (simp add: List.map_filter_def rev_map rev_filter)

lemma on_tool_keeps:
  assumes "\<And>x. te_id x = i \<Longrightarrow> te_id (f x) = i"
  shows "tool_ids (on_tool i f t) = tool_ids t" "said v (on_tool i f t) = said v t"
proof -
  let ?f = "\<lambda>e. case e of ToolEntry x \<Rightarrow> ToolEntry (f x) | _ \<Rightarrow> e"
  have ids: "tool_id_of (?f e) = tool_id_of e" if "is_tool i e" for e
    using that assms by (cases e) auto
  have words: "words_of v (?f e) = words_of v e" if "is_tool i e" for e
    using that by (cases e) auto
  have "map tool_id_of (update_where (is_tool i) ?f xs) = map tool_id_of xs" for xs
    using ids by (rule update_where_same)
  then have "List.map_filter tool_id_of (update_where (is_tool i) ?f xs) = List.map_filter tool_id_of xs" for xs
    by (rule map_filter_cong_map)
  then show "tool_ids (on_tool i f t) = tool_ids t"
    by (simp add: tool_ids_def on_tool_def map_filter_rev)
  have "map (words_of v) (update_where (is_tool i) ?f xs) = map (words_of v) xs" for xs
    using words by (rule update_where_same)
  then show "said v (on_tool i f t) = said v t"
    by (simp add: said_def on_tool_def rev_map [symmetric])
qed

lemma find_tool_None: "find_tool i t = None \<longleftrightarrow> i \<notin> set (tool_ids t)"
proof -
  have "find (is_tool i) (rev es) = None \<longleftrightarrow> i \<notin> set (List.map_filter tool_id_of es)" for es
  proof -
    have "is_tool i e \<longleftrightarrow> tool_id_of e = Some i" for e by (cases e) auto
    then show ?thesis by (force simp: find_None_iff List.map_filter_def)
  qed
  moreover have "is_tool i e" if "find (is_tool i) es = Some e" for e es
    using that by (simp add: find_Some_iff) metis
  ultimately show ?thesis
    by (auto simp: find_tool_def tool_ids_def split: option.split chat_entry.split)
      (metis is_tool.simps not_None_eq)+
qed

lemma apply_fields_id [simp]: "te_id (apply_fields fs tool) = te_id tool"
  by (simp add: apply_fields_def with_field_def Let_def split: option.split)

lemma tool_ids_append:
  "tool_ids (t\<lparr>tr_entries := tr_entries t @ [e]\<rparr>) =
     tool_ids t @ (case tool_id_of e of Some i \<Rightarrow> [i] | None \<Rightarrow> [])"
  "said v (t\<lparr>tr_entries := tr_entries t @ [e]\<rparr>) = said v t @ words_of v e"
  by (simp_all add: tool_ids_def said_def List.map_filter_def split: option.split)

lemma grow_last_keeps:
  assumes "\<And>x y. f x = Some y \<Longrightarrow> tool_id_of x = None \<and> tool_id_of y = None \<and> words_of v y = words_of v x @ w"
    and "tool_id_of e = None" "words_of v e = w"
  shows "tool_ids (grow_last f e t) = tool_ids t" "said v (grow_last f e t) = said v t @ w"
proof -
  have "tool_ids (grow_last f e t) = tool_ids t \<and> said v (grow_last f e t) = said v t @ w"
  proof (cases "tr_entries t = [] \<or> f (last (tr_entries t)) = None")
    case True
    then have "grow_last f e t = t\<lparr>tr_entries := tr_entries t @ [e]\<rparr>"
      by (auto simp: grow_last_def)
    then show ?thesis using assms(2,3) by (simp add: tool_ids_append)
  next
    case False
    then obtain es x y where es: "tr_entries t = es @ [x]" "f x = Some y"
      by (cases "tr_entries t" rule: rev_cases) auto
    then have "tr_entries (grow_last f e t) = es @ [y]" by (simp add: grow_last_def)
    then show ?thesis
      using assms(1) [OF es(2)] es(1) by (simp add: tool_ids_def said_def List.map_filter_def)
  qed
  then show "tool_ids (grow_last f e t) = tool_ids t" "said v (grow_last f e t) = said v t @ w" by simp_all
qed

text \<open>The calls an operation is about, and what it does to the entry of one call.\<close>

fun called :: "transcript_op \<Rightarrow> str list" where
  "called (Updated (CallStarted c)) = [wl_id c]"
| "called (Updated (CallUpdated i fs)) = [i]"
| "called _ = []"

fun call_after :: "str \<Rightarrow> transcript_op \<Rightarrow> tool_entry option \<Rightarrow> tool_entry option" where
  "call_after i (Updated (CallStarted c)) e =
     (if wl_id c = i
      then Some \<lparr>te_id = i, te_title = wl_title c, te_kind = Some (wl_kind c),
                  te_status = tool_status_of (wl_status c), te_content = contents_shown (wl_content c),
                  te_raw_input = wl_raw_input c, te_kubyl = kubyl_call_of (wl_title c) (wl_name c) (wl_raw_input c)\<rparr>
      else e)"
| "call_after i (Updated (CallUpdated j fs)) e =
     (if j = i then Some (apply_fields fs (case e of Some tool \<Rightarrow> tool | None \<Rightarrow> unseen_tool i)) else e)"
| "call_after i Settled e =
     map_option (\<lambda>tool. if te_status tool = ToolPending \<or> te_status tool = ToolRunning
                        then tool\<lparr>te_status := ToolFailed\<rparr> else tool) e"
| "call_after i _ e = e"

definition firsts :: "'a list \<Rightarrow> 'a list" where
  "firsts xs = rev (remdups (rev xs))"

lemma firsts_simps [simp]:
  "firsts [] = []" "firsts (xs @ [x]) = (if x \<in> set xs then firsts xs else firsts xs @ [x])" "set (firsts xs) = set xs"
  by (simp_all add: firsts_def)

text \<open>Finding an entry after a change of another one, of itself, and after a new one.\<close>

lemma find_update_other:
  "(\<And>x. p x \<Longrightarrow> \<not> q x \<and> \<not> q (f x)) \<Longrightarrow> find q (update_where p f xs) = find q xs"
  by (induction xs) auto

lemma find_update_self: "(\<And>x. p x \<Longrightarrow> p (f x)) \<Longrightarrow> find p (update_where p f xs) = map_option f (find p xs)"
  by (induction xs) auto

lemma is_tool_id: "is_tool i e \<longleftrightarrow> tool_id_of e = Some i"
  by (cases e) auto

definition newest_entry :: "str \<Rightarrow> chat_entry list \<Rightarrow> chat_entry option" where
  "newest_entry i es = find (is_tool i) (rev es)"

lemma find_tool_newest: "find_tool i t = (case newest_entry i (tr_entries t) of Some (ToolEntry e) \<Rightarrow> Some e | _ \<Rightarrow> None)"
  by (simp add: find_tool_def newest_entry_def)

lemma newest_tool: "newest_entry i es = Some e \<Longrightarrow> \<exists>x. e = ToolEntry x \<and> te_id x = i"
proof -
  assume "newest_entry i es = Some e"
  then have "is_tool i e" unfolding newest_entry_def by (auto simp: find_Some_iff)
  then show ?thesis by (cases e) simp_all
qed

lemma find_tool_append:
  "find_tool i (t\<lparr>tr_entries := tr_entries t @ [e]\<rparr>) =
     (case e of ToolEntry x \<Rightarrow> if te_id x = i then Some x else find_tool i t | _ \<Rightarrow> find_tool i t)"
  by (cases e) (auto simp: find_tool_def)

lemma find_tool_on:
  assumes "\<And>x. te_id x = j \<Longrightarrow> te_id (f x) = j"
  shows "find_tool i (on_tool j f t) = (if i = j then map_option f (find_tool i t) else find_tool i t)"
proof -
  let ?f = "\<lambda>e. case e of ToolEntry x \<Rightarrow> ToolEntry (f x) | _ \<Rightarrow> e"
  have stays: "is_tool j (?f e)" if "is_tool j e" for e using that assms by (cases e) auto
  have new: "newest_entry i (tr_entries (on_tool j f t)) = find (is_tool i) (update_where (is_tool j) ?f (rev (tr_entries t)))"
    by (simp add: newest_entry_def on_tool_def)
  show ?thesis
  proof (cases "i = j")
    case True
    with stays have "newest_entry i (tr_entries (on_tool j f t)) = map_option ?f (newest_entry i (tr_entries t))"
      unfolding new unfolding newest_entry_def by (simp add: find_update_self)
    with True newest_tool [of i "tr_entries t"] show ?thesis
      by (auto simp: find_tool_newest split: option.splits)
  next
    case False
    have "newest_entry i (tr_entries (on_tool j f t)) = newest_entry i (tr_entries t)"
      unfolding new unfolding newest_entry_def using stays False by (intro find_update_other) (auto simp: is_tool_id)
    with False show ?thesis by (simp add: find_tool_newest)
  qed
qed

lemma find_tool_settle:
  "find_tool i (settle_tools t) = call_after i Settled (find_tool i t)"
proof -
  have "find (is_tool i) (map settle_entry es) = map_option settle_entry (find (is_tool i) es)" for es
  proof (induction es)
    case (Cons e es)
    then show ?case by (cases e) auto
  qed simp
  then have "newest_entry i (tr_entries (settle_tools t)) = map_option settle_entry (newest_entry i (tr_entries t))"
    by (simp add: newest_entry_def settle_tools_def rev_map)
  with newest_tool [of i "tr_entries t"] show ?thesis
    by (auto simp: find_tool_newest split: option.splits)
qed

lemma grow_last_find:
  assumes "\<And>x y. f x = Some y \<Longrightarrow> tool_id_of x = None \<and> tool_id_of y = None" "tool_id_of e = None"
  shows "find_tool i (grow_last f e t) = find_tool i t"
proof (cases "tr_entries t = [] \<or> f (last (tr_entries t)) = None")
  case True
  then have "grow_last f e t = t\<lparr>tr_entries := tr_entries t @ [e]\<rparr>" by (auto simp: grow_last_def)
  with assms(2) show ?thesis by (simp add: find_tool_newest newest_entry_def is_tool_id)
next
  case False
  then obtain es x y where es: "tr_entries t = es @ [x]" "f x = Some y"
    by (cases "tr_entries t" rule: rev_cases) auto
  with assms(1) [OF es(2)] show ?thesis
    by (simp add: find_tool_newest newest_entry_def is_tool_id grow_last_def)
qed

text \<open>An update opens an entry for a call it is the first to name, and changes no other.\<close>

lemma update_calls:
  "tool_ids (apply_update u t) = tool_ids t @ filter (\<lambda>i. i \<notin> set (tool_ids t)) (called (Updated u)) \<and>
   find_tool i (apply_update u t) = call_after i (Updated u) (find_tool i t)"
proof (cases u)
  case (UserChunk b)
  show ?thesis unfolding UserChunk apply_update_def session_update.case
    by (subst grow_last_keeps(1) [where v = AgentVoice and w = "[]"], (auto split: chat_entry.splits)[3],
        subst grow_last_find) (auto split: chat_entry.splits)
next
  case (AgentChunk b m)
  show ?thesis unfolding AgentChunk apply_update_def session_update.case
    by (subst grow_last_keeps(1) [where v = UserVoice and w = "[]"], (auto split: chat_entry.splits if_splits)[3],
        subst grow_last_find) (auto split: chat_entry.splits if_splits)
next
  case (ThoughtChunk b)
  show ?thesis unfolding ThoughtChunk apply_update_def session_update.case
    by (subst grow_last_keeps(1) [where v = UserVoice and w = "[]"], (auto split: chat_entry.splits)[3],
        subst grow_last_find) (auto split: chat_entry.splits)
next
  case (CallStarted c)
  then show ?thesis
    using find_tool_None [of "wl_id c" t]
    by (auto simp: apply_update_def tool_call_def on_tool_keeps tool_ids_append find_tool_on find_tool_append Let_def
        split: option.split)
next
  case (CallUpdated j fs)
  have "find_tool j t = Some x \<Longrightarrow> te_id x = j" for x
    using newest_tool [of j "tr_entries t"] by (auto simp: find_tool_newest split: option.splits)
  with CallUpdated show ?thesis
    using find_tool_None [of j t]
    by (auto simp: apply_update_def on_tool_keeps tool_ids_append find_tool_on find_tool_append unseen_tool_def
        split: option.split)
qed (auto simp: apply_update_def with_field_def tool_ids_def find_tool_def split: option.split)

lemma quiet_update:
  "case u of UserChunk _ \<Rightarrow> False | AgentChunk _ _ \<Rightarrow> False | ThoughtChunk _ \<Rightarrow> False | CallStarted _ \<Rightarrow> False
     | CallUpdated _ _ \<Rightarrow> False | _ \<Rightarrow> True \<Longrightarrow>
   tr_entries (apply_update u t) = tr_entries t \<and> spoken v (Updated u) = []"
  by (cases u; cases v) (simp_all add: apply_update_def with_field_def split: option.split)

lemma update_said: "said v (apply_update u t) = said v t @ spoken v (Updated u)"
proof (cases u)
  case (UserChunk b)
  show ?thesis unfolding UserChunk apply_update_def session_update.case
    by (rule grow_last_keeps(2)) (cases v; auto split: chat_entry.splits)+
next
  case (AgentChunk b i)
  show ?thesis unfolding AgentChunk apply_update_def session_update.case
    by (rule grow_last_keeps(2)) (cases v; auto split: chat_entry.splits if_splits)+
next
  case (ThoughtChunk b)
  show ?thesis unfolding ThoughtChunk apply_update_def session_update.case
    by (rule grow_last_keeps(2)) (cases v; auto split: chat_entry.splits)+
next
  case (CallStarted c)
  then show ?thesis
    by (cases v) (auto simp: apply_update_def tool_call_def Let_def on_tool_keeps tool_ids_append split: option.split)
next
  case (CallUpdated i fs)
  then show ?thesis
    by (cases v) (auto simp: apply_update_def on_tool_keeps tool_ids_append split: option.split)
qed (use quiet_update [of u t v] in \<open>simp_all add: said_def\<close>)

lemma transcript_do_said: "said v (transcript_do x t) = said v t @ spoken v x"
proof (cases x)
  case (Prompted s chips)
  then show ?thesis by (cases v) (simp_all add: push_user_def tool_ids_append)
next
  case Settled
  have "words_of v (settle_entry e) = words_of v e" for e by (cases e) (cases v; simp)+
  then have "said v (settle_tools t) = said v t" by (simp add: said_def settle_tools_def comp_def)
  with Settled show ?thesis by (cases v) simp_all
next
  case (Updated u)
  then show ?thesis by (simp add: update_said)
next
  case (Noticed s err)
  then show ?thesis by (cases v) (simp_all add: add_notice_def tool_ids_append)
next
  case (Configured i val)
  then show ?thesis by (cases v) (simp_all add: set_config_def said_def)
qed

lemma transcript_do_calls:
  "tool_ids (transcript_do x t) = tool_ids t @ filter (\<lambda>i. i \<notin> set (tool_ids t)) (called x) \<and>
   find_tool i (transcript_do x t) = call_after i x (find_tool i t)"
proof (cases x)
  case (Updated u)
  then show ?thesis by (simp add: update_calls)
next
  case Settled
  have "tool_id_of (settle_entry e) = tool_id_of e" for e by (cases e) simp_all
  then have "tool_ids (settle_tools t) = tool_ids t"
    by (simp add: tool_ids_def settle_tools_def map_filter_same)
  with Settled show ?thesis by (simp add: find_tool_settle)
next
  case (Configured i val)
  then show ?thesis by (simp add: set_config_def tool_ids_def find_tool_def)
qed (simp_all add: push_user_def add_notice_def tool_ids_append find_tool_append)

abbreviation tools_once :: "transcript \<Rightarrow> bool" where
  "tools_once t \<equiv> distinct (tool_ids t)"

lemma called_once: "distinct (called x)"
  by (cases x rule: called.cases) simp_all

lemma transcript_do_once: "tools_once t \<Longrightarrow> tools_once (transcript_do x t)"
  using transcript_do_calls [of x t] called_once [of x] by auto

interpretation transcribing: machine transcript_do tools_once
  by unfold_locales (rule transcript_do_once)

text \<open>C36: Whatever a conversation goes through, its transcript has exactly one entry for each tool call the agent
  started or updated, in the order in which they first came; each entry is what the updates of its own call, one
  after the other, made of it; and no word of the user, the agent or its thoughts is lost, repeated or reordered:
  the entries of a voice, joined, are the chunks of that voice in the order they came.\<close>

theorem transcript_keeps_words:
  "let t = fold transcript_do ops transcript_new
   in distinct (tool_ids t) \<and> tool_ids t = firsts (concat (map called ops)) \<and>
      find_tool i t = fold (call_after i) ops None \<and> said v t = concat (map (spoken v) ops)"
proof -
  have start: "tools_once transcript_new" "said v transcript_new = []" "tool_ids transcript_new = []"
    "find_tool i transcript_new = None"
    by (simp_all add: transcript_new_def tool_ids_def said_def find_tool_def List.map_filter_simps)
  have "said v (fold transcript_do ops t) = said v t @ concat (map (spoken v) ops)" for t
    by (induction ops arbitrary: t) (simp_all add: transcript_do_said)
  moreover have "find_tool i (fold transcript_do ops t) = fold (call_after i) ops (find_tool i t)" for t
    by (induction ops arbitrary: t) (simp_all add: transcript_do_calls)
  moreover have "tool_ids (fold transcript_do ops transcript_new) = firsts (concat (map called ops))"
  proof (induction ops rule: rev_induct)
    case (snoc x ops)
    then show ?case
      using transcript_do_calls [of x "fold transcript_do ops transcript_new"]
      by (cases x rule: called.cases) simp_all
  qed (simp add: start)
  ultimately show ?thesis
    using start transcribing.run_keeps [of transcript_new ops] by (simp add: Let_def)
qed

end
