(* ===== verification/AgentPolicy.thy ===== *)
theory AgentPolicy
  imports TextLaws "HOL-Library.Sublist"
begin

text \<open>
  What an agent may do without asking (\<open>crates/kubyl_agent_core/src/policy.rs\<close>, and the read handler of
  acp.rs): command lines and their quoting, grants, and reads inside the folder of a thread.  The file
  system is a map from real locations to nodes with symbolic links; \<open>walk\<close> is how the operating system
  follows a path through it, and \<open>shell_words\<close> and \<open>windows_words\<close> are how a POSIX shell and a Windows
  program take a command line apart.  The warning patterns need the regex crate and are a parameter where
  they are used.
\<close>

section \<open>Command lines\<close>

definition is_plain :: "str \<Rightarrow> bool" where
  "is_plain arg \<longleftrightarrow>
     arg \<noteq> [] \<and> list_all (\<lambda>c. is_ascii_alphanumeric c \<or> c \<in> set ''_@%+=:,./-'') arg"

definition quote_char :: char where "quote_char = CHR 0x27"

definition posix_arg :: "str \<Rightarrow> str" where
  "posix_arg arg =
     (if is_plain arg then arg
      else [quote_char] @ replace_char quote_char [quote_char, CHR 0x5C, quote_char, quote_char] arg @ [quote_char])"

definition command_line :: "str \<Rightarrow> str list \<Rightarrow> str" where
  "command_line command args = foldl (\<lambda>line arg. line @ '' '' @ posix_arg arg) command args"

definition windows_arg :: "str \<Rightarrow> str" where
  "windows_arg arg =
     (if is_plain arg then arg else [CHR 0x22] @ replace_char (CHR 0x22) [CHR 0x5C, CHR 0x22] arg @ [CHR 0x22])"

definition windows_command_line :: "str \<Rightarrow> str list \<Rightarrow> str" where
  "windows_command_line command args = foldl (\<lambda>line arg. line @ '' '' @ windows_arg arg) command args"

definition shell_inner :: "str \<Rightarrow> str list \<Rightarrow> str option" where
  "shell_inner command args =
     (let program = last (split_on (\<lambda>c. c = CHR ''/'' \<or> c = CHR 0x5C) command);
          shell = program \<in> {''sh'', ''bash'', ''zsh'', ''dash'', ''fish''}
      in case args of
           [fl, inner] \<Rightarrow> if shell \<and> fl \<in> {''-c'', ''-lc'', ''-ic''} then Some inner else None
         | _ \<Rightarrow> None)"

section \<open>Grants\<close>

text \<open>Instants are nanoseconds of the monotonic clock; \<open>duration_since\<close> saturates at zero.\<close>

definition grant_window :: nat where "grant_window = 30 * 10 ^ 9"

record execute_grant =
  gr_at :: nat
  gr_command :: "str option"

definition normalize_line :: "str \<Rightarrow> str" where
  "normalize_line s = join '' '' (split_whitespace s)"

definition grant_covers :: "execute_grant \<Rightarrow> str list \<Rightarrow> nat \<Rightarrow> bool" where
  "grant_covers g cmds now =
     (if now - gr_at g > grant_window then False
      else case gr_command g of
             None \<Rightarrow> False
           | Some granted \<Rightarrow>
               (let granted = normalize_line granted
                in granted \<noteq> [] \<and> list_ex (\<lambda>line. normalize_line line = granted) cmds))"

section \<open>Paths\<close>

datatype path_component = RootDir | CurDir | ParentDir | Normal str

type_synonym file_path = "path_component list"

text \<open>\<open>PathBuf::pop\<close>: the root stays; \<open>PathBuf::push\<close>: an absolute path replaces.\<close>

definition pop_path :: "file_path \<Rightarrow> file_path" where
  "pop_path p = (if p = [] \<or> last p = RootDir then p else butlast p)"

definition clean_step :: "path_component \<Rightarrow> file_path \<Rightarrow> file_path" where
  "clean_step c out =
     (case c of CurDir \<Rightarrow> out | ParentDir \<Rightarrow> pop_path out | RootDir \<Rightarrow> [RootDir] | Normal n \<Rightarrow> out @ [Normal n])"

definition clean_path :: "file_path \<Rightarrow> file_path" where
  "clean_path p = fold clean_step p []"

section \<open>The file system\<close>

datatype file_node = Regular | Directory | Symlink file_path

type_synonym file_system = "str list \<Rightarrow> file_node option"

text \<open>The real location a path leads to, following at most \<open>n\<close> links (the system's limit), from the
  directory \<open>cur\<close> on.\<close>

function walk :: "file_system \<Rightarrow> nat \<Rightarrow> str list \<Rightarrow> file_path \<Rightarrow> str list option" where
  "walk fs n cur [] = Some cur"
| "walk fs n cur (RootDir # p) = walk fs n [] p"
| "walk fs n cur (CurDir # p) = walk fs n cur p"
| "walk fs n cur (ParentDir # p) = walk fs n (butlast cur) p"
| "walk fs n cur (Normal x # p) =
     (case fs (cur @ [x]) of
        None \<Rightarrow> None
      | Some Regular \<Rightarrow> if p = [] then Some (cur @ [x]) else None
      | Some Directory \<Rightarrow> walk fs n (cur @ [x]) p
      | Some (Symlink target) \<Rightarrow> (case n of 0 \<Rightarrow> None | Suc m \<Rightarrow> walk fs m cur (target @ p)))"
  by pat_completeness auto
termination by (relation "measures [\<lambda>(fs, n, cur, p). n, \<lambda>(fs, n, cur, p). length p]") auto

definition link_limit :: nat where "link_limit = 40"

text \<open>\<open>canonicalize\<close>, also what opening the file reaches.\<close>

definition real_path :: "file_system \<Rightarrow> file_path \<Rightarrow> str list option" where
  "real_path fs p = walk fs link_limit [] p"

definition names_path :: "str list \<Rightarrow> file_path" where
  "names_path ns = RootDir # map Normal ns"

definition last_name :: "file_path \<Rightarrow> str option" where
  "last_name p = (if p = [] then None else case last p of Normal n \<Rightarrow> Some n | _ \<Rightarrow> None)"

definition parent_path :: "file_path \<Rightarrow> file_path option" where
  "parent_path p = (if p = [] \<or> last p = RootDir then None else Some (butlast p))"

lemma parent_shorter: "parent_path p = Some q \<Longrightarrow> length q < length p"
  by (auto simp: parent_path_def split: if_splits)

text \<open>The loop of \<open>resolved_path\<close>: the nearest ancestor that exists, and the names below it.\<close>

function existing_part :: "file_system \<Rightarrow> file_path \<Rightarrow> str list \<Rightarrow> (file_path \<times> str list) option" where
  "existing_part fs existing rest =
     (if real_path fs existing \<noteq> None then Some (existing, rest)
      else case (last_name existing, parent_path existing) of
             (Some n, Some parent) \<Rightarrow> existing_part fs parent (rest @ [n])
           | _ \<Rightarrow> None)"
  by pat_completeness auto
termination by (relation "measure (\<lambda>(fs, existing, rest). length existing)") (auto intro: parent_shorter)

declare existing_part.simps [simp del]

definition resolved_path :: "file_system \<Rightarrow> file_path \<Rightarrow> file_path" where
  "resolved_path fs p =
     (case existing_part fs p [] of
        None \<Rightarrow> p
      | Some (existing, rest) \<Rightarrow>
          (case real_path fs existing of Some ns \<Rightarrow> names_path ns | None \<Rightarrow> existing) @ map Normal (rev rest))"

definition is_absolute :: "file_path \<Rightarrow> bool" where
  "is_absolute p = (case p of RootDir # _ \<Rightarrow> True | _ \<Rightarrow> False)"

definition inside_folder :: "file_system \<Rightarrow> file_path \<Rightarrow> file_path \<Rightarrow> bool" where
  "inside_folder fs folder p =
     (if \<not> is_absolute p then False
      else let folder = (case real_path fs folder of Some ns \<Rightarrow> names_path ns | None \<Rightarrow> clean_path folder)
           in prefix folder (resolved_path fs (clean_path p)))"

text \<open>The request \<open>fs/read_text_file\<close>: a read inside the folder of the session is answered at once with
  what the path leads to; any other goes to the user.  Check and read happen at one instant; the line and the limit of the
  request, which cut the answer, are left out.\<close>

datatype read_outcome = ReadNow "str list option" | AskUser

definition read_text_file :: "file_system \<Rightarrow> file_path option \<Rightarrow> file_path \<Rightarrow> read_outcome" where
  "read_text_file fs folder p =
     (case folder of
        Some folder \<Rightarrow> if inside_folder fs folder p then ReadNow (real_path fs p) else AskUser
      | None \<Rightarrow> AskUser)"

section \<open>How programs read a command line\<close>

text \<open>The words of a simple command in a POSIX shell: blanks separate, single quotes keep everything up to
  the next one, a backslash keeps the next character.  A character that the shell would act on (an
  operator, an expansion, a pattern, the end of the line) is no part of a word: \<open>None\<close>.\<close>

definition shell_special :: "char \<Rightarrow> bool" where
  "shell_special c \<longleftrightarrow> c \<in> set ''|&;<>()$*?[]#~{}!'' \<or> c \<in> {CHR 0x22, CHR 0x60, CHR 0x0A}"

fun shell_scan :: "bool \<Rightarrow> str option \<Rightarrow> str \<Rightarrow> str list option" where
  "shell_scan quoted cur [] =
     (if quoted then None else Some (case cur of None \<Rightarrow> [] | Some w \<Rightarrow> [w]))"
| "shell_scan quoted cur (c # s) =
     (let w = unwrap_or cur []
      in if quoted then if c = quote_char then shell_scan False (Some w) s else shell_scan True (Some (w @ [c])) s
         else if c = CHR '' '' \<or> c = CHR 0x09
         then map_option (\<lambda>ws. (case cur of None \<Rightarrow> ws | Some w \<Rightarrow> w # ws)) (shell_scan False None s)
         else if c = quote_char then shell_scan True (Some w) s
         else if c = CHR 0x5C then (case s of [] \<Rightarrow> None | d # s' \<Rightarrow> shell_scan False (Some (w @ [d])) s')
         else if shell_special c then None
         else shell_scan False (Some (w @ [c])) s)"

definition shell_words :: "str \<Rightarrow> str list option" where
  "shell_words = shell_scan False None"

text \<open>A line break ends a command.\<close>

definition shell_commands :: "str \<Rightarrow> str list option list" where
  "shell_commands s = map shell_words (split_on (\<lambda>c. c = CHR 0x0A) s)"

text \<open>The arguments of a Windows program: \<open>n\<close> backslashes before a quote stand for half as many, and the
  quote is literal when one is left over.\<close>

fun windows_scan :: "bool \<Rightarrow> nat \<Rightarrow> str option \<Rightarrow> str \<Rightarrow> str list" where
  "windows_scan quoted n cur [] = (case cur of None \<Rightarrow> [] | Some w \<Rightarrow> [w @ replicate n (CHR 0x5C)])"
| "windows_scan quoted n cur (c # s) =
     (let w = unwrap_or cur []
      in if c = CHR 0x5C then windows_scan quoted (Suc n) (Some w) s
         else if c = CHR 0x22
         then if even n then windows_scan (\<not> quoted) 0 (Some (w @ replicate (n div 2) (CHR 0x5C))) s
              else windows_scan quoted 0 (Some (w @ replicate (n div 2) (CHR 0x5C) @ [c])) s
         else if \<not> quoted \<and> (c = CHR '' '' \<or> c = CHR 0x09)
         then (case cur of None \<Rightarrow> [] | Some w \<Rightarrow> [w @ replicate n (CHR 0x5C)]) @ windows_scan False 0 None s
         else windows_scan quoted 0 (Some (w @ replicate n (CHR 0x5C) @ [c])) s)"

definition windows_words :: "str \<Rightarrow> str list" where
  "windows_words = windows_scan False 0 None"

section \<open>Quoting\<close>

lemma shell_scan_append:
  "shell_scan q cur a = Some ws \<Longrightarrow>
   shell_scan q cur (a @ '' '' @ b) = map_option (\<lambda>vs. ws @ vs) (shell_scan False None b)"
proof (induction q cur a arbitrary: ws rule: shell_scan.induct)
  case (1 quoted cur)
  then show ?case
    by (auto simp: quote_char_def option.map_ident split: if_splits option.splits)
next
  case (2 quoted cur c s)
  consider "quoted" "c = quote_char" | "quoted" "c \<noteq> quote_char"
    | "\<not> quoted" "c = CHR '' '' \<or> c = CHR 0x09"
    | "\<not> quoted" "\<not> (c = CHR '' '' \<or> c = CHR 0x09)" "c = quote_char"
    | "\<not> quoted" "\<not> (c = CHR '' '' \<or> c = CHR 0x09)" "c \<noteq> quote_char" "c = CHR 0x5C"
    | "\<not> quoted" "\<not> (c = CHR '' '' \<or> c = CHR 0x09)" "c \<noteq> quote_char" "c \<noteq> CHR 0x5C"
    by blast
  then show ?case
  proof cases
    case 3
    then obtain vs where "shell_scan False None s = Some vs" "ws = (case cur of None \<Rightarrow> vs | Some w \<Rightarrow> w # vs)"
      using "2.prems" by (auto simp: Let_def)
    with 3 "2.IH"(3) [OF refl] show ?thesis
      by (auto simp: Let_def option.map_comp comp_def split: option.split)
  next
    case 5
    with 2 show ?thesis by (cases s) (auto simp: Let_def)
  next
    case 6
    with 2 show ?thesis by (auto simp: Let_def split: if_splits)
  qed (use 2 in \<open>auto simp: Let_def\<close>)
qed

lemma plain_char:
  assumes "is_ascii_alphanumeric c \<or> c \<in> set ''_@%+=:,./-''"
  shows "c \<noteq> CHR '' ''" "c \<noteq> CHR 0x09" "c \<noteq> quote_char" "c \<noteq> CHR 0x5C" "\<not> shell_special c"
  using assms by (auto simp: shell_special_def quote_char_def is_ascii_alphanumeric_def is_ascii_alphabetic_def
      is_ascii_uppercase_def is_ascii_lowercase_def is_ascii_digit_def)

lemma shell_scan_plain:
  "list_all (\<lambda>c. is_ascii_alphanumeric c \<or> c \<in> set ''_@%+=:,./-'') s \<Longrightarrow>
   shell_scan False (Some w) s = Some [w @ s]"
proof (induction s arbitrary: w)
  case (Cons c s)
  then have "is_ascii_alphanumeric c \<or> c \<in> set ''_@%+=:,./-''" by simp
  note plain_char [OF this]
  with Cons show ?case by (simp add: unwrap_or_def)
qed simp

lemma shell_scan_quoted:
  "shell_scan True (Some w) (replace_char quote_char [quote_char, CHR 0x5C, quote_char, quote_char] s @ [quote_char]) =
   Some [w @ s]"
  by (induction s arbitrary: w)
    (simp_all add: replace_char_def unwrap_or_def quote_char_def)

lemma shell_scan_arg: "shell_scan False None (posix_arg arg) = Some [arg]"
proof (cases "is_plain arg")
  case True
  then obtain c s where arg: "arg = c # s" by (cases arg) (auto simp: is_plain_def)
  with True have c: "is_ascii_alphanumeric c \<or> c \<in> set ''_@%+=:,./-''"
    and s: "list_all (\<lambda>c. is_ascii_alphanumeric c \<or> c \<in> set ''_@%+=:,./-'') s"
    by (simp_all add: is_plain_def)
  from plain_char [OF c] shell_scan_plain [OF s, of "[c]"] True show ?thesis
    unfolding posix_arg_def by (simp add: unwrap_or_def arg)
next
  case False
  then show ?thesis
    using shell_scan_quoted [of "[]" arg] by (simp add: posix_arg_def unwrap_or_def quote_char_def)
qed

text \<open>C35: What the shell runs is the agent's command with exactly the given arguments: when the command is
  a simple one, the words of the command line are its words followed by the arguments, each one word, whatever
  operators, expansions, patterns, quotes or line breaks it holds.\<close>

theorem arguments_arrive_literally:
  "case shell_words command of
     Some ws \<Rightarrow> shell_words (command_line command args) = Some (ws @ args)
   | None \<Rightarrow> True"
proof (cases "shell_words command")
  case (Some ws)
  have "shell_scan False None (command_line command args) = Some (ws @ args)"
    using Some
  proof (induction args arbitrary: command ws)
    case Nil
    then show ?case by (simp add: command_line_def shell_words_def)
  next
    case (Cons arg args)
    have "shell_words (command @ '' '' @ posix_arg arg) = Some (ws @ [arg])"
      using shell_scan_append [of False None command ws "posix_arg arg"] Cons.prems
      by (simp add: shell_words_def shell_scan_arg)
    from Cons.IH [OF this] show ?case by (simp add: command_line_def)
  qed
  with Some show ?thesis by (simp add: shell_words_def)
qed simp

text \<open>The quoting for Windows does not have this property: a backslash at the end of an argument escapes the
  closing quote, and the argument swallows the next one.\<close>

lemma windows_backslash_merges:
  "windows_words (windows_command_line ''x'' [''a b'' @ [CHR 0x5C], ''c'']) = [''x'', ''a b'' @ [CHR 0x22] @ '' c'']"
proof -
  have "windows_command_line ''x'' [''a b'' @ [CHR 0x5C], ''c''] =
      ''x '' @ [CHR 0x22] @ ''a b'' @ [CHR 0x5C, CHR 0x22] @ '' c''"
    by code_simp
  moreover have "windows_words (''x '' @ [CHR 0x22] @ ''a b'' @ [CHR 0x5C, CHR 0x22] @ '' c'') =
      [''x'', ''a b'' @ [CHR 0x22] @ '' c'']"
    by (simp add: windows_words_def unwrap_or_def)
  ultimately show ?thesis by (rule trans [OF arg_cong])
qed

section \<open>Grants\<close>

text \<open>A grant covers a line only in its window, and only one with the same words.\<close>

lemma join_blank_inj:
  assumes "\<forall>w \<in> set ws \<union> set vs. w \<noteq> [] \<and> CHR '' '' \<notin> set w" "join '' '' ws = join '' '' vs"
  shows "ws = vs"
proof -
  have nil: "join '' '' us = [] \<longleftrightarrow> us = []" if "\<forall>w \<in> set us. w \<noteq> []" for us
    using that by simp
  show ?thesis
  proof (cases "ws = [] \<or> vs = []")
    case True
    then show ?thesis using assms nil [of ws] nil [of vs] by auto
  next
    case False
    have "split_on (\<lambda>c. c = CHR '' '') (join '' '' us) = us" if "us = ws \<or> us = vs" for us
      by (rule split_on_join) (use False assms(1) that in blast)+
    from this [of ws] this [of vs] show ?thesis unfolding assms(2) by argo
  qed
qed

lemma split_whitespace_word: "w \<in> set (split_whitespace s) \<Longrightarrow> w \<noteq> [] \<and> CHR '' '' \<notin> set w"
  by (auto simp: split_whitespace_def is_whitespace_def dest: split_on_sound)

lemma normalize_eq: "normalize_line a = normalize_line b \<longleftrightarrow> split_whitespace a = split_whitespace b"
proof
  assume "normalize_line a = normalize_line b"
  then show "split_whitespace a = split_whitespace b"
    unfolding normalize_line_def
    using split_whitespace_word [of _ a] split_whitespace_word [of _ b] by (intro join_blank_inj) auto
qed (simp add: normalize_line_def)

lemma grant_coversD:
  assumes "grant_covers g cmds now"
  shows "now - gr_at g \<le> grant_window"
    and "\<exists>granted line. gr_command g = Some granted \<and> line \<in> set cmds \<and>
           split_whitespace line = split_whitespace granted \<and> split_whitespace granted \<noteq> []"
proof -
  have "normalize_line [] = []" by (simp add: normalize_line_def split_whitespace_def)
  moreover have "split_whitespace s \<noteq> []" if "normalize_line s \<noteq> []" for s
    using that by (auto simp: normalize_line_def)
  ultimately show "now - gr_at g \<le> grant_window"
    "\<exists>granted line. gr_command g = Some granted \<and> line \<in> set cmds \<and>
       split_whitespace line = split_whitespace granted \<and> split_whitespace granted \<noteq> []"
    using assms by (auto simp: grant_covers_def Let_def list_ex_iff normalize_eq split: if_splits option.splits)
qed

text \<open>Words are not what a shell goes by: it ends a command at a line break.\<close>

lemma grant_ignores_line_breaks:
  "let granted = ''echo rm x''; line = ''echo'' @ [CHR 0x0A] @ ''rm x''
   in grant_covers \<lparr>gr_at = 0, gr_command = Some granted\<rparr> [line] 0 \<and>
      shell_commands granted = [Some [''echo'', ''rm'', ''x'']] \<and>
      shell_commands line = [Some [''echo''], Some [''rm'', ''x'']]"
  by (simp add: grant_covers_def normalize_line_def split_whitespace_def is_whitespace_def shell_commands_def
      shell_words_def quote_char_def shell_special_def unwrap_or_def)

section \<open>Reads\<close>

lemma clean_names:
  "out \<noteq> [] \<Longrightarrow> list_all (\<lambda>c. c \<notin> {RootDir, CurDir, ParentDir}) p \<Longrightarrow> fold clean_step p out = out @ p"
proof (induction p arbitrary: out)
  case (Cons c p)
  then show ?case by (cases c) (simp_all add: clean_step_def)
qed simp

lemma clean_absolute:
  assumes "is_absolute p" "list_all (\<lambda>c. c \<notin> {RootDir, CurDir, ParentDir}) (tl p)"
  shows "clean_path p = p"
proof -
  obtain q where q: "p = RootDir # q" using assms(1) by (auto simp: is_absolute_def split: list.splits path_component.splits)
  with clean_names [of "[RootDir]" q] assms(2) show ?thesis
    by (simp add: clean_path_def clean_step_def)
qed

lemma resolved_existing: "real_path fs p = Some ns \<Longrightarrow> resolved_path fs p = names_path ns"
  by (simp add: resolved_path_def existing_part.simps [of fs p])

text \<open>C34: What is read without asking lies in the folder of the session, links followed, provided the path
  names no parent directory: of an absolute path, the components after the root are then names.\<close>

theorem quiet_reads_stay_inside:
  "case read_text_file fs (Some folder) p of
     ReadNow (Some location) \<Rightarrow>
       list_ex (\<lambda>c. c \<in> {RootDir, CurDir, ParentDir}) (tl p) \<or>
       prefix (case real_path fs folder of Some ns \<Rightarrow> names_path ns | None \<Rightarrow> clean_path folder) (names_path location)
   | _ \<Rightarrow> True"
proof (cases "inside_folder fs folder p \<and> list_all (\<lambda>c. c \<notin> {RootDir, CurDir, ParentDir}) (tl p)")
  case True
  then have "clean_path p = p"
    by (intro clean_absolute) (auto simp: inside_folder_def split: if_splits)
  with True show ?thesis
    by (auto simp: read_text_file_def inside_folder_def Let_def resolved_existing split: option.split if_splits)
next
  case False
  then show ?thesis
    by (auto simp: read_text_file_def list_all_iff list_ex_iff split: option.split)
qed

text \<open>A location without links: every directory on the way is one.\<close>

definition real_directory :: "file_system \<Rightarrow> str list \<Rightarrow> bool" where
  "real_directory fs ns \<longleftrightarrow> list_all (\<lambda>ms. fs ms = Some Directory) (tl (prefixes ns))"

lemma real_directory_snoc: "real_directory fs (ns @ [n]) \<longleftrightarrow> real_directory fs ns \<and> fs (ns @ [n]) = Some Directory"
  by (cases ns) (auto simp: real_directory_def prefixes_snoc)

lemma walk_names:
  "real_directory fs ns \<Longrightarrow> walk fs n [] (map Normal ns @ p) = walk fs n ns p"
proof (induction ns arbitrary: p rule: rev_induct)
  case (snoc x ns)
  then show ?case by (simp add: real_directory_snoc)
qed simp

lemma real_path_names: "real_directory fs ns \<Longrightarrow> real_path fs (names_path ns @ p) = walk fs link_limit ns p"
  by (simp add: real_path_def names_path_def walk_names)

lemma walk_append:
  "walk fs n cur p = Some d \<Longrightarrow> fs d \<noteq> Some Regular \<Longrightarrow> \<exists>m. walk fs n cur (p @ q) = walk fs m d q"
proof (induction fs n cur p rule: walk.induct)
  case (5 fs n cur x p)
  then show ?case by (auto split: option.splits file_node.splits nat.splits if_splits)
qed auto

lemma fold_clean_names: "out \<noteq> [] \<Longrightarrow> fold clean_step (map Normal ns) out = out @ map Normal ns"
  by (rule clean_names) (simp_all add: list_all_iff)

lemma clean_parent: "clean_path (names_path ns @ [Normal l, ParentDir, Normal f]) = names_path (ns @ [f])"
  by (simp add: clean_path_def names_path_def clean_step_def fold_clean_names pop_path_def)

lemma resolved_below:
  assumes "real_directory fs ns" "case fs (ns @ [f]) of Some (Symlink target) \<Rightarrow> False | _ \<Rightarrow> True"
  shows "resolved_path fs (names_path (ns @ [f])) = names_path (ns @ [f])"
proof -
  have path: "names_path (ns @ [f]) = names_path ns @ [Normal f]" by (simp add: names_path_def)
  have dir: "real_path fs (names_path ns) = Some ns"
    using real_path_names [OF assms(1), of "[]"] by simp
  show ?thesis
  proof (cases "real_path fs (names_path (ns @ [f]))")
    case None
    then have "existing_part fs (names_path (ns @ [f])) [] = Some (names_path ns, [f])"
      using dir by (subst existing_part.simps, subst existing_part.simps)
        (simp add: path last_name_def parent_path_def)
    with dir path show ?thesis by (simp add: resolved_path_def)
  next
    case (Some real)
    then have "real = ns @ [f]"
      using real_path_names [OF assms(1), of "[Normal f]"] assms(2) by (auto simp: path split: option.splits file_node.splits)
    with resolved_existing [OF Some] show ?thesis by simp
  qed
qed

text \<open>C37: The check looks at the path with its parent directories taken away by name, the read follows the path as
  it was given.  So wherever a directory in the folder holds a link, to whatever location it leads, the path of the
  link, a parent directory and a name passes the check (unless the directory holds a link of
  that name too), and the file read without asking is the one of that name next to where the link leads: outside the folder
  whenever that is.\<close>

theorem parent_after_link_escapes:
  assumes "real_path fs folder = Some base" "real_directory fs (base @ sub)"
    and "fs (base @ sub @ [l]) = Some (Symlink target)" "walk fs (link_limit - 1) (base @ sub) target = Some d"
    and "fs d \<noteq> Some Regular" "fs (butlast d @ [f]) = Some Regular"
    and "case fs (base @ sub @ [f]) of Some (Symlink elsewhere) \<Rightarrow> False | _ \<Rightarrow> True"
  shows "read_text_file fs (Some folder) (names_path (base @ sub) @ [Normal l, ParentDir, Normal f]) =
     ReadNow (Some (butlast d @ [f]))"
proof -
  let ?p = "names_path (base @ sub) @ [Normal l, ParentDir, Normal f]"
  have "resolved_path fs (clean_path ?p) = names_path (base @ sub @ [f])"
    using resolved_below [OF assms(2), of f] assms(7) by (simp add: clean_parent)
  then have "inside_folder fs folder ?p"
    using assms(1) by (simp add: inside_folder_def is_absolute_def names_path_def)
  moreover have "real_path fs ?p = walk fs (link_limit - 1) (base @ sub) (target @ [ParentDir, Normal f])"
    using assms(3) by (simp add: real_path_names [OF assms(2)] link_limit_def)
  moreover obtain m where "walk fs (link_limit - 1) (base @ sub) (target @ [ParentDir, Normal f]) =
      walk fs m d [ParentDir, Normal f]"
    using walk_append [OF assms(4,5)] by blast
  ultimately show ?thesis
    using assms(6) by (simp add: read_text_file_def)
qed

text \<open>A folder \<open>/w\<close> with a link to a directory outside: \<open>/w/l/../p\<close> passes for \<open>/w/p\<close> and reads \<open>/e/p\<close>.\<close>

definition linked_files :: file_system where
  "linked_files = map_of
     [([''w''], Directory), ([''w'', ''l''], Symlink [RootDir, Normal ''e'', Normal ''d'']),
      ([''e''], Directory), ([''e'', ''d''], Directory), ([''e'', ''p''], Regular)]"

theorem parent_after_link_escapes_witness:
  "read_text_file linked_files (Some [RootDir, Normal ''w'']) (names_path [''w''] @ [Normal ''l'', ParentDir, Normal ''p'']) =
     ReadNow (Some [''e'', ''p'']) \<and>
   \<not> prefix [''w''] [''e'', ''p'']"
  using parent_after_link_escapes [of linked_files "[RootDir, Normal ''w'']" "[''w'']" "[]" "''l''"
      "[RootDir, Normal ''e'', Normal ''d'']" "[''e'', ''d'']" "''p''"]
  by (simp add: linked_files_def real_path_def real_directory_def link_limit_def)

end
