(* ===== verification/AgentThreads.thy ===== *)
theory AgentThreads
  imports AgentTranscript AgentPolicy ChangeTools
begin

text \<open>
  The agents' core (\<open>crates/kubyl_agent_core/src/service.rs\<close>): agents, the threads of conversation and
  what waits for the user, one definition per handler.  A spawned task is a number; its callback is an
  operation with the task's result as an argument.  A responder of the protocol (and the reply channel of a
  proposed change) is a number too: using it up is an entry of \<open>ac_out\<close>, and so is dropping it, which answers
  an error.  The warning patterns and the scrubbing of texts (regex), the home folder and the folders that
  exist are the fields of \<open>agent_env\<close>.  The variables of Kubyl's own environment that every command of an agent
  inherits (\<open>cli_env\<close>) are the same for all of them and not part of a launch here.
\<close>

section \<open>State\<close>

record agent_env =
  ae_warnings :: "str \<Rightarrow> str list"
  ae_scrub :: "str \<Rightarrow> str"
  ae_is_dir :: "str \<Rightarrow> bool"
  ae_home :: "str option"
  ae_data_dir :: str

record agent_info =
  ai_id :: str
  ai_name :: str
  ai_install :: "str option"
  ai_sign_in :: "str option"
  ai_program :: "str option"
  ai_checked :: bool
  ai_running :: bool

type_synonym sign_in_method = "str \<times> str \<times> str option"

datatype thread_status =
    ThreadStarting
  | ThreadIdle
  | ThreadRunning
  | NeedsSignIn "sign_in_method list" "str option"
  | NotInstalled "str option"
  | ThreadFailed str
  | ThreadEnded str

record permission_choice =
  pm_id :: str
  pm_name :: str
  pm_allow :: bool

datatype pending_kind =
    PermissionCard str str "str option" bool "permission_choice list"
  | CommandCard str str "(str \<times> str) list" "str list"
  | ReadCard str
  | WriteCard str "str option" str
  | ChangeCard proposal
  | FormCard str "str option" "json list"
  | OpenUrlCard str str str

record command_launch =
  la_command :: str
  la_args :: "str list"
  la_env :: "(str \<times> str) list"
  la_cwd :: str
  la_output_limit :: "nat option"
  la_path :: "str option"
  la_kubeconfig :: "str option"

record agent_pending =
  pg_id :: nat
  pg_kind :: pending_kind
  pg_responder :: "nat option"
  pg_launch :: "command_launch option"
  pg_approval :: "nat option"

record saved_thread =
  sh_agent :: str
  sh_cluster :: cluster_id
  sh_title :: str
  sh_cwd :: str
  sh_session :: str
  sh_updated :: int

record agent_thread =
  at_id :: nat
  at_agent :: str
  at_agent_name :: str
  at_cluster :: cluster_id
  at_cluster_name :: str
  at_cwd :: str
  at_dir :: str
  at_status :: thread_status
  at_transcript :: transcript
  at_session :: "str option"
  at_modes :: "(str \<times> str) list"
  at_pending :: "agent_pending list"
  at_queued :: "(str \<times> context_chip list) list"
  at_source :: "(str \<times> str) option"
  at_resume :: "saved_thread option"
  at_first_prompt :: bool
  at_grant :: "execute_grant option"
  at_mcp :: "nat option"
  at_tasks :: "nat list"
  at_notes :: "str list"
  at_writes :: bool

record agent_connection =
  nx_load_session :: bool
  nx_auth_methods :: "sign_in_method list"

datatype agent_slot = SlotStarting nat | SlotReady agent_connection

datatype agent_reply =
    OptionSelected str
  | PermissionCancelled
  | FormAccepted json
  | FormDeclined
  | FormCancelled
  | RequestError str

datatype agent_out =
    Replied nat agent_reply
  | CommandRun str command_launch nat
  | FileRead str nat
  | FileWritten str str nat
  | ChangeDecided nat decision
  | ChangeDropped nat
  | UrlOpened str
  | ThreadRemembered saved_thread
  | TurnEnd nat str
  | AgentStart nat str str
  | LookUp nat "str option"
  | SessionOpen nat nat "str option"
  | PromptSent str str bool "str \<times> context_chip list"
  | CancelSent str str
  | SessionClosed str str
  | ModeSent nat str str
  | ConfigSent nat str str config_value
  | SignInSent nat str str
  | FolderRemoved str

text \<open>The settings the core reads: the agents they configure (with nothing looked up yet), and a stand-in for
  the ones that are only compared.\<close>

record agent_settings =
  st_allow_writes :: bool
  st_cwd :: "str option"
  st_agents :: "agent_info list"
  st_others :: nat

record agent_core =
  ac_settings :: agent_settings
  ac_path :: "str option"
  ac_agents :: "agent_info list"
  ac_slots :: "str \<Rightarrow> agent_slot option"
  ac_threads :: "agent_thread list"
  ac_contexts :: "cluster_id set"
  ac_next_thread :: nat
  ac_next_pending :: nat
  ac_lookup :: "(nat \<times> str option) option"
  ac_next_task :: nat
  ac_out :: "agent_out list"

definition fresh_agents :: "agent_settings \<Rightarrow> (str \<Rightarrow> bool) \<Rightarrow> agent_info list" where
  "fresh_agents settings running =
     map (\<lambda>i. i\<lparr>ai_program := None, ai_checked := False, ai_running := running (ai_id i)\<rparr>) (st_agents settings)"

definition core_new :: "agent_settings \<Rightarrow> agent_core" where
  "core_new settings =
     \<lparr>ac_settings = settings, ac_path = None, ac_agents = fresh_agents settings (\<lambda>_. False), ac_slots = (\<lambda>_. None),
      ac_threads = [], ac_contexts = {}, ac_next_thread = 0, ac_next_pending = 0, ac_lookup = None,
      ac_next_task = 0, ac_out = []\<rparr>"

section \<open>Reading and changing the state\<close>

definition tell :: "agent_out list \<Rightarrow> agent_core \<Rightarrow> agent_core" where
  "tell xs s = s\<lparr>ac_out := ac_out s @ xs\<rparr>"

fun remove_first :: "('a \<Rightarrow> bool) \<Rightarrow> 'a list \<Rightarrow> 'a list" where
  "remove_first p [] = []"
| "remove_first p (x # xs) = (if p x then xs else x # remove_first p xs)"

definition agent_by_id :: "str \<Rightarrow> agent_core \<Rightarrow> agent_info option" where
  "agent_by_id i s = find (\<lambda>a. ai_id a = i) (ac_agents s)"

definition thread_by_id :: "nat \<Rightarrow> agent_core \<Rightarrow> agent_thread option" where
  "thread_by_id i s = find (\<lambda>t. at_id t = i) (ac_threads s)"

text \<open>\<open>thread_mut\<close>: the first thread that fits, changed.\<close>

definition on_thread :: "(agent_thread \<Rightarrow> bool) \<Rightarrow> (agent_thread \<Rightarrow> agent_thread) \<Rightarrow> agent_core \<Rightarrow> agent_core" where
  "on_thread p f s = s\<lparr>ac_threads := update_where p f (ac_threads s)\<rparr>"

abbreviation on_id :: "nat \<Rightarrow> (agent_thread \<Rightarrow> agent_thread) \<Rightarrow> agent_core \<Rightarrow> agent_core" where
  "on_id i \<equiv> on_thread (\<lambda>t. at_id t = i)"

text \<open>Every thread of an agent, changed.\<close>

definition on_agent :: "str \<Rightarrow> (agent_thread \<Rightarrow> agent_thread) \<Rightarrow> agent_core \<Rightarrow> agent_core" where
  "on_agent a f s = s\<lparr>ac_threads := map (\<lambda>t. if at_agent t = a then f t else t) (ac_threads s)\<rparr>"

definition agent_connection_of :: "str \<Rightarrow> agent_core \<Rightarrow> agent_connection option" where
  "agent_connection_of a s = (case ac_slots s a of Some (SlotReady c) \<Rightarrow> Some c | _ \<Rightarrow> None)"

definition of_session :: "str \<Rightarrow> str \<Rightarrow> agent_thread \<Rightarrow> bool" where
  "of_session a session t \<longleftrightarrow> at_agent t = a \<and> at_session t = Some session"

definition thread_of_session :: "str \<Rightarrow> str \<Rightarrow> agent_core \<Rightarrow> agent_thread option" where
  "thread_of_session a session s = find (of_session a session) (ac_threads s)"

text \<open>A new task: its number.\<close>

definition new_task :: "(nat \<Rightarrow> agent_core \<Rightarrow> agent_core) \<Rightarrow> agent_core \<Rightarrow> agent_core" where
  "new_task k s = k (ac_next_task s) (s\<lparr>ac_next_task := Suc (ac_next_task s)\<rparr>)"

definition set_running :: "str \<Rightarrow> bool \<Rightarrow> agent_core \<Rightarrow> agent_core" where
  "set_running a b s = s\<lparr>ac_agents := update_where (\<lambda>i. ai_id i = a) (\<lambda>i. i\<lparr>ai_running := b\<rparr>) (ac_agents s)\<rparr>"

definition assign_program :: "str \<Rightarrow> str option \<Rightarrow> agent_core \<Rightarrow> agent_core" where
  "assign_program a program s =
     s\<lparr>ac_agents := update_where (\<lambda>i. ai_id i = a) (\<lambda>i. i\<lparr>ai_program := program, ai_checked := True\<rparr>) (ac_agents s)\<rparr>"

definition push_notice :: "nat \<Rightarrow> str \<Rightarrow> bool \<Rightarrow> agent_core \<Rightarrow> agent_core" where
  "push_notice i s err = on_id i (\<lambda>t. t\<lparr>at_transcript := add_notice s err (at_transcript t)\<rparr>)"

definition thread_running :: "agent_thread \<Rightarrow> bool" where
  "thread_running t \<longleftrightarrow> at_status t = ThreadRunning"

text \<open>The first line of a text (\<open>str::lines\<close>), and a title of it.\<close>

definition first_line :: "str \<Rightarrow> str" where
  "first_line s =
     (let line = hd (split_on (\<lambda>c. c = CHR 0x0A) s)
      in if CHR 0x0A \<in> set s \<and> ends_with [CHR 0x0D] line then butlast line else line)"

definition thread_title :: "agent_thread \<Rightarrow> str" where
  "thread_title t =
     (case tr_title (at_transcript t) of
        Some title \<Rightarrow> title
      | None \<Rightarrow>
          (let first = List.map_filter
                 (\<lambda>e. case e of
                        UserEntry s chips \<Rightarrow> if trim s \<noteq> [] then Some s else map_option cx_label (if chips = [] then None else Some (hd chips))
                      | _ \<Rightarrow> None) (tr_entries (at_transcript t))
           in case first of
                s # _ \<Rightarrow> (let line = trim (first_line s)
                         in if 60 < length line then take 59 line @ ellipsis else line)
              | [] \<Rightarrow> ''New thread''))"

text \<open>Cards that go away: a cancelled one is answered, a dropped one answers an error; the reply channel of a
  change is closed.\<close>

definition dropped_change :: "agent_pending \<Rightarrow> agent_out list" where
  "dropped_change p = (case pg_approval p of Some a \<Rightarrow> [ChangeDropped a] | None \<Rightarrow> [])"

definition answer_cancelled :: "agent_pending \<Rightarrow> agent_out list" where
  "answer_cancelled p =
     (case pg_responder p of
        None \<Rightarrow> []
      | Some r \<Rightarrow>
          [Replied r (case pg_kind p of
             PermissionCard _ _ _ _ _ \<Rightarrow> PermissionCancelled
           | FormCard _ _ _ \<Rightarrow> FormCancelled
           | OpenUrlCard _ _ _ \<Rightarrow> FormCancelled
           | _ \<Rightarrow> RequestError ''Cancelled.'')]) @ dropped_change p"

definition drop_pending :: "agent_pending \<Rightarrow> agent_out list" where
  "drop_pending p =
     (case pg_responder p of None \<Rightarrow> [] | Some r \<Rightarrow> [Replied r (RequestError ''The request wasn't answered'')])
     @ dropped_change p"

definition is_change :: "agent_pending \<Rightarrow> bool" where
  "is_change p \<longleftrightarrow> (case pg_kind p of ChangeCard _ \<Rightarrow> True | _ \<Rightarrow> False)"

text \<open>\<open>pending.drain(..)\<close> with \<open>answer_cancelled\<close>, and \<open>pending.retain\<close>.\<close>

definition cancelled_of :: "agent_thread \<Rightarrow> agent_out list" where
  "cancelled_of t = concat (map answer_cancelled (at_pending t))"

definition retain :: "(agent_pending \<Rightarrow> bool) \<Rightarrow> agent_thread \<Rightarrow> agent_thread" where
  "retain keep t = t\<lparr>at_pending := filter keep (at_pending t)\<rparr>"

definition removed_of :: "(agent_pending \<Rightarrow> bool) \<Rightarrow> agent_thread \<Rightarrow> agent_out list" where
  "removed_of keep t = concat (map drop_pending (filter (\<lambda>p. \<not> keep p) (at_pending t)))"

section \<open>Sessions\<close>

definition remember :: "int \<Rightarrow> agent_env \<Rightarrow> nat \<Rightarrow> agent_core \<Rightarrow> agent_core" where
  "remember now en i s =
     (case thread_by_id i s of
        None \<Rightarrow> s
      | Some t \<Rightarrow>
          (case at_session t of
             None \<Rightarrow> s
           | Some session \<Rightarrow>
               tell [ThreadRemembered \<lparr>sh_agent = at_agent t, sh_cluster = at_cluster t,
                      sh_title = ae_scrub en (thread_title t), sh_cwd = at_cwd t, sh_session = session,
                      sh_updated = now\<rparr>] s))"

definition remember_if_loadable :: "int \<Rightarrow> agent_env \<Rightarrow> nat \<Rightarrow> agent_core \<Rightarrow> agent_core" where
  "remember_if_loadable now en i s =
     (case Option.bind (thread_by_id i s) (\<lambda>t. agent_connection_of (at_agent t) s) of
        Some c \<Rightarrow> if nx_load_session c then remember now en i s else s
      | None \<Rightarrow> s)"

datatype stop_reason = EndTurn | StopCancelled | MaxTokens | MaxTurnRequests | Refusal | StopNew

record rpc_error =
  er_code :: int
  er_message :: str

text \<open>\<open>RpcError::AUTH_REQUIRED\<close>.\<close>

definition auth_required :: int where "auth_required = - 32000"

text \<open>The end of a turn, up to the next prompt.\<close>

definition turn_settled :: "str option \<Rightarrow> rpc_error + stop_reason \<Rightarrow> agent_thread \<Rightarrow> agent_thread" where
  "turn_settled hint result t =
     (let note = (\<lambda>m err t. t\<lparr>at_transcript := add_notice m err (at_transcript t)\<rparr>);
          t = t\<lparr>at_transcript := settle_tools (at_transcript t), at_pending := [], at_status := ThreadIdle,
                at_tasks := []\<rparr>
      in case result of
           Inr EndTurn \<Rightarrow> t
         | Inr StopCancelled \<Rightarrow> note ''Stopped.'' False t
         | Inr MaxTokens \<Rightarrow> note ''The agent stopped: it reached its token limit.'' True t
         | Inr MaxTurnRequests \<Rightarrow> note ''The agent stopped: it reached its limit of steps.'' True t
         | Inr Refusal \<Rightarrow> note ''The agent declined to continue.'' True t
         | Inr StopNew \<Rightarrow> t
         | Inl err \<Rightarrow> if er_code err = auth_required then t\<lparr>at_status := NeedsSignIn [] hint\<rparr>
                    else note (er_message err) True t)"

definition turn_over :: "int \<Rightarrow> agent_env \<Rightarrow> nat \<Rightarrow> rpc_error + stop_reason \<Rightarrow> agent_core \<Rightarrow> agent_core" where
  "turn_over now en i result s =
     (case thread_by_id i s of
        None \<Rightarrow> s
      | Some t \<Rightarrow>
          (let hint = Option.bind (agent_by_id (at_agent t) s) ai_sign_in;
               s = tell (cancelled_of t) (on_id i (turn_settled hint result) s)
           in remember_if_loadable now en i (tell [TurnEnd i (thread_title (turn_settled hint result t))] s)))"

lemma turn_settled_keeps [simp]:
  "at_id (turn_settled hint result t) = at_id t"
  "at_agent (turn_settled hint result t) = at_agent t"
  "at_cluster (turn_settled hint result t) = at_cluster t"
  "at_session (turn_settled hint result t) = at_session t"
  "at_grant (turn_settled hint result t) = at_grant t"
  "at_queued (turn_settled hint result t) = at_queued t"
  "at_tasks (turn_settled hint result t) = []"
  "at_pending (turn_settled hint result t) = []"
  by (simp_all add: turn_settled_def Let_def split: sum.split stop_reason.split)

definition queue_length :: "nat \<Rightarrow> agent_core \<Rightarrow> nat" where
  "queue_length i s = (case thread_by_id i s of Some t \<Rightarrow> length (at_queued t) | None \<Rightarrow> 0)"

lemma find_update_where:
  assumes "\<And>x. p x \<Longrightarrow> p (f x)"
  shows "find p (update_where p f xs) = map_option f (find p xs)"
  using assms by (induction xs) auto

lemma thread_by_id_tell [simp]: "thread_by_id i (tell xs s) = thread_by_id i s"
  by (simp add: thread_by_id_def tell_def)

lemma thread_by_id_on:
  assumes "\<And>t. at_id t = i \<Longrightarrow> at_id (f t) = i"
  shows "thread_by_id i (on_id i f s) = map_option f (thread_by_id i s)"
  using assms by (simp add: thread_by_id_def on_thread_def find_update_where)

lemma thread_by_id_eq: "thread_by_id i s = Some t \<Longrightarrow> at_id t = i"
  by (auto simp: thread_by_id_def find_Some_iff)

lemma threads_remember [simp]: "ac_threads (remember now en i s) = ac_threads s"
  by (simp add: remember_def tell_def split: option.split)

lemma threads_remember_if [simp]: "ac_threads (remember_if_loadable now en i s) = ac_threads s"
  by (simp add: remember_if_loadable_def split: option.split)

lemma thread_by_id_threads: "ac_threads s = ac_threads s' \<Longrightarrow> thread_by_id i s = thread_by_id i s'"
  by (simp add: thread_by_id_def)

lemma turn_over_queue: "queue_length i (turn_over now en i result s) = queue_length i s"
  by (simp add: queue_length_def turn_over_def Let_def thread_by_id_threads [OF threads_remember_if] thread_by_id_on
      split: option.split)

text \<open>\<open>next_prompt\<close> with the calls of \<open>turn_ended\<close> that a refused prompt makes: \<open>refused\<close> is what the
  connection says to prompts sent now.\<close>

definition take_prompt :: "agent_thread \<Rightarrow> agent_thread" where
  "take_prompt t = t\<lparr>at_queued := tl (at_queued t), at_first_prompt := False, at_status := ThreadRunning\<rparr>"

lemma prompt_taken:
  "thread_by_id i s = Some t \<Longrightarrow> at_queued t \<noteq> [] \<Longrightarrow>
   queue_length i (turn_over now en i result (on_id i take_prompt s)) < queue_length i s"
  unfolding turn_over_queue by (simp add: queue_length_def thread_by_id_on take_prompt_def)

function next_prompt :: "int \<Rightarrow> agent_env \<Rightarrow> rpc_error option \<Rightarrow> nat \<Rightarrow> agent_core \<Rightarrow> agent_core" where
  "next_prompt now en refused i s =
     (case thread_by_id i s of
        None \<Rightarrow> s
      | Some t \<Rightarrow>
          if at_status t \<noteq> ThreadIdle \<or> at_queued t = [] then s
          else case at_session t of
                 None \<Rightarrow> s
               | Some session \<Rightarrow>
                   (let s' = on_id i take_prompt s
                    in case agent_connection_of (at_agent t) s of
                         None \<Rightarrow> s'
                       | Some _ \<Rightarrow>
                           (case refused of
                              None \<Rightarrow> tell [PromptSent (at_agent t) session (at_first_prompt t) (hd (at_queued t))] s'
                            | Some err \<Rightarrow> next_prompt now en refused i (turn_over now en i (Inl err) s'))))"
  by pat_completeness auto
termination
  by (relation "measure (\<lambda>(now, en, refused, i, s). queue_length i s)") (auto intro: prompt_taken)

declare next_prompt.simps [simp del]

definition turn_ended ::
  "int \<Rightarrow> agent_env \<Rightarrow> rpc_error option \<Rightarrow> nat \<Rightarrow> rpc_error + stop_reason \<Rightarrow> agent_core \<Rightarrow> agent_core" where
  "turn_ended now en refused i result s =
     (if thread_by_id i s = None then s else next_prompt now en refused i (turn_over now en i result s))"

definition open_session :: "nat \<Rightarrow> agent_core \<Rightarrow> agent_core" where
  "open_session i s =
     (case thread_by_id i s of
        None \<Rightarrow> s
      | Some t \<Rightarrow>
          if agent_connection_of (at_agent t) s = None \<or> at_cluster t \<notin> ac_contexts s then s
          else new_task (\<lambda>n s. tell [SessionOpen i n (map_option sh_session (at_resume t))]
                                 (on_id i (\<lambda>t. t\<lparr>at_tasks := at_tasks t @ [n]\<rparr>) s)) s)"

text \<open>What the session's server and the agent answered: the thread's tool server, the session (id, modes,
  settings) and a note.\<close>

record session_answer =
  sa_session :: str
  sa_mode :: "(str \<times> (str \<times> str) list) option"
  sa_config :: "wire_option list option"

definition note_added :: "str option \<Rightarrow> agent_thread \<Rightarrow> agent_thread" where
  "note_added note t = t\<lparr>at_notes := at_notes t @ (case note of Some n \<Rightarrow> [n] | None \<Rightarrow> [])\<rparr>"

definition session_applied :: "str option \<Rightarrow> nat \<Rightarrow> session_answer \<Rightarrow> agent_thread \<Rightarrow> agent_thread" where
  "session_applied note server a t =
     (let t = note_added note t;
          t = with_field (sa_mode a)
                (\<lambda>(m, ms) t. t\<lparr>at_transcript := (at_transcript t)\<lparr>tr_mode := Some m\<rparr>, at_modes := ms\<rparr>) t;
          t = with_field (sa_config a)
                (\<lambda>os t. t\<lparr>at_transcript := (at_transcript t)\<lparr>tr_config := config_options os\<rparr>\<rparr>) t
      in t\<lparr>at_mcp := Some server, at_session := Some (sa_session a),
           at_first_prompt := (at_resume t = None \<and> at_first_prompt t),
           at_resume := None, at_status := ThreadIdle\<rparr>)"

lemma session_applied_keeps [simp]:
  "at_id (session_applied note server a t) = at_id t"
  "at_agent (session_applied note server a t) = at_agent t"
  "at_cluster (session_applied note server a t) = at_cluster t"
  "at_session (session_applied note server a t) = Some (sa_session a)"
  "at_grant (session_applied note server a t) = at_grant t"
  "at_queued (session_applied note server a t) = at_queued t"
  "at_pending (session_applied note server a t) = at_pending t"
  "at_tasks (session_applied note server a t) = at_tasks t"
  by (simp_all add: session_applied_def note_added_def with_field_def Let_def split: option.split prod.split)

definition session_opened ::
  "int \<Rightarrow> agent_env \<Rightarrow> rpc_error option \<Rightarrow> nat
     \<Rightarrow> str + nat \<times> (rpc_error + session_answer) \<times> str option \<Rightarrow> agent_core \<Rightarrow> agent_core" where
  "session_opened now en refused i result s =
     (case thread_by_id i s of
        None \<Rightarrow> s
      | Some t \<Rightarrow>
          (let auth = map_option (\<lambda>c. (nx_auth_methods c, Option.bind (agent_by_id (at_agent t) s) ai_sign_in, nx_load_session c))
                        (agent_connection_of (at_agent t) s)
           in case result of
                Inl message \<Rightarrow> on_id i (\<lambda>t. t\<lparr>at_status := ThreadFailed message\<rparr>) s
              | Inr (server, response, note) \<Rightarrow>
                  (case response of
                        Inl err \<Rightarrow>
                          if er_code err = auth_required
                          then (let (methods, hint) = (case auth of Some (m, h, _) \<Rightarrow> (m, h) | None \<Rightarrow> ([], None))
                                in on_id i (\<lambda>t. (note_added note t)\<lparr>at_status := NeedsSignIn methods hint\<rparr>) s)
                          else on_id i (\<lambda>t. (note_added note t)\<lparr>at_status := ThreadFailed (er_message err)\<rparr>) s
                      | Inr a \<Rightarrow>
                          (let used = list_ex (\<lambda>e. case e of UserEntry _ _ \<Rightarrow> True | _ \<Rightarrow> False) (tr_entries (at_transcript t));
                               loadable = (case auth of Some (_, _, load) \<Rightarrow> load | None \<Rightarrow> False);
                               s = on_id i (session_applied note server a) s;
                               s = (if used \<and> loadable then remember now en i s else s)
                           in next_prompt now en refused i s))))"

text \<open>The threads of an agent that wait for it.\<close>

definition waits_for_agent :: "thread_status \<Rightarrow> bool" where
  "waits_for_agent st \<longleftrightarrow>
     (case st of ThreadStarting \<Rightarrow> True | NotInstalled _ \<Rightarrow> True | ThreadFailed _ \<Rightarrow> True | ThreadEnded _ \<Rightarrow> True | _ \<Rightarrow> False)"

definition open_waiting :: "str \<Rightarrow> agent_core \<Rightarrow> agent_core" where
  "open_waiting a s =
     (let waiting = map at_id (filter (\<lambda>t. at_agent t = a \<and> at_session t = None \<and> waits_for_agent (at_status t)) (ac_threads s))
      in fold (\<lambda>i s. open_session i (on_id i (\<lambda>t. t\<lparr>at_status := ThreadStarting\<rparr>) s)) waiting s)"

section \<open>Agents\<close>

definition lookup_agents :: "str option \<Rightarrow> agent_core \<Rightarrow> agent_core" where
  "lookup_agents wanted s = new_task (\<lambda>n s. tell [LookUp n wanted] (s\<lparr>ac_lookup := Some (n, wanted)\<rparr>)) s"

definition ensure_agent :: "str \<Rightarrow> agent_core \<Rightarrow> agent_core" where
  "ensure_agent a s =
     (case ac_slots s a of
        Some (SlotReady _) \<Rightarrow> open_waiting a s
      | Some (SlotStarting _) \<Rightarrow> s
      | None \<Rightarrow>
          (let info = agent_by_id a s
           in case Option.bind info ai_program of
                None \<Rightarrow>
                  (case info of
                     Some i \<Rightarrow>
                       if \<not> ai_checked i then lookup_agents (Some a) s
                       else on_agent a (\<lambda>t. t\<lparr>at_status := NotInstalled (ai_install i)\<rparr>) s
                   | None \<Rightarrow> on_agent a (\<lambda>t. t\<lparr>at_status := NotInstalled None\<rparr>) s)
              | Some program \<Rightarrow>
                  new_task (\<lambda>n s. set_running a True
                    (tell [AgentStart n a program] (s\<lparr>ac_slots := (ac_slots s)(a \<mapsto> SlotStarting n)\<rparr>))) s))"

definition refresh_agents :: "agent_core \<Rightarrow> agent_core" where
  "refresh_agents = lookup_agents None"

text \<open>A lookup's answer; the handle of the lookup is the newest one's.\<close>

definition looked_up :: "nat \<Rightarrow> str option \<Rightarrow> str option list \<Rightarrow> agent_core \<Rightarrow> agent_core" where
  "looked_up n path found s =
     (case ac_lookup s of
        Some (m, wanted) \<Rightarrow>
          if m \<noteq> n then s
          else (let zipped = map (\<lambda>(i, program). i\<lparr>ai_program := program, ai_checked := True\<rparr>) (zip (ac_agents s) found)
                               @ drop (length found) (ac_agents s);
                    s = s\<lparr>ac_path := path, ac_agents := zipped\<rparr>
                in case wanted of Some a \<Rightarrow> ensure_agent a s | None \<Rightarrow> s)
      | None \<Rightarrow> s)"

definition attach :: "str \<Rightarrow> agent_connection \<Rightarrow> agent_core \<Rightarrow> agent_core" where
  "attach a c s = open_waiting a (set_running a True (s\<lparr>ac_slots := (ac_slots s)(a \<mapsto> SlotReady c)\<rparr>))"

definition agent_started :: "nat \<Rightarrow> str \<Rightarrow> str + agent_connection \<Rightarrow> agent_core \<Rightarrow> agent_core" where
  "agent_started n a result s =
     (if ac_slots s a \<noteq> Some (SlotStarting n) then s
      else case result of
             Inr c \<Rightarrow> attach a c s
           | Inl message \<Rightarrow>
               on_agent a (\<lambda>t. if at_session t = None then t\<lparr>at_status := ThreadFailed message\<rparr> else t)
                 (set_running a False (s\<lparr>ac_slots := (ac_slots s)(a := None)\<rparr>)))"

section \<open>Threads\<close>

record new_thread =
  nt_agent :: str
  nt_cluster :: cluster_id
  nt_cluster_name :: str
  nt_kubeconfig :: "(str \<times> str) option"
  nt_prompt :: "(str \<times> context_chip list) option"
  nt_resume :: "saved_thread option"

definition expand_home :: "agent_env \<Rightarrow> str \<Rightarrow> str" where
  "expand_home en path =
     (case strip_prefix ''~/'' path of
        Some rest \<Rightarrow> (case ae_home en of Some h \<Rightarrow> h @ ''/'' @ rest | None \<Rightarrow> path)
      | None \<Rightarrow> path)"

definition thread_folder :: "agent_env \<Rightarrow> agent_settings \<Rightarrow> str \<Rightarrow> saved_thread option \<Rightarrow> str" where
  "thread_folder en settings dir resume =
     (let by_settings = (case st_cwd settings of
            Some cwd \<Rightarrow> if trim cwd \<noteq> [] then expand_home en cwd else dir @ ''/work''
          | None \<Rightarrow> dir @ ''/work'')
      in case resume of
           Some saved \<Rightarrow> if ae_is_dir en (sh_cwd saved) then sh_cwd saved else by_settings
         | None \<Rightarrow> by_settings)"

text \<open>\<open>seconds\<close> is the clock's text in the folder's name.\<close>

definition start_thread :: "agent_env \<Rightarrow> str \<Rightarrow> new_thread \<Rightarrow> agent_core \<Rightarrow> agent_core" where
  "start_thread en seconds n s =
     (let i = Suc (ac_next_thread s);
          dir = ae_data_dir en @ ''/threads/'' @ seconds @ ''-'' @ show_nat i;
          prompted = (case nt_prompt n of
            Some (t, chips) \<Rightarrow> (push_user t chips transcript_new, [(t, chips)])
          | None \<Rightarrow> (transcript_new, []));
          tr = (case nt_resume n of Some saved \<Rightarrow> (fst prompted)\<lparr>tr_title := Some (sh_title saved)\<rparr> | None \<Rightarrow> fst prompted);
          thread = \<lparr>at_id = i, at_agent = nt_agent n,
            at_agent_name = (case agent_by_id (nt_agent n) s of Some a \<Rightarrow> ai_name a | None \<Rightarrow> nt_agent n),
            at_cluster = nt_cluster n, at_cluster_name = nt_cluster_name n,
            at_cwd = thread_folder en (ac_settings s) dir (nt_resume n), at_dir = dir, at_status = ThreadStarting,
            at_transcript = tr, at_session = None, at_modes = [], at_pending = [], at_queued = snd prompted,
            at_source = nt_kubeconfig n, at_resume = nt_resume n, at_first_prompt = True, at_grant = None,
            at_mcp = None, at_tasks = [], at_notes = [], at_writes = False\<rparr>
      in ensure_agent (nt_agent n)
           (s\<lparr>ac_next_thread := i, ac_contexts := insert (nt_cluster n) (ac_contexts s),
              ac_threads := ac_threads s @ [thread]\<rparr>))"

definition retry_thread :: "nat \<Rightarrow> agent_core \<Rightarrow> agent_core" where
  "retry_thread i s =
     (case thread_by_id i s of
        None \<Rightarrow> s
      | Some t \<Rightarrow>
          if at_session t \<noteq> None then s
          else ensure_agent (at_agent t) (on_id i (\<lambda>t. t\<lparr>at_status := ThreadStarting\<rparr>) s))"

definition cancel_thread :: "nat \<Rightarrow> agent_core \<Rightarrow> agent_core" where
  "cancel_thread i s =
     (case thread_by_id i s of
        None \<Rightarrow> s
      | Some t \<Rightarrow>
          (let s = tell (cancelled_of t) (on_id i (\<lambda>t. t\<lparr>at_queued := [], at_pending := []\<rparr>) s)
           in case (at_session t, agent_connection_of (at_agent t) s) of
                (Some session, Some _) \<Rightarrow> if thread_running t then tell [CancelSent (at_agent t) session] s else s
              | _ \<Rightarrow> s))"

definition close_thread :: "nat \<Rightarrow> agent_core \<Rightarrow> agent_core" where
  "close_thread i s =
     (case thread_by_id i s of
        None \<Rightarrow> s
      | Some t \<Rightarrow>
          (let s = cancel_thread i s;
               s = s\<lparr>ac_threads := remove_first (\<lambda>t. at_id t = i) (ac_threads s)\<rparr>;
               s = (case (at_session t, agent_connection_of (at_agent t) s) of
                      (Some session, Some _) \<Rightarrow> tell [SessionClosed (at_agent t) session] s
                    | _ \<Rightarrow> s);
               s = tell [FolderRemoved (at_dir t)] s;
               s = (if \<not> list_ex (\<lambda>u. at_agent u = at_agent t) (ac_threads s)
                    then set_running (at_agent t) False (s\<lparr>ac_slots := (ac_slots s)(at_agent t := None)\<rparr>) else s)
           in if \<not> list_ex (\<lambda>u. at_cluster u = at_cluster t) (ac_threads s)
              then s\<lparr>ac_contexts := ac_contexts s - {at_cluster t}\<rparr> else s))"

definition send_prompt ::
  "int \<Rightarrow> agent_env \<Rightarrow> rpc_error option \<Rightarrow> nat \<Rightarrow> str \<Rightarrow> context_chip list \<Rightarrow> agent_core \<Rightarrow> agent_core" where
  "send_prompt now en refused i txt chips s =
     (case thread_by_id i s of
        None \<Rightarrow> s
      | Some t \<Rightarrow>
          if trim txt = [] \<and> chips = [] then s
          else (let s = on_id i (\<lambda>t. t\<lparr>at_transcript := push_user txt chips (at_transcript t),
                                      at_queued := at_queued t @ [(txt, chips)]\<rparr>) s
                in case at_status t of
                     ThreadIdle \<Rightarrow> next_prompt now en refused i s
                   | ThreadFailed _ \<Rightarrow> retry_thread i s
                   | ThreadEnded _ \<Rightarrow> retry_thread i s
                   | NotInstalled _ \<Rightarrow> retry_thread i s
                   | _ \<Rightarrow> s))"

definition set_mode :: "nat \<Rightarrow> str \<Rightarrow> agent_core \<Rightarrow> agent_core" where
  "set_mode i mode s =
     (case Option.bind (thread_by_id i s) at_session of
        None \<Rightarrow> s
      | Some session \<Rightarrow>
          (let s = on_id i (\<lambda>t. t\<lparr>at_transcript := (at_transcript t)\<lparr>tr_mode := Some mode\<rparr>\<rparr>) s
           in case Option.bind (thread_by_id i s) (\<lambda>t. agent_connection_of (at_agent t) s) of
                Some _ \<Rightarrow> tell [ModeSent i session mode] s
              | None \<Rightarrow> s))"

definition mode_answered :: "nat \<Rightarrow> rpc_error option \<Rightarrow> agent_core \<Rightarrow> agent_core" where
  "mode_answered i result s =
     (case result of Some err \<Rightarrow> push_notice i (''The mode didn'' @ [CHR 0x27] @ ''t change: '' @ er_message err) True s
                   | None \<Rightarrow> s)"

definition change_config :: "nat \<Rightarrow> str \<Rightarrow> config_value \<Rightarrow> agent_core \<Rightarrow> agent_core" where
  "change_config i c v s =
     (case Option.bind (thread_by_id i s) at_session of
        None \<Rightarrow> s
      | Some session \<Rightarrow>
          (let s = on_id i (\<lambda>t. t\<lparr>at_transcript := set_config c v (at_transcript t)\<rparr>) s
           in case Option.bind (thread_by_id i s) (\<lambda>t. agent_connection_of (at_agent t) s) of
                Some _ \<Rightarrow> tell [ConfigSent i session c v] s
              | None \<Rightarrow> s))"

text \<open>The answer's settings, when they could be read.\<close>

definition config_answered :: "nat \<Rightarrow> rpc_error + wire_option list option \<Rightarrow> agent_core \<Rightarrow> agent_core" where
  "config_answered i result s =
     (case result of
        Inr (Some options) \<Rightarrow>
          on_id i (\<lambda>t. t\<lparr>at_transcript := (at_transcript t)\<lparr>tr_config := config_options options\<rparr>\<rparr>) s
      | Inr None \<Rightarrow> s
      | Inl err \<Rightarrow> push_notice i (''The setting didn'' @ [CHR 0x27] @ ''t change: '' @ er_message err) True s)"

definition sign_in :: "nat \<Rightarrow> str \<Rightarrow> agent_core \<Rightarrow> agent_core" where
  "sign_in i m s =
     (case thread_by_id i s of
        None \<Rightarrow> s
      | Some t \<Rightarrow>
          (let s = on_id i (\<lambda>t. t\<lparr>at_status := ThreadStarting\<rparr>) s
           in case agent_connection_of (at_agent t) s of
                None \<Rightarrow> retry_thread i s
              | Some _ \<Rightarrow> tell [SignInSent i (at_agent t) m] s))"

definition signed_in :: "nat \<Rightarrow> rpc_error option \<Rightarrow> agent_core \<Rightarrow> agent_core" where
  "signed_in i result s =
     (case result of
        None \<Rightarrow> open_session i s
      | Some err \<Rightarrow> on_id i (\<lambda>t. t\<lparr>at_status := ThreadFailed (''Sign-in failed: '' @ er_message err)\<rparr>) s)"

section \<open>Changes to the cluster\<close>

definition without_changes :: "agent_thread \<Rightarrow> agent_thread" where
  "without_changes = retain (\<lambda>p. \<not> is_change p)"

definition set_writes :: "nat \<Rightarrow> bool \<Rightarrow> agent_core \<Rightarrow> agent_core" where
  "set_writes i enabled s =
     (case thread_by_id i s of
        None \<Rightarrow> s
      | Some t \<Rightarrow>
          if enabled \<and> st_allow_writes (ac_settings s) then on_id i (\<lambda>t. t\<lparr>at_writes := True\<rparr>) s
          else tell (removed_of (\<lambda>p. \<not> is_change p) t)
                 (on_id i (\<lambda>t. (without_changes t)\<lparr>at_writes := False\<rparr>) s))"

text \<open>\<open>gone\<close>: the tool call that asked has stopped waiting.\<close>

definition still_asked :: "(nat \<Rightarrow> bool) \<Rightarrow> agent_pending \<Rightarrow> bool" where
  "still_asked gone p \<longleftrightarrow> \<not> is_change p \<or> (case pg_approval p of Some a \<Rightarrow> \<not> gone a | None \<Rightarrow> False)"

definition prune_changes :: "(nat \<Rightarrow> bool) \<Rightarrow> agent_core \<Rightarrow> agent_core" where
  "prune_changes gone s =
     tell (concat (map (removed_of (still_asked gone)) (ac_threads s)))
       (s\<lparr>ac_threads := map (retain (still_asked gone)) (ac_threads s)\<rparr>)"

definition change_requested :: "bool \<Rightarrow> nat \<Rightarrow> proposal \<Rightarrow> nat \<Rightarrow> agent_core \<Rightarrow> agent_core" where
  "change_requested gone i p reply s =
     (if gone then tell [ChangeDropped reply] s
      else (let n = Suc (ac_next_pending s);
                item = \<lparr>pg_id = n, pg_kind = ChangeCard p, pg_responder = None, pg_launch = None, pg_approval = Some reply\<rparr>;
                s = s\<lparr>ac_next_pending := n\<rparr>
            in case thread_by_id i s of
                 Some t \<Rightarrow> if at_writes t then on_id i (\<lambda>t. t\<lparr>at_pending := at_pending t @ [item]\<rparr>) s
                           else tell (drop_pending item) s
               | None \<Rightarrow> tell (drop_pending item) s))"

definition agent_settings_changed :: "agent_settings \<Rightarrow> agent_core \<Rightarrow> agent_core" where
  "agent_settings_changed settings s =
     (if settings = ac_settings s then s
      else (let s = (if st_allow_writes settings then s
                     else tell (concat (map (removed_of (\<lambda>p. \<not> is_change p)) (ac_threads s)))
                            (s\<lparr>ac_threads := map (\<lambda>t. (without_changes t)\<lparr>at_writes := False\<rparr>) (ac_threads s)\<rparr>))
            in refresh_agents
                 (s\<lparr>ac_settings := settings, ac_agents := fresh_agents settings (\<lambda>a. ac_slots s a \<noteq> None)\<rparr>)))"

section \<open>What the agent asks\<close>

datatype option_kind = AllowOnce | AllowAlways | RejectOption

record permission_request =
  pq_tool_call :: str
  pq_title :: "str option"
  pq_name :: "str option"
  pq_kind :: "tool_kind option"
  pq_raw_input :: "json option"
  pq_options :: "(str \<times> str \<times> option_kind) list"

record terminal_request =
  tq_command :: str
  tq_args :: "str list"
  tq_env :: "(str \<times> str) list"
  tq_cwd :: "str option"
  tq_output_limit :: "nat option"

datatype elicitation = FormRequest str "str option" "json list" | UrlRequest str str str

text \<open>An elicitation comes as the parsed request or the parser's message, with its session; a terminal request
  with the kubeconfig of the session's scope.\<close>

datatype client_call =
    UpdateCall str session_update
  | PermissionCall str permission_request nat
  | CreateTerminalCall str terminal_request "str option" nat
  | ReadFileCall str str "nat option" "nat option" nat
  | WriteFileCall str str "str option" str nat
  | ElicitationCall "str option" "str + elicitation" nat
  | ElicitationDone str
  | TurnEndedCall str "rpc_error + stop_reason"
  | ClosedCall str

definition push_pending ::
  "(agent_thread \<Rightarrow> bool) \<Rightarrow> pending_kind \<Rightarrow> nat \<Rightarrow> command_launch option \<Rightarrow> agent_core \<Rightarrow> agent_core" where
  "push_pending p kind r launch s =
     (let n = Suc (ac_next_pending s)
      in on_thread p (\<lambda>t. t\<lparr>at_pending := at_pending t @
             [\<lparr>pg_id = n, pg_kind = kind, pg_responder = Some r, pg_launch = launch, pg_approval = None\<rparr>]\<rparr>)
           (s\<lparr>ac_next_pending := n\<rparr>))"

definition thread_closed :: agent_reply where
  "thread_closed = RequestError ''The thread was closed''"

text \<open>Kubyl's own tools are let through with the first allowing option.\<close>

definition allow_option :: "(str \<times> str \<times> option_kind) list \<Rightarrow> str option" where
  "allow_option options =
     or_else (map_option fst (find (\<lambda>(_, _, k). k = AllowAlways) options))
       (map_option fst (find (\<lambda>(_, _, k). k = AllowOnce) options))"

definition permission_card :: "permission_request \<Rightarrow> tool_entry option \<Rightarrow> pending_kind" where
  "permission_card q known =
     PermissionCard (pq_tool_call q)
       (case or_else (pq_title q) (map_option te_title known) of Some t \<Rightarrow> t | None \<Rightarrow> ''A tool call'')
       (or_else (Option.bind (pq_raw_input q) input_command) (Option.bind known entry_command))
       (or_else (pq_kind q) (Option.bind known te_kind) = Some ExecuteKind)
       (map (\<lambda>(i, n, k). \<lparr>pm_id = i, pm_name = n, pm_allow = (k = AllowOnce \<or> k = AllowAlways)\<rparr>) (pq_options q))"

definition permission :: "str \<Rightarrow> str \<Rightarrow> permission_request \<Rightarrow> nat \<Rightarrow> agent_core \<Rightarrow> agent_core" where
  "permission a session q r s =
     (case thread_of_session a session s of
        None \<Rightarrow> tell [Replied r PermissionCancelled] s
      | Some t \<Rightarrow>
          (let known = find_tool (pq_tool_call q) (at_transcript t);
               names = List.map_filter id [pq_name q, pq_title q, map_option te_title known];
               opt = (if list_ex is_kubyl_tool names then allow_option (pq_options q) else None)
           in case opt of
                Some i \<Rightarrow> tell [Replied r (OptionSelected i)] s
              | None \<Rightarrow> push_pending (of_session a session) (permission_card q known) r None s))"

definition run_command :: "str \<Rightarrow> command_launch \<Rightarrow> nat \<Rightarrow> agent_core \<Rightarrow> agent_core" where
  "run_command a launch r s =
     (case agent_connection_of a s of
        None \<Rightarrow> tell [Replied r (RequestError ''The agent stopped'')] s
      | Some _ \<Rightarrow> tell [CommandRun a launch r] s)"

definition kubeconfig_warning :: str where
  "kubeconfig_warning = ''Tried to set KUBECONFIG; Kubyl keeps the thread'' @ [CHR 0x27] @ ''s.''"

definition sets_kubeconfig :: "str \<times> str \<Rightarrow> bool" where
  "sets_kubeconfig e = eq_ignore_ascii_case (fst e) ''KUBECONFIG''"

definition create_terminal ::
  "nat \<Rightarrow> agent_env \<Rightarrow> str \<Rightarrow> str \<Rightarrow> terminal_request \<Rightarrow> str option \<Rightarrow> nat \<Rightarrow> agent_core \<Rightarrow> agent_core" where
  "create_terminal now en a session q kubeconfig r s =
     (case thread_of_session a session s of
        None \<Rightarrow> tell [Replied r thread_closed] s
      | Some t \<Rightarrow>
          (let line = command_line (tq_command q) (tq_args q);
               cwd = unwrap_or (tq_cwd q) (at_cwd t);
               env = filter (\<lambda>e. \<not> sets_kubeconfig e) (tq_env q);
               warnings = ae_warnings en line @ (if length env \<noteq> length (tq_env q) then [kubeconfig_warning] else []);
               launch = \<lparr>la_command = tq_command q, la_args = tq_args q, la_env = env, la_cwd = cwd,
                         la_output_limit = tq_output_limit q, la_path = ac_path s, la_kubeconfig = kubeconfig\<rparr>;
               cmds = line # (case shell_inner (tq_command q) (tq_args q) of Some i \<Rightarrow> [i] | None \<Rightarrow> []);
               granted = (warnings = [] \<and> env = [] \<and>
                          (case at_grant t of Some g \<Rightarrow> grant_covers g cmds now | None \<Rightarrow> False))
           in if granted then run_command a launch r (on_thread (of_session a session) (\<lambda>t. t\<lparr>at_grant := None\<rparr>) s)
              else push_pending (of_session a session)
                     (CommandCard line cwd (map (\<lambda>(n, v). (n, ae_scrub en v)) env) warnings) r (Some launch) s))"

definition read_file_asked :: "str \<Rightarrow> str \<Rightarrow> str \<Rightarrow> nat option \<Rightarrow> nat option \<Rightarrow> nat \<Rightarrow> agent_core \<Rightarrow> agent_core" where
  "read_file_asked a session path line limit r s =
     (if thread_of_session a session s = None then tell [Replied r thread_closed] s
      else push_pending (of_session a session) (ReadCard path) r None s)"

definition write_file_asked :: "str \<Rightarrow> str \<Rightarrow> str \<Rightarrow> str option \<Rightarrow> str \<Rightarrow> nat \<Rightarrow> agent_core \<Rightarrow> agent_core" where
  "write_file_asked a session path old new r s =
     (if thread_of_session a session s = None then tell [Replied r thread_closed] s
      else push_pending (of_session a session) (WriteCard path old new) r None s)"

text \<open>The thread an elicitation shows in: that of its session, the running one, or the agent's first.\<close>

definition elicitation_thread :: "str \<Rightarrow> str option \<Rightarrow> agent_core \<Rightarrow> agent_thread option" where
  "elicitation_thread a session s =
     or_else (find (\<lambda>t. at_agent t = a \<and> session \<noteq> None \<and> at_session t = session) (ac_threads s))
       (or_else (find (\<lambda>t. at_agent t = a \<and> thread_running t) (ac_threads s))
         (find (\<lambda>t. at_agent t = a) (ac_threads s)))"

definition elicit :: "str \<Rightarrow> str option \<Rightarrow> str + elicitation \<Rightarrow> nat \<Rightarrow> agent_core \<Rightarrow> agent_core" where
  "elicit a session request r s =
     (case request of
        Inl message \<Rightarrow> tell [Replied r (RequestError message)] s
      | Inr request \<Rightarrow>
          (case elicitation_thread a session s of
             None \<Rightarrow> tell [Replied r FormCancelled] s
           | Some t \<Rightarrow>
               push_pending (\<lambda>u. at_id u = at_id t)
                 (case request of FormRequest m title fs \<Rightarrow> FormCard m title fs
                                | UrlRequest m url e \<Rightarrow> OpenUrlCard m url e) r None s))"

definition shows_url_of :: "str \<Rightarrow> agent_pending \<Rightarrow> bool" where
  "shows_url_of e p \<longleftrightarrow> (case pg_kind p of OpenUrlCard _ _ e' \<Rightarrow> e' = e | _ \<Rightarrow> False)"

text \<open>The cards of the finished elicitation go, each answered, the last one first.\<close>

definition elicitation_done :: "str \<Rightarrow> str \<Rightarrow> agent_core \<Rightarrow> agent_core" where
  "elicitation_done a e s =
     tell (concat (map (\<lambda>t. if at_agent t = a
                           then map (\<lambda>r. Replied r (FormAccepted (JObj [])))
                                  (List.map_filter pg_responder (rev (filter (shows_url_of e) (at_pending t))))
                                @ concat (map dropped_change (rev (filter (shows_url_of e) (at_pending t))))
                           else []) (ac_threads s)))
       (on_agent a (retain (\<lambda>p. \<not> shows_url_of e p)) s)"

definition agent_closed :: "str \<Rightarrow> str \<Rightarrow> agent_core \<Rightarrow> agent_core" where
  "agent_closed a stderr_tail s =
     (let message = (if stderr_tail = [] then ''The agent stopped.'' else ''The agent stopped:'' @ [CHR 0x0A] @ stderr_tail);
          s = set_running a False (s\<lparr>ac_slots := (ac_slots s)(a := None)\<rparr>)
      in tell (concat (map cancelled_of (filter (\<lambda>t. at_agent t = a) (ac_threads s))))
           (on_agent a (\<lambda>t. t\<lparr>at_transcript := settle_tools (at_transcript t), at_pending := [], at_session := None,
                              at_mcp := None, at_tasks := [], at_status := ThreadEnded message\<rparr>) s))"

text \<open>An update goes to the thread of its session, or to the one that is reopening it.\<close>

definition apply_session_update :: "str \<Rightarrow> str \<Rightarrow> session_update \<Rightarrow> agent_core \<Rightarrow> agent_core" where
  "apply_session_update a session u s =
     (let reopening = (\<lambda>t. at_agent t = a \<and> (case at_resume t of Some r \<Rightarrow> sh_session r = session | None \<Rightarrow> False));
          p = (if thread_of_session a session s \<noteq> None then of_session a session else reopening)
      in on_thread p (\<lambda>t. t\<lparr>at_transcript := apply_update u (at_transcript t)\<rparr>) s)"

definition handle_call ::
  "nat \<Rightarrow> int \<Rightarrow> agent_env \<Rightarrow> rpc_error option \<Rightarrow> str \<Rightarrow> client_call \<Rightarrow> agent_core \<Rightarrow> agent_core" where
  "handle_call now clock en refused a call s =
     (case call of
        UpdateCall session u \<Rightarrow> apply_session_update a session u s
      | PermissionCall session q r \<Rightarrow> permission a session q r s
      | CreateTerminalCall session q kubeconfig r \<Rightarrow> create_terminal now en a session q kubeconfig r s
      | ReadFileCall session path line limit r \<Rightarrow> read_file_asked a session path line limit r s
      | WriteFileCall session path old new r \<Rightarrow> write_file_asked a session path old new r s
      | ElicitationCall session request r \<Rightarrow> elicit a session request r s
      | ElicitationDone e \<Rightarrow> elicitation_done a e s
      | TurnEndedCall session result \<Rightarrow>
          (case thread_of_session a session s of
             Some t \<Rightarrow> turn_ended clock en refused (at_id t) result s
           | None \<Rightarrow> s)
      | ClosedCall stderr_tail \<Rightarrow> agent_closed a stderr_tail s)"

section \<open>What the user answers\<close>

datatype user_answer = Choose str | Allow | Deny | Submit json

definition allows :: "user_answer \<Rightarrow> bool" where
  "allows a \<longleftrightarrow> (case a of Allow \<Rightarrow> True | Choose _ \<Rightarrow> True | _ \<Rightarrow> False)"

definition chosen_option :: "user_answer \<Rightarrow> permission_choice list \<Rightarrow> permission_choice option" where
  "chosen_option a choices =
     (case a of
        Choose i \<Rightarrow> find (\<lambda>c. pm_id c = i) choices
      | Allow \<Rightarrow> find pm_allow choices
      | _ \<Rightarrow> find (\<lambda>c. \<not> pm_allow c) choices)"

text \<open>What an answer does about a card with a responder.\<close>

definition answer_card ::
  "nat \<Rightarrow> nat \<Rightarrow> str \<Rightarrow> agent_pending \<Rightarrow> nat \<Rightarrow> user_answer \<Rightarrow> agent_core \<Rightarrow> agent_core" where
  "answer_card now i a item r ans s =
     (case pg_kind item of
        PermissionCard _ _ command runs_it choices \<Rightarrow>
          (case chosen_option ans choices of
             Some c \<Rightarrow>
               tell [Replied r (OptionSelected (pm_id c))]
                 (if pm_allow c \<and> runs_it
                  then on_id i (\<lambda>t. t\<lparr>at_grant := Some \<lparr>gr_at = now, gr_command = command\<rparr>\<rparr>) s else s)
           | None \<Rightarrow> tell [Replied r PermissionCancelled] s)
      | CommandCard _ _ _ _ \<Rightarrow>
          if allows ans
          then (case pg_launch item of
                  Some launch \<Rightarrow> run_command a launch r s
                | None \<Rightarrow> tell [Replied r (RequestError ''The request wasn't answered'')] s)
          else tell [Replied r (RequestError ''The user declined this.'')] s
      | ReadCard path \<Rightarrow>
          if allows ans then tell [FileRead path r] s else tell [Replied r (RequestError ''The user declined this.'')] s
      | WriteCard path _ new \<Rightarrow>
          if allows ans then tell [FileWritten path new r] s else tell [Replied r (RequestError ''The user declined this.'')] s
      | FormCard _ _ _ \<Rightarrow>
          (case ans of Submit content \<Rightarrow> tell [Replied r (FormAccepted content)] s | _ \<Rightarrow> tell [Replied r FormDeclined] s)
      | OpenUrlCard _ url _ \<Rightarrow>
          if allows ans then tell [UrlOpened url, Replied r (FormAccepted (JObj []))] s else tell [Replied r FormDeclined] s
      | ChangeCard _ \<Rightarrow> tell [Replied r (RequestError ''The request wasn't answered'')] s)"

definition answer_pending :: "nat \<Rightarrow> nat \<Rightarrow> nat \<Rightarrow> user_answer \<Rightarrow> agent_core \<Rightarrow> agent_core" where
  "answer_pending now i n ans s =
     (case thread_by_id i s of
        None \<Rightarrow> s
      | Some t \<Rightarrow>
          (case find (\<lambda>p. pg_id p = n) (at_pending t) of
             None \<Rightarrow> s
           | Some item \<Rightarrow>
               (let s = on_id i (\<lambda>t. t\<lparr>at_pending := remove_first (\<lambda>p. pg_id p = n) (at_pending t)\<rparr>) s
                in if is_change item
                   then tell (case pg_approval item of
                                Some reply \<Rightarrow> [ChangeDecided reply (if allows ans then Approved else Rejected)]
                              | None \<Rightarrow> [])
                          (tell (drop_pending (item\<lparr>pg_approval := None\<rparr>)) s)
                   else case pg_responder item of
                          None \<Rightarrow> tell (dropped_change item) s
                        | Some r \<Rightarrow> tell (dropped_change item) (answer_card now i (at_agent t) item r ans s))))"

end
