(* ===== verification/AgentSafety.thy ===== *)
theory AgentSafety
  imports AgentThreads
begin

text \<open>
  The agents' core as a state machine: what an agent gets done without the user, and that everything it
  asks is settled once.  \<open>agent_view\<close> is what both rest on: the grants that threads hold, what was done
  for the agents, and the requests with the cards and answers that account for them.
\<close>

section \<open>Operations\<close>

datatype agent_op =
    StartThread str new_thread
  | RetryThread nat
  | CloseThread nat
  | SendPrompt int "rpc_error option" nat str "context_chip list"
  | CancelThread nat
  | SetMode nat str
  | ModeAnswered nat "rpc_error option"
  | SetConfig nat str config_value
  | ConfigAnswered nat "rpc_error + wire_option list option"
  | SignIn nat str
  | SignedIn nat "rpc_error option"
  | SetWrites nat bool
  | PruneChanges "nat \<Rightarrow> bool"
  | ChangeRequested bool nat proposal nat
  | SettingsChanged agent_settings
  | RefreshAgents
  | LookedUp nat "str option" "str option list"
  | SetProgram str "str option"
  | AddNotice nat str bool
  | AgentStarted nat str "str + agent_connection"
  | SessionOpened int "rpc_error option" nat nat "str + nat \<times> (rpc_error + session_answer) \<times> str option"
  | AgentCall nat int "rpc_error option" str client_call
  | AnswerCard nat nat nat user_answer

text \<open>The thread \<open>i\<close> keeps the handle of the task \<open>n\<close>; a task that reported needs no handle any more.\<close>

definition holds_task :: "nat \<Rightarrow> nat \<Rightarrow> agent_core \<Rightarrow> bool" where
  "holds_task i n s = (case thread_by_id i s of Some t \<Rightarrow> n \<in> set (at_tasks t) | None \<Rightarrow> False)"

definition task_finished :: "nat \<Rightarrow> nat \<Rightarrow> agent_core \<Rightarrow> agent_core" where
  "task_finished i n = on_id i (\<lambda>t. t\<lparr>at_tasks := remove1 n (at_tasks t)\<rparr>)"

definition agent_do :: "agent_env \<Rightarrow> agent_op \<Rightarrow> agent_core \<Rightarrow> agent_core" where
  "agent_do en x s =
     (case x of
        StartThread seconds n \<Rightarrow> start_thread en seconds n s
      | RetryThread i \<Rightarrow> retry_thread i s
      | CloseThread i \<Rightarrow> close_thread i s
      | SendPrompt clock refused i txt chips \<Rightarrow> send_prompt clock en refused i txt chips s
      | CancelThread i \<Rightarrow> cancel_thread i s
      | SetMode i m \<Rightarrow> set_mode i m s
      | ModeAnswered i result \<Rightarrow> mode_answered i result s
      | SetConfig i c v \<Rightarrow> change_config i c v s
      | ConfigAnswered i result \<Rightarrow> config_answered i result s
      | SignIn i m \<Rightarrow> sign_in i m s
      | SignedIn i result \<Rightarrow> signed_in i result s
      | SetWrites i b \<Rightarrow> set_writes i b s
      | PruneChanges gone \<Rightarrow> prune_changes gone s
      | ChangeRequested gone i p reply \<Rightarrow> change_requested gone i p reply s
      | SettingsChanged settings \<Rightarrow> agent_settings_changed settings s
      | RefreshAgents \<Rightarrow> refresh_agents s
      | LookedUp n path found \<Rightarrow> looked_up n path found s
      | SetProgram a program \<Rightarrow> assign_program a program s
      | AddNotice i txt err \<Rightarrow> push_notice i txt err s
      | AgentStarted n a result \<Rightarrow> agent_started n a result s
      | SessionOpened clock refused i n result \<Rightarrow>
          if holds_task i n s then session_opened clock en refused i result (task_finished i n s) else s
      | AgentCall now clock refused a call \<Rightarrow>
          if agent_connection_of a s \<noteq> None then handle_call now clock en refused a call s else s
      | AnswerCard now i n ans \<Rightarrow> answer_pending now i n ans s)"

definition agent_run :: "agent_env \<Rightarrow> agent_settings \<Rightarrow> agent_op list \<Rightarrow> agent_core" where
  "agent_run en settings ops = fold (agent_do en) ops (core_new settings)"

section \<open>Tickets\<close>

text \<open>A request of an agent, and a proposed change: each is settled by an answer, by the task that will answer
  it, or by the drop that answers an error.\<close>

datatype ticket = RequestTicket nat | ChangeTicket nat

definition some_of :: "('a \<Rightarrow> 'b) \<Rightarrow> 'a option \<Rightarrow> 'b multiset" where
  "some_of f x = (case x of Some y \<Rightarrow> {#f y#} | None \<Rightarrow> {#})"

definition card_tickets :: "agent_pending \<Rightarrow> ticket multiset" where
  "card_tickets p = some_of RequestTicket (pg_responder p) + some_of ChangeTicket (pg_approval p)"

definition thread_tickets :: "agent_thread \<Rightarrow> ticket multiset" where
  "thread_tickets t = sum_list (map card_tickets (at_pending t))"

fun settles :: "agent_out \<Rightarrow> ticket multiset" where
  "settles (Replied r _) = {#RequestTicket r#}"
| "settles (CommandRun _ _ r) = {#RequestTicket r#}"
| "settles (FileRead _ r) = {#RequestTicket r#}"
| "settles (FileWritten _ _ r) = {#RequestTicket r#}"
| "settles (ChangeDecided a _) = {#ChangeTicket a#}"
| "settles (ChangeDropped a) = {#ChangeTicket a#}"
| "settles _ = {#}"

definition settled_in :: "agent_out list \<Rightarrow> ticket multiset" where
  "settled_in xs = sum_list (map settles xs)"

definition shown_tickets :: "agent_core \<Rightarrow> ticket multiset" where
  "shown_tickets s = sum_list (map thread_tickets (ac_threads s))"

definition tickets :: "agent_core \<Rightarrow> ticket multiset" where
  "tickets s = shown_tickets s + settled_in (ac_out s)"

text \<open>What is done for an agent: commands, reads and writes it could not do by itself, pages, and changes.\<close>

fun is_act :: "agent_out \<Rightarrow> bool" where
  "is_act (CommandRun _ _ _) = True"
| "is_act (FileRead _ _) = True"
| "is_act (FileWritten _ _ _) = True"
| "is_act (UrlOpened _) = True"
| "is_act (ChangeDecided _ d) = (d = Approved)"
| "is_act _ = False"

definition agent_grants :: "agent_core \<Rightarrow> (nat \<times> execute_grant) set" where
  "agent_grants s = {(at_id t, g) | t g. t \<in> set (ac_threads s) \<and> at_grant t = Some g}"

definition agent_view :: "agent_core \<Rightarrow> (nat \<times> execute_grant) set \<times> agent_out list \<times> ticket multiset" where
  "agent_view s = (agent_grants s, filter is_act (ac_out s), tickets s)"

section \<open>What leaves the view alone\<close>

text \<open>A change of a thread that keeps its identity, its grant and its cards.\<close>

definition quiet_change :: "(agent_thread \<Rightarrow> agent_thread) \<Rightarrow> bool" where
  "quiet_change f \<longleftrightarrow> (\<forall>t. at_id (f t) = at_id t \<and> at_grant (f t) = at_grant t \<and> at_pending (f t) = at_pending t)"

definition quiet_outs :: "agent_out list \<Rightarrow> bool" where
  "quiet_outs xs \<longleftrightarrow> list_all (\<lambda>x. \<not> is_act x \<and> settles x = {#}) xs"

named_theorems view_simps "operations that leave the view alone"

lemma settled_in_append [simp]: "settled_in (xs @ ys) = settled_in xs + settled_in ys"
  by (simp add: settled_in_def)

lemma settled_in_simps [simp]: "settled_in [] = {#}" "settled_in (x # xs) = settles x + settled_in xs"
  by (simp_all add: settled_in_def)

lemma settled_in_concat: "settled_in (concat xss) = sum_list (map settled_in xss)"
  by (induction xss) simp_all

lemma quiet_outs_simps [simp]:
  "quiet_outs []" "quiet_outs (x # xs) \<longleftrightarrow> \<not> is_act x \<and> settles x = {#} \<and> quiet_outs xs"
  by (auto simp: quiet_outs_def)

lemma view_tell: "quiet_outs xs \<Longrightarrow> agent_view (tell xs s) = agent_view s"
proof -
  assume "quiet_outs xs"
  then have "filter is_act xs = []" "settled_in xs = {#}"
    by (induction xs) simp_all
  then show ?thesis
    by (simp add: agent_view_def agent_grants_def tickets_def shown_tickets_def tell_def)
qed

lemma view_fields [view_simps]:
  "agent_view (s\<lparr>ac_settings := a\<rparr>) = agent_view s"
  "agent_view (s\<lparr>ac_path := b\<rparr>) = agent_view s"
  "agent_view (s\<lparr>ac_agents := c\<rparr>) = agent_view s"
  "agent_view (s\<lparr>ac_slots := d\<rparr>) = agent_view s"
  "agent_view (s\<lparr>ac_contexts := e\<rparr>) = agent_view s"
  "agent_view (s\<lparr>ac_next_thread := n\<rparr>) = agent_view s"
  "agent_view (s\<lparr>ac_next_pending := n\<rparr>) = agent_view s"
  "agent_view (s\<lparr>ac_lookup := l\<rparr>) = agent_view s"
  "agent_view (s\<lparr>ac_next_task := n\<rparr>) = agent_view s"
  by (simp_all add: agent_view_def agent_grants_def tickets_def shown_tickets_def)

lemma update_where_set:
  "set (update_where p f xs) \<subseteq> set xs \<union> f ` {x \<in> set xs. p x}"
  by (induction xs) auto

lemma update_where_map:
  "(\<And>x. g (f x) = g x) \<Longrightarrow> map g (update_where p f xs) = map g xs"
  by (rule update_where_same) simp

lemma view_threads:
  assumes "map (\<lambda>t. (at_id t, at_grant t, at_pending t)) ts = map (\<lambda>t. (at_id t, at_grant t, at_pending t)) (ac_threads s)"
  shows "agent_view (s\<lparr>ac_threads := ts\<rparr>) = agent_view s"
proof -
  let ?k = "\<lambda>t. (at_id t, at_grant t, at_pending t)"
  have grants: "agent_grants s' = {(i, g). (\<exists>p. (i, Some g, p) \<in> set (map ?k (ac_threads s')))}" for s'
    by (force simp: agent_grants_def)
  have shown: "shown_tickets s' = sum_list (map ((\<lambda>(_, _, ps). sum_list (map card_tickets ps)) \<circ> ?k) (ac_threads s'))" for s'
  proof -
    have "thread_tickets = (\<lambda>(_, _, ps). sum_list (map card_tickets ps)) \<circ> ?k"
      by (rule ext) (simp add: thread_tickets_def)
    then show ?thesis by (simp add: shown_tickets_def)
  qed
  show ?thesis
    unfolding agent_view_def tickets_def grants shown map_map [symmetric] by (simp add: assms)
qed

lemma view_on_thread: "quiet_change f \<Longrightarrow> agent_view (on_thread p f s) = agent_view s"
  unfolding on_thread_def by (rule view_threads, rule update_where_map) (simp add: quiet_change_def)

lemma view_on_agent: "quiet_change f \<Longrightarrow> agent_view (on_agent a f s) = agent_view s"
  unfolding on_agent_def by (rule view_threads) (simp add: quiet_change_def)

lemma quiet_fields [simp]:
  "quiet_change (\<lambda>t. t\<lparr>at_status := st\<rparr>)"
  "quiet_change (\<lambda>t. t\<lparr>at_transcript := g t\<rparr>)"
  "quiet_change (\<lambda>t. t\<lparr>at_tasks := h t\<rparr>)"
  "quiet_change (\<lambda>t. t\<lparr>at_writes := w\<rparr>)"
  "quiet_change take_prompt"
  by (simp_all add: quiet_change_def take_prompt_def)

text \<open>A change of a thread that gives up cards for outputs that settle them.\<close>

definition fair_trade :: "(agent_thread \<Rightarrow> agent_thread) \<Rightarrow> (agent_thread \<Rightarrow> agent_out list) \<Rightarrow> bool" where
  "fair_trade f os \<longleftrightarrow>
     (\<forall>t. at_id (f t) = at_id t \<and> at_grant (f t) = at_grant t \<and> filter is_act (os t) = [] \<and>
          thread_tickets (f t) + settled_in (os t) = thread_tickets t)"

lemma shown_update:
  assumes "find p ts = Some t"
  shows "sum_list (map thread_tickets (update_where p f ts)) + thread_tickets t =
         sum_list (map thread_tickets ts) + thread_tickets (f t)"
  using assms by (induction ts) (auto split: if_splits simp: ac_simps)

lemma update_where_none: "find p xs = None \<Longrightarrow> update_where p f xs = xs"
  by (induction xs) (auto split: if_splits)

lemma grants_same:
  "map (\<lambda>t. (at_id t, at_grant t)) (ac_threads s) = map (\<lambda>t. (at_id t, at_grant t)) (ac_threads s') \<Longrightarrow>
   agent_grants s = agent_grants s'"
proof -
  assume same: "map (\<lambda>t. (at_id t, at_grant t)) (ac_threads s) = map (\<lambda>t. (at_id t, at_grant t)) (ac_threads s')"
  have "agent_grants u = {(i, g). (i, Some g) \<in> set (map (\<lambda>t. (at_id t, at_grant t)) (ac_threads u))}" for u
    by (force simp: agent_grants_def)
  from this [of s] this [of s'] show ?thesis unfolding same by (rule trans [OF _ sym])
qed

lemma view_trade:
  assumes "fair_trade f os" "thread_by_id i s = Some t"
  shows "agent_view (tell (os t) (on_id i f s)) = agent_view s"
proof -
  have f: "at_id (f u) = at_id u \<and> at_grant (f u) = at_grant u" for u
    using assms(1) by (simp add: fair_trade_def)
  have "agent_grants (on_id i f s) = agent_grants s"
    by (rule grants_same) (simp add: on_thread_def update_where_map f)
  moreover have "shown_tickets (on_id i f s) + settled_in (os t) = shown_tickets s"
  proof -
    have "thread_tickets (f t) + settled_in (os t) = thread_tickets t"
      using assms(1) by (simp add: fair_trade_def)
    moreover have "shown_tickets (on_id i f s) + thread_tickets t = shown_tickets s + thread_tickets (f t)"
      using shown_update [of "\<lambda>t. at_id t = i" "ac_threads s" t f] assms(2)
      by (simp add: shown_tickets_def on_thread_def thread_by_id_def)
    ultimately have "shown_tickets (on_id i f s) + settled_in (os t) + thread_tickets (f t) =
        shown_tickets s + thread_tickets (f t)"
      by (metis (no_types, lifting) add.assoc add.commute)
    then show ?thesis by simp
  qed
  moreover have "filter is_act (os t) = []" using assms(1) by (simp add: fair_trade_def)
  ultimately show ?thesis
    by (simp add: agent_view_def tickets_def tell_def agent_grants_def shown_tickets_def on_thread_def ac_simps)
qed

lemma view_trade_all:
  assumes "fair_trade f os"
  shows "agent_view (tell (concat (map os (ac_threads s))) (s\<lparr>ac_threads := map f (ac_threads s)\<rparr>)) = agent_view s"
proof -
  have f: "at_id (f u) = at_id u \<and> at_grant (f u) = at_grant u" for u
    using assms by (simp add: fair_trade_def)
  have "agent_grants (s\<lparr>ac_threads := map f (ac_threads s)\<rparr>) = agent_grants s"
    by (rule grants_same) (simp add: f)
  moreover have "sum_list (map thread_tickets (map f ts)) + settled_in (concat (map os ts)) = sum_list (map thread_tickets ts)" for ts
  proof (induction ts)
    case (Cons t ts)
    have "thread_tickets (f t) + settled_in (os t) = thread_tickets t"
      using assms by (simp add: fair_trade_def)
    with Cons show ?case by (simp add: ac_simps)
  qed simp
  moreover have "filter is_act (concat (map os ts)) = []" for ts
    using assms by (induction ts) (simp_all add: fair_trade_def)
  ultimately show ?thesis
    by (simp add: agent_view_def tickets_def tell_def agent_grants_def shown_tickets_def ac_simps)
qed

lemma settled_cancelled [simp]: "settled_in (answer_cancelled p) = card_tickets p"
  by (simp add: answer_cancelled_def dropped_change_def card_tickets_def some_of_def split: option.split)

lemma settled_dropped [simp]: "settled_in (drop_pending p) = card_tickets p"
  by (simp add: drop_pending_def dropped_change_def card_tickets_def some_of_def split: option.split)

lemma acts_cancelled [simp]: "filter is_act (answer_cancelled p) = []" "filter is_act (drop_pending p) = []"
  by (simp_all add: answer_cancelled_def drop_pending_def dropped_change_def split: option.split)

lemma settled_cancelled_of [simp]: "settled_in (cancelled_of t) = thread_tickets t"
  by (simp add: cancelled_of_def thread_tickets_def settled_in_concat comp_def)

lemma acts_cancelled_of [simp]: "filter is_act (cancelled_of t) = []"
  by (simp add: cancelled_of_def filter_concat comp_def)

lemma trade_cancel:
  "(\<And>t. at_id (f t) = at_id t \<and> at_grant (f t) = at_grant t \<and> at_pending (f t) = []) \<Longrightarrow> fair_trade f cancelled_of"
  by (simp add: fair_trade_def) (simp add: thread_tickets_def)

lemma trade_retain: "fair_trade (retain keep) (removed_of keep)"
proof -
  have "sum_list (map card_tickets (filter keep ps)) + settled_in (concat (map drop_pending (filter (\<lambda>p. \<not> keep p) ps))) =
      sum_list (map card_tickets ps)" for ps
    by (induction ps) (simp_all add: ac_simps)
  then show ?thesis
    by (simp add: fair_trade_def retain_def removed_of_def thread_tickets_def filter_concat comp_def)
qed

lemma trade_more:
  "fair_trade f os \<Longrightarrow> (\<And>t. at_id (g t) = at_id t \<and> at_grant (g t) = at_grant t \<and> at_pending (g t) = at_pending t) \<Longrightarrow>
   fair_trade (\<lambda>t. g (f t)) os"
  by (simp add: fair_trade_def thread_tickets_def)

section \<open>The handlers that ask for nothing\<close>

lemma view_remember [view_simps]: "agent_view (remember now en i s) = agent_view s"
  by (simp add: remember_def view_tell split: option.split)

lemma view_remember_if [view_simps]: "agent_view (remember_if_loadable now en i s) = agent_view s"
  by (simp add: remember_if_loadable_def view_remember split: option.split)

lemma view_turn_over [view_simps]: "agent_view (turn_over now en i result s) = agent_view s"
proof (cases "thread_by_id i s")
  case (Some t)
  have "fair_trade (turn_settled hint result) cancelled_of" for hint
    by (rule trade_cancel) simp
  from view_trade [OF this Some] Some show ?thesis
    by (simp add: turn_over_def Let_def view_simps view_tell)
qed (simp add: turn_over_def)

lemma view_next_prompt [view_simps]: "agent_view (next_prompt now en refused i s) = agent_view s"
proof (induction now en refused i s rule: next_prompt.induct)
  case (1 now en refused i s)
  show ?case
    using 1
    by (subst next_prompt.simps)
      (auto simp: Let_def view_simps view_on_thread view_tell split: option.split)
qed

lemma view_turn_ended [view_simps]: "agent_view (turn_ended now en refused i result s) = agent_view s"
  by (simp add: turn_ended_def view_simps)

lemma view_open_session [view_simps]: "agent_view (open_session i s) = agent_view s"
  by (auto simp: open_session_def new_task_def view_tell view_on_thread view_simps split: option.split)

lemma view_open_waiting [view_simps]: "agent_view (open_waiting a s) = agent_view s"
proof -
  have "agent_view (fold (\<lambda>i s. open_session i (on_id i (\<lambda>t. t\<lparr>at_status := ThreadStarting\<rparr>) s)) is s) = agent_view s"
    for "is" s
    by (induction "is" arbitrary: s) (simp_all add: view_simps view_on_thread)
  then show ?thesis by (simp add: open_waiting_def)
qed

lemma view_set_running [view_simps]: "agent_view (set_running a b s) = agent_view s"
  by (simp add: set_running_def view_simps)

lemma view_lookup_agents [view_simps]: "agent_view (lookup_agents w s) = agent_view s"
  by (simp add: lookup_agents_def new_task_def view_tell view_simps)

lemma view_ensure_agent [view_simps]: "agent_view (ensure_agent a s) = agent_view s"
  by (auto simp: ensure_agent_def new_task_def Let_def view_tell view_simps view_on_agent
      split: option.split agent_slot.split)

lemma view_looked_up [view_simps]: "agent_view (looked_up n path found s) = agent_view s"
  by (simp add: looked_up_def Let_def view_simps split: option.split prod.split)

lemma view_assign_program [view_simps]: "agent_view (assign_program a program s) = agent_view s"
  by (simp add: assign_program_def view_simps)

lemma view_push_notice [view_simps]: "agent_view (push_notice i txt err s) = agent_view s"
  by (simp add: push_notice_def view_on_thread)

lemma view_agent_started [view_simps]: "agent_view (agent_started n a result s) = agent_view s"
proof -
  have "quiet_change (\<lambda>t. if at_session t = None then t\<lparr>at_status := ThreadFailed message\<rparr> else t)" for message
    by (simp add: quiet_change_def)
  then show ?thesis
    by (simp add: agent_started_def attach_def view_simps view_on_agent split: sum.split)
qed

lemma view_session_opened [view_simps]: "agent_view (session_opened now en refused i result s) = agent_view s"
proof -
  note quiet = quiet_change_def note_added_def Let_def
  show ?thesis
    by (auto simp: session_opened_def Let_def view_simps view_on_thread quiet
        split: option.split sum.split prod.split)
qed

lemma view_task_finished [view_simps]: "agent_view (task_finished i n s) = agent_view s"
  by (simp add: task_finished_def view_on_thread)

lemma view_retry [view_simps]: "agent_view (retry_thread i s) = agent_view s"
  by (simp add: retry_thread_def view_simps view_on_thread split: option.split)

lemma view_cancel [view_simps]: "agent_view (cancel_thread i s) = agent_view s"
proof (cases "thread_by_id i s")
  case (Some t)
  have "fair_trade (\<lambda>t. t\<lparr>at_queued := [], at_pending := []\<rparr>) cancelled_of"
    by (rule trade_cancel) simp
  from view_trade [OF this Some] Some show ?thesis
    by (auto simp: cancel_thread_def Let_def view_tell split: option.split)
qed (simp add: cancel_thread_def)

lemma view_send_prompt [view_simps]: "agent_view (send_prompt now en refused i txt chips s) = agent_view s"
  by (auto simp: send_prompt_def Let_def view_simps view_on_thread quiet_change_def
      split: option.split thread_status.split)

lemma view_set_mode [view_simps]: "agent_view (set_mode i m s) = agent_view s"
  by (auto simp: set_mode_def Let_def view_on_thread view_tell split: option.split)

lemma view_mode_answered [view_simps]: "agent_view (mode_answered i r s) = agent_view s"
  by (simp add: mode_answered_def view_simps split: option.split)

lemma view_change_config [view_simps]: "agent_view (change_config i c v s) = agent_view s"
  by (auto simp: change_config_def Let_def view_on_thread view_tell split: option.split)

lemma view_config_answered [view_simps]: "agent_view (config_answered i r s) = agent_view s"
  by (simp add: config_answered_def view_simps view_on_thread split: option.split sum.split)

lemma view_sign_in [view_simps]: "agent_view (sign_in i m s) = agent_view s"
  by (auto simp: sign_in_def Let_def view_simps view_on_thread view_tell split: option.split)

lemma view_signed_in [view_simps]: "agent_view (signed_in i r s) = agent_view s"
  by (simp add: signed_in_def view_simps view_on_thread split: option.split)

lemma view_set_writes [view_simps]: "agent_view (set_writes i b s) = agent_view s"
proof (cases "thread_by_id i s")
  case (Some t)
  have "fair_trade (\<lambda>t. (without_changes t)\<lparr>at_writes := False\<rparr>) (removed_of (\<lambda>p. \<not> is_change p))"
    unfolding without_changes_def by (rule trade_more [OF trade_retain]) simp
  from view_trade [OF this Some] Some show ?thesis
    by (auto simp: set_writes_def view_on_thread)
qed (simp add: set_writes_def)

lemma view_prune [view_simps]: "agent_view (prune_changes gone s) = agent_view s"
  unfolding prune_changes_def by (rule view_trade_all [OF trade_retain])

lemma view_settings [view_simps]: "agent_view (agent_settings_changed settings s) = agent_view s"
proof -
  have "fair_trade (\<lambda>t. (without_changes t)\<lparr>at_writes := False\<rparr>) (removed_of (\<lambda>p. \<not> is_change p))"
    unfolding without_changes_def by (rule trade_more [OF trade_retain]) simp
  from view_trade_all [OF this] show ?thesis
    by (simp add: agent_settings_changed_def Let_def refresh_agents_def view_simps)
qed

lemma view_start_thread [view_simps]: "agent_view (start_thread en seconds n s) = agent_view s"
proof -
  have "agent_view (s\<lparr>ac_next_thread := i, ac_contexts := cs, ac_threads := ac_threads s @ [t]\<rparr>) = agent_view s"
    if "at_grant t = None" "at_pending t = []" for i cs t
    using that by (auto simp: agent_view_def agent_grants_def tickets_def shown_tickets_def thread_tickets_def)
  then show ?thesis
    by (simp add: start_thread_def Let_def view_simps)
qed

lemma view_session_update [view_simps]: "agent_view (apply_session_update a session u s) = agent_view s"
  by (simp add: apply_session_update_def Let_def view_on_thread)

lemma view_agent_closed [view_simps]: "agent_view (agent_closed a tail s) = agent_view s"
proof -
  have "fair_trade (\<lambda>t. if at_agent t = a
      then t\<lparr>at_transcript := settle_tools (at_transcript t), at_pending := [], at_session := None,
             at_mcp := None, at_tasks := [], at_status := ThreadEnded m\<rparr> else t) (\<lambda>t. if at_agent t = a then cancelled_of t else [])" for m
    by (simp add: fair_trade_def) (simp add: thread_tickets_def)
  note all = view_trade_all [OF this]
  have "concat (map cancelled_of (filter (\<lambda>t. at_agent t = a) ts)) =
      concat (map (\<lambda>t. if at_agent t = a then cancelled_of t else []) ts)" for ts
    by (induction ts) simp_all
  then show ?thesis
    unfolding agent_closed_def Let_def on_agent_def by (simp only: all view_simps)
qed

lemma view_elicitation_done [view_simps]: "agent_view (elicitation_done a e s) = agent_view s"
proof -
  let ?os = "\<lambda>t. if at_agent t = a
      then map (\<lambda>r. Replied r (FormAccepted (JObj []))) (List.map_filter pg_responder (rev (filter (shows_url_of e) (at_pending t))))
           @ concat (map dropped_change (rev (filter (shows_url_of e) (at_pending t))))
      else []"
  have settled: "settled_in (map (\<lambda>r. Replied r (FormAccepted (JObj []))) (List.map_filter pg_responder ps)
      @ concat (map dropped_change ps)) = sum_list (map card_tickets ps)" for ps
    by (induction ps)
      (simp_all add: List.map_filter_simps dropped_change_def card_tickets_def some_of_def ac_simps split: option.split)
  have acts: "filter is_act (map (\<lambda>r. Replied r (FormAccepted (JObj []))) rs @ concat (map dropped_change ps)) = []" for rs ps
    by (simp add: filter_concat comp_def dropped_change_def split: option.split)
  have "sum_list (map card_tickets (filter (\<lambda>p. \<not> shows_url_of e p) ps)) + sum_list (map card_tickets (rev (filter (shows_url_of e) ps)))
      = sum_list (map card_tickets ps)" for ps
    by (induction ps) (simp_all add: ac_simps)
  then have "fair_trade (\<lambda>t. if at_agent t = a then retain (\<lambda>p. \<not> shows_url_of e p) t else t) ?os"
    unfolding fair_trade_def
    by (simp only: settled acts if_True if_False split: if_split) (simp add: retain_def thread_tickets_def)
  from view_trade_all [OF this] show ?thesis
    by (simp add: elicitation_done_def on_agent_def)
qed

section \<open>Requests\<close>

lemma view_replied:
  "agent_view (tell [Replied r x] s) = (agent_grants s, filter is_act (ac_out s), add_mset (RequestTicket r) (tickets s))"
  by (simp add: agent_view_def agent_grants_def tickets_def shown_tickets_def tell_def ac_simps)

lemma view_push_pending:
  assumes "find p (ac_threads s) = Some t"
  shows "agent_view (push_pending p kind r launch s) =
     (agent_grants s, filter is_act (ac_out s), add_mset (RequestTicket r) (tickets s))"
proof -
  let ?f = "\<lambda>t. t\<lparr>at_pending := at_pending t @ [\<lparr>pg_id = Suc (ac_next_pending s), pg_kind = kind, pg_responder = Some r,
                   pg_launch = launch, pg_approval = None\<rparr>]\<rparr>"
  have "thread_tickets (?f t) = add_mset (RequestTicket r) (thread_tickets t)"
    by (simp add: thread_tickets_def card_tickets_def some_of_def)
  with shown_update [OF assms, of ?f]
  have "shown_tickets (push_pending p kind r launch s) = add_mset (RequestTicket r) (shown_tickets s)"
    by (simp add: push_pending_def Let_def on_thread_def shown_tickets_def)
  moreover have "agent_grants (push_pending p kind r launch s) = agent_grants s"
    by (rule grants_same) (simp add: push_pending_def Let_def on_thread_def update_where_map)
  ultimately show ?thesis
    by (simp add: agent_view_def tickets_def) (simp add: push_pending_def Let_def on_thread_def)
qed

text \<open>A request that only shows a card, or is turned down.\<close>

definition asks_only :: "nat \<Rightarrow> agent_core \<Rightarrow> agent_core \<Rightarrow> bool" where
  "asks_only r s s' \<longleftrightarrow>
     agent_view s' = (agent_grants s, filter is_act (ac_out s), add_mset (RequestTicket r) (tickets s))"

lemma asks_permission: "asks_only r s (permission a session q r s)"
proof (cases "thread_of_session a session s")
  case (Some t)
  then show ?thesis
    unfolding asks_only_def permission_def thread_of_session_def
    by (simp add: view_replied view_push_pending Let_def split: option.split)
qed (simp add: asks_only_def permission_def view_replied)

lemma asks_read: "asks_only r s (read_file_asked a session path line limit r s)"
  by (auto simp: asks_only_def read_file_asked_def view_replied thread_of_session_def intro: view_push_pending)

lemma asks_write: "asks_only r s (write_file_asked a session path old new r s)"
  by (auto simp: asks_only_def write_file_asked_def view_replied thread_of_session_def intro: view_push_pending)

lemma or_else_eq_Some: "or_else x y = Some z \<longleftrightarrow> x = Some z \<or> x = None \<and> y = Some z"
  by (cases x) auto

lemma elicitation_thread_in: "elicitation_thread a session s = Some t \<Longrightarrow> t \<in> set (ac_threads s)"
  by (auto simp: elicitation_thread_def or_else_eq_Some find_Some_iff)

lemma asks_elicit: "asks_only r s (elicit a session request r s)"
proof -
  have "\<exists>u. find (\<lambda>u. at_id u = at_id t) (ac_threads s) = Some u" if "elicitation_thread a session s = Some t" for t
    using elicitation_thread_in [OF that] by (metis (mono_tags, lifting) find_None_iff not_None_eq)
  then show ?thesis
    by (auto simp: asks_only_def elicit_def view_replied split: sum.split option.split intro: view_push_pending)
qed

section \<open>What a step may do\<close>

text \<open>The card on which the user sees what is done.\<close>

definition shows_act :: "agent_out \<Rightarrow> agent_pending \<Rightarrow> bool" where
  "shows_act e p \<longleftrightarrow>
     (case e of
        CommandRun a launch r \<Rightarrow>
          pg_responder p = Some r \<and> pg_launch p = Some launch \<and> (\<exists>line cwd vars warnings. pg_kind p = CommandCard line cwd vars warnings)
      | FileRead path r \<Rightarrow> pg_responder p = Some r \<and> pg_kind p = ReadCard path
      | FileWritten path new r \<Rightarrow> pg_responder p = Some r \<and> (\<exists>old. pg_kind p = WriteCard path old new)
      | UrlOpened url \<Rightarrow> (\<exists>m e. pg_kind p = OpenUrlCard m url e)
      | ChangeDecided reply d \<Rightarrow> pg_approval p = Some reply \<and> (\<exists>q. pg_kind p = ChangeCard q)
      | _ \<Rightarrow> False)"

definition user_allowed :: "agent_core \<Rightarrow> agent_op \<Rightarrow> agent_out \<Rightarrow> bool" where
  "user_allowed s x e \<longleftrightarrow>
     (\<exists>now i n ans t p. x = AnswerCard now i n ans \<and> allows ans \<and> thread_by_id i s = Some t \<and>
        find (\<lambda>p. pg_id p = n) (at_pending t) = Some p \<and> shows_act e p)"

text \<open>The user's answer to the agent's own prompt, which leaves a grant on the thread.\<close>

definition gave_grant :: "agent_core \<Rightarrow> agent_op \<Rightarrow> nat \<Rightarrow> execute_grant \<Rightarrow> bool" where
  "gave_grant s x i g \<longleftrightarrow>
     (\<exists>n ans t p tool title choices c. x = AnswerCard (gr_at g) i n ans \<and> thread_by_id i s = Some t \<and>
        find (\<lambda>p. pg_id p = n) (at_pending t) = Some p \<and>
        pg_kind p = PermissionCard tool title (gr_command g) True choices \<and>
        chosen_option ans choices = Some c \<and> pm_allow c)"

definition grant_used :: "agent_env \<Rightarrow> agent_core \<Rightarrow> agent_op \<Rightarrow> agent_out \<Rightarrow> nat \<Rightarrow> execute_grant \<Rightarrow> bool" where
  "grant_used en s x e i g \<longleftrightarrow>
     (\<exists>now clock refused a session q kubeconfig r launch t.
        x = AgentCall now clock refused a (CreateTerminalCall session q kubeconfig r) \<and> e = CommandRun a launch r \<and>
        la_command launch = tq_command q \<and> la_args launch = tq_args q \<and> la_env launch = [] \<and>
        ae_warnings en (command_line (la_command launch) (la_args launch)) = [] \<and>
        thread_of_session a session s = Some t \<and> at_id t = i \<and> at_grant t = Some g \<and>
        grant_covers g (command_line (la_command launch) (la_args launch)
          # (case shell_inner (la_command launch) (la_args launch) of Some c \<Rightarrow> [c] | None \<Rightarrow> [])) now)"

definition step_allows :: "agent_env \<Rightarrow> agent_core \<Rightarrow> agent_op \<Rightarrow> agent_out \<Rightarrow> bool" where
  "step_allows en s x e \<longleftrightarrow> user_allowed s x e \<or> (\<exists>i g. (i, g) \<in> agent_grants s \<and> grant_used en s x e i g)"

fun call_asks :: "client_call \<Rightarrow> ticket multiset" where
  "call_asks (PermissionCall _ _ r) = {#RequestTicket r#}"
| "call_asks (CreateTerminalCall _ _ _ r) = {#RequestTicket r#}"
| "call_asks (ReadFileCall _ _ _ _ r) = {#RequestTicket r#}"
| "call_asks (WriteFileCall _ _ _ _ r) = {#RequestTicket r#}"
| "call_asks (ElicitationCall _ _ r) = {#RequestTicket r#}"
| "call_asks _ = {#}"

definition asks :: "agent_op \<Rightarrow> agent_core \<Rightarrow> ticket multiset" where
  "asks x s =
     (case x of
        AgentCall _ _ _ a call \<Rightarrow> if agent_connection_of a s \<noteq> None then call_asks call else {#}
      | ChangeRequested _ _ _ reply \<Rightarrow> {#ChangeTicket reply#}
      | _ \<Rightarrow> {#})"

definition step_ok :: "agent_env \<Rightarrow> agent_op \<Rightarrow> agent_core \<Rightarrow> agent_core \<Rightarrow> bool" where
  "step_ok en x s s' \<longleftrightarrow>
     agent_grants s' \<subseteq> agent_grants s \<union> {(i, g). gave_grant s x i g} \<and>
     (\<exists>es. filter is_act (ac_out s') = filter is_act (ac_out s) @ es \<and> list_all (step_allows en s x) es) \<and>
     tickets s' = tickets s + asks x s"

lemma step_quiet: "agent_view s' = agent_view s \<Longrightarrow> asks x s = {#} \<Longrightarrow> step_ok en x s s'"
  by (simp add: step_ok_def agent_view_def)

lemma step_asks: "asks_only r s s' \<Longrightarrow> asks x s = {#RequestTicket r#} \<Longrightarrow> step_ok en x s s'"
  by (simp add: step_ok_def asks_only_def agent_view_def)

lemma shown_remove:
  "find p ts = Some t \<Longrightarrow>
   sum_list (map thread_tickets (remove_first p ts)) + thread_tickets t = sum_list (map thread_tickets ts)"
  by (induction ts) (auto simp: ac_simps split: if_splits)

lemma cards_remove:
  "find p ps = Some q \<Longrightarrow>
   sum_list (map card_tickets (remove_first p ps)) + card_tickets q = sum_list (map card_tickets ps)"
  by (induction ps) (auto simp: ac_simps split: if_splits)

lemma remove_first_subset: "set (remove_first p xs) \<subseteq> set xs"
  by (induction xs) auto

lemma threads_tell [simp]: "ac_threads (tell xs s) = ac_threads s"
  by (simp add: tell_def)

lemma threads_set_running [simp]: "ac_threads (set_running a b s) = ac_threads s"
  by (simp add: set_running_def)

lemma step_close: "step_ok en (CloseThread i) s (close_thread i s)"
proof (cases "thread_by_id i s")
  case (Some t)
  let ?c = "cancel_thread i s"
  have "ac_threads ?c = update_where (\<lambda>t. at_id t = i) (\<lambda>t. t\<lparr>at_queued := [], at_pending := []\<rparr>) (ac_threads s)"
    using Some by (simp add: cancel_thread_def Let_def on_thread_def split: option.split)
  then have t': "find (\<lambda>t. at_id t = i) (ac_threads ?c) = Some (t\<lparr>at_queued := [], at_pending := []\<rparr>)"
    using Some by (simp add: thread_by_id_def find_update_where)
  let ?r = "?c\<lparr>ac_threads := remove_first (\<lambda>t. at_id t = i) (ac_threads ?c)\<rparr>"
  have "thread_tickets (t\<lparr>at_queued := [], at_pending := []\<rparr>) = {#}" by (simp add: thread_tickets_def)
  with shown_remove [OF t'] have "shown_tickets ?r = shown_tickets ?c" by (simp add: shown_tickets_def)
  then have r: "agent_grants ?r \<subseteq> agent_grants ?c" "filter is_act (ac_out ?r) = filter is_act (ac_out ?c)" "tickets ?r = tickets ?c"
    using remove_first_subset [of "\<lambda>t. at_id t = i" "ac_threads ?c"] by (auto simp: agent_grants_def tickets_def)
  have c: "agent_view ?c = agent_view s" by (rule view_cancel)
  obtain s' where "agent_view (close_thread i s) = agent_view s'" "s' = ?r"
    using Some by (auto simp: close_thread_def Let_def view_simps view_tell split: option.split)
  then show ?thesis using r c by (auto simp: step_ok_def agent_view_def asks_def)
qed (simp add: close_thread_def step_quiet asks_def)

lemma step_change: "step_ok en (ChangeRequested gone i p reply) s (change_requested gone i p reply s)"
proof -
  let ?p = "\<lparr>pg_id = Suc (ac_next_pending s), pg_kind = ChangeCard p, pg_responder = None, pg_launch = None,
             pg_approval = Some reply\<rparr>"
  let ?s = "s\<lparr>ac_next_pending := Suc (ac_next_pending s)\<rparr>"
  let ?f = "\<lambda>t. t\<lparr>at_pending := at_pending t @ [?p]\<rparr>"
  have dropped: "step_ok en (ChangeRequested gone i p reply) s (tell xs u)"
    if "agent_view u = agent_view s" "filter is_act xs = []" "settled_in xs = {#ChangeTicket reply#}" for xs u
    using that by (simp add: step_ok_def agent_view_def tickets_def agent_grants_def shown_tickets_def tell_def asks_def ac_simps)
  have shown: "step_ok en (ChangeRequested gone i p reply) s (on_id i ?f ?s)" if t: "thread_by_id i s = Some t" for t
  proof -
    have "thread_tickets (?f t) = add_mset (ChangeTicket reply) (thread_tickets t)"
      by (simp add: thread_tickets_def card_tickets_def some_of_def)
    with shown_update [of "\<lambda>t. at_id t = i" "ac_threads s" t ?f] t
    have "shown_tickets (on_id i ?f ?s) = add_mset (ChangeTicket reply) (shown_tickets s)"
      by (simp add: on_thread_def shown_tickets_def thread_by_id_def)
    moreover have "agent_grants (on_id i ?f ?s) = agent_grants s"
      by (rule grants_same) (simp add: on_thread_def update_where_map)
    ultimately show ?thesis by (simp add: step_ok_def tickets_def asks_def) (simp add: on_thread_def)
  qed
  have same: "thread_by_id i ?s = thread_by_id i s" by (simp add: thread_by_id_def)
  have "agent_view ?s = agent_view s" by (simp add: view_simps)
  moreover have "settled_in (drop_pending ?p) = {#ChangeTicket reply#}"
    by (simp add: card_tickets_def some_of_def)
  ultimately have drop: "step_ok en (ChangeRequested gone i p reply) s (tell (drop_pending ?p) ?s)"
    by (intro dropped) simp_all
  show ?thesis
  proof (cases gone)
    case True
    then have "change_requested gone i p reply s = tell [ChangeDropped reply] s" by (simp add: change_requested_def)
    with dropped [of s "[ChangeDropped reply]"] show ?thesis by simp
  next
    case False
    then have "change_requested gone i p reply s =
        (case thread_by_id i s of Some t \<Rightarrow> if at_writes t then on_id i ?f ?s else tell (drop_pending ?p) ?s
         | None \<Rightarrow> tell (drop_pending ?p) ?s)"
      by (simp add: change_requested_def Let_def same)
    with shown drop show ?thesis by (simp split: option.split)
  qed
qed

lemma of_session_in: "thread_of_session a session s = Some t \<Longrightarrow> t \<in> set (ac_threads s)"
  by (auto simp: thread_of_session_def find_Some_iff)

lemma grants_forget:
  "agent_grants (on_thread p (\<lambda>t. t\<lparr>at_grant := None\<rparr>) s) \<subseteq> agent_grants s"
  by (auto simp: agent_grants_def on_thread_def dest!: subsetD [OF update_where_set])

lemma tickets_forget: "tickets (on_thread p (\<lambda>t. t\<lparr>at_grant := None\<rparr>) s) = tickets s"
proof -
  have "map thread_tickets (update_where p (\<lambda>t. t\<lparr>at_grant := None\<rparr>) ts) = map thread_tickets ts" for ts
    by (rule update_where_map) (simp add: thread_tickets_def)
  then show ?thesis by (simp add: tickets_def shown_tickets_def on_thread_def)
qed

lemma step_terminal:
  assumes "agent_connection_of a s \<noteq> None"
    and x: "x = AgentCall now clock refused a (CreateTerminalCall session q kubeconfig r)"
  shows "step_ok en x s (create_terminal now en a session q kubeconfig r s)"
proof -
  have x_asks: "asks x s = {#RequestTicket r#}" using assms by (simp add: asks_def)
  show ?thesis
  proof (cases "thread_of_session a session s")
    case None
    then show ?thesis
      by (intro step_asks [OF _ x_asks]) (simp add: asks_only_def create_terminal_def view_replied)
  next
    case (Some t)
    define line where "line = command_line (tq_command q) (tq_args q)"
    define cmds where "cmds = line # (case shell_inner (tq_command q) (tq_args q) of Some i \<Rightarrow> [i] | None \<Rightarrow> [])"
    define env where "env = filter (\<lambda>e. \<not> sets_kubeconfig e) (tq_env q)"
    define warnings where "warnings = ae_warnings en line @ (if length env \<noteq> length (tq_env q) then [kubeconfig_warning] else [])"
    define launch where "launch = \<lparr>la_command = tq_command q, la_args = tq_args q, la_env = env,
      la_cwd = unwrap_or (tq_cwd q) (at_cwd t), la_output_limit = tq_output_limit q, la_path = ac_path s,
      la_kubeconfig = kubeconfig\<rparr>"
    define card where "card = CommandCard line (unwrap_or (tq_cwd q) (at_cwd t)) (map (\<lambda>(n, v). (n, ae_scrub en v)) env) warnings"
    define granted where "granted \<longleftrightarrow> warnings = [] \<and> env = [] \<and>
      (case at_grant t of Some g \<Rightarrow> grant_covers g cmds now | None \<Rightarrow> False)"
    let ?s = "on_thread (of_session a session) (\<lambda>t. t\<lparr>at_grant := None\<rparr>) s"
    have eq: "create_terminal now en a session q kubeconfig r s =
        (if granted then run_command a launch r ?s else push_pending (of_session a session) card r (Some launch) s)"
      unfolding create_terminal_def Some option.case Let_def line_def cmds_def env_def warnings_def launch_def card_def
        granted_def by (rule refl)
    show ?thesis
    proof (cases granted)
      case False
      then show ?thesis
        unfolding eq using Some
        by (intro step_asks [OF _ x_asks]) (simp add: asks_only_def view_push_pending thread_of_session_def)
    next
      case True
      then obtain g where g: "at_grant t = Some g" "grant_covers g cmds now" "warnings = []" "env = []"
        by (auto simp: granted_def split: option.splits)
      have run: "run_command a launch r ?s = tell [CommandRun a launch r] ?s"
        using assms(1) by (auto simp: run_command_def agent_connection_of_def on_thread_def)
      have "grant_used en s x (CommandRun a launch r) (at_id t) g"
        unfolding grant_used_def using Some g x
        by (auto simp: launch_def cmds_def line_def warnings_def)
      moreover have "(at_id t, g) \<in> agent_grants s"
        using of_session_in [OF Some] g(1) by (auto simp: agent_grants_def)
      ultimately have "step_allows en s x (CommandRun a launch r)" by (auto simp: step_allows_def)
      moreover have "tickets (tell [CommandRun a launch r] ?s) = tickets s + {#RequestTicket r#}"
        using tickets_forget [of "of_session a session" s]
        by (simp add: tickets_def shown_tickets_def tell_def)
      moreover have "filter is_act (ac_out (tell [CommandRun a launch r] ?s)) = filter is_act (ac_out s) @ [CommandRun a launch r]"
        by (simp add: tell_def on_thread_def)
      moreover have "agent_grants (tell [CommandRun a launch r] ?s) \<subseteq> agent_grants s"
        using grants_forget [of "of_session a session" s] by (simp add: agent_grants_def)
      ultimately show ?thesis
        using True x_asks unfolding eq run step_ok_def by auto
    qed
  qed
qed

lemma step_call:
  assumes "agent_connection_of a s \<noteq> None"
  shows "step_ok en (AgentCall now clock refused a call) s (handle_call now clock en refused a call s)"
proof (cases call)
  case (CreateTerminalCall session q kubeconfig r)
  with step_terminal [OF assms] show ?thesis by (simp add: handle_call_def)
next
  case (PermissionCall session q r)
  with assms show ?thesis by (intro step_asks [of r]) (simp_all add: handle_call_def asks_permission asks_def)
next
  case (ReadFileCall session path line limit r)
  with assms show ?thesis by (intro step_asks [of r]) (simp_all add: handle_call_def asks_read asks_def)
next
  case (WriteFileCall session path old new r)
  with assms show ?thesis by (intro step_asks [of r]) (simp_all add: handle_call_def asks_write asks_def)
next
  case (ElicitationCall session request r)
  with assms show ?thesis by (intro step_asks [of r]) (simp_all add: handle_call_def asks_elicit asks_def)
qed (intro step_quiet; simp add: handle_call_def view_simps asks_def split: option.split)+

lemma view_parts_tell:
  "agent_grants (tell xs s) = agent_grants s"
  "filter is_act (ac_out (tell xs s)) = filter is_act (ac_out s) @ filter is_act xs"
  "tickets (tell xs s) = tickets s + settled_in xs"
  by (simp_all add: agent_grants_def tickets_def shown_tickets_def tell_def ac_simps)

lemma card_taken:
  assumes "thread_by_id i s = Some t" "find p (at_pending t) = Some item"
  shows "let s' = on_id i (\<lambda>t. t\<lparr>at_pending := remove_first p (at_pending t)\<rparr>) s
         in agent_grants s' = agent_grants s \<and> ac_out s' = ac_out s \<and> tickets s' + card_tickets item = tickets s"
proof -
  let ?f = "\<lambda>t. t\<lparr>at_pending := remove_first p (at_pending t)\<rparr>"
  have "thread_tickets (?f t) + card_tickets item = thread_tickets t"
    using cards_remove [OF assms(2)] by (simp add: thread_tickets_def)
  moreover have "shown_tickets (on_id i ?f s) + thread_tickets t = shown_tickets s + thread_tickets (?f t)"
    using shown_update [of "\<lambda>t. at_id t = i" "ac_threads s" t ?f] assms(1)
    by (simp add: shown_tickets_def on_thread_def thread_by_id_def)
  ultimately have "shown_tickets (on_id i ?f s) + card_tickets item + thread_tickets (?f t) = shown_tickets s + thread_tickets (?f t)"
    by (metis (no_types, lifting) add.assoc add.commute)
  then have "shown_tickets (on_id i ?f s) + card_tickets item = shown_tickets s" by simp
  then have "tickets (on_id i ?f s) + card_tickets item = tickets s"
    by (simp add: tickets_def ac_simps) (simp add: on_thread_def ac_simps)
  moreover have "agent_grants (on_id i ?f s) = agent_grants s"
    by (rule grants_same) (simp add: on_thread_def update_where_map)
  ultimately show ?thesis by (simp add: Let_def) (simp add: on_thread_def)
qed

text \<open>What answering a card with the responder \<open>r\<close> does: one answer to \<open>r\<close>, at most what the card shows, and
  possibly a grant.\<close>

definition card_answered ::
  "agent_op \<Rightarrow> nat \<Rightarrow> agent_pending \<Rightarrow> user_answer \<Rightarrow> agent_core \<Rightarrow> agent_core \<Rightarrow> agent_core \<Rightarrow> bool" where
  "card_answered x r item ans s0 s s' \<longleftrightarrow>
     agent_grants s' \<subseteq> agent_grants s \<union> {(i, g). gave_grant s0 x i g} \<and>
     (\<exists>es. filter is_act (ac_out s') = filter is_act (ac_out s) @ es \<and>
           list_all (\<lambda>e. allows ans \<and> shows_act e item) es) \<and>
     tickets s' = tickets s + {#RequestTicket r#}"

lemma answered_tell:
  "settled_in xs = {#RequestTicket r#} \<Longrightarrow> list_all (\<lambda>e. allows ans \<and> shows_act e item) (filter is_act xs) \<Longrightarrow>
   card_answered x r item ans s0 s (tell xs s)"
  by (simp add: card_answered_def view_parts_tell)

lemma answered_grant:
  assumes x: "x = AnswerCard now i n ans" and t: "thread_by_id i s0 = Some t" "find (\<lambda>p. pg_id p = n) (at_pending t) = Some item"
    and "pg_kind item = PermissionCard tool title command True choices" "chosen_option ans choices = Some c" "pm_allow c"
  shows "card_answered x r item ans s0 s
      (tell [Replied r y] (on_id i (\<lambda>t. t\<lparr>at_grant := Some \<lparr>gr_at = now, gr_command = command\<rparr>\<rparr>) s))"
proof -
  let ?g = "\<lparr>gr_at = now, gr_command = command\<rparr>"
  have "gave_grant s0 x i ?g"
    using assms by (fastforce simp: gave_grant_def)
  then have "agent_grants (on_id i (\<lambda>t. t\<lparr>at_grant := Some ?g\<rparr>) s) \<subseteq> agent_grants s \<union> {(i, g). gave_grant s0 x i g}"
    by (auto simp: agent_grants_def on_thread_def dest!: subsetD [OF update_where_set])
  moreover have "tickets (on_id i (\<lambda>t. t\<lparr>at_grant := Some ?g\<rparr>) s) = tickets s"
  proof -
    have "map thread_tickets (update_where p (\<lambda>t. t\<lparr>at_grant := Some ?g\<rparr>) ts) = map thread_tickets ts"
      for p :: "agent_thread \<Rightarrow> bool" and ts
      by (rule update_where_map) (simp add: thread_tickets_def)
    then show ?thesis by (simp add: tickets_def shown_tickets_def on_thread_def)
  qed
  ultimately show ?thesis
    by (simp add: card_answered_def view_parts_tell) (simp add: on_thread_def)
qed

lemma card_answer:
  assumes "x = AnswerCard now i n ans" "thread_by_id i s0 = Some t" "find (\<lambda>p. pg_id p = n) (at_pending t) = Some item"
    and r: "pg_responder item = Some r" and conn: "agent_connection_of a s = c"
  shows "card_answered x r item ans s0 s (answer_card now i a item r ans s)"
proof (cases "pg_kind item")
  case (PermissionCard tool title command runs_it choices)
  then show ?thesis
    using answered_grant [OF assms(1-3), of tool title command choices]
    by (auto simp: answer_card_def intro: answered_tell split: option.split)
next
  case (CommandCard line cwd vars warnings)
  then show ?thesis
    using r by (auto simp: answer_card_def run_command_def shows_act_def intro!: answered_tell split: option.split)
qed (use r in \<open>auto simp: answer_card_def shows_act_def intro!: answered_tell split: user_answer.split\<close>)

lemma step_answer: "step_ok en (AnswerCard now i n ans) s (answer_pending now i n ans s)"
proof (cases "thread_by_id i s")
  case (Some t)
  let ?x = "AnswerCard now i n ans"
  let ?p = "\<lambda>p. pg_id p = n"
  show ?thesis
  proof (cases "find ?p (at_pending t)")
    case None
    with Some show ?thesis by (simp add: answer_pending_def step_quiet asks_def)
  next
    case item: (Some item)
    define s' where "s' = on_id i (\<lambda>t. t\<lparr>at_pending := remove_first ?p (at_pending t)\<rparr>) s"
    have s': "agent_grants s' = agent_grants s" "ac_out s' = ac_out s" "tickets s' + card_tickets item = tickets s"
      using card_taken [OF Some item] by (simp_all add: s'_def Let_def)
    have asks: "asks ?x s = {#}" by (simp add: asks_def)
    have allow: "step_allows en s ?x e" if "allows ans" "shows_act e item" for e
      using that Some item by (auto simp: step_allows_def user_allowed_def)
    have told: "step_ok en ?x s (tell xs s')"
      if "settled_in xs = card_tickets item" "list_all (\<lambda>e. allows ans \<and> shows_act e item) (filter is_act xs)" for xs
      using that s' allow by (auto simp: step_ok_def view_parts_tell asks list_all_iff)
    have dropped: "filter is_act (dropped_change item) = []" "settled_in (dropped_change item) = some_of ChangeTicket (pg_approval item)"
      by (simp_all add: dropped_change_def some_of_def split: option.split)
    have tell_tell: "tell xs (tell ys u) = tell (ys @ xs) u" for xs ys u by (simp add: tell_def)
    consider (change) "is_change item" | (quiet) "\<not> is_change item" "pg_responder item = None"
      | (card) r where "\<not> is_change item" "pg_responder item = Some r" by (cases "pg_responder item") auto
    then show ?thesis
    proof cases
      case change
      then obtain q where "pg_kind item = ChangeCard q" by (auto simp: is_change_def split: pending_kind.splits)
      then have "step_ok en ?x s (tell (drop_pending (item\<lparr>pg_approval := None\<rparr>) @
          (case pg_approval item of
             Some reply \<Rightarrow> [ChangeDecided reply (if allows ans then Approved else Rejected)] | None \<Rightarrow> [])) s')"
        by (intro told) (auto simp: card_tickets_def some_of_def shows_act_def split: option.split)
      with change Some item show ?thesis
        by (simp add: answer_pending_def Let_def s'_def tell_tell)
    next
      case quiet
      have "step_ok en ?x s (tell (dropped_change item) s')"
        using quiet dropped by (intro told) (simp_all add: card_tickets_def some_of_def)
      with quiet Some item show ?thesis by (simp add: answer_pending_def Let_def s'_def)
    next
      case (card r)
      have "card_answered ?x r item ans s s' (answer_card now i (at_agent t) item r ans s')"
        by (rule card_answer [OF refl Some item card(2) refl])
      then have "step_ok en ?x s (tell (dropped_change item) (answer_card now i (at_agent t) item r ans s'))"
        using s' dropped allow card(2)
        by (auto simp: card_answered_def step_ok_def view_parts_tell asks card_tickets_def some_of_def list_all_iff ac_simps)
      with card Some item show ?thesis by (simp add: answer_pending_def Let_def s'_def)
    qed
  qed
qed (simp add: answer_pending_def step_quiet asks_def)

lemma agent_step: "step_ok en x s (agent_do en x s)"
proof (cases x)
  case (CloseThread i)
  with step_close show ?thesis by (simp add: agent_do_def)
next
  case (ChangeRequested gone i p reply)
  with step_change show ?thesis by (simp add: agent_do_def)
next
  case (AgentCall now clock refused a call)
  with step_call show ?thesis by (auto simp: agent_do_def asks_def intro: step_quiet)
next
  case (AnswerCard now i n ans)
  with step_answer show ?thesis by (simp add: agent_do_def)
qed (intro step_quiet; simp add: agent_do_def refresh_agents_def view_simps asks_def)+

section \<open>Runs\<close>

lemma agent_run_snoc: "agent_run en settings (ops @ [x]) = agent_do en x (agent_run en settings ops)"
  by (simp add: agent_run_def)

text \<open>A grant has an answer of the user behind it; what is done for an agent has the user's answer to a card
  that shows it, or a grant that covers it.\<close>

definition grant_given :: "agent_env \<Rightarrow> agent_settings \<Rightarrow> agent_op list \<Rightarrow> nat \<Rightarrow> execute_grant \<Rightarrow> bool" where
  "grant_given en settings ops i g \<longleftrightarrow>
     (\<exists>before x after. ops = before @ x # after \<and> gave_grant (agent_run en settings before) x i g)"

definition act_accounted :: "agent_env \<Rightarrow> agent_settings \<Rightarrow> agent_op list \<Rightarrow> agent_out \<Rightarrow> bool" where
  "act_accounted en settings ops e \<longleftrightarrow>
     (\<exists>before x after. ops = before @ x # after \<and>
        (user_allowed (agent_run en settings before) x e \<or>
         (\<exists>i g. grant_given en settings before i g \<and> grant_used en (agent_run en settings before) x e i g)))"

lemma grant_given_more: "grant_given en settings ops i g \<Longrightarrow> grant_given en settings (ops @ [x]) i g"
  unfolding grant_given_def by (metis append.assoc append_Cons)

lemma act_accounted_more: "act_accounted en settings ops e \<Longrightarrow> act_accounted en settings (ops @ [x]) e"
  unfolding act_accounted_def by (metis append.assoc append_Cons)

lemma grants_given: "(i, g) \<in> agent_grants (agent_run en settings ops) \<Longrightarrow> grant_given en settings ops i g"
proof (induction ops arbitrary: i g rule: rev_induct)
  case Nil
  then show ?case by (simp add: agent_run_def core_new_def agent_grants_def)
next
  case (snoc x ops)
  have "agent_grants (agent_do en x (agent_run en settings ops)) \<subseteq>
      agent_grants (agent_run en settings ops) \<union> {(i, g). gave_grant (agent_run en settings ops) x i g}"
    using agent_step [of en x "agent_run en settings ops"] by (simp add: step_ok_def)
  then consider "(i, g) \<in> agent_grants (agent_run en settings ops)" | "gave_grant (agent_run en settings ops) x i g"
    using snoc.prems by (auto simp: agent_run_snoc)
  then show ?case
  proof cases
    case 1
    from grant_given_more [OF snoc.IH [OF this]] show ?thesis .
  next
    case 2
    then show ?thesis unfolding grant_given_def by blast
  qed
qed

text \<open>C29: An agent gets nothing done behind the user's back.  Every command run, file read or written, page
  opened and change approved has, at the step that did it, either the user's consent to a card that shows it,
  or (for a command without warnings that sets no variables) a grant of its thread that covers it, given by
  the user's own answer to the agent's prompt for a command.\<close>

theorem agent_acts_on_consent:
  "list_all (act_accounted en settings ops) (filter is_act (ac_out (agent_run en settings ops)))"
proof (induction ops rule: rev_induct)
  case Nil
  then show ?case by (simp add: agent_run_def core_new_def)
next
  case (snoc x ops)
  let ?s = "agent_run en settings ops"
  obtain es where es: "filter is_act (ac_out (agent_do en x ?s)) = filter is_act (ac_out ?s) @ es"
    "list_all (step_allows en ?s x) es"
    using agent_step [of en x ?s] by (auto simp: step_ok_def)
  have "act_accounted en settings (ops @ [x]) e" if "step_allows en ?s x e" for e
    using that grants_given unfolding step_allows_def act_accounted_def by blast
  with es snoc act_accounted_more show ?case
    by (auto simp: agent_run_snoc list_all_iff)
qed

text \<open>What a run asked.\<close>

fun asked :: "agent_env \<Rightarrow> agent_core \<Rightarrow> agent_op list \<Rightarrow> ticket multiset" where
  "asked en s [] = {#}"
| "asked en s (x # ops) = asks x s + asked en (agent_do en x s) ops"

text \<open>C30: Nothing an agent asks is forgotten or answered twice: at any time, the requests and proposed changes
  that came are, each exactly once, on a card before the user or settled by an answer, by the task that will
  answer, or by the end of what asked.\<close>

theorem agent_requests_settle_once:
  "shown_tickets (agent_run en settings ops) + settled_in (ac_out (agent_run en settings ops)) =
   asked en (core_new settings) ops"
proof -
  have "tickets (fold (agent_do en) ops s) = tickets s + asked en s ops" for s
  proof (induction ops arbitrary: s)
    case (Cons x ops)
    have "tickets (agent_do en x s) = tickets s + asks x s"
      using agent_step [of en x s] by (simp add: step_ok_def)
    with Cons show ?case by (simp add: ac_simps)
  qed simp
  moreover have "tickets (core_new settings) = {#}"
    by (simp add: tickets_def shown_tickets_def core_new_def)
  ultimately show ?thesis by (simp add: agent_run_def tickets_def)
qed

end
