(* ===== verification/AgentLive.thy ===== *)
theory AgentLive
  imports AgentSafety
begin

text \<open>
  What holds of the threads in every state (\<open>agent_inv\<close>): a session has its agent's connection, no prompt
  waits while its thread is idle, and a card shows the command it would run.  The last section runs the
  cases in which the code loses a conversation.
\<close>

section \<open>The invariant\<close>

definition agent_ready :: "(str \<Rightarrow> agent_slot option) \<Rightarrow> str \<Rightarrow> bool" where
  "agent_ready slots a \<longleftrightarrow> (case slots a of Some (SlotReady _) \<Rightarrow> True | _ \<Rightarrow> False)"

text \<open>What a card for a command shows: the line of the command that its approval runs, its folder, and each
  variable it sets, with secrets hidden; never a kubeconfig of the agent's choice.\<close>

definition card_shows :: "agent_env \<Rightarrow> agent_pending \<Rightarrow> bool" where
  "card_shows en p \<longleftrightarrow>
     (case pg_kind p of
        CommandCard line cwd vars _ \<Rightarrow>
          (case pg_launch p of
             Some l \<Rightarrow> line = command_line (la_command l) (la_args l) \<and> cwd = la_cwd l \<and>
                       vars = map (\<lambda>(n, v). (n, ae_scrub en v)) (la_env l) \<and>
                       list_all (\<lambda>e. \<not> sets_kubeconfig e) (la_env l)
           | None \<Rightarrow> False)
      | _ \<Rightarrow> pg_launch p = None)"

definition card_ok :: "agent_env \<Rightarrow> nat \<Rightarrow> agent_pending \<Rightarrow> bool" where
  "card_ok en n p \<longleftrightarrow> pg_id p \<le> n \<and> card_shows en p"

definition sane_thread :: "agent_env \<Rightarrow> agent_core \<Rightarrow> agent_thread \<Rightarrow> bool" where
  "sane_thread en s t \<longleftrightarrow>
     at_id t \<le> ac_next_thread s \<and> at_cluster t \<in> ac_contexts s \<and>
     (at_session t \<noteq> None \<or> at_tasks t \<noteq> [] \<longrightarrow> agent_ready (ac_slots s) (at_agent t)) \<and>
     (at_status t = ThreadIdle \<or> at_status t = ThreadRunning \<longrightarrow> at_session t \<noteq> None) \<and>
     distinct (map pg_id (at_pending t)) \<and> list_all (card_ok en (ac_next_pending s)) (at_pending t)"

definition moving :: "agent_thread \<Rightarrow> bool" where
  "moving t \<longleftrightarrow> (at_queued t \<noteq> [] \<longrightarrow> at_status t \<noteq> ThreadIdle)"

definition sane_core :: "agent_env \<Rightarrow> agent_core \<Rightarrow> bool" where
  "sane_core en s \<longleftrightarrow> distinct (map at_id (ac_threads s)) \<and> (\<forall>t \<in> set (ac_threads s). sane_thread en s t)"

definition moving_but :: "nat option \<Rightarrow> agent_core \<Rightarrow> bool" where
  "moving_but i s \<longleftrightarrow> (\<forall>t \<in> set (ac_threads s). Some (at_id t) \<noteq> i \<longrightarrow> moving t)"

definition agent_inv :: "agent_env \<Rightarrow> agent_core \<Rightarrow> bool" where
  "agent_inv en s \<longleftrightarrow> sane_core en s \<and> moving_but None s"

text \<open>The parts of the state the invariant reads.\<close>

definition agent_frame where
  "agent_frame s = (ac_threads s, ac_next_thread s, ac_contexts s, ac_slots s, ac_next_pending s)"

lemma frame_sane: "agent_frame s = agent_frame s' \<Longrightarrow> sane_core en s = sane_core en s'"
  by (simp add: agent_frame_def sane_core_def sane_thread_def)

lemma frame_moving: "agent_frame s = agent_frame s' \<Longrightarrow> moving_but i s = moving_but i s'"
  by (simp add: agent_frame_def moving_but_def)

lemma frame_simps [simp]:
  "agent_frame (tell xs s) = agent_frame s"
  "agent_frame (set_running a b s) = agent_frame s"
  "agent_frame (remember now en i s) = agent_frame s"
  "agent_frame (remember_if_loadable now en i s) = agent_frame s"
  "agent_frame (lookup_agents w s) = agent_frame s"
  "agent_frame (assign_program a p s) = agent_frame s"
  "agent_frame (s\<lparr>ac_path := path\<rparr>) = agent_frame s"
  "agent_frame (s\<lparr>ac_agents := c\<rparr>) = agent_frame s"
  "agent_frame (s\<lparr>ac_next_task := n\<rparr>) = agent_frame s"
  "agent_frame (s\<lparr>ac_settings := st\<rparr>) = agent_frame s"
  by (auto simp: agent_frame_def tell_def set_running_def remember_def remember_if_loadable_def lookup_agents_def
      new_task_def assign_program_def split: option.split)

text \<open>A change of a thread that keeps it sane, and one that keeps it moving.\<close>

lemma update_where_in: "y \<in> set (update_where p f xs) \<Longrightarrow> y \<in> set xs \<or> (\<exists>x \<in> set xs. p x \<and> y = f x)"
  by (induction xs) (auto split: if_splits)

lemma sane_on_thread:
  assumes "sane_core en s" "\<And>t. t \<in> set (ac_threads s) \<Longrightarrow> p t \<Longrightarrow> sane_thread en s t \<Longrightarrow> sane_thread en s (f t)"
    and "\<And>t. at_id (f t) = at_id t"
  shows "sane_core en (on_thread p f s)"
proof -
  have "sane_thread en (on_thread p f s) = sane_thread en s" by (rule ext) (simp add: sane_thread_def on_thread_def)
  moreover have "map at_id (update_where p f (ac_threads s)) = map at_id (ac_threads s)"
    by (rule update_where_map) (rule assms(3))
  ultimately show ?thesis
    using assms(1,2) unfolding sane_core_def by (auto simp: on_thread_def dest!: update_where_in)
qed

lemma sane_on_agent:
  assumes "sane_core en s" "\<And>t. t \<in> set (ac_threads s) \<Longrightarrow> at_agent t = a \<Longrightarrow> sane_thread en s t \<Longrightarrow> sane_thread en s (f t)"
    and "\<And>t. at_id (f t) = at_id t"
  shows "sane_core en (on_agent a f s)"
proof -
  have "sane_thread en (on_agent a f s) = sane_thread en s" by (rule ext) (simp add: sane_thread_def on_agent_def)
  moreover have "map at_id (ac_threads (on_agent a f s)) = map at_id (ac_threads s)"
    by (simp add: on_agent_def assms(3))
  moreover have "\<forall>t \<in> set (ac_threads (on_agent a f s)). sane_thread en s t"
    using assms(1,2) by (auto simp: on_agent_def sane_core_def)
  ultimately show ?thesis
    using assms(1) unfolding sane_core_def by simp
qed

lemma moving_on_thread:
  assumes "moving_but i s" "\<And>t. t \<in> set (ac_threads s) \<Longrightarrow> p t \<Longrightarrow> Some (at_id t) \<noteq> i \<Longrightarrow> moving t \<Longrightarrow> moving (f t)"
    and "\<And>t. at_id (f t) = at_id t"
  shows "moving_but i (on_thread p f s)"
  using assms unfolding moving_but_def on_thread_def by (auto dest!: update_where_in)

lemma moving_on_agent:
  assumes "moving_but i s" "\<And>t. moving t \<Longrightarrow> moving (f t)" "\<And>t. at_id (f t) = at_id t"
  shows "moving_but i (on_agent a f s)"
  using assms unfolding moving_but_def on_agent_def by auto

lemma moving_but_one: "moving_but None s \<Longrightarrow> moving_but i s"
  by (simp add: moving_but_def)

lemma thread_by_id_in: "thread_by_id i s = Some t \<Longrightarrow> t \<in> set (ac_threads s) \<and> at_id t = i"
  by (auto simp: thread_by_id_def find_Some_iff)

lemma thread_by_id_unique:
  assumes "distinct (map at_id (ac_threads s))" "t \<in> set (ac_threads s)" "at_id t = i"
  shows "thread_by_id i s = Some t"
proof -
  have "distinct (map at_id ts) \<Longrightarrow> t \<in> set ts \<Longrightarrow> find (\<lambda>u. at_id u = at_id t) ts = Some t" for ts
    by (induction ts) (auto simp: image_iff)
  with assms show ?thesis by (auto simp: thread_by_id_def)
qed

lemma moving_all:
  assumes "moving_but (Some i) s" "\<And>t. thread_by_id i s = Some t \<Longrightarrow> moving t" "distinct (map at_id (ac_threads s))"
  shows "moving_but None s"
  using assms thread_by_id_unique unfolding moving_but_def by blast

section \<open>Turns\<close>

lemma sane_threadD:
  "sane_core en s \<Longrightarrow> thread_by_id i s = Some t \<Longrightarrow> sane_thread en s t"
  by (auto simp: sane_core_def dest: thread_by_id_in)

lemma sane_turn_settled:
  "sane_thread en s t \<Longrightarrow> at_session t \<noteq> None \<Longrightarrow> sane_thread en s (turn_settled hint result t)"
  by (simp add: sane_thread_def)

lemma turn_over_inv:
  assumes "sane_core en s" "\<And>t. thread_by_id i s = Some t \<Longrightarrow> at_session t \<noteq> None" "moving_but (Some i) s"
  shows "sane_core en (turn_over now en' i result s) \<and> moving_but (Some i) (turn_over now en' i result s)"
proof (cases "thread_by_id i s")
  case (Some t)
  let ?hint = "Option.bind (agent_by_id (at_agent t) s) ai_sign_in"
  let ?s = "on_id i (turn_settled ?hint result) s"
  have "sane_core en ?s"
  proof (rule sane_on_thread [OF assms(1)])
    fix u assume u: "u \<in> set (ac_threads s)" "at_id u = i" "sane_thread en s u"
    have "thread_by_id i s = Some u"
      using assms(1) u by (intro thread_by_id_unique) (auto simp: sane_core_def)
    from sane_turn_settled [OF u(3) assms(2) [OF this]]
    show "sane_thread en s (turn_settled ?hint result u)" .
  qed simp
  moreover have "moving_but (Some i) ?s"
    using assms(3) by (intro moving_on_thread) auto
  moreover have fr: "agent_frame (turn_over now en' i result s) = agent_frame ?s"
    using Some by (simp add: turn_over_def Let_def)
  ultimately show ?thesis
    using frame_sane [OF fr] frame_moving [OF fr] by simp
qed (use assms in \<open>simp add: turn_over_def\<close>)

lemma moving_settled:
  assumes "sane_core en s" "moving_but (Some i) s" "\<And>t. thread_by_id i s = Some t \<Longrightarrow> moving t"
  shows "agent_inv en s"
  using assms moving_all by (auto simp: agent_inv_def sane_core_def)

lemma inv_frame: "agent_frame s = agent_frame s' \<Longrightarrow> agent_inv en s = agent_inv en s'"
  using frame_sane [of s s'] frame_moving [of s s'] by (simp add: agent_inv_def)

lemma sane_take_prompt:
  assumes "sane_core en s" "thread_by_id i s = Some t" "at_session t \<noteq> None"
  shows "sane_core en (on_id i take_prompt s)"
proof (rule sane_on_thread [OF assms(1)])
  fix u assume u: "u \<in> set (ac_threads s)" "at_id u = i" "sane_thread en s u"
  have "thread_by_id i s = Some u"
    using assms(1) u by (intro thread_by_id_unique) (auto simp: sane_core_def)
  with assms(2,3) u(3) show "sane_thread en s (take_prompt u)"
    by (simp add: sane_thread_def take_prompt_def)
qed (simp add: take_prompt_def)

lemma next_prompt_inv:
  "sane_core en s \<Longrightarrow> moving_but (Some i) s \<Longrightarrow> agent_inv en (next_prompt now en' refused i s)"
proof (induction now en' refused i s rule: next_prompt.induct)
  case (1 now en' refused i s)
  show ?case
  proof (cases "thread_by_id i s")
    case None
    then show ?thesis
      using moving_settled [OF "1.prems"] by (simp add: next_prompt.simps [of now en' refused i s])
  next
    case (Some t)
    have sane: "sane_thread en s t" using sane_threadD [OF "1.prems"(1) Some] .
    show ?thesis
    proof (cases "at_status t \<noteq> ThreadIdle \<or> at_queued t = []")
      case True
      then have "agent_inv en s"
        using Some by (intro moving_settled [OF "1.prems"]) (auto simp: moving_def)
      with True Some show ?thesis by (simp add: next_prompt.simps [of now en' refused i s])
    next
      case False
      then obtain session where session: "at_session t = Some session"
        using sane by (auto simp: sane_thread_def)
      let ?s = "on_id i take_prompt s"
      have sane': "sane_core en ?s"
        by (rule sane_take_prompt [OF "1.prems"(1) Some]) (simp add: session)
      have but: "moving_but (Some i) ?s"
        using "1.prems"(2) by (intro moving_on_thread) (auto simp: take_prompt_def)
      have at_i: "thread_by_id i ?s = Some (take_prompt t)"
        using Some by (simp add: thread_by_id_on take_prompt_def)
      then have inv: "agent_inv en ?s"
        using sane' but by (intro moving_settled) (auto simp: moving_def take_prompt_def)
      show ?thesis
      proof (cases "agent_connection_of (at_agent t) s")
        case None
        with Some False session inv show ?thesis
          by (simp add: next_prompt.simps [of now en' refused i s] Let_def)
      next
        case conn: (Some c)
        show ?thesis
        proof (cases refused)
          case None
          have fr: "agent_frame (tell xs ?s) = agent_frame ?s" for xs by simp
          from None Some False session conn show ?thesis
            using inv inv_frame [OF fr] by (simp add: next_prompt.simps [of now en' None i s] Let_def)
        next
          case err: (Some err)
          have "sane_core en (turn_over now en' i (Inl err) ?s) \<and> moving_but (Some i) (turn_over now en' i (Inl err) ?s)"
            using sane' but at_i session by (intro turn_over_inv) (auto simp: take_prompt_def)
          then have "agent_inv en (next_prompt now en' refused i (turn_over now en' i (Inl err) ?s))"
            using "1.IH" [OF Some False session refl conn err] by simp
          with Some False session conn err show ?thesis
            by (simp add: next_prompt.simps [of now en' "Some err" i s] Let_def)
        qed
      qed
    qed
  qed
qed

lemma turn_ended_inv:
  assumes "agent_inv en s" "\<And>t. thread_by_id i s = Some t \<Longrightarrow> at_session t \<noteq> None"
  shows "agent_inv en (turn_ended now en' refused i result s)"
proof -
  have "sane_core en (turn_over now en' i result s) \<and> moving_but (Some i) (turn_over now en' i result s)"
    using assms by (intro turn_over_inv) (auto simp: agent_inv_def intro: moving_but_one)
  then show ?thesis
    using assms(1) by (simp add: turn_ended_def next_prompt_inv)
qed

section \<open>Sessions and agents\<close>

text \<open>Changes of a thread that the invariant does not see, and those of a status that is neither idle nor
  running.\<close>

lemma inv_on_thread:
  assumes "agent_inv en s" "\<And>t. at_id (f t) = at_id t"
    and "\<And>t. t \<in> set (ac_threads s) \<Longrightarrow> p t \<Longrightarrow> sane_thread en s t \<Longrightarrow> moving t \<Longrightarrow> sane_thread en s (f t) \<and> moving (f t)"
  shows "agent_inv en (on_thread p f s)"
proof -
  have sane: "sane_core en s" and mv: "moving_but None s" using assms(1) by (simp_all add: agent_inv_def)
  have each: "sane_thread en s (f t) \<and> moving (f t)" if "t \<in> set (ac_threads s)" "p t" for t
    using that assms(3) sane mv by (simp add: sane_core_def moving_but_def)
  have "sane_core en (on_thread p f s)" by (rule sane_on_thread [OF sane _ assms(2)]) (simp add: each)
  moreover have "moving_but None (on_thread p f s)" by (rule moving_on_thread [OF mv _ assms(2)]) (simp add: each)
  ultimately show ?thesis by (simp add: agent_inv_def)
qed

lemma inv_on_agent:
  assumes "agent_inv en s" "\<And>t. at_id (f t) = at_id t"
    and "\<And>t. sane_thread en s t \<Longrightarrow> at_agent t = a \<Longrightarrow> sane_thread en s (f t)" "\<And>t. moving t \<Longrightarrow> moving (f t)"
  shows "agent_inv en (on_agent a f s)"
  using assms unfolding agent_inv_def
  by (auto intro!: sane_on_agent moving_on_agent)

lemma conn_ready: "agent_connection_of a s = Some c \<Longrightarrow> agent_ready (ac_slots s) a"
  by (auto simp: agent_connection_of_def agent_ready_def split: option.splits agent_slot.splits)

lemma open_session_inv: "agent_inv en s \<Longrightarrow> agent_inv en (open_session i s)"
proof (cases "thread_by_id i s")
  case (Some t)
  assume inv: "agent_inv en s"
  show ?thesis
  proof (cases "agent_connection_of (at_agent t) s = None \<or> at_cluster t \<notin> ac_contexts s")
    case False
    then obtain c where "agent_connection_of (at_agent t) s = Some c" by auto
    then have ready: "agent_ready (ac_slots s) (at_agent t)" by (rule conn_ready)
    let ?f = "\<lambda>t. t\<lparr>at_tasks := at_tasks t @ [ac_next_task s]\<rparr>"
    have "agent_inv en (on_id i ?f s)"
    proof (rule inv_on_thread [OF inv])
      fix u assume u: "u \<in> set (ac_threads s)" "at_id u = i" "sane_thread en s u" "moving u"
      have "thread_by_id i s = Some u"
        using inv u by (intro thread_by_id_unique) (auto simp: agent_inv_def sane_core_def)
      with u Some ready show "sane_thread en s (?f u) \<and> moving (?f u)"
        by (simp add: sane_thread_def moving_def)
    qed simp
    moreover have fr: "agent_frame (open_session i s) = agent_frame (on_id i ?f s)"
      using Some False by (auto simp: open_session_def new_task_def agent_frame_def on_thread_def tell_def)
    ultimately show ?thesis using inv_frame [OF fr] by simp
  qed (use inv Some in \<open>simp add: open_session_def\<close>)
qed (simp add: open_session_def)

text \<open>Changes that only touch what the invariant does not read, but for the status, the tasks or the cards.\<close>

definition calm_change :: "(agent_thread \<Rightarrow> agent_thread) \<Rightarrow> bool" where
  "calm_change f \<longleftrightarrow>
     (\<forall>t. at_id (f t) = at_id t \<and> at_agent (f t) = at_agent t \<and> at_cluster (f t) = at_cluster t \<and>
          at_session (f t) = at_session t \<and> set (at_tasks (f t)) \<subseteq> set (at_tasks t) \<and>
          (at_status (f t) = at_status t \<or> at_status (f t) \<noteq> ThreadIdle \<and> at_status (f t) \<noteq> ThreadRunning) \<and>
          (at_queued (f t) = at_queued t \<or> at_queued (f t) = []) \<and>
          set (at_pending (f t)) \<subseteq> set (at_pending t) \<and>
          (distinct (map pg_id (at_pending t)) \<longrightarrow> distinct (map pg_id (at_pending (f t)))))"

lemma distinct_filter_map: "distinct (map f xs) \<Longrightarrow> distinct (map f (filter p xs))"
  by (induction xs) auto

lemma remove_first_ids:
  "distinct (map f xs) \<Longrightarrow> distinct (map f (remove_first p xs))"
  using remove_first_subset by (induction xs) fastforce+

lemma calm_simps [simp]:
  "calm_change (\<lambda>t. t\<lparr>at_transcript := g t\<rparr>)"
  "calm_change (\<lambda>t. t\<lparr>at_transcript := g t, at_modes := ms\<rparr>)"
  "calm_change (\<lambda>t. t\<lparr>at_grant := gr\<rparr>)"
  "calm_change (\<lambda>t. t\<lparr>at_writes := w\<rparr>)"
  "calm_change (\<lambda>t. t\<lparr>at_tasks := remove1 n (at_tasks t)\<rparr>)"
  "st \<noteq> ThreadIdle \<Longrightarrow> st \<noteq> ThreadRunning \<Longrightarrow> calm_change (\<lambda>t. t\<lparr>at_status := st\<rparr>)"
  "st \<noteq> ThreadIdle \<Longrightarrow> st \<noteq> ThreadRunning \<Longrightarrow> calm_change (\<lambda>t. t\<lparr>at_notes := ns t, at_status := st\<rparr>)"
  "calm_change (retain keep)"
  "calm_change (\<lambda>t. (without_changes t)\<lparr>at_writes := w\<rparr>)"
  "calm_change (\<lambda>t. t\<lparr>at_queued := [], at_pending := []\<rparr>)"
  "calm_change (\<lambda>t. t\<lparr>at_pending := remove_first p (at_pending t)\<rparr>)"
  by (auto simp: calm_change_def retain_def without_changes_def set_remove1_subset distinct_filter_map
      remove_first_ids dest: subsetD [OF remove_first_subset])

lemma calm_keeps:
  assumes "calm_change f" "sane_thread en s t" "moving t"
  shows "sane_thread en s (f t) \<and> moving (f t)"
proof -
  note f = assms(1) [unfolded calm_change_def, rule_format, of t]
  have "distinct (map pg_id (at_pending (f t))) \<and> list_all (card_ok en (ac_next_pending s)) (at_pending (f t))"
    using assms(2) f by (auto simp: sane_thread_def list_all_iff)
  moreover have "at_tasks t \<noteq> []" if "at_tasks (f t) \<noteq> []" using f that by (cases "at_tasks (f t)") auto
  ultimately show ?thesis
    using f assms(2,3) by (auto simp: sane_thread_def moving_def)
qed

lemma inv_calm: "agent_inv en s \<Longrightarrow> calm_change f \<Longrightarrow> agent_inv en (on_thread p f s)"
  by (rule inv_on_thread) (auto simp: calm_keeps, auto simp: calm_change_def)

lemma inv_calm_agent: "agent_inv en s \<Longrightarrow> calm_change f \<Longrightarrow> agent_inv en (on_agent a f s)"
proof -
  assume inv: "agent_inv en s" and f: "calm_change f"
  have "agent_inv en s \<Longrightarrow> t \<in> set (ac_threads s) \<Longrightarrow> sane_thread en s (f t) \<and> moving (f t)" for t
    using calm_keeps [OF f] by (auto simp: agent_inv_def sane_core_def moving_but_def)
  then have each: "sane_thread en s (f t) \<and> moving (f t)" if "t \<in> set (ac_threads s)" for t
    using inv that by blast
  have "sane_core en (on_agent a f s)"
    using inv each f by (intro sane_on_agent) (auto simp: agent_inv_def calm_change_def)
  moreover have "moving_but None (on_agent a f s)"
    using inv each by (auto simp: moving_but_def on_agent_def agent_inv_def)
  ultimately show ?thesis by (simp add: agent_inv_def)
qed

lemma inv_calm_all:
  assumes "agent_inv en s" "calm_change f"
  shows "agent_inv en (s\<lparr>ac_threads := map f (ac_threads s)\<rparr>)"
proof -
  let ?s = "s\<lparr>ac_threads := map f (ac_threads s)\<rparr>"
  have same: "sane_thread en ?s t = sane_thread en s t" for t by (simp add: sane_thread_def)
  have ids: "map at_id (map f (ac_threads s)) = map at_id (ac_threads s)"
    using assms(2) by (simp add: calm_change_def)
  have "sane_thread en ?s t \<and> moving t" if "t \<in> set (ac_threads ?s)" for t
    using that assms calm_keeps unfolding same
    by (auto simp: agent_inv_def sane_core_def moving_but_def)
  moreover have "distinct (map at_id (ac_threads ?s))"
    using assms(1) ids by (simp add: agent_inv_def sane_core_def del: map_map)
  ultimately show ?thesis
    unfolding agent_inv_def sane_core_def moving_but_def by blast
qed

lemma inv_tell [simp]: "agent_inv en (tell xs s) = agent_inv en s"
  by (rule inv_frame) simp

lemma inv_set_running [simp]: "agent_inv en (set_running a b s) = agent_inv en s"
  by (rule inv_frame) simp

lemma inv_lookup [simp]: "agent_inv en (lookup_agents w s) = agent_inv en s"
  by (rule inv_frame) simp

lemma inv_fields [simp]:
  "agent_inv en (s\<lparr>ac_path := path\<rparr>) = agent_inv en s"
  "agent_inv en (s\<lparr>ac_agents := c\<rparr>) = agent_inv en s"
  "agent_inv en (s\<lparr>ac_next_task := n\<rparr>) = agent_inv en s"
  "agent_inv en (s\<lparr>ac_settings := st\<rparr>) = agent_inv en s"
  by (rule inv_frame; simp)+

text \<open>A change of the slots that leaves the agents with open sessions ready.\<close>

lemma inv_slots:
  assumes "agent_inv en s"
    and "\<And>t. t \<in> set (ac_threads s) \<Longrightarrow> at_session t \<noteq> None \<or> at_tasks t \<noteq> [] \<Longrightarrow>
           agent_ready (ac_slots s) (at_agent t) \<Longrightarrow> agent_ready slots (at_agent t)"
  shows "agent_inv en (s\<lparr>ac_slots := slots\<rparr>)"
  using assms by (auto simp: agent_inv_def sane_core_def sane_thread_def moving_but_def)

lemma not_ready_slots:
  assumes "agent_inv en s" "\<not> agent_ready (ac_slots s) a"
  shows "agent_inv en (s\<lparr>ac_slots := (ac_slots s)(a := slot)\<rparr>)"
  using assms(2) by (intro inv_slots [OF assms(1)]) (auto simp: agent_ready_def)

lemma open_waiting_inv: "agent_inv en s \<Longrightarrow> agent_inv en (open_waiting a s)"
proof -
  have "agent_inv en (fold (\<lambda>i s. open_session i (on_id i (\<lambda>t. t\<lparr>at_status := ThreadStarting\<rparr>) s)) is s)"
    if "agent_inv en s" for "is" s
    using that by (induction "is" arbitrary: s) (simp_all add: open_session_inv inv_calm)
  then show "agent_inv en s \<Longrightarrow> ?thesis" by (simp add: open_waiting_def)
qed

lemma ensure_agent_inv: "agent_inv en s \<Longrightarrow> agent_inv en (ensure_agent a s)"
proof -
  assume inv: "agent_inv en s"
  have slots: "agent_inv en (s\<lparr>ac_next_task := n, ac_slots := (ac_slots s)(a \<mapsto> SlotStarting m)\<rparr>)"
    if "ac_slots s a = None" for n m
  proof -
    have "agent_inv en (s\<lparr>ac_slots := (ac_slots s)(a \<mapsto> SlotStarting m)\<rparr>)"
      using that by (intro not_ready_slots [OF inv]) (simp add: agent_ready_def)
    moreover have fr: "agent_frame (s\<lparr>ac_next_task := n, ac_slots := (ac_slots s)(a \<mapsto> SlotStarting m)\<rparr>) =
        agent_frame (s\<lparr>ac_slots := (ac_slots s)(a \<mapsto> SlotStarting m)\<rparr>)"
      by (simp add: agent_frame_def)
    ultimately show ?thesis using inv_frame [OF fr] by simp
  qed
  show ?thesis
    using inv slots
    by (auto simp: ensure_agent_def new_task_def Let_def open_waiting_inv inv_calm_agent
        split: option.split agent_slot.split)
qed

lemma looked_up_inv: "agent_inv en s \<Longrightarrow> agent_inv en (looked_up n path found s)"
  by (simp add: looked_up_def Let_def ensure_agent_inv split: option.split prod.split)

lemma agent_started_inv: "agent_inv en s \<Longrightarrow> agent_inv en (agent_started n a result s)"
proof -
  assume inv: "agent_inv en s"
  show ?thesis
  proof (cases "ac_slots s a = Some (SlotStarting n)")
    case True
    then have "\<not> agent_ready (ac_slots s) a" by (simp add: agent_ready_def)
    note slots = not_ready_slots [OF inv this]
    have "calm_change (\<lambda>t. if at_session t = None then t\<lparr>at_status := ThreadFailed m\<rparr> else t)" for m
      using calm_simps(6) [of "ThreadFailed m"] calm_simps(8) [of "\<lambda>_. True"]
      by (auto simp: calm_change_def retain_def)
    with True slots show ?thesis
      by (simp add: agent_started_def attach_def open_waiting_inv inv_calm_agent split: sum.split)
  qed (use inv in \<open>simp add: agent_started_def\<close>)
qed

lemma if_frame: "agent_frame u = agent_frame v \<Longrightarrow> agent_frame (if b then u else v) = agent_frame v"
  by simp

text \<open>A session is opened by a task of its thread, which the agent's connection answers.\<close>

lemma session_opened_inv:
  assumes inv: "agent_inv en s"
    and ready: "\<And>t. thread_by_id i s = Some t \<Longrightarrow> agent_ready (ac_slots s) (at_agent t)"
  shows "agent_inv en (session_opened now en' refused i result s)"
proof (cases "thread_by_id i s")
  case (Some t)
  have failed: "agent_inv en (on_id i (\<lambda>t. t\<lparr>at_status := ThreadFailed m\<rparr>) s)" for m
    using inv by (rule inv_calm) simp
  have noted: "agent_inv en (on_id i (\<lambda>t. t\<lparr>at_notes := ns t, at_status := st\<rparr>) s)"
    if "st \<noteq> ThreadIdle" "st \<noteq> ThreadRunning" for ns st
    using inv by (rule inv_calm) (simp add: that)
  have opened: "agent_inv en (next_prompt now en' refused i u)"
    if u: "agent_frame u = agent_frame (on_id i f s)"
      and f: "\<And>t. at_id (f t) = at_id t \<and> at_agent (f t) = at_agent t \<and> at_cluster (f t) = at_cluster t \<and>
        at_session (f t) \<noteq> None \<and> at_pending (f t) = at_pending t" for f u
  proof -
    have "sane_core en (on_id i f s)"
    proof (rule sane_on_thread)
      show "sane_core en s" using inv by (simp add: agent_inv_def)
      fix v assume v: "v \<in> set (ac_threads s)" "at_id v = i" "sane_thread en s v"
      have "thread_by_id i s = Some v"
        using inv v by (intro thread_by_id_unique) (auto simp: agent_inv_def sane_core_def)
      with ready f [of v] v(3) show "sane_thread en s (f v)" by (simp add: sane_thread_def)
    qed (simp add: f)
    moreover have "moving_but (Some i) s"
      using inv moving_but_one by (simp add: agent_inv_def)
    then have "moving_but (Some i) (on_id i f s)"
      by (rule moving_on_thread) (auto simp: f)
    ultimately show ?thesis
      using frame_sane [OF u] frame_moving [OF u] by (intro next_prompt_inv) simp_all
  qed
  show ?thesis
  proof (cases result)
    case (Inl m)
    with Some failed show ?thesis by (simp add: session_opened_def Let_def)
  next
    case (Inr r)
    obtain server response remark where r: "r = (server, response, remark)" by (cases r)
    show ?thesis
    proof (cases response)
      case (Inl err)
      with Some Inr r noted show ?thesis
        by (simp add: session_opened_def note_added_def Let_def split: prod.split)
    next
      case ok: (Inr a)
      let ?u = "on_id i (session_applied remark server a) s"
      have both: "agent_inv en (next_prompt now en' refused i ?u)"
        "agent_inv en (next_prompt now en' refused i (remember now en' i ?u))"
        by (rule opened [of _ "session_applied remark server a"]; simp)+
      show ?thesis
        unfolding session_opened_def Some option.case Let_def Inr r ok sum.case prod.case
        using both by (simp split: if_split)
    qed
  qed
qed (use inv in \<open>simp add: session_opened_def\<close>)

section \<open>Threads and cards\<close>

lemma retry_inv: "agent_inv en s \<Longrightarrow> agent_inv en (retry_thread i s)"
  by (simp add: retry_thread_def ensure_agent_inv inv_calm split: option.split)

lemma cancel_inv: "agent_inv en s \<Longrightarrow> agent_inv en (cancel_thread i s)"
  by (auto simp: cancel_thread_def Let_def inv_calm split: option.split)

text \<open>Fewer threads, and slots and contexts that only the missing ones used.\<close>

lemma inv_fewer:
  assumes "agent_inv en s" "distinct (map at_id ts)" "set ts \<subseteq> set (ac_threads s)"
    and "\<And>t. t \<in> set ts \<Longrightarrow> slots (at_agent t) = ac_slots s (at_agent t) \<and> (at_cluster t \<in> ac_contexts s \<longrightarrow> at_cluster t \<in> cs)"
    and fr: "agent_frame u = (ts, ac_next_thread s, cs, slots, ac_next_pending s)"
  shows "agent_inv en u"
proof -
  have u: "ac_threads u = ts" "ac_next_thread u = ac_next_thread s" "ac_contexts u = cs" "ac_slots u = slots"
    "ac_next_pending u = ac_next_pending s"
    using fr by (simp_all add: agent_frame_def)
  have "sane_thread en u t \<and> moving t" if "t \<in> set ts" for t
  proof -
    have "sane_thread en s t" "moving t"
      using assms(1,3) that by (auto simp: agent_inv_def sane_core_def moving_but_def)
    then show ?thesis using assms(4) [OF that] by (auto simp: sane_thread_def u agent_ready_def)
  qed
  then show ?thesis
    using assms(2) by (simp add: agent_inv_def sane_core_def moving_but_def u)
qed

lemma close_inv: "agent_inv en s \<Longrightarrow> agent_inv en (close_thread i s)"
proof (cases "thread_by_id i s")
  case (Some t)
  assume "agent_inv en s"
  then have inv: "agent_inv en (cancel_thread i s)" by (rule cancel_inv)
  let ?s = "cancel_thread i s"
  let ?ts = "remove_first (\<lambda>t. at_id t = i) (ac_threads ?s)"
  define slots where "slots = (if list_ex (\<lambda>u. at_agent u = at_agent t) ?ts then ac_slots ?s else (ac_slots ?s)(at_agent t := None))"
  define cs where "cs = (if list_ex (\<lambda>u. at_cluster u = at_cluster t) ?ts then ac_contexts ?s else ac_contexts ?s - {at_cluster t})"
  have fr: "agent_frame (close_thread i s) = (?ts, ac_next_thread ?s, cs, slots, ac_next_pending ?s)"
    using Some
    by (auto simp: close_thread_def Let_def agent_frame_def slots_def cs_def tell_def set_running_def split: option.split)
  have "distinct (map at_id ?ts)"
    using inv by (intro remove_first_ids) (simp add: agent_inv_def sane_core_def)
  moreover have "slots (at_agent u) = ac_slots ?s (at_agent u) \<and> (at_cluster u \<in> ac_contexts ?s \<longrightarrow> at_cluster u \<in> cs)"
    if "u \<in> set ?ts" for u
    using that by (auto simp: slots_def cs_def list_ex_iff)
  ultimately show ?thesis
    by (intro inv_fewer [OF inv _ remove_first_subset _ fr])
qed (simp add: close_thread_def)

lemma send_inv: "agent_inv en s \<Longrightarrow> agent_inv en (send_prompt now en' refused i txt chips s)"
proof (cases "thread_by_id i s")
  case (Some t)
  assume inv: "agent_inv en s"
  let ?f = "\<lambda>t. t\<lparr>at_transcript := push_user txt chips (at_transcript t), at_queued := at_queued t @ [(txt, chips)]\<rparr>"
  let ?s = "on_id i ?f s"
  have sane: "sane_core en ?s"
    using inv by (intro sane_on_thread) (auto simp: agent_inv_def sane_thread_def)
  have "moving_but (Some i) s" using inv moving_but_one by (simp add: agent_inv_def)
  then have but: "moving_but (Some i) ?s" by (rule moving_on_thread) auto
  have at_i: "thread_by_id i ?s = Some (?f t)" using Some by (simp add: thread_by_id_on)
  have "agent_inv en ?s" if "at_status t \<noteq> ThreadIdle"
    using that at_i by (intro moving_settled [OF sane but]) (simp add: moving_def)
  with Some inv sane but show ?thesis
    by (auto simp: send_prompt_def Let_def next_prompt_inv retry_inv split: thread_status.split)
qed (simp add: send_prompt_def)

lemma sane_new_card:
  assumes "sane_thread en s t" "ac_next_pending s' = Suc (ac_next_pending s)" "card_ok en (Suc (ac_next_pending s)) p"
    and "pg_id p = Suc (ac_next_pending s)" "ac_slots s' = ac_slots s" "ac_contexts s' = ac_contexts s"
    "ac_next_thread s' = ac_next_thread s"
  shows "sane_thread en s' (t\<lparr>at_pending := at_pending t @ [p]\<rparr>)"
proof -
  have "pg_id q \<le> ac_next_pending s" if "q \<in> set (at_pending t)" for q
    using assms(1) that by (auto simp: sane_thread_def list_all_iff card_ok_def)
  then have "pg_id p \<notin> pg_id ` set (at_pending t)" using assms(4) by fastforce
  moreover have "card_ok en (Suc (ac_next_pending s)) q" if "q \<in> set (at_pending t)" for q
    using assms(1) that by (auto simp: sane_thread_def list_all_iff card_ok_def)
  ultimately show ?thesis
    using assms by (auto simp: sane_thread_def list_all_iff)
qed

lemma inv_next_pending: "agent_inv en s \<Longrightarrow> agent_inv en (s\<lparr>ac_next_pending := Suc (ac_next_pending s)\<rparr>)"
proof -
  have "card_ok en n q \<Longrightarrow> card_ok en (Suc n) q" for n q by (simp add: card_ok_def card_shows_def)
  then show "agent_inv en s \<Longrightarrow> ?thesis"
    by (auto simp: agent_inv_def sane_core_def moving_but_def sane_thread_def list_all_iff)
qed

lemma inv_new_card:
  assumes inv: "agent_inv en s" and p: "card_ok en (Suc (ac_next_pending s)) p" "pg_id p = Suc (ac_next_pending s)"
  shows "agent_inv en (on_thread q (\<lambda>t. t\<lparr>at_pending := at_pending t @ [p]\<rparr>) (s\<lparr>ac_next_pending := Suc (ac_next_pending s)\<rparr>))"
proof -
  let ?s = "s\<lparr>ac_next_pending := Suc (ac_next_pending s)\<rparr>"
  let ?f = "\<lambda>t. t\<lparr>at_pending := at_pending t @ [p]\<rparr>"
  have old: "sane_thread en s t \<and> moving t" if "t \<in> set (ac_threads s)" for t
    using inv that by (simp add: agent_inv_def sane_core_def moving_but_def)
  show ?thesis
  proof (rule inv_on_thread [OF inv_next_pending [OF inv]])
    fix t assume "t \<in> set (ac_threads ?s)"
    with old have "sane_thread en s t" "moving t" by auto
    then show "sane_thread en ?s (?f t) \<and> moving (?f t)"
      using sane_new_card [of en s t ?s p] p by (simp add: moving_def)
  qed simp
qed

lemma push_pending_inv:
  assumes "agent_inv en s"
    and "card_ok en (Suc (ac_next_pending s)) \<lparr>pg_id = Suc (ac_next_pending s), pg_kind = kind, pg_responder = Some r,
           pg_launch = launch, pg_approval = None\<rparr>"
  shows "agent_inv en (push_pending q kind r launch s)"
  using inv_new_card [OF assms] by (simp add: push_pending_def Let_def)

lemma change_requested_inv: "agent_inv en s \<Longrightarrow> agent_inv en (change_requested gone i p reply s)"
proof -
  assume inv: "agent_inv en s"
  have "card_ok en (Suc (ac_next_pending s)) \<lparr>pg_id = Suc (ac_next_pending s), pg_kind = ChangeCard p,
      pg_responder = None, pg_launch = None, pg_approval = Some reply\<rparr>"
    by (simp add: card_ok_def card_shows_def)
  note new = inv_new_card [OF inv this]
  show ?thesis
    using inv inv_next_pending [OF inv] new by (simp add: change_requested_def Let_def split: option.split)
qed

lemma settings_inv: "agent_inv en s \<Longrightarrow> agent_inv en (agent_settings_changed settings s)"
proof -
  assume inv: "agent_inv en s"
  have "agent_inv en (s\<lparr>ac_threads := map (\<lambda>t. (without_changes t)\<lparr>at_writes := False\<rparr>) (ac_threads s)\<rparr>)"
    using inv by (rule inv_calm_all) simp
  with inv show ?thesis
    by (simp add: agent_settings_changed_def refresh_agents_def Let_def)
qed

lemma start_inv: "agent_inv en s \<Longrightarrow> agent_inv en (start_thread en' seconds n s)"
proof -
  assume inv: "agent_inv en s"
  have "agent_inv en (s\<lparr>ac_next_thread := Suc (ac_next_thread s), ac_contexts := insert (at_cluster t) (ac_contexts s),
      ac_threads := ac_threads s @ [t]\<rparr>)" (is "agent_inv en ?s")
    if t: "at_id t = Suc (ac_next_thread s)" "at_session t = None" "at_tasks t = []" "at_status t = ThreadStarting"
      "at_pending t = []" for t
  proof -
    have "sane_thread en ?s u \<and> moving u" if "u \<in> set (ac_threads ?s)" for u
      using that inv t by (auto simp: agent_inv_def sane_core_def moving_but_def sane_thread_def moving_def)
    moreover have "at_id u \<le> ac_next_thread s" if "u \<in> set (ac_threads s)" for u
      using inv that by (simp add: agent_inv_def sane_core_def sane_thread_def)
    then have "at_id t \<notin> at_id ` set (ac_threads s)" using t(1) by fastforce
    ultimately show ?thesis
      using inv unfolding agent_inv_def sane_core_def moving_but_def by auto
  qed
  note new = this
  show ?thesis
    unfolding start_thread_def Let_def
    by (rule ensure_agent_inv, rule new [of "\<lparr>at_id = _, at_agent = _, at_agent_name = _, at_cluster = nt_cluster n,
        at_cluster_name = _, at_cwd = _, at_dir = _, at_status = _, at_transcript = _, at_session = _, at_modes = _,
        at_pending = _, at_queued = _, at_source = _, at_resume = _, at_first_prompt = _, at_grant = _, at_mcp = _,
        at_tasks = _, at_notes = _, at_writes = _\<rparr>", simplified]; simp)
qed

section \<open>The machine\<close>

lemma card_ok_plain:
  "case kind of CommandCard _ _ _ _ \<Rightarrow> False | _ \<Rightarrow> True \<Longrightarrow>
   card_ok en n \<lparr>pg_id = n, pg_kind = kind, pg_responder = r, pg_launch = None, pg_approval = a\<rparr>"
  by (cases kind) (simp_all add: card_ok_def card_shows_def)

lemma run_command_inv: "agent_inv en s \<Longrightarrow> agent_inv en (run_command a launch r s)"
  by (simp add: run_command_def split: option.split)

lemma create_terminal_inv: "agent_inv en s \<Longrightarrow> agent_inv en (create_terminal now en a session q kubeconfig r s)"
proof (cases "thread_of_session a session s")
  case (Some t)
  assume inv: "agent_inv en s"
  let ?env = "filter (\<lambda>e. \<not> sets_kubeconfig e) (tq_env q)"
  have "agent_inv en (push_pending p (CommandCard (command_line (tq_command q) (tq_args q)) cwd (map (\<lambda>(n, v). (n, ae_scrub en v)) ?env) ws) r
      (Some \<lparr>la_command = tq_command q, la_args = tq_args q, la_env = ?env, la_cwd = cwd, la_output_limit = lim, la_path = path,
             la_kubeconfig = kubeconfig\<rparr>) s)" for p cwd ws lim path
    using inv by (rule push_pending_inv) (simp add: card_ok_def card_shows_def list_all_iff)
  moreover have "agent_inv en (run_command a launch r (on_thread p (\<lambda>t. t\<lparr>at_grant := None\<rparr>) s))" for launch p
    using inv by (intro run_command_inv inv_calm) simp_all
  ultimately show ?thesis
    using Some by (simp add: create_terminal_def Let_def)
qed (simp add: create_terminal_def)

lemma agent_closed_inv: "agent_inv en s \<Longrightarrow> agent_inv en (agent_closed a tail s)"
proof -
  assume inv: "agent_inv en s"
  define m where "m = (if tail = [] then ''The agent stopped.'' else ''The agent stopped:'' @ [CHR 0x0A] @ tail)"
  let ?f = "\<lambda>t. t\<lparr>at_transcript := settle_tools (at_transcript t), at_pending := [], at_session := None,
                 at_mcp := None, at_tasks := [], at_status := ThreadEnded m\<rparr>"
  let ?s = "on_agent a ?f (s\<lparr>ac_slots := (ac_slots s)(a := None)\<rparr>)"
  have fr: "agent_frame (agent_closed a tail s) = agent_frame ?s"
    by (simp add: agent_closed_def Let_def m_def agent_frame_def on_agent_def tell_def set_running_def)
  have old: "sane_thread en s t \<and> moving t" if "t \<in> set (ac_threads s)" for t
    using inv that by (simp add: agent_inv_def sane_core_def moving_but_def)
  have "sane_thread en ?s t \<and> moving t" if "t \<in> set (ac_threads ?s)" for t
    using that old by (auto simp: on_agent_def sane_thread_def moving_def agent_ready_def)
  moreover have "map at_id (ac_threads ?s) = map at_id (ac_threads s)" by (simp add: on_agent_def)
  ultimately have "agent_inv en ?s"
    using inv by (simp add: agent_inv_def sane_core_def moving_but_def)
  then show ?thesis using inv_frame [OF fr] by simp
qed

lemma handle_call_inv: "agent_inv en s \<Longrightarrow> agent_inv en (handle_call now clock en refused a call s)"
proof (cases call)
  case (UpdateCall session u)
  moreover assume "agent_inv en s"
  ultimately show ?thesis by (simp add: handle_call_def apply_session_update_def Let_def inv_calm)
next
  case (TurnEndedCall session result)
  moreover assume inv: "agent_inv en s"
  moreover have "at_session u \<noteq> None" if "thread_of_session a session s = Some t" "thread_by_id (at_id t) s = Some u" for t u
  proof -
    have "thread_by_id (at_id t) s = Some t"
      using inv of_session_in [OF that(1)] by (intro thread_by_id_unique) (auto simp: agent_inv_def sane_core_def)
    with that show ?thesis by (auto simp: thread_of_session_def find_Some_iff of_session_def)
  qed
  ultimately show ?thesis
    by (simp add: handle_call_def turn_ended_inv split: option.split)
next
  case (ElicitationCall session request r)
  moreover assume "agent_inv en s"
  moreover have "card_ok en n \<lparr>pg_id = n, pg_kind = (case e of FormRequest m title fs \<Rightarrow> FormCard m title fs
      | UrlRequest m url e \<Rightarrow> OpenUrlCard m url e), pg_responder = Some r, pg_launch = None, pg_approval = None\<rparr>" for n e
    by (cases e) (simp_all add: card_ok_plain)
  ultimately show ?thesis
    by (simp add: handle_call_def elicit_def push_pending_inv split: sum.split option.split)
next
  case (PermissionCall session q r)
  moreover assume "agent_inv en s"
  ultimately show ?thesis
    by (simp add: handle_call_def permission_def permission_card_def Let_def push_pending_inv card_ok_plain split: option.split)
qed (simp_all add: handle_call_def create_terminal_inv agent_closed_inv read_file_asked_def write_file_asked_def
      elicitation_done_def push_pending_inv card_ok_plain inv_calm_agent)

lemma answer_inv: "agent_inv en s \<Longrightarrow> agent_inv en (answer_pending now i n ans s)"
proof -
  assume inv: "agent_inv en s"
  have "agent_inv en (on_id i (\<lambda>t. t\<lparr>at_pending := remove_first p (at_pending t)\<rparr>) s)" for p
    using inv by (rule inv_calm) simp
  moreover have "agent_inv en (answer_card now i a item r ans u)" if "agent_inv en u" for a item r u
    using that by (simp add: answer_card_def run_command_inv inv_calm split: pending_kind.split option.split user_answer.split)
  ultimately show ?thesis
    using inv by (simp add: answer_pending_def Let_def split: option.split)
qed

lemma agent_do_inv: "agent_inv en s \<Longrightarrow> agent_inv en (agent_do en x s)"
proof (cases x)
  case (SessionOpened clock refused i n result)
  assume inv: "agent_inv en s"
  show ?thesis
  proof (cases "holds_task i n s")
    case True
    have fin: "agent_inv en (task_finished i n s)"
      unfolding task_finished_def using inv by (rule inv_calm) simp
    have "agent_ready (ac_slots (task_finished i n s)) (at_agent u)" if u: "thread_by_id i (task_finished i n s) = Some u" for u
    proof -
      obtain t where t: "thread_by_id i s = Some t" "n \<in> set (at_tasks t)" "at_agent u = at_agent t"
      proof (cases "thread_by_id i s")
        case None
        with True show ?thesis by (simp add: holds_task_def)
      next
        case (Some t)
        with True have "n \<in> set (at_tasks t)" by (simp add: holds_task_def)
        moreover have "u = t\<lparr>at_tasks := remove1 n (at_tasks t)\<rparr>"
          using Some u by (simp add: task_finished_def thread_by_id_on)
        ultimately show ?thesis using Some by (intro that) simp_all
      qed
      then have "agent_ready (ac_slots s) (at_agent t)"
        using inv sane_threadD [of en s i t] by (auto simp: agent_inv_def sane_thread_def)
      with t show ?thesis by (simp add: task_finished_def on_thread_def)
    qed
    from session_opened_inv [OF fin this] True SessionOpened show ?thesis by (simp add: agent_do_def)
  qed (use inv SessionOpened in \<open>simp add: agent_do_def\<close>)
next
  case (SignIn i m)
  moreover assume "agent_inv en s"
  ultimately show ?thesis
    by (simp add: agent_do_def sign_in_def Let_def retry_inv inv_calm split: option.split)
next
  case (SetMode i m)
  moreover assume "agent_inv en s"
  ultimately show ?thesis by (simp add: agent_do_def set_mode_def Let_def inv_calm split: option.split)
next
  case (SetConfig i c v)
  moreover assume "agent_inv en s"
  ultimately show ?thesis by (simp add: agent_do_def change_config_def Let_def inv_calm split: option.split)
next
  case (SetWrites i b)
  moreover assume "agent_inv en s"
  ultimately show ?thesis by (simp add: agent_do_def set_writes_def inv_calm split: option.split)
next
  case (SetProgram a program)
  moreover assume "agent_inv en s"
  ultimately show ?thesis using inv_frame [of "assign_program a program s" s en] by (simp add: agent_do_def)
qed (simp_all add: agent_do_def start_inv retry_inv close_inv send_inv cancel_inv mode_answered_def config_answered_def
      push_notice_def signed_in_def prune_changes_def change_requested_inv settings_inv refresh_agents_def looked_up_inv
      agent_started_inv handle_call_inv answer_inv open_session_inv inv_calm inv_calm_all
      split: option.split sum.split)

interpretation conversing: machine "agent_do en" "agent_inv en" for en
  by unfold_locales (rule agent_do_inv)

lemma agent_run_inv: "agent_inv en (agent_run en settings ops)"
  unfolding agent_run_def
  by (rule conversing.run_keeps) (simp add: agent_inv_def sane_core_def moving_but_def core_new_def)

section \<open>What holds of every run\<close>

text \<open>C31: No prompt is left behind: whatever users, agents and tasks did, and in whatever order their results
  came, a thread with a prompt in its queue is not idle (it waits for a turn, a session, a sign-in or a
  retry), and a thread that is idle or in a turn has its session and its agent's connection.\<close>

theorem prompts_not_stranded:
  "list_all (\<lambda>t. (if at_queued t = [] then True else at_status t \<noteq> ThreadIdle) \<and>
                 (case at_status t of
                    ThreadIdle \<Rightarrow> at_session t \<noteq> None \<and> agent_connection_of (at_agent t) (agent_run en settings ops) \<noteq> None
                  | ThreadRunning \<Rightarrow> at_session t \<noteq> None \<and> agent_connection_of (at_agent t) (agent_run en settings ops) \<noteq> None
                  | _ \<Rightarrow> True))
     (ac_threads (agent_run en settings ops))"
  using agent_run_inv [of en settings ops]
  by (fastforce simp: list_all_iff agent_inv_def sane_core_def sane_thread_def moving_but_def moving_def agent_ready_def
      agent_connection_of_def split: thread_status.split option.splits agent_slot.splits)

text \<open>C32: The cards of a thread have distinct numbers, so an answer settles the card it was given to, and each
  card for a command shows the command, the folder and the variables that an approval would run.\<close>

theorem cards_show_commands:
  "list_all (\<lambda>t. distinct (map pg_id (at_pending t)) \<and> list_all (card_shows en) (at_pending t))
     (ac_threads (agent_run en settings ops))"
  using agent_run_inv [of en settings ops]
  by (auto simp: agent_inv_def sane_core_def sane_thread_def list_all_iff card_ok_def)

end
