(* ===== verification/AgentGaps.thy ===== *)
theory AgentGaps
  imports AgentSafety
begin

text \<open>
  What becomes of prompts an agent refuses, and the runs in which the core loses a conversation: a session
  opened twice, a sign-in asked in the middle of a conversation, a look-up of the agents that is replaced,
  and a session opened again without what the first prompt says about the cluster.
\<close>

section \<open>Prompts that are refused\<close>

lemma turn_over_at:
  assumes "thread_by_id i s = Some t"
  shows "thread_by_id i (turn_over now en i result s) =
     Some (turn_settled (Option.bind (agent_by_id (at_agent t) s) ai_sign_in) result t)"
  using assms by (simp add: turn_over_def Let_def thread_by_id_threads [OF threads_remember_if] thread_by_id_on)

lemma turn_over_keeps [simp]:
  "ac_slots (turn_over now en i result s) = ac_slots s" "ac_agents (turn_over now en i result s) = ac_agents s"
  by (simp_all add: turn_over_def Let_def remember_if_loadable_def remember_def tell_def on_thread_def split: option.split)

lemma turn_over_connection [simp]: "agent_connection_of a (turn_over now en i result s) = agent_connection_of a s"
  by (simp add: agent_connection_of_def)

lemma on_thread_connection [simp]: "agent_connection_of a (on_thread p f s) = agent_connection_of a s"
  by (simp add: agent_connection_of_def on_thread_def)

lemma on_thread_agents [simp]: "agent_by_id a (on_thread p f s) = agent_by_id a s"
  by (simp add: agent_by_id_def on_thread_def)

lemma turn_over_agents [simp]: "agent_by_id a (turn_over now en i result s) = agent_by_id a s"
  by (simp add: agent_by_id_def)

lemma take_prompt_fields [simp]:
  "at_id (take_prompt t) = at_id t" "at_agent (take_prompt t) = at_agent t" "at_session (take_prompt t) = at_session t"
  by (simp_all add: take_prompt_def)

text \<open>How a thread is left by a connection that refuses its prompts.\<close>

definition left_refused :: "rpc_error \<Rightarrow> str option \<Rightarrow> agent_thread \<Rightarrow> agent_thread \<Rightarrow> bool" where
  "left_refused err hint t t' \<longleftrightarrow>
     at_session t' = at_session t \<and>
     (if er_code err = auth_required \<and> at_queued t \<noteq> []
      then at_queued t' = tl (at_queued t) \<and> at_status t' = NeedsSignIn [] hint
      else at_queued t' = [] \<and> at_status t' = ThreadIdle)"

lemma left_refused_next:
  assumes "at_status (turn_settled hint (Inl err) (take_prompt t)) = ThreadIdle" "at_queued t \<noteq> []"
    and "left_refused err hint (turn_settled hint (Inl err) (take_prompt t)) t'"
  shows "left_refused err hint t t'"
  using assms
  by (auto simp: left_refused_def take_prompt_def turn_settled_def Let_def split: if_splits)

text \<open>C33: Refused prompts end.  When the connection of an idle thread refuses its prompts, sending the queue
  ends: each refusal ends a turn, and the thread is idle with an empty queue, or, when the agent asks for a
  sign-in, waits for it with the prompts after the refused one still queued.\<close>

theorem refused_prompts_end:
  "case thread_by_id i s of
     None \<Rightarrow> next_prompt now en (Some err) i s = s
   | Some t \<Rightarrow>
       (if at_status t = ThreadIdle \<and> at_session t \<noteq> None \<and> agent_connection_of (at_agent t) s \<noteq> None
        then (case thread_by_id i (next_prompt now en (Some err) i s) of
                Some t' \<Rightarrow> left_refused err (Option.bind (agent_by_id (at_agent t) s) ai_sign_in) t t'
              | None \<Rightarrow> False)
        else if at_status t \<noteq> ThreadIdle then next_prompt now en (Some err) i s = s else True)"
proof -
  have "(case thread_by_id i (next_prompt now en refused i s) of
           Some t' \<Rightarrow> left_refused err (Option.bind (agent_by_id (at_agent t) s) ai_sign_in) t t' | None \<Rightarrow> False)"
    if "refused = Some err" "thread_by_id i s = Some t" "at_status t = ThreadIdle" "at_session t \<noteq> None"
       "agent_connection_of (at_agent t) s \<noteq> None" for t refused
    using that
  proof (induction now en refused i s arbitrary: t rule: next_prompt.induct)
    case (1 now en refused i s)
    show ?case
    proof (cases "at_queued t = []")
      case True
      with "1.prems" show ?thesis by (simp add: next_prompt.simps [of now en "Some err" i s] left_refused_def)
    next
      case False
      obtain session c where sc: "at_session t = Some session" "agent_connection_of (at_agent t) s = Some c"
        using "1.prems"(4,5) by auto
      let ?hint = "Option.bind (agent_by_id (at_agent t) s) ai_sign_in"
      let ?s = "turn_over now en i (Inl err) (on_id i take_prompt s)"
      let ?t = "turn_settled ?hint (Inl err) (take_prompt t)"
      have t': "thread_by_id i ?s = Some ?t"
        using "1.prems"(2) by (subst turn_over_at) (auto simp: thread_by_id_on take_prompt_def)
      have step: "next_prompt now en refused i s = next_prompt now en refused i ?s"
        using "1.prems"(1-3) False sc by (simp add: next_prompt.simps [of now en "Some err" i s] Let_def)
      show ?thesis
      proof (cases "er_code err = auth_required")
        case True
        then have "next_prompt now en refused i ?s = ?s"
          using t' "1.prems"(1) by (simp add: next_prompt.simps [of now en "Some err" i ?s] turn_settled_def Let_def)
        then show ?thesis
          using t' step True False by (simp add: left_refused_def turn_settled_def take_prompt_def Let_def)
      next
        case other: False
        then have idle: "at_status ?t = ThreadIdle" by (simp add: turn_settled_def Let_def)
        have "\<not> (at_status t \<noteq> ThreadIdle \<or> at_queued t = [])" using "1.prems"(3) False by simp
        from "1.IH" [OF "1.prems"(2) this sc(1) refl sc(2) "1.prems"(1) "1.prems"(1) t' idle]
        obtain t'' where "thread_by_id i (next_prompt now en refused i ?s) = Some t''" "left_refused err ?hint ?t t''"
          using sc by (auto split: option.splits)
        with step left_refused_next [OF idle False] show ?thesis by simp
      qed
    qed
  qed
  then show ?thesis
    by (auto simp: next_prompt.simps [of now en "Some err" i s] split: option.split)
qed

section \<open>Lost conversations\<close>

definition quiet_env :: agent_env where
  "quiet_env = \<lparr>ae_warnings = (\<lambda>_. []), ae_scrub = (\<lambda>x. x), ae_is_dir = (\<lambda>_. False), ae_home = None, ae_data_dir = ''d''\<rparr>"

definition one_agent :: agent_settings where
  "one_agent =
     \<lparr>st_allow_writes = False, st_cwd = None,
      st_agents = [\<lparr>ai_id = ''a'', ai_name = ''A'', ai_install = None, ai_sign_in = Some ''a login'', ai_program = None,
                    ai_checked = False, ai_running = False\<rparr>], st_others = 0\<rparr>"

definition asked_thread :: "str \<Rightarrow> agent_op" where
  "asked_thread p =
     StartThread ''1'' \<lparr>nt_agent = ''a'', nt_cluster = ''c'', nt_cluster_name = ''c'', nt_kubeconfig = None,
                        nt_prompt = Some (p, []), nt_resume = None\<rparr>"

definition session_came :: "nat \<Rightarrow> nat \<Rightarrow> str \<Rightarrow> agent_op" where
  "session_came i n session =
     SessionOpened 0 None i n (Inr (n, Inr \<lparr>sa_session = session, sa_mode = None, sa_config = None\<rparr>, None))"

definition agent_came :: "nat \<Rightarrow> agent_op" where
  "agent_came n = AgentStarted n ''a'' (Inr \<lparr>nx_load_session = False, nx_auth_methods = []\<rparr>)"

definition threads_read :: "agent_core \<Rightarrow> (nat \<times> str option \<times> thread_status \<times> str list) list" where
  "threads_read s = map (\<lambda>t. (at_id t, at_session t, at_status t, map fst (at_queued t))) (ac_threads s)"

definition prompts_read :: "agent_core \<Rightarrow> (str \<times> bool \<times> str) list" where
  "prompts_read s = List.map_filter (\<lambda>e. case e of PromptSent _ session first p \<Rightarrow> Some (session, first, fst p) | _ \<Rightarrow> None) (ac_out s)"

definition sessions_read :: "agent_core \<Rightarrow> (nat \<times> nat) list" where
  "sessions_read s = List.map_filter (\<lambda>e. case e of SessionOpen i n _ \<Rightarrow> Some (i, n) | _ \<Rightarrow> None) (ac_out s)"

text \<open>The first look-up is task 0, the agent's start task 1, and the session of the first thread task 2.\<close>

definition first_steps :: "agent_op list" where
  "first_steps = [asked_thread ''p'', LookedUp 0 None [Some ''bin''], agent_came 1]"

text \<open>A second thread of the agent opens the session of the first one again, which still waits for its
  answer.  The second answer replaces the session in which the prompt runs: the thread looks idle, and the
  end of the turn finds no thread.\<close>

definition opened_twice :: "agent_op list" where
  "opened_twice = first_steps @ [asked_thread ''q'', session_came 1 2 ''s'', session_came 1 3 ''s2'']"

lemma session_opened_twice:
  "let s = agent_run quiet_env one_agent opened_twice;
       s' = agent_do quiet_env (AgentCall 0 0 None ''a'' (TurnEndedCall ''s'' (Inr EndTurn))) s
   in sessions_read s = [(1, 2), (1, 3), (2, 4)] \<and> prompts_read s = [(''s'', True, ''p'')] \<and>
      threads_read s = [(1, Some ''s2'', ThreadIdle, []), (2, None, ThreadStarting, [''q''])] \<and>
      threads_read s' = threads_read s"
  by code_simp

text \<open>An agent that asks for a sign-in when a prompt is sent: the thread keeps its session, so the retry the panel
  offers does nothing, and further prompts stay in the queue.\<close>

definition asked_sign_in :: "agent_op list" where
  "asked_sign_in = first_steps @
     [session_came 1 2 ''s'',
      AgentCall 0 0 None ''a'' (TurnEndedCall ''s'' (Inl \<lparr>er_code = auth_required, er_message = ''login''\<rparr>)),
      RetryThread 1, SendPrompt 0 None 1 ''q'' [], RetryThread 1]"

lemma retry_after_sign_in:
  "let s = agent_run quiet_env one_agent asked_sign_in
   in sessions_read s = [(1, 2)] \<and> prompts_read s = [(''s'', True, ''p'')] \<and>
      threads_read s = [(1, Some ''s'', NeedsSignIn [] (Some ''a login''), [''q''])]"
  by code_simp

text \<open>What the user can do in a conversation, but for closing it and for signing in with one of the methods the
  agent names.\<close>

fun said_in :: "nat \<Rightarrow> agent_op \<Rightarrow> bool" where
  "said_in i (RetryThread j) = (j = i)"
| "said_in i (SendPrompt _ _ j _ _) = (j = i)"
| "said_in i (CancelThread j) = (j = i)"
| "said_in i (SetMode j _) = (j = i)"
| "said_in i (SetConfig j _ _) = (j = i)"
| "said_in i (SetWrites j _) = (j = i)"
| "said_in i (AnswerCard _ j _ _) = (j = i)"
| "said_in i _ = False"

definition talk_of :: "nat \<Rightarrow> agent_core \<Rightarrow> (str option \<times> thread_status) option \<times> (str \<times> bool \<times> str) list \<times> (nat \<times> nat) list" where
  "talk_of i s = (map_option (\<lambda>t. (at_session t, at_status t)) (thread_by_id i s), prompts_read s, sessions_read s)"

lemma talk_on_id:
  assumes "\<And>t. at_id (f t) = at_id t \<and> at_session (f t) = at_session t \<and> at_status (f t) = at_status t"
  shows "talk_of i (on_id i f s) = talk_of i s"
proof -
  have "thread_by_id i (on_id i f s) = map_option f (thread_by_id i s)" using assms by (intro thread_by_id_on) simp
  moreover have "ac_out (on_id i f s) = ac_out s" by (simp add: on_thread_def)
  ultimately show ?thesis
    using assms by (simp add: talk_of_def prompts_read_def sessions_read_def option.map_comp o_def)
qed

fun talks :: "agent_out \<Rightarrow> bool" where
  "talks (PromptSent _ _ _ _) = True"
| "talks (SessionOpen _ _ _) = True"
| "talks _ = False"

lemma talk_tell:
  assumes "list_all (\<lambda>e. \<not> talks e) xs"
  shows "talk_of i (tell xs s) = talk_of i s"
proof -
  have "List.map_filter (\<lambda>e. case e of PromptSent _ session first p \<Rightarrow> Some (session, first, fst p) | _ \<Rightarrow> None) xs = []"
    "List.map_filter (\<lambda>e. case e of SessionOpen i n _ \<Rightarrow> Some (i, n) | _ \<Rightarrow> None) xs = []"
    using assms by (induction xs) (auto simp: map_filter_simps split: agent_out.split)
  then show ?thesis by (simp add: talk_of_def prompts_read_def sessions_read_def tell_def thread_by_id_def map_filter_append)
qed

lemma dropped_silent [simp]: "list_all (\<lambda>e. \<not> talks e) (dropped_change p)"
  by (simp add: dropped_change_def split: option.split)

lemma drop_silent [simp]: "list_all (\<lambda>e. \<not> talks e) (drop_pending p)"
  by (simp add: drop_pending_def split: option.split)

lemma cancelled_silent [simp]: "list_all (\<lambda>e. \<not> talks e) (cancelled_of t)"
  by (auto simp: cancelled_of_def answer_cancelled_def list_all_iff dropped_change_def split: option.splits)

lemma removed_silent [simp]: "list_all (\<lambda>e. \<not> talks e) (removed_of keep t)"
  using drop_silent by (auto simp: removed_of_def list_all_iff)

lemma answer_card_talk: "talk_of i (answer_card now i a item r ans s) = talk_of i s"
  by (simp add: answer_card_def run_command_def talk_tell talk_on_id split: pending_kind.split option.split user_answer.split)

lemma answer_talk: "talk_of i (answer_pending now i n ans s) = talk_of i s"
  by (simp add: answer_pending_def Let_def talk_tell talk_on_id answer_card_talk split: option.split)

lemma said_talk:
  assumes "thread_by_id i s = Some t" "at_session t = Some session" "at_status t = NeedsSignIn ms hint" "said_in i x"
  shows "talk_of i (agent_do en x s) = talk_of i s"
  using assms
  by (cases x) (auto simp: agent_do_def retry_thread_def send_prompt_def cancel_thread_def set_mode_def change_config_def
      set_writes_def answer_talk talk_tell talk_on_id thread_running_def Let_def without_changes_def retain_def
      split: option.split)

text \<open>C38: A sign-in that an agent asks for in the middle of a conversation can't be given.  The thread keeps its
  session and offers no method (\<open>retry_after_sign_in\<close> is such a run), and then nothing the user does in it
  short of closing it (retries included) sends a prompt, opens a session or changes its status.\<close>

theorem sign_in_sticks:
  "case thread_by_id i s of
     Some t \<Rightarrow>
       (case (at_session t, at_status t) of
          (Some session, NeedsSignIn [] hint) \<Rightarrow> talk_of i (fold (agent_do en) (filter (said_in i) ops) s) = talk_of i s
        | _ \<Rightarrow> True)
   | None \<Rightarrow> True"
proof -
  have "talk_of i (fold (agent_do en) (filter (said_in i) ops) s) = talk_of i s"
    if "thread_by_id i s = Some t" "at_session t = Some session" "at_status t = NeedsSignIn [] hint" for t session hint
    using that
  proof (induction ops arbitrary: s t)
    case (Cons x ops)
    show ?case
    proof (cases "said_in i x")
      case True
      note step = said_talk [OF Cons.prems True, of en]
      then obtain u where "thread_by_id i (agent_do en x s) = Some u" "at_session u = Some session"
          "at_status u = NeedsSignIn [] hint"
        using Cons.prems by (auto simp: talk_of_def)
      from Cons.IH [OF this] step True show ?thesis by simp
    qed (use Cons in simp)
  qed simp
  then show ?thesis by (auto split: option.split thread_status.split list.split)
qed

text \<open>A refresh of the agents replaces the look-up that would start the agent of a thread: both come back, and the
  thread waits for an agent nobody starts.\<close>

lemma lookup_replaced:
  "let s = agent_run quiet_env one_agent
             [asked_thread ''p'', RefreshAgents, LookedUp 0 None [Some ''bin''], LookedUp 1 None [Some ''bin'']]
   in threads_read s = [(1, None, ThreadStarting, [''p''])] \<and> Option.is_none (ac_slots s ''a'') \<and>
      Option.is_none (Option.bind (ac_lookup s) snd)"
  by code_simp

text \<open>An agent that stopped and is started again gets a new session whose first prompt counts as a later one, so it
  is sent without the note about the cluster.\<close>

definition stopped_agent :: "agent_op list" where
  "stopped_agent = first_steps @
     [session_came 1 2 ''s'', AgentCall 0 0 None ''a'' (ClosedCall []), SendPrompt 0 None 1 ''q'' [], agent_came 3,
      session_came 1 4 ''s2'']"

lemma new_session_without_note:
  "prompts_read (agent_run quiet_env one_agent stopped_agent) = [(''s'', True, ''p''), (''s2'', False, ''q'')]"
  by code_simp

end
