(* ===== verification/Spec2Isabelle.thy ===== *)
theory Spec2Isabelle
  imports LogView LogDelivery FlowFilterText FlowBuffer Store Forwards Panes McpHub McpHandler ConnGaps AgentLive AgentGaps
begin

text \<open>
  A verification development for Kubyl, a Kubernetes desktop client in Rust.

  The program.  Kubyl is a workspace of crates in pairs: a \<open>*_core\<close> crate with the logic of a feature
  and a crate of the same name with its views.  The core crates keep state that background tasks
  (watches, log streams, port-forward listeners, flow streams) feed and that views read each frame.
  What makes them correct is the same everywhere: derived state that is kept up incrementally must
  equal the state recomputed from scratch, numbers handed out must keep naming the same item while
  buffers wrap, requests must be answered once, and what is written as text must read back.

  The theories, in the order of their imports (paths under src/crates/):
  \<^item> Prelude: Rust text (\<open>char\<close> up to U+00FF, one Isabelle \<open>char\<close> per scalar value; the stand-ins of the
    em dash and the ellipsis are named there), decimal numbers, JSON values, results as sums.
    TextLaws: how searching, splitting, trimming and joining texts interact.
  \<^item> Globs: \<open>wild\<close>, the meaning of a star pattern, against which the program's matchers are measured.
  \<^item> SeqWindow: the locale \<open>seq_window\<close>, a window of items with consecutive numbers.  LogRing and
    FlowBuffer interpret it (\<open>ring_win\<close>, \<open>flow_win\<close>) on their operations.
  \<^item> LogLines (kubyl_logs_core level.rs, line.rs): the level of a line, its parts, the pod colours.
    LogRing (ring.rs): the ring buffer, with its exact eviction counter.
    LogSearch (search.rs): the compiled query and the cursor over the matches.
    LogView (kubyl_logs view.rs): the rows, matches and counters of the log view.  Its record
    \<open>log_view\<close> has the fields of \<open>LogView\<close> the algorithms read; one definition per method
    (\<open>push_raw\<close>, \<open>after_push\<close>, \<open>rebuild_visible\<close>, ...).  \<open>view_inv\<close> says that each derived field is
    the one recomputed from the ring, and every event keeps it.
    LogMerge (stream.rs): reading, stamping, merging and resuming lines.  LogStream (stream.rs): pods and
    their containers, the task of one container as rounds over what the cluster answers
    (\<open>container_round\<close>), and the loop over a selector (\<open>selector_step\<close>, interpreted as \<open>selecting\<close>).
    LogTasks: what the tasks announce (\<open>tasking\<close>), and each of their waits against \<open>task_waits\<close>, which counts
    the connections that failed in a row.  LogDelivery: what they deliver while lookups and connections fail.
  \<^item> FlowModel (kubyl_netflow_core model.rs, sanitize.rs): flows, their labels and parsers, and the
    removal of secrets from URLs and headers.  FlowFilter (filter.rs): the filter language.
    FlowFilterLaws: its matchers against their mathematical meaning.  FlowFilterText: what parsing
    guarantees, printing and parsing as inverses.  FlowBuffer (buffer.rs): the flow ring with its
    completion counters.
  \<^item> BaseTypes (kubyl_base types.rs): references to resources, and the locale \<open>machine\<close> of a state
    machine with an invariant, interpreted by Store (\<open>storing\<close>), Forwards (\<open>forwarding\<close>), the log
    streams and the panes; a \<open>guarded_machine\<close> keeps its invariant under some operations only.
  \<^item> Store (kubyl_resources_core store.rs): the cache of one watched resource, its change history
    (\<open>bump\<close>, \<open>changes_since\<close>) and the pump that batches watch events.  The locale \<open>change_feed\<close> states
    what a derived table relies on; \<open>store_feed\<close> interprets it on the store.
  \<^item> Forwards (kubyl_portforward_core manager.rs, with the types of listener.rs, resolve.rs and
    reach.rs): the state machine of the running port-forwards and of the requests waiting for them.
  \<^item> PaneGroup (kubyl workspace/pane_group.rs, layout.rs): the tree of split panes.  Panes (pane.rs,
    mod.rs): the tabs of a pane with their history, and the workspace that holds the panes, saves the
    layout and restores it (\<open>history\<close>, \<open>working\<close>).
  \<^item> Discovery (kubyl_kube_core discovery.rs): the resource types of a cluster, aggregated or legacy, and
    what a typed name resolves to.  Redact (kubyl_resources_core redact.rs and the key parts of route.rs):
    the masking of objects before anything outside sees them.  SecretRender (kubyl_yaml_core render.rs):
    what the editor shows of an object, and how it restores the masked values.
  \<^item> Effects: code that talks to the outside, as a function of the events so far, with the rules
    (\<open>runs\<close>, \<open>does\<close>, \<open>honest\<close>) that take it apart along the code.  YamlApply (kubyl_yaml_core apply.rs):
    preparing documents and applying them.  ChangeTools (kubyl_mcp_core changes.rs, the helpers of tools.rs,
    the types of approval.rs): the tools by which an agent changes a cluster, one definition per check and
    action.  ChangeSafety: what they keep to, whatever the cluster and the user answer: \<open>looks\<close> before the
    question, \<open>carried_out\<close> after the approval.  McpHub (hub.rs, settings.rs): the hub of outside clients as
    runs over its operations (\<open>hub_runs\<close>, \<open>hubbing\<close>).  McpHandler (handler.rs): which cluster a call
    reaches, and when it may write.
  \<^item> KubeSettings (kubyl_kube_core settings.rs): the overrides of contexts, merged for an entry.
    ContextGroups (groups.rs): contexts that differ only in their namespace as one entry, the ids of groups,
    labels.  ClusterInfo (cluster_info.rs): distribution and capabilities.  ConnState (manager.rs, with the
    types of client.rs, access.rs, kubeconfig.rs): the record \<open>manager\<close> of the connection manager and what
    reads it.  ConnSettings: changing the settings of an entry.  Connections: its handlers, with what a task
    reports as an argument.  ConnSafety: the manager as a state machine (\<open>kube_do\<close>, interpreted as
    \<open>managing\<close>).  ConnLive: what each connection waits for while the entries stay the same (\<open>living\<close>).
    ConnGaps: three cases in which the code loses track.
  \<^item> AgentTranscript (kubyl_agent_core thread.rs): the transcript of an agent's conversation
    (\<open>transcribing\<close>), its tool calls against \<open>call_after\<close> and its words.  AgentPolicy (policy.rs, the read handler of acp.rs): the quoting of command lines
    against the words a shell reads, grants, and reads in the folder of a session against a file system with
    links (\<open>walk\<close>; the system's limit of 40 links bounds it).  AgentThreads (service.rs): the record
    \<open>agent_core\<close> of agents, threads, sessions and cards, one definition per handler.  AgentSafety: the core
    as a state machine (\<open>agent_do\<close>), what is done for an agent and what it was allowed by, and the account of
    everything agents ask (\<open>tickets\<close>).  AgentLive: what holds of the threads and their cards in every state
    (\<open>agent_inv\<close>, interpreted as \<open>conversing\<close>).  AgentGaps: prompts that are refused, and four runs in which
    the core loses a conversation.

  What is a parameter.  The regex crate (LogSearch, LogView), serde and serde_json (LogLines, Store),
  jiff's time arithmetic (FlowBuffer), the watcher of kube-runtime (Store: its events and errors are
  the input of \<open>pump\<close>), the Kubernetes client (\<open>'c\<close> in Forwards and ConnState), what a load of kubeconfigs read, the URL parser, the JSON
  printer and the hash of the connection manager (\<open>conn_env\<close>), the order of its hash map,
  parsing timestamps and decoding UTF-8 (LogMerge), what a view factory builds and what a view says of
  itself (\<open>build\<close>, \<open>current\<close> in Panes), the coding of base64 and the parsers and printers of JSON and YAML
  (Redact, SecretRender, \<open>env\<close> in YamlApply), the answers of cluster and user and the rules that scrub
  output (\<open>world\<close> in ChangeTools), how far a step gets before its timeout (\<open>limits\<close>), the credential store
  and its errors (McpHub), the read tools (McpHandler), the patterns that warn
  of commands and scrub texts (\<open>agent_env\<close>), and whether the receiver of a
  one-shot reply is still there (\<open>alive\<close> in Forwards).  Spawned tasks, timers, effects and replies are
  recorded in the order the code asks for them (\<open>fw_out\<close>); a task's result is an operation of the run.

  Bounds.  The change history holds 256 batches and 20000 keys (\<open>trim_history\<close>), the ring its
  configured capacity (at least one line), the completion list 2000 values (\<open>max_values\<close>).  Counters
  that the code keeps as \<open>u64\<close> and only ever raises by one or by a transferred size are naturals;
  numbers parsed from text saturate or fail where the code does (\<open>u64_max\<close>).  Pod colours and
  addresses are machine words.  No definition uses fuel: every loop has a measure.

  What is not modelled: rendering (GPUI), sockets, HTTP and the cluster API, file and process I/O,
  and the features listed as such among the components.  What the theorems leave out is said at
  their definitions.
\<close>

end
